(* ===== verification/Prelude.thy ===== *)
theory Prelude
  imports "HOL-Library.Word" "HOL-Library.Sublist"
begin

text \<open>
  Shared vocabulary of the development: the result of a synthesis step, the sequencing of
  steps that thread a state, and the generic facts on bit lists the component theories share.

  A Rust function \<^verbatim>\<open>fn f(..., cs) -> Result<T, SynthesisError>\<close> that works on a shared
  constraint system is a function from the state to \<open>Inl fault\<close> or to \<open>Inr (result, state)\<close>.
  The fault keeps an error that is returned (\<open>Err e\<close>) apart from a panic (\<open>Panic\<close>, from an
  \<^verbatim>\<open>unwrap\<close>, an \<^verbatim>\<open>assert!\<close> or an index out of bounds) and from a loop that never returns
  (\<open>Diverge\<close>).
\<close>

unbundle bit_operations_syntax

named_theorems gadget_simps \<open>unfolding rules of the gadgets\<close>
named_theorems sound_intros \<open>soundness rules of the gadgets\<close>
named_theorems complete_intros \<open>completeness rules of the gadgets\<close>

section \<open>Errors and sequencing\<close>

text \<open>\<^verbatim>\<open>SynthesisError\<close> of vendor/snark/relations/src/utils/error.rs.\<close>

datatype synthesis_error =
    MissingCS
  | AssignmentMissing
  | DivisionByZero
  | Unsatisfiable
  | PolynomialDegreeTooLarge
  | PredicateNotFound
  | ArityMismatch

datatype fault = Err synthesis_error | Panic | Diverge

type_synonym ('s, 'a) comp = "'s \<Rightarrow> fault + 'a \<times> 's"

definition ret :: "'a \<Rightarrow> ('s, 'a) comp" where
  "ret x s = Inr (x, s)"

definition bind :: "('s, 'a) comp \<Rightarrow> ('a \<Rightarrow> ('s, 'b) comp) \<Rightarrow> ('s, 'b) comp" where
  "bind m f s = (case m s of Inl e \<Rightarrow> Inl e | Inr (x, s') \<Rightarrow> f x s')"

definition raise :: "fault \<Rightarrow> ('s, 'a) comp" where
  "raise e s = Inl e"

text \<open>\<open>unwrap m\<close> is \<^verbatim>\<open>m.unwrap()\<close>: a returned error becomes a panic.\<close>

definition unwrap :: "('s, 'a) comp \<Rightarrow> ('s, 'a) comp" where
  "unwrap m s = (case m s of Inl (Err e) \<Rightarrow> Inl Panic | Inl e \<Rightarrow> Inl e | Inr r \<Rightarrow> Inr r)"

definition from_result :: "synthesis_error + 'a \<Rightarrow> ('s, 'a) comp" where
  "from_result r s = (case r of Inl e \<Rightarrow> Inl (Err e) | Inr x \<Rightarrow> Inr (x, s))"

text \<open>\<^verbatim>\<open>iter.map(f).collect::<Result<Vec<_>, _>>()?\<close> and a \<^verbatim>\<open>for\<close> loop over a slice.\<close>

primrec map_m :: "('a \<Rightarrow> ('s, 'b) comp) \<Rightarrow> 'a list \<Rightarrow> ('s, 'b list) comp" where
  "map_m f [] = ret []"
| "map_m f (x # xs) = bind (f x) (\<lambda>y. bind (map_m f xs) (\<lambda>ys. ret (y # ys)))"

primrec fold_m :: "('a \<Rightarrow> 'b \<Rightarrow> ('s, 'b) comp) \<Rightarrow> 'a list \<Rightarrow> 'b \<Rightarrow> ('s, 'b) comp" where
  "fold_m f [] acc = ret acc"
| "fold_m f (x # xs) acc = bind (f x acc) (fold_m f xs)"

lemma bind_Inr_iff:
  "bind m f s = Inr r \<longleftrightarrow> (\<exists>x s'. m s = Inr (x, s') \<and> f x s' = Inr r)"
  by (auto simp: bind_def split: sum.splits prod.splits)

lemma ret_Inr_iff [simp]: "ret x s = Inr r \<longleftrightarrow> r = (x, s)"
  by (auto simp: ret_def)

lemma raise_not_Inr [simp]: "raise e s \<noteq> Inr r"
  by (simp add: raise_def)

lemma unwrap_Inr_iff [simp]: "unwrap m s = Inr r \<longleftrightarrow> m s = Inr r"
  by (auto simp: unwrap_def split: sum.splits fault.splits)

lemma from_result_Inr_iff:
  "from_result r s = Inr (x, s') \<longleftrightarrow> r = Inr x \<and> s' = s"
  by (auto simp: from_result_def split: sum.splits)

lemma bind_Inr [simp]: "m s = Inr (x, s') \<Longrightarrow> bind m f s = f x s'"
  by (simp add: bind_def)

lemma bind_ret [simp]: "bind (ret x) f = f x"
  by (rule ext) (simp add: bind_def ret_def)

lemma bind_assoc: "bind (bind m f) g = bind m (\<lambda>x. bind (f x) g)"
  by (rule ext) (simp add: bind_def split: sum.splits)

lemma from_result_Inr [simp]: "from_result (Inr x) = ret x"
  by (rule ext) (simp add: from_result_def ret_def)

section \<open>Results without a state\<close>

text \<open>\<^verbatim>\<open>Result<T, SynthesisError>\<close> of a closure: \<^verbatim>\<open>?\<close> is \<open>result_bind\<close>.\<close>

definition result_bind :: "'e + 'a \<Rightarrow> ('a \<Rightarrow> 'e + 'b) \<Rightarrow> 'e + 'b" where
  "result_bind r f = (case r of Inl e \<Rightarrow> Inl e | Inr x \<Rightarrow> f x)"

lemma result_bind_simps [simp]:
  "result_bind (Inl e) f = Inl e"
  "result_bind (Inr x) f = f x"
  by (simp_all add: result_bind_def)

text \<open>\<^verbatim>\<open>Assignment::get\<close>: an absent value is \<^verbatim>\<open>AssignmentMissing\<close>.\<close>

definition get_value :: "'a option \<Rightarrow> synthesis_error + 'a" where
  "get_value v = (case v of None \<Rightarrow> Inl AssignmentMissing | Some x \<Rightarrow> Inr x)"

lemma get_value_simps [simp]:
  "get_value None = Inl AssignmentMissing"
  "get_value (Some x) = Inr x"
  by (simp_all add: get_value_def)

text \<open>Loops and maps that may fault, and an index that panics when it is out of bounds.\<close>

primrec result_map :: "('a \<Rightarrow> 'e + 'b) \<Rightarrow> 'a list \<Rightarrow> 'e + 'b list" where
  "result_map f [] = Inr []"
| "result_map f (x # xs) = result_bind (f x) (\<lambda>y. result_bind (result_map f xs) (\<lambda>ys. Inr (y # ys)))"

primrec result_fold :: "('a \<Rightarrow> 'b \<Rightarrow> 'e + 'b) \<Rightarrow> 'a list \<Rightarrow> 'b \<Rightarrow> 'e + 'b" where
  "result_fold f [] acc = Inr acc"
| "result_fold f (x # xs) acc = result_bind (f x acc) (result_fold f xs)"

definition index :: "'a list \<Rightarrow> nat \<Rightarrow> fault + 'a" where
  "index xs i = (if i < length xs then Inr (xs ! i) else Inl Panic)"

definition index2 :: "'a list list \<Rightarrow> nat \<Rightarrow> nat \<Rightarrow> fault + 'a" where
  "index2 xss i j = result_bind (index xss i) (\<lambda>xs. index xs j)"

text \<open>The slice \<^verbatim>\<open>xs[i..i + n]\<close>.\<close>

definition slice :: "'a list \<Rightarrow> nat \<Rightarrow> nat \<Rightarrow> fault + 'a list" where
  "slice xs i n = (if i + n \<le> length xs then Inr (take n (drop i xs)) else Inl Panic)"

text \<open>An outcome that uses no state, inside a step that has one.\<close>

definition lift :: "fault + 'a \<Rightarrow> ('s, 'a) comp" where
  "lift r s = (case r of Inl e \<Rightarrow> Inl e | Inr x \<Rightarrow> Inr (x, s))"

lemma result_bind_Inr_iff:
  "result_bind r f = Inr y \<longleftrightarrow> (\<exists>x. r = Inr x \<and> f x = Inr y)"
  by (auto simp: result_bind_def split: sum.splits)

lemma result_bind_return [simp]: "result_bind r Inr = r"
  by (simp add: result_bind_def split: sum.split)

lemma lift_simps [simp]: "lift (Inr x) = ret x" "lift (Inl e) = raise e"
  by (auto simp: lift_def ret_def raise_def fun_eq_iff)

lemma lift_Inr_iff: "lift r s = Inr (x, s') \<longleftrightarrow> r = Inr x \<and> s' = s"
  by (auto simp: lift_def split: sum.splits)

lemma raise_bind [simp]: "bind (raise e) f = raise e"
  by (rule ext) (simp add: bind_def raise_def)

lemma index_nth [simp]: "i < length xs \<Longrightarrow> index xs i = Inr (xs ! i)"
  by (simp add: index_def)

lemma result_map_Inr: "(\<And>x. x \<in> set xs \<Longrightarrow> f x = Inr (g x)) \<Longrightarrow> result_map f xs = Inr (map g xs)"
  by (induction xs) simp_all

lemma result_map_length: "result_map f xs = Inr ys \<Longrightarrow> length ys = length xs"
  by (induction xs arbitrary: ys) (auto simp: result_bind_Inr_iff)

lemma result_fold_Inr:
  "(\<And>x acc. x \<in> set xs \<Longrightarrow> f x acc = Inr (g x acc)) \<Longrightarrow> result_fold f xs acc = Inr (fold g xs acc)"
  by (induction xs arbitrary: acc) simp_all

lemma result_fold_append:
  "result_fold f (xs @ ys) acc = result_bind (result_fold f xs acc) (result_fold f ys)"
  by (induction xs arbitrary: acc) (auto simp: result_bind_def split: sum.splits)

text \<open>A loop over a range that keeps an invariant returns, and the invariant holds at its end.\<close>

lemma result_fold_upt:
  assumes "a \<le> b" "I a acc"
    and "\<And>k x. a \<le> k \<Longrightarrow> k < b \<Longrightarrow> I k x \<Longrightarrow> \<exists>y. f k x = Inr y \<and> I (Suc k) y"
  shows "\<exists>r. result_fold f [a..<b] acc = Inr r \<and> I b r"
  using assms
proof (induction b)
  case (Suc b)
  show ?case
  proof (cases "a \<le> b")
    case True
    then obtain x where x: "result_fold f [a..<b] acc = Inr x" "I b x"
      using Suc.IH Suc.prems by (metis less_SucI)
    then obtain y where "f b x = Inr y" "I (Suc b) y" using Suc.prems(3) True by blast
    with x True show ?thesis by (simp add: result_fold_append)
  qed (use Suc.prems in \<open>auto simp: le_Suc_eq\<close>)
qed simp

text \<open>The same when an iteration may fault: the invariant holds whenever the loop returns.\<close>

lemma result_fold_upt_partial:
  assumes "a \<le> b" "I a acc" "result_fold f [a..<b] acc = Inr r"
    and "\<And>k x y. a \<le> k \<Longrightarrow> k < b \<Longrightarrow> I k x \<Longrightarrow> f k x = Inr y \<Longrightarrow> I (Suc k) y"
  shows "I b r"
  using assms
proof (induction b arbitrary: r)
  case (Suc b)
  show ?case
  proof (cases "a \<le> b")
    case True
    then obtain x where x: "result_fold f [a..<b] acc = Inr x" "f b x = Inr r"
      using Suc.prems(3) by (auto simp: result_fold_append result_bind_Inr_iff)
    with Suc True show ?thesis by (metis less_Suc_eq)
  qed (use Suc.prems in \<open>auto simp: le_Suc_eq\<close>)
qed simp

section \<open>Bit lists as numbers\<close>

text \<open>The number a little-endian list of bits stands for.\<close>

abbreviation bits_value :: "bool list \<Rightarrow> nat" where
  "bits_value bs \<equiv> horner_sum of_bool 2 bs"

lemma bits_value_bound: "bits_value bs < 2 ^ length bs"
  using horner_sum_of_bool_2_less[of bs] by simp

lemma bits_value_append:
  "bits_value (xs @ ys) = bits_value xs + 2 ^ length xs * bits_value ys"
  by (rule horner_sum_append)

lemma bits_value_replicate_False [simp]: "bits_value (replicate n False) = 0"
  by (induction n) simp_all

lemma bits_value_map_bit: "bits_value (map (bit m) [0..<n]) = take_bit n m"
  by (rule horner_sum_bit_eq_take_bit)

lemma bits_value_inj:
  "length xs = length ys \<Longrightarrow> bits_value xs = bits_value ys \<Longrightarrow> xs = ys"
proof (induction xs ys rule: list_induct2)
  case (Cons x xs y ys)
  have "even (bits_value (x # xs)) \<longleftrightarrow> \<not> x" "even (bits_value (y # ys)) \<longleftrightarrow> \<not> y" by simp_all
  then have "x = y" using Cons.prems by metis
  with Cons show ?case by simp
qed simp

lemma bits_value_less_iff_msb:
  assumes "length xs = length ys"
  shows "bits_value (xs @ [x]) < bits_value (ys @ [y])
     \<longleftrightarrow> (\<not> x \<and> y) \<or> (x = y \<and> bits_value xs < bits_value ys)"
  using bits_value_bound[of xs] bits_value_bound[of ys] assms
  by (cases x; cases y) (simp_all add: bits_value_append)

end
