(* ===== verification/Big_Integer.thy ===== *)
theory Big_Integer
  imports Prelude
begin

text \<open>
  Integers as little-endian lists of 64-bit limbs (\<^verbatim>\<open>BigInt<N>\<close> of
  vendor/algebra/ff/src/biginteger/mod.rs), the two bit iterators of vendor/algebra/ff/src/bits.rs
  and the square-and-multiply power of vendor/algebra/ff/src/fields/mod.rs.  The lemmas relate
  each of them to the number the limbs stand for (\<open>limbs_value\<close>).
\<close>

type_synonym limbs = "64 word list"

definition limbs_value :: "limbs \<Rightarrow> nat" where
  "limbs_value s = horner_sum unat (2 ^ 64) s"

lemma limbs_value_simps [simp]:
  "limbs_value [] = 0"
  "limbs_value (l # s) = unat l + 2 ^ 64 * limbs_value s"
  by (simp_all add: limbs_value_def)

lemma unat_64_bound: "unat (w :: 64 word) < 2 ^ 64"
  by (rule order_less_le_trans[OF unsigned_less]) simp

lemma limbs_value_bound: "limbs_value s < 2 ^ (64 * length s)"
proof (induction s)
  case (Cons l s)
  have "unat l + 2 ^ 64 * limbs_value s < 2 ^ 64 * (limbs_value s + 1)"
    using unat_64_bound[of l] by simp
  also have "\<dots> \<le> 2 ^ 64 * 2 ^ (64 * length s)"
    using Cons.IH by (intro mult_le_mono2) simp
  finally show ?case by (simp add: power_add)
qed simp

lemma limbs_value_append:
  "limbs_value (s @ t) = limbs_value s + 2 ^ (64 * length s) * limbs_value t"
  by (induction s) (simp_all add: power_add algebra_simps)

lemma bit_add_high:
  assumes "a < (2::nat) ^ k"
  shows "bit (a + 2 ^ k * b) i \<longleftrightarrow> (if i < k then bit a i else bit b (i - k))"
proof (cases "i < k")
  case True
  have "take_bit k (a + 2 ^ k * b) = a" using assms by (simp add: take_bit_eq_mod)
  with True show ?thesis by (metis bit_take_bit_iff)
next
  case False
  have "drop_bit k (a + 2 ^ k * b) = b" using assms by (simp add: drop_bit_eq_div)
  then have "bit b (i - k) \<longleftrightarrow> bit (a + 2 ^ k * b) (k + (i - k))"
    by (metis bit_drop_bit_eq comp_apply)
  with False show ?thesis by simp
qed

lemma bit_limbs_value:
  "bit (limbs_value s) i \<longleftrightarrow> i < 64 * length s \<and> bit (s ! (i div 64)) (i mod 64)"
proof (induction s arbitrary: i)
  case (Cons l s)
  show ?case
  proof (cases "i < 64")
    case True
    then show ?thesis
      using bit_add_high[OF unat_64_bound, of l "limbs_value s" i] by (simp add: bit_unsigned_iff)
  next
    case False
    then have "i div 64 = Suc ((i - 64) div 64)" "i mod 64 = (i - 64) mod 64"
      by (simp_all add: le_div_geq le_mod_geq)
    with False show ?thesis
      using bit_add_high[OF unat_64_bound, of l "limbs_value s" i] Cons.IH[of "i - 64"]
      by auto
  qed
qed simp

section \<open>Bits of a big integer\<close>

definition get_bit :: "limbs \<Rightarrow> nat \<Rightarrow> bool" where
  "get_bit s i =
    (if i \<ge> 64 * length s then False
     else let limb = i div 64; b = i - 64 * limb in (s ! limb) AND push_bit b 1 \<noteq> 0)"

definition is_odd :: "limbs \<Rightarrow> bool" where
  "is_odd s \<longleftrightarrow> hd s AND 1 = 1"

definition is_zero :: "limbs \<Rightarrow> bool" where
  "is_zero s \<longleftrightarrow> list_all (\<lambda>l. l = 0) s"

text \<open>\<^verbatim>\<open>u64::leading_zeros\<close> and the loop of \<^verbatim>\<open>num_bits\<close> over the limbs from the top.\<close>

definition leading_zeros :: "64 word \<Rightarrow> nat" where
  "leading_zeros w = length (takeWhile Not (rev (map (bit w) [0..<64])))"

fun num_bits_loop :: "nat \<Rightarrow> limbs \<Rightarrow> nat" where
  "num_bits_loop n [] = n"
| "num_bits_loop n (l # ls) =
    (let leading = leading_zeros l in
     if leading \<noteq> 64 then n - leading else num_bits_loop (n - leading) ls)"

definition num_bits :: "limbs \<Rightarrow> nat" where
  "num_bits s = num_bits_loop (length s * 64) (rev s)"

lemma word_and_bit_iff: "(w :: 64 word) AND push_bit b 1 \<noteq> 0 \<longleftrightarrow> bit w b"
  by (simp add: and_exp_eq_0_iff_not_bit push_bit_eq_mult)

lemma get_bit_eq: "get_bit s i = bit (limbs_value s) i"
  unfolding get_bit_def bit_limbs_value Let_def word_and_bit_iff
  by (simp add: minus_mult_div_eq_mod)

lemma is_odd_eq: "s \<noteq> [] \<Longrightarrow> is_odd s \<longleftrightarrow> odd (limbs_value s)"
  using word_and_bit_iff[of "hd s" 0] bit_limbs_value[of s 0]
  by (cases s) (auto simp: is_odd_def and_one_eq bit_0)

lemma is_zero_eq: "is_zero s \<longleftrightarrow> limbs_value s = 0"
  by (induction s) (auto simp: is_zero_def unat_eq_0)


lemma leading_zeros_bound: "leading_zeros w \<le> 64"
  unfolding leading_zeros_def using length_takeWhile_le[of Not "rev (map (bit w) [0..<64])"] by simp

lemma bit_ge_leading_zeros:
  assumes "64 - leading_zeros w \<le> i"
  shows "\<not> bit w i"
proof (cases "i < 64")
  case True
  define bs where "bs = rev (map (bit w) [0..<64])"
  have "63 - i < length (takeWhile Not bs)"
    using assms True unfolding leading_zeros_def bs_def[symmetric] by simp
  then have "Not ((takeWhile Not bs) ! (63 - i))" by (metis nth_mem set_takeWhileD)
  with \<open>63 - i < _\<close> have "\<not> bs ! (63 - i)" by (simp add: takeWhile_nth)
  with True show ?thesis unfolding bs_def by (simp add: rev_nth)
qed (simp add: bit_imp_le_length[of w i] impossible_bit)

lemma bit_leading_zeros:
  assumes "leading_zeros w < 64"
  shows "bit w (63 - leading_zeros w)"
proof -
  define bs where "bs = rev (map (bit w) [0..<64])"
  have "length (takeWhile Not bs) < length bs"
    using assms unfolding leading_zeros_def bs_def by simp
  then have "bs ! length (takeWhile Not bs)" using nth_length_takeWhile by fastforce
  with assms show ?thesis unfolding bs_def leading_zeros_def by (simp add: rev_nth)
qed

lemma unat_leading_zeros:
  "unat w < 2 ^ (64 - leading_zeros w)"
  "leading_zeros w < 64 \<Longrightarrow> 2 ^ (63 - leading_zeros w) \<le> unat w"
proof -
  have "take_bit (64 - leading_zeros w) (unat w) = unat w"
    using bit_ge_leading_zeros[of w]
    by (intro bit_eqI) (metis bit_take_bit_iff bit_unsigned_iff not_le)
  then show "unat w < 2 ^ (64 - leading_zeros w)" by (simp add: take_bit_nat_eq_self_iff)
next
  assume "leading_zeros w < 64"
  then have "bit (unat w) (63 - leading_zeros w)"
    by (simp add: bit_unsigned_iff bit_leading_zeros)
  then show "2 ^ (63 - leading_zeros w) \<le> unat w"
    by (metis bit_nat_def linorder_not_le div_less even_zero odd_iff_mod_2_eq_one bit_iff_odd)
qed

lemma num_bits_loop:
  "limbs_value (rev ls) < 2 ^ num_bits_loop (length ls * 64) ls \<and>
   (0 < num_bits_loop (length ls * 64) ls \<longrightarrow>
     2 ^ (num_bits_loop (length ls * 64) ls - 1) \<le> limbs_value (rev ls))"
proof (induction ls)
  case (Cons l ls)
  show ?case
  proof (cases "leading_zeros l = 64")
    case True
    then have "unat l = 0" using unat_leading_zeros(1)[of l] by simp
    with True Cons.IH show ?thesis by (simp add: limbs_value_append)
  next
    case False
    then have lz: "leading_zeros l < 64" using leading_zeros_bound[of l] by simp
    let ?n = "length ls * 64 + (64 - leading_zeros l)"
    have n: "num_bits_loop (length (l # ls) * 64) (l # ls) = ?n" using lz by simp
    have v: "limbs_value (rev (l # ls)) = limbs_value (rev ls) + 2 ^ (length ls * 64) * unat l"
      by (simp add: limbs_value_append mult.commute)
    have "limbs_value (rev ls) + 2 ^ (length ls * 64) * unat l < 2 ^ (length ls * 64) * (unat l + 1)"
      using limbs_value_bound[of "rev ls"] by (simp add: mult.commute)
    also have "\<dots> \<le> 2 ^ (length ls * 64) * 2 ^ (64 - leading_zeros l)"
      using unat_leading_zeros(1)[of l] by (intro mult_le_mono2) simp
    finally have up: "limbs_value (rev (l # ls)) < 2 ^ ?n" unfolding v by (simp add: power_add)
    have "2 ^ (length ls * 64) * 2 ^ (63 - leading_zeros l) \<le> 2 ^ (length ls * 64) * unat l"
      by (intro mult_le_mono2 unat_leading_zeros(2) lz)
    moreover have "?n - 1 = length ls * 64 + (63 - leading_zeros l)" using lz by simp
    ultimately have lo: "2 ^ (?n - 1) \<le> limbs_value (rev (l # ls))"
      unfolding v by (simp only: power_add trans_le_add2)
    show ?thesis unfolding n using up lo by blast
  qed
qed simp

lemma num_bits_upper: "limbs_value s < 2 ^ num_bits s"
  using num_bits_loop[of "rev s"] by (simp add: num_bits_def)

lemma num_bits_lower: "0 < num_bits s \<Longrightarrow> 2 ^ (num_bits s - 1) \<le> limbs_value s"
  using num_bits_loop[of "rev s"] by (simp add: num_bits_def)


section \<open>Bit iterators\<close>

text \<open>
  An iterator is its slice and its position; \<open>next\<close> returns the item, \<open>None\<close> at the end, and the
  advanced iterator.  \<open>collect\<close> runs \<open>next\<close> to the end.
\<close>

record bit_iterator_be =
  be_s :: limbs
  be_n :: nat

definition be_new :: "limbs \<Rightarrow> bit_iterator_be" where
  "be_new s = \<lparr>be_s = s, be_n = length s * 64\<rparr>"

definition be_next :: "bit_iterator_be \<Rightarrow> bool option \<times> bit_iterator_be" where
  "be_next it =
    (if be_n it = 0 then (None, it)
     else let n = be_n it - 1; part = n div 64; b = n - 64 * part in
       (Some ((be_s it ! part) AND push_bit b 1 > 0), it\<lparr>be_n := n\<rparr>))"

function be_collect :: "bit_iterator_be \<Rightarrow> bool list" where
  "be_collect it = (case be_next it of (None, _) \<Rightarrow> [] | (Some b, it') \<Rightarrow> b # be_collect it')"
  by pat_completeness auto
termination
  by (relation "measure be_n") (auto simp: be_next_def Let_def split: if_splits)

declare be_collect.simps [simp del]

definition be_without_leading_zeros :: "limbs \<Rightarrow> bool list" where
  "be_without_leading_zeros s = dropWhile Not (be_collect (be_new s))"

record bit_iterator_le =
  le_s :: limbs
  le_n :: nat
  le_max :: nat

definition le_new :: "limbs \<Rightarrow> bit_iterator_le" where
  "le_new s = \<lparr>le_s = s, le_n = 0, le_max = length s * 64\<rparr>"

definition le_next :: "bit_iterator_le \<Rightarrow> bool option \<times> bit_iterator_le" where
  "le_next it =
    (if le_n it = le_max it then (None, it)
     else let n = le_n it; part = n div 64; b = n - 64 * part in
       (Some ((le_s it ! part) AND push_bit b 1 > 0), it\<lparr>le_n := n + 1\<rparr>))"

text \<open>
  \<open>le_take k\<close> is \<^verbatim>\<open>.take(k).collect()\<close>; the position never passes the end when it starts below
  it, so at most \<open>le_max - le_n\<close> items exist.
\<close>

primrec le_take :: "nat \<Rightarrow> bit_iterator_le \<Rightarrow> bool list" where
  "le_take 0 it = []"
| "le_take (Suc k) it =
    (case le_next it of (None, _) \<Rightarrow> [] | (Some b, it') \<Rightarrow> b # le_take k it')"

lemma word_and_bit_pos: "(w :: 64 word) AND push_bit b 1 > 0 \<longleftrightarrow> bit w b"
  using word_and_bit_iff[of w b] by (simp add: word_gt_0)

lemma be_collect_eq:
  "be_n it \<le> 64 * length (be_s it) \<Longrightarrow>
   be_collect it = rev (map (bit (limbs_value (be_s it))) [0..<be_n it])"
proof (induction it rule: be_collect.induct)
  case (1 it)
  show ?case
  proof (cases "be_n it")
    case 0
    then show ?thesis by (subst be_collect.simps) (simp add: be_next_def)
  next
    case (Suc n)
    let ?b = "(be_s it ! (n div 64)) AND push_bit (n - 64 * (n div 64)) 1 > 0"
    have nx: "be_next it = (Some ?b, it\<lparr>be_n := n\<rparr>)"
      using Suc by (simp add: be_next_def Let_def)
    have "?b = bit (limbs_value (be_s it)) n"
      unfolding word_and_bit_pos bit_limbs_value using 1(2) Suc by (simp add: minus_mult_div_eq_mod)
    moreover have "be_collect (it\<lparr>be_n := n\<rparr>) = rev (map (bit (limbs_value (be_s it))) [0..<n])"
      using 1(1)[OF nx[symmetric] refl] 1(2) Suc by simp
    ultimately show ?thesis
      by (subst be_collect.simps) (simp add: nx Suc)
  qed
qed

lemma be_collect_new:
  "be_collect (be_new s) = rev (map (bit (limbs_value s)) [0..<64 * length s])"
  using be_collect_eq[of "be_new s"] by (simp add: be_new_def mult.commute)

lemma le_take_eq:
  "le_n it \<le> le_max it \<Longrightarrow> le_max it \<le> 64 * length (le_s it) \<Longrightarrow>
   le_take k it =
     map (bit (limbs_value (le_s it))) [le_n it ..< min (le_n it + k) (le_max it)]"
proof (induction k arbitrary: it)
  case (Suc k)
  show ?case
  proof (cases "le_n it = le_max it")
    case False
    let ?n = "le_n it"
    let ?b = "(le_s it ! (?n div 64)) AND push_bit (?n - 64 * (?n div 64)) 1 > 0"
    have nx: "le_next it = (Some ?b, it\<lparr>le_n := ?n + 1\<rparr>)"
      using False by (simp add: le_next_def Let_def)
    have b: "?b = bit (limbs_value (le_s it)) ?n"
      unfolding word_and_bit_pos bit_limbs_value using Suc.prems False
      by (simp add: minus_mult_div_eq_mod)
    have "[?n ..< min (?n + Suc k) (le_max it)] = ?n # [Suc ?n ..< min (Suc ?n + k) (le_max it)]"
      using False Suc.prems by (simp add: upt_conv_Cons)
    then show ?thesis using Suc.IH[of "it\<lparr>le_n := ?n + 1\<rparr>"] Suc.prems False b by (simp add: nx)
  qed (simp add: le_next_def)
qed simp

lemma le_take_new:
  "k \<le> 64 * length s \<Longrightarrow> le_take k (le_new s) = map (bit (limbs_value s)) [0..<k]"
  using le_take_eq[of "le_new s" k] by (simp add: le_new_def mult.commute min_absorb1)

section \<open>Powers\<close>

text \<open>\<^verbatim>\<open>Field::pow\<close>: the loop over the bits of the exponent, most significant first.\<close>

definition pow_step :: "'f \<Rightarrow> bool \<Rightarrow> 'f \<Rightarrow> 'f::comm_ring_1" where
  "pow_step a i res = (let res = res * res in if i then res * a else res)"

definition pow :: "'f::comm_ring_1 \<Rightarrow> limbs \<Rightarrow> 'f" where
  "pow a e = fold (pow_step a) (be_without_leading_zeros e) 1"

lemma pow_fold:
  "fold (pow_step a) (rev bs) (1::'f::comm_ring_1) = a ^ bits_value bs"
proof (induction bs)
  case (Cons b bs)
  have "a ^ bits_value bs * a ^ bits_value bs = a ^ (2 * bits_value bs)"
    by (simp add: mult_2 power_add)
  then show ?case using Cons.IH by (simp add: pow_step_def Let_def mult.commute)
qed simp

lemma fold_pow_step_zeros:
  "fold (pow_step a) (dropWhile Not bs) (1::'f::comm_ring_1) = fold (pow_step a) bs 1"
  by (induction bs) (simp_all add: pow_step_def)

lemma pow_eq: "pow a e = a ^ limbs_value e"
proof -
  have "bits_value (map (bit (limbs_value e)) [0..<64 * length e]) = limbs_value e"
    using limbs_value_bound[of e] by (simp add: bits_value_map_bit take_bit_nat_eq_self_iff)
  then show ?thesis
    by (simp add: pow_def be_without_leading_zeros_def fold_pow_step_zeros be_collect_new pow_fold)
qed

end
