(* ===== verification/Prime_Field.thy ===== *)
theory Prime_Field
  imports Big_Integer
begin

text \<open>
  What the circuits use of the trait \<^verbatim>\<open>PrimeField\<close> (vendor/algebra/ff/src/fields/prime.rs): the
  modulus, the conversion to a big integer, and the arithmetic of the field type.  A value of
  type \<open>'f prime_field\<close> is the dictionary of the trait; the locale states its laws.  Theory
  Bn254_Fr provides them for the scalar field of BN254.
\<close>

record 'f prime_field =
  MODULUS :: limbs
  into_bigint :: "'f \<Rightarrow> limbs"

text \<open>\<^verbatim>\<open>MODULUS_BIT_SIZE\<close> is \<^verbatim>\<open>MODULUS.const_num_bits()\<close>.\<close>

definition modulus_bit_size :: "('f, 'z) prime_field_scheme \<Rightarrow> nat" where
  "modulus_bit_size pf = num_bits (MODULUS pf)"

text \<open>The integer in \<open>0 ..< p\<close> that a field element stands for.\<close>

definition int_repr :: "'f prime_field \<Rightarrow> 'f \<Rightarrow> nat" where
  "int_repr pf x = limbs_value (into_bigint pf x)"

locale prime_field_impl =
  fixes pf :: "'f::field prime_field"
  assumes modulus_gt_4: "4 < limbs_value (MODULUS pf)"
    and modulus_odd: "odd (limbs_value (MODULUS pf))"
    and into_bigint_length: "length (into_bigint pf x) = length (MODULUS pf)"
    and into_bigint_less: "limbs_value (into_bigint pf x) < limbs_value (MODULUS pf)"
    and of_nat_into_bigint: "of_nat (limbs_value (into_bigint pf x)) = x"
    and of_nat_eq_0: "of_nat n = (0::'f) \<longleftrightarrow> limbs_value (MODULUS pf) dvd n"
begin

lemma int_repr_less: "int_repr pf x < limbs_value (MODULUS pf)"
  by (simp add: int_repr_def into_bigint_less)

lemma of_nat_int_repr [simp]: "of_nat (int_repr pf x) = x"
  by (simp add: int_repr_def of_nat_into_bigint)

lemma of_nat_eq_iff_mod:
  "of_nat m = (of_nat n :: 'f) \<longleftrightarrow> m mod limbs_value (MODULUS pf) = n mod limbs_value (MODULUS pf)"
proof (induction m n rule: linorder_wlog)
  case (le m n)
  have "of_nat m = (of_nat n :: 'f) \<longleftrightarrow> of_nat (n - m) = (0::'f)"
    using le by (auto simp: of_nat_diff)
  also have "\<dots> \<longleftrightarrow> limbs_value (MODULUS pf) dvd n - m" by (rule of_nat_eq_0)
  also have "\<dots> \<longleftrightarrow> m mod limbs_value (MODULUS pf) = n mod limbs_value (MODULUS pf)"
    using le by (metis mod_eq_dvd_iff_nat)
  finally show ?case .
qed metis

lemma of_nat_inj:
  "of_nat m = (of_nat n :: 'f) \<Longrightarrow> m < limbs_value (MODULUS pf) \<Longrightarrow> n < limbs_value (MODULUS pf)
   \<Longrightarrow> m = n"
  by (simp add: of_nat_eq_iff_mod)

lemma int_repr_of_nat: "int_repr pf (of_nat n) = n mod limbs_value (MODULUS pf)"
proof (rule of_nat_inj)
  show "of_nat (int_repr pf (of_nat n)) = (of_nat (n mod limbs_value (MODULUS pf)) :: 'f)"
    by (simp add: of_nat_eq_iff_mod)
qed (use modulus_gt_4 in \<open>simp_all add: int_repr_less\<close>)

lemma int_repr_inj: "int_repr pf x = int_repr pf y \<longleftrightarrow> x = y"
  by (metis of_nat_int_repr)

lemma int_repr_0 [simp]: "int_repr pf 0 = 0"
  using int_repr_of_nat[of 0] by simp

lemma int_repr_1 [simp]: "int_repr pf 1 = 1"
  using int_repr_of_nat[of 1] modulus_gt_4 by simp

lemma int_repr_of_bool [simp]: "int_repr pf (of_bool b) = of_bool b"
  by (cases b) simp_all

lemma int_repr_numeral: "int_repr pf (numeral k) = numeral k mod limbs_value (MODULUS pf)"
  using int_repr_of_nat[of "numeral k"] by simp

lemma int_repr_add:
  "int_repr pf x + int_repr pf y < limbs_value (MODULUS pf) \<Longrightarrow>
   int_repr pf (x + y) = int_repr pf x + int_repr pf y"
  using int_repr_of_nat[of "int_repr pf x + int_repr pf y"] by simp

lemma int_repr_diff:
  assumes "int_repr pf y \<le> int_repr pf x"
  shows "int_repr pf (x - y) = int_repr pf x - int_repr pf y"
proof -
  have "int_repr pf x - int_repr pf y < limbs_value (MODULUS pf)"
    using int_repr_less[of x] by simp
  then show ?thesis
    using assms int_repr_of_nat[of "int_repr pf x - int_repr pf y"] by (simp add: of_nat_diff)
qed

lemma two_neq_0: "(2::'f) \<noteq> 0"
  using of_nat_eq_0[of 2] modulus_gt_4 by (auto dest: dvd_imp_le)

lemma modulus_less: "limbs_value (MODULUS pf) < 2 ^ modulus_bit_size pf"
  unfolding modulus_bit_size_def by (rule num_bits_upper)

lemma modulus_bit_size_pos: "1 < modulus_bit_size pf"
proof (rule ccontr)
  assume "\<not> 1 < modulus_bit_size pf"
  then have "(2::nat) ^ modulus_bit_size pf \<le> 2 ^ 1" by (intro power_increasing) auto
  with modulus_less modulus_gt_4 show False by simp
qed

lemma modulus_ge: "2 ^ (modulus_bit_size pf - 1) \<le> limbs_value (MODULUS pf)"
  using modulus_bit_size_pos unfolding modulus_bit_size_def by (intro num_bits_lower) simp

lemma modulus_bit_size_less: "modulus_bit_size pf + 1 < limbs_value (MODULUS pf)"
proof -
  have grow: "n + 5 < 2 ^ (n + 3)" for n :: nat
  proof (induction n)
    case (Suc n)
    have "(2::nat) ^ (Suc n + 3) = 2 * 2 ^ (n + 3)" by (simp only: add_Suc power_Suc)
    with Suc show ?case by linarith
  qed simp
  show ?thesis
  proof (cases "modulus_bit_size pf \<le> 3")
    case False
    define m where "m = modulus_bit_size pf - 4"
    have n: "modulus_bit_size pf = m + 4" using False by (simp add: m_def)
    have "2 ^ (m + 3) \<le> limbs_value (MODULUS pf)" using modulus_ge by (simp add: n add.commute)
    with grow[of m] show ?thesis unfolding n by linarith
  qed (use modulus_gt_4 in simp)
qed

lemma modulus_bit_size_le: "modulus_bit_size pf \<le> 64 * length (MODULUS pf)"
proof (rule ccontr)
  assume "\<not> ?thesis"
  then have "(2::nat) ^ (64 * length (MODULUS pf)) \<le> 2 ^ (modulus_bit_size pf - 1)"
    by (intro power_increasing) auto
  then have "2 ^ (64 * length (MODULUS pf)) \<le> limbs_value (MODULUS pf)"
    using modulus_ge by (rule le_trans)
  with limbs_value_bound[of "MODULUS pf"] show False by linarith
qed

lemma int_repr_bits:
  "int_repr pf x < 2 ^ modulus_bit_size pf"
  using int_repr_less modulus_less by (rule less_trans)

lemma get_bit_into_bigint: "get_bit (into_bigint pf x) i = bit (int_repr pf x) i"
  by (simp add: get_bit_eq int_repr_def)

lemma of_nat_bits_eq:
  assumes "x = of_nat n" and "n < 2 ^ k" and "2 ^ k \<le> limbs_value (MODULUS pf)"
  shows "int_repr pf x = n"
  using assms by (simp add: int_repr_of_nat)

end

end
