(* ===== verification/Field_Bytes.thy ===== *)
theory Field_Bytes
  imports Prime_Field
begin

text \<open>
  Field elements as bytes: \<^verbatim>\<open>to_bytes_le\<close> of a big integer (vendor/algebra/ff/src/biginteger/mod.rs),
  \<^verbatim>\<open>from_le_bytes_mod_order\<close> (fields/prime.rs), the \<^verbatim>\<open>field_cast\<close> with which the sponge absorbs and
  squeezes elements, and the key \<^verbatim>\<open>repr\<close> of the executor's maps.
\<close>

section \<open>Bytes of a big integer\<close>

definition limb_to_le_bytes :: "64 word \<Rightarrow> 8 word list" where
  "limb_to_le_bytes l = map (\<lambda>i. ucast (drop_bit (8 * i) l)) [0..<8]"

definition to_bytes_le :: "limbs \<Rightarrow> 8 word list" where
  "to_bytes_le e = concat (map limb_to_le_bytes e)"

abbreviation bytes_value :: "8 word list \<Rightarrow> nat" where
  "bytes_value bs \<equiv> horner_sum unat 256 bs"

text \<open>
  The most significant bytes, fewer than the modulus has, are read directly
  (\<^verbatim>\<open>from_random_bytes\<close>); the others are multiplied in, the most significant first.
\<close>

definition from_le_bytes_mod_order :: "('f::field) prime_field \<Rightarrow> 8 word list \<Rightarrow> 'f" where
  "from_le_bytes_mod_order pf bytes =
    (let num_modulus_bytes = (modulus_bit_size pf + 7) div 8;
         n = min (num_modulus_bytes - 1) (length bytes);
         rest = take (length bytes - n) bytes;
         directly = drop (length bytes - n) bytes
     in fold (\<lambda>byte res. res * of_nat 256 + of_nat (unat byte)) (rev rest)
          (of_nat (bytes_value directly)))"

definition field_cast :: "('f::field) prime_field \<Rightarrow> 'f list \<Rightarrow> 'f list" where
  "field_cast pf xs = map (\<lambda>item. from_le_bytes_mod_order pf (to_bytes_le (into_bigint pf item))) xs"

definition repr :: "'f prime_field \<Rightarrow> 'f \<Rightarrow> 8 word list" where
  "repr pf x = to_bytes_le (into_bigint pf x)"

section \<open>Values\<close>

lemma digits_value: "horner_sum (\<lambda>i. n div 256 ^ i mod 256) 256 [0..<k] = n mod (256::nat) ^ k"
proof (induction k)
  case (Suc k)
  have "n mod 256 ^ Suc k = 256 ^ k * (n div 256 ^ k mod 256) + n mod 256 ^ k"
    unfolding power_Suc2 by (rule mod_mult2_eq)
  with Suc show ?case by (simp add: horner_sum_append)
qed simp

lemma limb_to_le_bytes_value: "bytes_value (limb_to_le_bytes l) = unat l"
proof -
  have "unat (ucast (drop_bit (8 * i) l) :: 8 word) = unat l div 256 ^ i mod 256" for i
  proof -
    have "unat (ucast (drop_bit (8 * i) l) :: 8 word) = take_bit 8 (drop_bit (8 * i) (unat l))"
      using unat_64_bound[of l] by (simp add: unsigned_ucast_eq unsigned_drop_bit_eq take_bit_nat_eq_self)
    then show ?thesis by (simp add: take_bit_eq_mod drop_bit_eq_div power_mult)
  qed
  then have "bytes_value (limb_to_le_bytes l) = horner_sum (\<lambda>i. unat l div 256 ^ i mod 256) 256 [0..<8]"
    by (simp add: limb_to_le_bytes_def horner_sum_eq_sum_funpow)
  also have "\<dots> = unat l"
    unfolding digits_value using unat_64_bound[of l] by simp
  finally show ?thesis .
qed

lemma to_bytes_le_value: "bytes_value (to_bytes_le e) = limbs_value e"
proof (induction e)
  case (Cons l e)
  have "length (limb_to_le_bytes l) = 8" by (simp add: limb_to_le_bytes_def)
  with Cons show ?case
    by (simp add: to_bytes_le_def horner_sum_append limb_to_le_bytes_value)
qed (simp add: to_bytes_le_def)

lemma fold_bytes: "fold (\<lambda>byte res. res * of_nat 256 + of_nat (unat byte)) (rev bs) (r::'f::field)
    = of_nat (bytes_value bs) + of_nat (256 ^ length bs) * r"
  by (induction bs) (simp_all add: algebra_simps)

lemma from_le_bytes_mod_order_eq: "from_le_bytes_mod_order pf bytes = of_nat (bytes_value bytes)"
proof -
  define k where "k = length bytes - min ((modulus_bit_size pf + 7) div 8 - 1) (length bytes)"
  have "bytes_value bytes = bytes_value (take k bytes) + 256 ^ length (take k bytes) * bytes_value (drop k bytes)"
    using horner_sum_append[of unat 256 "take k bytes" "drop k bytes"] by simp
  then show ?thesis
    unfolding from_le_bytes_mod_order_def Let_def k_def[symmetric] fold_bytes by simp
qed

context prime_field_impl
begin

lemma field_cast_id [simp]: "field_cast pf xs = xs"
  by (simp add: field_cast_def from_le_bytes_mod_order_eq to_bytes_le_value of_nat_into_bigint)

lemma repr_inj [simp]: "repr pf x = repr pf y \<longleftrightarrow> x = y"
proof
  assume "repr pf x = repr pf y"
  then have "limbs_value (into_bigint pf x) = limbs_value (into_bigint pf y)"
    unfolding repr_def by (metis to_bytes_le_value)
  then show "x = y" by (metis of_nat_into_bigint)
qed simp

end

end
