(* ===== verification/Poseidon_Sponge.thy ===== *)
theory Poseidon_Sponge
  imports Field_Bytes
begin

text \<open>
  The native Poseidon sponge (vendor/crypto-primitives/crypto-primitives/src/sponge/poseidon/mod.rs)
  and the hash \<^verbatim>\<open>CRH\<close> built on it (src/crh/poseidon/mod.rs).  Every index into the state and
  the parameters is checked, as in Rust, so the operations work in \<open>fault + _\<close>.  The second part
  is the abstract specification: a permutation of lists and the sponge that folds it over blocks
  of \<open>rate\<close> elements; for parameters of the shape \<^verbatim>\<open>PoseidonConfig::new\<close> asserts, the operations
  never panic and compute it.
\<close>

section \<open>Parameters and state\<close>

record 'f poseidon_config =
  full_rounds :: nat
  partial_rounds :: nat
  alpha :: "64 word"
  ark :: "'f list list"
  mds :: "'f list list"
  rate :: nat
  capacity :: nat

text \<open>\<^verbatim>\<open>PoseidonConfig::new\<close>, which panics on parameters of the wrong shape.\<close>

definition poseidon_config_new ::
  "nat \<Rightarrow> nat \<Rightarrow> 64 word \<Rightarrow> 'f list list \<Rightarrow> 'f list list \<Rightarrow> nat \<Rightarrow> nat \<Rightarrow> fault + 'f poseidon_config" where
  "poseidon_config_new full partial al md ar r c =
    (if length ar \<noteq> full + partial then Inl Panic
     else if \<exists>item\<in>set ar. length item \<noteq> r + c then Inl Panic
     else if length md \<noteq> r + c then Inl Panic
     else if \<exists>item\<in>set md. length item \<noteq> r + c then Inl Panic
     else Inr \<lparr>full_rounds = full, partial_rounds = partial, alpha = al, ark = ar, mds = md,
                rate = r, capacity = c\<rparr>)"

datatype duplex_sponge_mode = Absorbing nat | Squeezing nat

text \<open>
  The state of a sponge.  Its elements are field elements in the native sponge and field
  variables in the gadget.
\<close>

record ('f, 'a) sponge =
  parameters :: "'f poseidon_config"
  sponge_state :: "'a list"
  sponge_mode :: duplex_sponge_mode

section \<open>Operations\<close>

definition apply_s_box :: "'f::field poseidon_config \<Rightarrow> bool \<Rightarrow> 'f list \<Rightarrow> fault + 'f list" where
  "apply_s_box cfg is_full_round state =
    (if is_full_round then Inr (map (\<lambda>elem. pow elem [alpha cfg]) state)
     else (case state of [] \<Rightarrow> Inl Panic | x # xs \<Rightarrow> Inr (pow x [alpha cfg] # xs)))"

definition apply_ark :: "'f::field poseidon_config \<Rightarrow> nat \<Rightarrow> 'f list \<Rightarrow> fault + 'f list" where
  "apply_ark cfg round_number state =
    result_map (\<lambda>(i, elem). result_bind (index2 (ark cfg) round_number i) (\<lambda>k. Inr (elem + k)))
      (enumerate 0 state)"

definition apply_mds :: "'f::field poseidon_config \<Rightarrow> 'f list \<Rightarrow> fault + 'f list" where
  "apply_mds cfg state =
    result_map (\<lambda>i. result_fold (\<lambda>(j, elem) cur.
        result_bind (index2 (mds cfg) i j) (\<lambda>m. Inr (cur + elem * m))) (enumerate 0 state) 0)
      [0..<length state]"

definition poseidon_round ::
  "'f::field poseidon_config \<Rightarrow> bool \<Rightarrow> nat \<Rightarrow> 'f list \<Rightarrow> fault + 'f list" where
  "poseidon_round cfg is_full_round i state =
    result_bind (apply_ark cfg i state) (\<lambda>state.
    result_bind (apply_s_box cfg is_full_round state) (\<lambda>state. apply_mds cfg state))"

definition permute_state :: "'f::field poseidon_config \<Rightarrow> 'f list \<Rightarrow> fault + 'f list" where
  "permute_state cfg state =
    (let h = full_rounds cfg div 2; p = partial_rounds cfg in
     result_bind (result_fold (poseidon_round cfg True) [0..<h] state) (\<lambda>state.
     result_bind (result_fold (poseidon_round cfg False) [h..<h + p] state) (\<lambda>state.
     result_fold (poseidon_round cfg True) [h + p..<p + full_rounds cfg] state)))"

definition permute :: "('f::field, 'f) sponge \<Rightarrow> fault + ('f, 'f) sponge" where
  "permute sp = result_bind (permute_state (parameters sp) (sponge_state sp))
     (\<lambda>state. Inr (sp\<lparr>sponge_state := state\<rparr>))"

text \<open>\<^verbatim>\<open>self.state[self.parameters.capacity + i + rate_start_index] += element\<close> for each element.\<close>

definition add_elements :: "nat \<Rightarrow> 'f list \<Rightarrow> 'f list \<Rightarrow> fault + 'f::field list" where
  "add_elements start elements state =
    result_fold (\<lambda>(i, element) state.
        result_bind (index state (start + i)) (\<lambda>x. Inr (state[start + i := x + element])))
      (enumerate 0 elements) state"

text \<open>
  The loop of \<^verbatim>\<open>absorb_internal\<close>.  With a rate of zero it permutes for ever, unless the first permutation panics; a start index
  above the rate overflows the subtraction.
\<close>

function absorb_internal ::
  "nat \<Rightarrow> 'f list \<Rightarrow> ('f::field, 'f) sponge \<Rightarrow> fault + ('f, 'f) sponge" where
  "absorb_internal start elements sp =
    (let cfg = parameters sp in
     if start + length elements \<le> rate cfg then
       result_bind (add_elements (capacity cfg + start) elements (sponge_state sp)) (\<lambda>state.
       Inr (sp\<lparr>sponge_state := state, sponge_mode := Absorbing (start + length elements)\<rparr>))
     else if start > rate cfg then Inl Panic
     else if rate cfg = 0 then result_bind (permute sp) (\<lambda>_. Inl Diverge)
     else
       let n = rate cfg - start in
       result_bind (add_elements (capacity cfg + start) (take n elements) (sponge_state sp)) (\<lambda>state.
       result_bind (permute (sp\<lparr>sponge_state := state\<rparr>)) (\<lambda>sp'.
       absorb_internal 0 (drop n elements) sp')))"
  by pat_completeness auto

termination
  by (relation "measure (\<lambda>(start, elements, sp). length elements + (if start = 0 then 0 else 1))") auto

declare absorb_internal.simps [simp del]

text \<open>
  The loop of \<^verbatim>\<open>squeeze_internal\<close>, which returns the elements it writes to the output slice.
  When it permutes, elements remain to be written.
\<close>

function squeeze_internal ::
  "nat \<Rightarrow> nat \<Rightarrow> ('f::field, 'f) sponge \<Rightarrow> fault + 'f list \<times> ('f, 'f) sponge" where
  "squeeze_internal start n sp =
    (let cfg = parameters sp in
     if start + n \<le> rate cfg then
       result_bind (slice (sponge_state sp) (capacity cfg + start) n) (\<lambda>out.
       Inr (out, sp\<lparr>sponge_mode := Squeezing (start + n)\<rparr>))
     else if start > rate cfg then Inl Panic
     else if rate cfg = 0 then result_bind (permute sp) (\<lambda>_. Inl Diverge)
     else
       let m = rate cfg - start in
       result_bind (slice (sponge_state sp) (capacity cfg + start) m) (\<lambda>out.
       result_bind (permute sp) (\<lambda>sp'.
       result_bind (squeeze_internal 0 (n - m) sp') (\<lambda>(out', sp''). Inr (out @ out', sp'')))))"
  by pat_completeness auto

termination
  by (relation "measure (\<lambda>(start, n, sp). n + (if start = 0 then 0 else 1))") auto

declare squeeze_internal.simps [simp del]

definition sponge_new :: "'f::field poseidon_config \<Rightarrow> ('f, 'f) sponge" where
  "sponge_new cfg = \<lparr>parameters = cfg, sponge_state = replicate (rate cfg + capacity cfg) 0,
     sponge_mode = Absorbing 0\<rparr>"

definition absorb :: "'f::field prime_field \<Rightarrow> 'f list \<Rightarrow> ('f, 'f) sponge \<Rightarrow> fault + ('f, 'f) sponge" where
  "absorb pf input sp =
    (let elems = field_cast pf input in
     if elems = [] then Inr sp
     else case sponge_mode sp of
       Absorbing next_absorb_index \<Rightarrow>
         if next_absorb_index = rate (parameters sp)
         then result_bind (permute sp) (absorb_internal 0 elems)
         else absorb_internal next_absorb_index elems sp
     | Squeezing _ \<Rightarrow> absorb_internal 0 elems sp)"

definition squeeze_native_field_elements ::
  "nat \<Rightarrow> ('f::field, 'f) sponge \<Rightarrow> fault + 'f list \<times> ('f, 'f) sponge" where
  "squeeze_native_field_elements n sp =
    (case sponge_mode sp of
       Absorbing _ \<Rightarrow> result_bind (permute sp) (squeeze_internal 0 n)
     | Squeezing next_squeeze_index \<Rightarrow>
         if next_squeeze_index = rate (parameters sp)
         then result_bind (permute sp) (squeeze_internal 0 n)
         else squeeze_internal next_squeeze_index n sp)"

definition squeeze_field_elements ::
  "'f::field prime_field \<Rightarrow> nat \<Rightarrow> ('f, 'f) sponge \<Rightarrow> fault + 'f list \<times> ('f, 'f) sponge" where
  "squeeze_field_elements pf n sp =
    result_bind (squeeze_native_field_elements n sp) (\<lambda>(result, sp). Inr (field_cast pf result, sp))"

text \<open>\<^verbatim>\<open>CRH::evaluate\<close>: absorb the input, squeeze one element.\<close>

definition crh_evaluate :: "'f::field prime_field \<Rightarrow> 'f poseidon_config \<Rightarrow> 'f list \<Rightarrow> fault + 'f" where
  "crh_evaluate pf cfg input =
    result_bind (absorb pf input (sponge_new cfg)) (\<lambda>sp.
    result_bind (squeeze_field_elements pf 1 sp) (\<lambda>(res, sp). index res 0))"

text \<open>\<^verbatim>\<open>TwoToOneCRH::compress\<close> absorbs the two inputs one after the other.\<close>

definition crh_compress :: "'f::field prime_field \<Rightarrow> 'f poseidon_config \<Rightarrow> 'f \<Rightarrow> 'f \<Rightarrow> fault + 'f" where
  "crh_compress pf cfg left right =
    result_bind (absorb pf [left] (sponge_new cfg)) (\<lambda>sp.
    result_bind (absorb pf [right] sp) (\<lambda>sp.
    result_bind (squeeze_field_elements pf 1 sp) (\<lambda>(res, sp). index res 0)))"

section \<open>Specification\<close>

definition config_wf :: "'f poseidon_config \<Rightarrow> bool" where
  "config_wf cfg \<longleftrightarrow> 0 < rate cfg
     \<and> length (ark cfg) = full_rounds cfg + partial_rounds cfg
     \<and> (\<forall>k\<in>set (ark cfg). length k = rate cfg + capacity cfg)
     \<and> length (mds cfg) = rate cfg + capacity cfg
     \<and> (\<forall>m\<in>set (mds cfg). length m = rate cfg + capacity cfg)"

definition round_spec :: "'f::field poseidon_config \<Rightarrow> bool \<Rightarrow> nat \<Rightarrow> 'f list \<Rightarrow> 'f list" where
  "round_spec cfg full r xs =
    (let ys = map2 (+) xs (ark cfg ! r);
         e = unat (alpha cfg);
         zs = (if full then map (\<lambda>y. y ^ e) ys else (hd ys ^ e) # tl ys)
     in map (\<lambda>row. \<Sum>(z, m)\<leftarrow>zip zs row. z * m) (mds cfg))"

text \<open>Whether a round is full: the first and the last half of the full rounds are.\<close>

definition full_round_at :: "'f poseidon_config \<Rightarrow> nat \<Rightarrow> bool" where
  "full_round_at cfg r \<longleftrightarrow>
     r < full_rounds cfg div 2 \<or> full_rounds cfg div 2 + partial_rounds cfg \<le> r"

definition permutation :: "'f::field poseidon_config \<Rightarrow> 'f list \<Rightarrow> 'f list" where
  "permutation cfg xs = fold (\<lambda>r. round_spec cfg (full_round_at cfg r) r)
     [0..<full_rounds cfg + partial_rounds cfg] xs"

text \<open>Add a block of at most \<open>rate\<close> elements behind the capacity part.\<close>

definition add_block :: "'f::field poseidon_config \<Rightarrow> 'f list \<Rightarrow> 'f list \<Rightarrow> 'f list" where
  "add_block cfg xs state =
    take (capacity cfg) state
    @ map2 (+) (drop (capacity cfg) state) (xs @ replicate (rate cfg - length xs) 0)"

function absorb_spec :: "'f::field poseidon_config \<Rightarrow> 'f list \<Rightarrow> 'f list \<Rightarrow> 'f list" where
  "absorb_spec cfg xs state =
    (if length xs \<le> rate cfg \<or> rate cfg = 0 then add_block cfg xs state
     else absorb_spec cfg (drop (rate cfg) xs)
            (permutation cfg (add_block cfg (take (rate cfg) xs) state)))"
  by pat_completeness auto

termination
  by (relation "measure (\<lambda>(cfg, xs, state). length xs)") auto

declare absorb_spec.simps [simp del]

definition crh_spec :: "'f::field poseidon_config \<Rightarrow> 'f list \<Rightarrow> 'f" where
  "crh_spec cfg xs = permutation cfg
     (absorb_spec cfg xs (replicate (rate cfg + capacity cfg) 0)) ! capacity cfg"

section \<open>The operations compute the specification\<close>

lemma config_wf_new:
  "poseidon_config_new full partial al md ar r c = Inr cfg \<Longrightarrow> 0 < r \<Longrightarrow>
   config_wf cfg \<and> rate cfg = r \<and> capacity cfg = c \<and> alpha cfg = al"
  by (auto simp: poseidon_config_new_def config_wf_def split: if_splits)

lemma enumerate_eq_map: "enumerate n xs = map (\<lambda>i. (n + i, xs ! i)) [0..<length xs]"
  by (rule nth_equalityI) (simp_all add: nth_enumerate_eq)

lemma index2_Inr: "i < length xss \<Longrightarrow> j < length (xss ! i) \<Longrightarrow> index2 xss i j = Inr (xss ! i ! j)"
  by (simp add: index2_def)

lemma pow_limb: "pow x [a] = x ^ unat (a :: 64 word)"
  by (simp add: pow_eq)

lemma apply_ark_eq:
  assumes "config_wf cfg" "r < full_rounds cfg + partial_rounds cfg" "length xs = rate cfg + capacity cfg"
  shows "apply_ark cfg r xs = Inr (map2 (+) xs (ark cfg ! r))"
proof -
  have len: "r < length (ark cfg)" "length (ark cfg ! r) = length xs" using assms by (auto simp: config_wf_def)
  have "apply_ark cfg r xs = Inr (map (\<lambda>(i, x). x + ark cfg ! r ! i) (enumerate 0 xs))"
    unfolding apply_ark_def
    by (rule result_map_Inr) (use len in \<open>auto simp: index2_Inr in_set_enumerate_eq\<close>)
  also have "map (\<lambda>(i, x). x + ark cfg ! r ! i) (enumerate 0 xs) = map2 (+) xs (ark cfg ! r)"
    by (rule nth_equalityI) (use len in \<open>simp_all add: nth_enumerate_eq\<close>)
  finally show ?thesis .
qed

lemma fold_sum: "fold (\<lambda>p cur. cur + f p) ps c = c + (\<Sum>p\<leftarrow>ps. f p)" for c :: "'a::comm_monoid_add"
  by (induction ps arbitrary: c) (simp_all add: add.assoc)

lemma apply_mds_eq:
  assumes "config_wf cfg" "length xs = rate cfg + capacity cfg"
  shows "apply_mds cfg xs = Inr (map (\<lambda>row. \<Sum>(z, m)\<leftarrow>zip xs row. z * m) (mds cfg))"
proof -
  have len: "length (mds cfg) = length xs" "\<And>i. i < length xs \<Longrightarrow> length (mds cfg ! i) = length xs"
    using assms by (auto simp: config_wf_def)
  have "apply_mds cfg xs = Inr (map (\<lambda>i. fold (\<lambda>(j, x) cur. cur + x * mds cfg ! i ! j) (enumerate 0 xs) 0)
      [0..<length xs])"
    unfolding apply_mds_def
    by (intro result_map_Inr result_fold_Inr) (use len in \<open>auto simp: index2_Inr in_set_enumerate_eq\<close>)
  also have "map (\<lambda>i. fold (\<lambda>(j, x) cur. cur + x * mds cfg ! i ! j) (enumerate 0 xs) 0) [0..<length xs]
      = map (\<lambda>row. \<Sum>(z, m)\<leftarrow>zip xs row. z * m) (mds cfg)"
  proof (rule nth_equalityI)
    fix i assume "i < length (map (\<lambda>i. fold (\<lambda>(j, x) cur. cur + x * mds cfg ! i ! j) (enumerate 0 xs) 0) [0..<length xs])"
    then have i: "i < length xs" by simp
    have "map (\<lambda>(j, x). x * mds cfg ! i ! j) (enumerate 0 xs) = map (\<lambda>(z, m). z * m) (zip xs (mds cfg ! i))"
      by (rule nth_equalityI) (use len i in \<open>simp_all add: nth_enumerate_eq\<close>)
    then have "(\<Sum>(j, x)\<leftarrow>enumerate 0 xs. x * mds cfg ! i ! j) = (\<Sum>(z, m)\<leftarrow>zip xs (mds cfg ! i). z * m)"
      by (rule arg_cong)
    then show "map (\<lambda>i. fold (\<lambda>(j, x) cur. cur + x * mds cfg ! i ! j) (enumerate 0 xs) 0) [0..<length xs] ! i
        = map (\<lambda>row. \<Sum>(z, m)\<leftarrow>zip xs row. z * m) (mds cfg) ! i"
      using i len(1) fold_sum[of "\<lambda>(j, x). x * mds cfg ! i ! j" "enumerate 0 xs" 0]
      by (simp add: case_prod_unfold)
  qed (simp add: len(1))
  finally show ?thesis .
qed

lemma length_round_spec [simp]: "config_wf cfg \<Longrightarrow> length (round_spec cfg full r xs) = rate cfg + capacity cfg"
  by (simp add: round_spec_def Let_def config_wf_def)

lemma poseidon_round_eq:
  assumes "config_wf cfg" "r < full_rounds cfg + partial_rounds cfg" "length xs = rate cfg + capacity cfg"
  shows "poseidon_round cfg full r xs = Inr (round_spec cfg full r xs)"
proof -
  let ?ys = "map2 (+) xs (ark cfg ! r)"
  have len: "length ?ys = rate cfg + capacity cfg" using assms by (simp add: config_wf_def)
  moreover have "0 < rate cfg" using assms(1) by (simp add: config_wf_def)
  ultimately obtain y ys where ys: "?ys = y # ys" by (cases ?ys) auto
  let ?zs = "if full then map (\<lambda>y. y ^ unat (alpha cfg)) ?ys
      else hd ?ys ^ unat (alpha cfg) # tl ?ys"
  have sbox: "apply_s_box cfg full ?ys = Inr ?zs" unfolding ys by (simp add: apply_s_box_def pow_limb)
  have "length ?zs = rate cfg + capacity cfg" using len unfolding ys by simp
  then show ?thesis
    unfolding poseidon_round_def apply_ark_eq[OF assms] result_bind_simps sbox
    by (simp only: apply_mds_eq[OF assms(1)] round_spec_def Let_def)
qed

lemma rounds_eq:
  assumes "config_wf cfg" "length xs = rate cfg + capacity cfg"
    and "\<And>r. r \<in> set rs \<Longrightarrow> r < full_rounds cfg + partial_rounds cfg \<and> full_round_at cfg r = full"
  shows "result_fold (poseidon_round cfg full) rs xs
      = Inr (fold (\<lambda>r. round_spec cfg (full_round_at cfg r) r) rs xs)"
  using assms(2,3)
  by (induction rs arbitrary: xs) (simp_all add: poseidon_round_eq[OF assms(1)] assms(1))

lemma length_rounds [simp]:
  "config_wf cfg \<Longrightarrow> length xs = rate cfg + capacity cfg \<Longrightarrow>
   length (fold (\<lambda>r. round_spec cfg (f r) r) rs xs) = rate cfg + capacity cfg"
  by (induction rs arbitrary: xs) simp_all

lemma permute_state_eq:
  assumes "config_wf cfg" "length xs = rate cfg + capacity cfg"
  shows "permute_state cfg xs = Inr (permutation cfg xs)"
proof -
  let ?h = "full_rounds cfg div 2" and ?p = "partial_rounds cfg" and ?f = "full_rounds cfg"
  have "[0..<?f + ?p] = [0..<?h] @ [?h..<?h + ?p] @ [?h + ?p..<?p + ?f]"
    using upt_add_eq_append[of 0 ?h "?p + (?f - ?h)"] upt_add_eq_append[of ?h "?h + ?p" "?f - ?h"]
    by (simp add: add.commute add.left_commute)
  moreover have
    "length ys = rate cfg + capacity cfg \<Longrightarrow> result_fold (poseidon_round cfg True) [0..<?h] ys
      = Inr (fold (\<lambda>r. round_spec cfg (full_round_at cfg r) r) [0..<?h] ys)"
    "length ys = rate cfg + capacity cfg \<Longrightarrow> result_fold (poseidon_round cfg False) [?h..<?h + ?p] ys
      = Inr (fold (\<lambda>r. round_spec cfg (full_round_at cfg r) r) [?h..<?h + ?p] ys)"
    "length ys = rate cfg + capacity cfg \<Longrightarrow> result_fold (poseidon_round cfg True) [?h + ?p..<?p + ?f] ys
      = Inr (fold (\<lambda>r. round_spec cfg (full_round_at cfg r) r) [?h + ?p..<?p + ?f] ys)" for ys
    by (rule rounds_eq[OF assms(1)]; auto simp: full_round_at_def)+
  ultimately show ?thesis
    unfolding permute_state_def permutation_def Let_def using assms by simp
qed

lemma length_permutation [simp]:
  "config_wf cfg \<Longrightarrow> length xs = rate cfg + capacity cfg \<Longrightarrow>
   length (permutation cfg xs) = rate cfg + capacity cfg"
  by (simp add: permutation_def)

text \<open>Absorbing and squeezing.\<close>

lemma add_elements_eq:
  "start + length xs \<le> length st \<Longrightarrow>
   add_elements start xs st =
     Inr (take start st @ map2 (+) (take (length xs) (drop start st)) xs @ drop (start + length xs) st)"
proof (induction xs arbitrary: st rule: rev_induct)
  case Nil
  then show ?case by (simp add: add_elements_def)
next
  case (snoc x xs)
  have fold: "result_fold f (ys @ zs) a = result_bind (result_fold f ys a) (result_fold f zs)"
    for f :: "'b \<Rightarrow> 'c \<Rightarrow> 'e + 'c" and ys zs a
    by (induction ys arbitrary: a) (simp_all add: result_bind_def split: sum.split)
  let ?n = "length xs"
  let ?st = "take start st @ map2 (+) (take ?n (drop start st)) xs @ drop (start + ?n) st"
  have n: "start + ?n < length st" using snoc.prems by simp
  then have len: "length ?st = length st" by simp
  have at: "?st ! (start + ?n) = st ! (start + ?n)" using n by (simp add: nth_append)
  have "add_elements start (xs @ [x]) st = Inr (?st[start + ?n := st ! (start + ?n) + x])"
    using snoc.IH snoc.prems n at len
    unfolding add_elements_def by (simp add: enumerate_append_eq fold)
  moreover have "take (Suc ?n) (drop start st) = take ?n (drop start st) @ [st ! (start + ?n)]"
    using n by (simp add: take_Suc_conv_app_nth)
  then have "?st[start + ?n := st ! (start + ?n) + x]
      = take start st @ map2 (+) (take (length (xs @ [x])) (drop start st)) (xs @ [x])
        @ drop (start + length (xs @ [x])) st"
    using n Cons_nth_drop_Suc[OF n, symmetric] by (simp add: list_update_append)
  ultimately show ?case by simp
qed

lemma add_block_eq:
  assumes "length xs \<le> rate cfg" "length st = rate cfg + capacity cfg"
  shows "add_elements (capacity cfg) xs st = Inr (add_block cfg xs st)"
proof -
  have "map2 (+) (drop (length xs) (drop (capacity cfg) st)) (replicate (rate cfg - length xs) 0)
      = drop (capacity cfg + length xs) st"
    using assms by (intro nth_equalityI) (simp_all add: add.commute)
  moreover have "map2 (+) (drop (capacity cfg) st) (xs @ replicate (rate cfg - length xs) 0)
      = map2 (+) (take (length xs) (drop (capacity cfg) st)) xs
        @ map2 (+) (drop (length xs) (drop (capacity cfg) st)) (replicate (rate cfg - length xs) 0)"
    by (simp add: zip_append2)
  ultimately show ?thesis
    using assms by (simp add: add_elements_eq add_block_def)
qed

lemma length_add_block [simp]:
  "length st = rate cfg + capacity cfg \<Longrightarrow> length xs \<le> rate cfg \<Longrightarrow>
   length (add_block cfg xs st) = rate cfg + capacity cfg"
  by (simp add: add_block_def)

lemma length_absorb_spec [simp]:
  "config_wf cfg \<Longrightarrow> length st = rate cfg + capacity cfg \<Longrightarrow>
   length (absorb_spec cfg xs st) = rate cfg + capacity cfg"
proof (induction cfg xs st rule: absorb_spec.induct)
  case (1 cfg xs st)
  then have "0 < rate cfg" by (simp add: config_wf_def)
  with 1 show ?case by (subst absorb_spec.simps) simp
qed

lemma absorb_internal_eq:
  assumes "config_wf (parameters sp)" "length (sponge_state sp) = rate (parameters sp) + capacity (parameters sp)"
  shows "\<exists>i. absorb_internal 0 xs sp = Inr (sp\<lparr>sponge_state := absorb_spec (parameters sp) xs (sponge_state sp),
    sponge_mode := Absorbing i\<rparr>)"
  using assms
proof (induction "length xs" arbitrary: xs sp rule: less_induct)
  case less
  let ?cfg = "parameters sp"
  have r: "0 < rate ?cfg" using less.prems(1) by (simp add: config_wf_def)
  show ?case
  proof (cases "length xs \<le> rate ?cfg")
    case True
    then show ?thesis
      using less.prems
      by (auto intro!: exI[of _ "length xs"]
          simp: absorb_internal.simps[of 0 xs] absorb_spec.simps[of _ xs] add_block_eq Let_def)
  next
    case False
    let ?st = "permutation ?cfg (add_block ?cfg (take (rate ?cfg) xs) (sponge_state sp))"
    have run: "absorb_internal 0 xs sp = absorb_internal 0 (drop (rate ?cfg) xs) (sp\<lparr>sponge_state := ?st\<rparr>)"
      using False r less.prems
      by (simp add: absorb_internal.simps[of 0 xs] add_block_eq Let_def permute_def permute_state_eq)
    have len: "length (add_block ?cfg (take (rate ?cfg) xs) (sponge_state sp)) = rate ?cfg + capacity ?cfg"
      by (rule length_add_block) (use less.prems in simp_all)
    have "\<exists>i. absorb_internal 0 (drop (rate ?cfg) xs) (sp\<lparr>sponge_state := ?st\<rparr>)
        = Inr (sp\<lparr>sponge_state := absorb_spec ?cfg (drop (rate ?cfg) xs) ?st, sponge_mode := Absorbing i\<rparr>)"
      using less.hyps[of "drop (rate ?cfg) xs" "sp\<lparr>sponge_state := ?st\<rparr>"] False r less.prems(1) len by simp
    then show ?thesis
      unfolding run using False r by (simp add: absorb_spec.simps[of _ xs])
  qed
qed

context prime_field_impl
begin

text \<open>
  The hash of the code is the sponge of the specification: for parameters of the right shape it
  never panics, and its value does not depend on the representation of the elements.
\<close>

lemma crh_evaluate_eq:
  assumes "config_wf cfg"
  shows "crh_evaluate pf cfg xs = Inr (crh_spec cfg xs)"
proof -
  let ?st = "absorb_spec cfg xs (replicate (rate cfg + capacity cfg) 0)"
  have r: "0 < rate cfg" using assms by (simp add: config_wf_def)
  have nil: "xs = [] \<Longrightarrow> absorb_spec cfg xs (replicate (rate cfg + capacity cfg) 0)
      = replicate (rate cfg + capacity cfg) 0"
    by (simp add: absorb_spec.simps[of _ "[]"] add_block_def map_replicate_const
        flip: replicate_add)
  obtain i where absorb: "absorb pf xs (sponge_new cfg)
      = Inr (\<lparr>parameters = cfg, sponge_state = ?st, sponge_mode = Absorbing i\<rparr>)"
  proof (cases "xs = []")
    case True
    then show ?thesis using nil that by (simp add: absorb_def sponge_new_def Let_def)
  next
    case False
    then show ?thesis
      using absorb_internal_eq[of "sponge_new cfg" xs] assms r that
      by (auto simp: absorb_def sponge_new_def Let_def)
  qed
  have len: "length (permutation cfg ?st) = rate cfg + capacity cfg" using assms by simp
  have "slice (permutation cfg ?st) (capacity cfg) 1 = Inr [permutation cfg ?st ! capacity cfg]"
    using len r by (simp add: slice_def take_Suc_conv_app_nth hd_drop_conv_nth take_Suc)
  then show ?thesis
    using r assms
    by (simp add: crh_evaluate_def absorb squeeze_field_elements_def squeeze_native_field_elements_def
        permute_def permute_state_eq squeeze_internal.simps[of 0] Let_def crh_spec_def index_def)
qed

end

end
