(* ===== verification/Linear_Combination.thy ===== *)
theory Linear_Combination
  imports Prelude "HOL-Library.Multiset"
begin

text \<open>
  Variables and linear combinations of a constraint system
  (vendor/snark/relations/src/utils/variable.rs and linear_combination.rs).  A \<^verbatim>\<open>Variable\<close> is a
  64-bit word with a 3-bit tag above a 61-bit payload; it is modelled by a datatype whose order is
  the order of those words (first the tag, then the payload).  The lemmas state what each
  operation does to the value of a linear combination under an assignment \<open>w\<close>.
\<close>

section \<open>Variables\<close>

datatype variable =
    Zero
  | One
  | Instance nat
  | Witness nat
  | SymbolicLc nat

fun var_tag :: "variable \<Rightarrow> nat" where
  "var_tag Zero = 0"
| "var_tag One = 1"
| "var_tag (Instance i) = 2"
| "var_tag (Witness i) = 3"
| "var_tag (SymbolicLc i) = 4"

fun var_payload :: "variable \<Rightarrow> nat" where
  "var_payload Zero = 0"
| "var_payload One = 0"
| "var_payload (Instance i) = i"
| "var_payload (Witness i) = i"
| "var_payload (SymbolicLc i) = i"

lemma variable_eqI: "var_tag u = var_tag v \<Longrightarrow> var_payload u = var_payload v \<Longrightarrow> u = v"
  by (cases u; cases v) simp_all

instantiation variable :: linorder
begin

definition less_eq_variable :: "variable \<Rightarrow> variable \<Rightarrow> bool" where
  "u \<le> v \<longleftrightarrow> var_tag u < var_tag v \<or> var_tag u = var_tag v \<and> var_payload u \<le> var_payload v"

definition less_variable :: "variable \<Rightarrow> variable \<Rightarrow> bool" where
  "u < v \<longleftrightarrow> var_tag u < var_tag v \<or> var_tag u = var_tag v \<and> var_payload u < var_payload v"

instance
  by standard (auto simp: less_eq_variable_def less_variable_def intro: variable_eqI)

end

definition get_lc_index :: "variable \<Rightarrow> nat option" where
  "get_lc_index v = (case v of SymbolicLc i \<Rightarrow> Some i | _ \<Rightarrow> None)"

section \<open>Linear combinations\<close>

type_synonym 'f lc = "('f \<times> variable) list"

text \<open>The value under an assignment (the specification of the operations below).\<close>

definition lc_eval :: "(variable \<Rightarrow> 'f) \<Rightarrow> 'f lc \<Rightarrow> 'f::comm_ring_1" where
  "lc_eval w l = (\<Sum>(c, v)\<leftarrow>l. c * w v)"

lemma lc_eval_simps [simp]:
  "lc_eval w [] = 0"
  "lc_eval w (t # l) = fst t * w (snd t) + lc_eval w l"
  "lc_eval w (l @ l') = lc_eval w l + lc_eval w l'"
  by (simp_all add: lc_eval_def split_beta)

lemma lc_eval_mset: "mset l = mset l' \<Longrightarrow> lc_eval w l = lc_eval w l'"
proof -
  assume m: "mset l = mset l'"
  have "lc_eval w k = sum_mset (image_mset (\<lambda>(c, v). c * w v) (mset k))" for k
    unfolding lc_eval_def by (simp flip: sum_mset_sum_list)
  then show ?thesis by (simp add: m)
qed

lemma lc_eval_cong: "(\<And>v. v \<in> snd ` set l \<Longrightarrow> w v = w' v) \<Longrightarrow> lc_eval w l = lc_eval w' l"
  by (induction l) auto

text \<open>
  \<^verbatim>\<open>compactify\<close>: sort by variable, then merge equal neighbours in place with a read and a
  write index.  The state of the loop is the write index and the vector.
\<close>

definition compactify_step :: "nat \<Rightarrow> nat \<times> 'f lc \<Rightarrow> nat \<times> 'f::comm_ring_1 lc" where
  "compactify_step r st = (case st of (wi, xs) \<Rightarrow>
     if snd (xs ! wi) = snd (xs ! r)
     then (let add_coeff = fst (xs ! r) in (wi, xs[wi := (fst (xs ! wi) + add_coeff, snd (xs ! wi))]))
     else (wi + 1, xs[wi + 1 := xs ! r]))"

definition compactify :: "'f lc \<Rightarrow> 'f::comm_ring_1 lc" where
  "compactify l =
    (if length l \<le> 1 then l
     else let xs = sort_key snd l; (wi, ys) = fold compactify_step [1..<length xs] (0, xs)
          in take (wi + 1) ys)"

definition sum_vars :: "variable list \<Rightarrow> 'f::comm_ring_1 lc" where
  "sum_vars vs = compactify (map (\<lambda>v. (1, v)) vs)"

definition from_sum_coeff_vars :: "'f lc \<Rightarrow> 'f::comm_ring_1 lc" where
  "from_sum_coeff_vars terms = compactify terms"

definition diff_vars :: "variable \<Rightarrow> variable \<Rightarrow> 'f::comm_ring_1 lc" where
  "diff_vars a b = (if a = b then [] else [(1, a), (- 1, b)])"

definition lc_from_coeff_var :: "'f \<times> variable \<Rightarrow> 'f::comm_ring_1 lc" where
  "lc_from_coeff_var i = (if fst i = 0 \<or> snd i = Zero then [] else [i])"

definition lc_from_var :: "variable \<Rightarrow> 'f::comm_ring_1 lc" where
  "lc_from_var v = (if v = Zero then [] else lc_from_coeff_var (1, v))"

definition lc_negate :: "'f lc \<Rightarrow> 'f::comm_ring_1 lc" where
  "lc_negate l = map (\<lambda>(c, v). (- c, v)) l"

text \<open>
  \<^verbatim>\<open>get_var_loc\<close>: \<open>Inr i\<close> when the variable is found at \<open>i\<close>, \<open>Inl i\<close> with the insertion point
  otherwise.  Below six terms the code scans and always answers with an insertion point.
\<close>

fun scan_loc :: "variable \<Rightarrow> nat \<Rightarrow> nat \<Rightarrow> 'f lc \<Rightarrow> nat" where
  "scan_loc s i found [] = found"
| "scan_loc s i found ((c, v) # l) = (if v \<ge> s then i else scan_loc s (i + 1) (found + 1) l)"

function binary_search :: "variable \<Rightarrow> 'f lc \<Rightarrow> nat \<Rightarrow> nat \<Rightarrow> nat + nat" where
  "binary_search s l lo hi =
    (if lo \<ge> hi then Inl lo
     else let mid = lo + (hi - lo) div 2; v = snd (l ! mid) in
       if v = s then Inr mid
       else if v < s then binary_search s l (mid + 1) hi
       else binary_search s l lo mid)"
  by pat_completeness auto
termination
  by (relation "measure (\<lambda>(s, l, lo, hi). hi - lo)") auto

declare binary_search.simps [simp del]

definition get_var_loc :: "'f lc \<Rightarrow> variable \<Rightarrow> nat + nat" where
  "get_var_loc l s =
    (if length l < 6 then Inl (scan_loc s 0 0 l) else binary_search s l 0 (length l))"

definition lc_add_term :: "'f lc \<Rightarrow> 'f \<times> variable \<Rightarrow> 'f::comm_ring_1 lc" where
  "lc_add_term l t =
    (case get_var_loc l (snd t) of
       Inr found \<Rightarrow> l[found := (fst (l ! found) + fst t, snd (l ! found))]
     | Inl not_found \<Rightarrow> take not_found l @ t # drop not_found l)"

definition lc_sub_term :: "'f lc \<Rightarrow> 'f \<times> variable \<Rightarrow> 'f::comm_ring_1 lc" where
  "lc_sub_term l t = lc_add_term l (- fst t, snd t)"

definition lc_scale :: "'f lc \<Rightarrow> 'f \<Rightarrow> 'f::comm_ring_1 lc" where
  "lc_scale l s = map (\<lambda>(c, v). (c * s, v)) l"

text \<open>\<^verbatim>\<open>op_impl\<close>: the two-pointer merge under the addition and subtraction of combinations.\<close>

fun op_impl :: "('f \<Rightarrow> 'f) \<Rightarrow> ('f \<Rightarrow> 'f \<Rightarrow> 'f) \<Rightarrow> 'f lc \<Rightarrow> 'f lc \<Rightarrow> 'f lc" where
  "op_impl push combine (a # cur) (b # other) =
    (if snd b < snd a then (push (fst b), snd b) # op_impl push combine (a # cur) other
     else if snd a < snd b then a # op_impl push combine cur (b # other)
     else (combine (fst a) (fst b), snd a) # op_impl push combine cur other)"
| "op_impl push combine cur [] = cur"
| "op_impl push combine [] other = map (\<lambda>(c, v). (push c, v)) other"

definition lc_add :: "'f lc \<Rightarrow> 'f lc \<Rightarrow> 'f::comm_ring_1 lc" where
  "lc_add l r =
    (if r = [] then l else if l = [] then r else op_impl (\<lambda>c. c) (\<lambda>a b. a + b) l r)"

definition lc_sub :: "'f lc \<Rightarrow> 'f lc \<Rightarrow> 'f::comm_ring_1 lc" where
  "lc_sub l r =
    (if r = [] then l else if l = [] then lc_negate r
     else op_impl (\<lambda>c. - c) (\<lambda>a b. a - b) l r)"

definition lc_add_scaled :: "'f lc \<Rightarrow> 'f \<times> 'f lc \<Rightarrow> 'f::comm_ring_1 lc" where
  "lc_add_scaled l kr = (case kr of (k, r) \<Rightarrow>
     if r = [] then l else if l = [] then lc_scale r k
     else op_impl (\<lambda>c. k * c) (\<lambda>a b. a + k * b) l r)"

section \<open>Values of the operations\<close>

definition compactify_inv :: "(variable \<Rightarrow> 'f) \<Rightarrow> 'f lc \<Rightarrow> nat \<Rightarrow> nat \<times> 'f::comm_ring_1 lc \<Rightarrow> bool" where
  "compactify_inv w xs r st = (case st of (wi, ys) \<Rightarrow>
     wi < r \<and> length ys = length xs \<and> drop r ys = drop r xs
     \<and> lc_eval w (take (wi + 1) ys) + lc_eval w (drop r xs) = lc_eval w xs
     \<and> sorted_wrt (<) (map snd (take (wi + 1) ys))
     \<and> (\<forall>j\<ge>r. j < length xs \<longrightarrow> snd (ys ! wi) \<le> snd (xs ! j)))"

lemma compactify_inv_step:
  assumes inv: "compactify_inv w xs r st" and r: "r < length xs" and srt: "sorted (map snd xs)"
  shows "compactify_inv w xs (Suc r) (compactify_step r st)"
proof -
  obtain wi ys where st: "st = (wi, ys)" by (cases st)
  have wi: "wi < r" and len: "length ys = length xs" and dr: "drop r ys = drop r xs"
    and ev: "lc_eval w (take (wi + 1) ys) + lc_eval w (drop r xs) = lc_eval w xs"
    and so: "sorted_wrt (<) (map snd (take (wi + 1) ys))"
    and le: "\<And>j. r \<le> j \<Longrightarrow> j < length xs \<Longrightarrow> snd (ys ! wi) \<le> snd (xs ! j)"
    using inv by (auto simp: compactify_inv_def st)
  have yr: "ys ! r = xs ! r" using arg_cong[OF dr, of hd] r len by (simp add: hd_drop_conv_nth)
  have dr': "drop (Suc r) ys = drop (Suc r) xs" using arg_cong[OF dr, of tl] by (simp add: drop_Suc tl_drop)
  have dx: "drop r xs = xs ! r # drop (Suc r) xs" using r by (rule Cons_nth_drop_Suc[symmetric])
  have tw: "take (wi + 1) ys = take wi ys @ [ys ! wi]"
    using wi r len by (simp add: take_Suc_conv_app_nth)
  have mono: "\<And>j. Suc r \<le> j \<Longrightarrow> j < length xs \<Longrightarrow> snd (xs ! r) \<le> snd (xs ! j)"
    using sorted_nth_mono[OF srt, of r] r by simp
  show ?thesis
  proof (cases "snd (ys ! wi) = snd (ys ! r)")
    case True
    let ?zs = "ys[wi := (fst (ys ! wi) + fst (ys ! r), snd (ys ! wi))]"
    have tz: "take (wi + 1) ?zs = take wi ys @ [(fst (ys ! wi) + fst (ys ! r), snd (ys ! wi))]"
      using wi r len by (simp add: take_Suc_conv_app_nth)
    have "lc_eval w (take (wi + 1) ?zs) + lc_eval w (drop (Suc r) xs) = lc_eval w xs"
      unfolding tz using ev[unfolded tw] True by (simp add: dx yr algebra_simps)
    moreover have "map snd (take (wi + 1) ?zs) = map snd (take (wi + 1) ys)"
      unfolding tz unfolding tw by simp
    ultimately show ?thesis
      using True wi len dr' so le r
      by (simp add: compactify_inv_def st compactify_step_def Let_def)
  next
    case False
    let ?zs = "ys[wi + 1 := ys ! r]"
    have tz: "take (wi + 2) ?zs = take (wi + 1) ys @ [ys ! r]"
      using wi r len by (simp add: take_Suc_conv_app_nth)
    have dz: "drop (Suc r) ?zs = drop (Suc r) xs" using wi dr' by simp
    have "snd (ys ! wi) < snd (xs ! r)" using le[of r] r False yr by simp
    moreover have "\<forall>x\<in>set (map snd (take (wi + 1) ys)). x \<le> snd (ys ! wi)"
      using so unfolding tw by (auto simp: sorted_wrt_append intro: less_imp_le)
    ultimately have "sorted_wrt (<) (map snd (take (wi + 2) ?zs))"
      unfolding tz using so yr by (auto simp: sorted_wrt_append)
    moreover have "lc_eval w (take (wi + 2) ?zs) + lc_eval w (drop (Suc r) xs) = lc_eval w xs"
      unfolding tz using ev by (simp add: dx yr algebra_simps)
    ultimately show ?thesis
      using False wi len dz r mono yr
      by (simp add: compactify_inv_def st compactify_step_def)
  qed
qed

lemma compactify_fold:
  assumes "sorted (map snd xs)" "xs \<noteq> []" "n \<le> length xs" "1 \<le> n"
  shows "compactify_inv w xs n (fold compactify_step [1..<n] (0, xs))"
  using assms(4,3)
proof (induction n rule: dec_induct)
  case base
  show ?case using assms(1,2)
    by (cases xs) (auto simp: compactify_inv_def nth_Cons' split: if_splits)
next
  case (step n)
  then have "compactify_inv w xs n (fold compactify_step [1..<n] (0, xs))" by simp
  then show ?case using compactify_inv_step[of w xs n] step assms(1) by simp
qed

lemma compactify_correct:
  "lc_eval w (compactify l) = lc_eval w l \<and> sorted_wrt (<) (map snd (compactify l))"
proof (cases "length l \<le> 1")
  case True
  then show ?thesis by (cases l) (auto simp: compactify_def)
next
  case False
  define xs where "xs = sort_key snd l"
  have xs: "sorted (map snd xs)" "length xs = length l" "mset xs = mset l" "xs \<noteq> []"
    using False by (auto simp: xs_def simp flip: length_0_conv)
  obtain wi ys where f: "fold compactify_step [1..<length xs] (0, xs) = (wi, ys)" by force
  have "compactify_inv w xs (length xs) (wi, ys)"
    using compactify_fold[OF xs(1,4), of "length xs" w] xs(4) f by (cases xs) auto
  moreover have "compactify l = take (wi + 1) ys"
    using False f by (simp add: compactify_def xs_def[symmetric])
  ultimately show ?thesis
    using lc_eval_mset[OF xs(3), of w] by (simp add: compactify_inv_def)
qed

lemma lc_eval_compactify [simp]: "lc_eval w (compactify l) = lc_eval w l"
  using compactify_correct by blast


lemma lc_eval_unit_coeffs: "lc_eval w (map (\<lambda>v. (1, v)) vs) = (\<Sum>v\<leftarrow>vs. w v)"
  by (induction vs) simp_all

lemma lc_eval_sum_vars [simp]: "lc_eval w (sum_vars vs) = (\<Sum>v\<leftarrow>vs. w v)"
  by (simp add: sum_vars_def lc_eval_unit_coeffs)

lemma lc_eval_from_sum_coeff_vars [simp]: "lc_eval w (from_sum_coeff_vars ts) = lc_eval w ts"
  by (simp add: from_sum_coeff_vars_def)

lemma lc_eval_diff_vars [simp]: "lc_eval w (diff_vars a b) = w a - w b"
  by (simp add: diff_vars_def)

lemma lc_eval_from_coeff_var [simp]:
  "w Zero = 0 \<Longrightarrow> lc_eval w (lc_from_coeff_var t) = fst t * w (snd t)"
  by (auto simp: lc_from_coeff_var_def)

lemma lc_eval_from_var [simp]: "w Zero = 0 \<Longrightarrow> lc_eval w (lc_from_var v) = w v"
  by (auto simp: lc_from_var_def)

lemma lc_eval_negate [simp]: "lc_eval w (lc_negate l) = - lc_eval w l"
  by (induction l) (auto simp: lc_negate_def)

lemma lc_eval_scale [simp]: "lc_eval w (lc_scale l s) = lc_eval w l * s"
  by (induction l) (auto simp: lc_scale_def algebra_simps)

lemma binary_search_Inr:
  "binary_search s l lo hi = Inr i \<Longrightarrow> hi \<le> length l \<Longrightarrow> i < length l \<and> snd (l ! i) = s"
proof (induction s l lo hi rule: binary_search.induct)
  case (1 s l lo hi)
  let ?mid = "lo + (hi - lo) div 2"
  have lt: "lo < hi" using 1(3) by (rule contrapos_pp) (simp add: binary_search.simps[of s l lo hi])
  then have mid: "?mid < hi" by simp
  consider "snd (l ! ?mid) = s" | "snd (l ! ?mid) \<noteq> s" "snd (l ! ?mid) < s"
    | "snd (l ! ?mid) \<noteq> s" "\<not> snd (l ! ?mid) < s" by blast
  then show ?case
  proof cases
    case 1
    then have "binary_search s l lo hi = Inr ?mid"
      using lt by (simp add: binary_search.simps[of s l lo hi] Let_def)
    with 1 \<open>binary_search s l lo hi = Inr i\<close> \<open>hi \<le> length l\<close> mid show ?thesis by simp
  next
    case 2
    then have "binary_search s l lo hi = binary_search s l (?mid + 1) hi"
      using lt by (subst binary_search.simps) (simp add: Let_def)
    with 1(1)[OF _ refl refl] 1(3,4) 2 lt show ?thesis by simp
  next
    case 3
    then have "binary_search s l lo hi = binary_search s l lo ?mid"
      using lt by (subst binary_search.simps) (simp add: Let_def)
    with 1(2)[OF _ refl refl] 1(3,4) 3 lt mid show ?thesis by simp
  qed
qed

lemma get_var_loc_found: "get_var_loc l s = Inr i \<Longrightarrow> i < length l \<and> snd (l ! i) = s"
  unfolding get_var_loc_def by (auto split: if_splits dest: binary_search_Inr)

lemma lc_eval_update:
  "i < length l \<Longrightarrow> lc_eval w (l[i := (fst (l ! i) + c, snd (l ! i))]) = lc_eval w l + c * w (snd (l ! i))"
  by (induction l arbitrary: i) (auto simp: nth_Cons' algebra_simps split: nat.splits)

lemma lc_eval_add_term [simp]: "lc_eval w (lc_add_term l t) = lc_eval w l + fst t * w (snd t)"
proof (cases "get_var_loc l (snd t)")
  case (Inl i)
  have "lc_eval w (take i l) + lc_eval w (drop i l) = lc_eval w l"
    by (simp flip: lc_eval_simps(3))
  with Inl show ?thesis by (simp add: lc_add_term_def algebra_simps)
next
  case (Inr i)
  then have i: "i < length l" "snd (l ! i) = snd t" by (simp_all add: get_var_loc_found)
  show ?thesis using lc_eval_update[OF i(1), of w "fst t"] by (simp add: lc_add_term_def Inr i(2))
qed

lemma lc_eval_sub_term [simp]: "lc_eval w (lc_sub_term l t) = lc_eval w l - fst t * w (snd t)"
  by (simp add: lc_sub_term_def)

lemma lc_eval_op_impl:
  assumes "\<And>c. push c = k * c" "\<And>a b. combine a b = a + k * b"
  shows "lc_eval w (op_impl push combine cur other) = lc_eval w cur + k * lc_eval w other"
  using assms
proof (induction push combine cur other rule: op_impl.induct)
  case (1 push combine a cur b other)
  consider "snd b < snd a" | "snd a < snd b" | "snd a = snd b" by (metis linorder_neqE)
  then show ?case using 1 by cases (simp_all add: algebra_simps)
next
  case (3 push combine b other)
  have "lc_eval w (map (\<lambda>(c, v). (push c, v)) other) = k * lc_eval w other"
    using 3(1) by (induction other) (auto simp: algebra_simps)
  then show ?case using 3(1) by (cases b) (simp add: algebra_simps)
qed simp

lemma lc_eval_add [simp]: "lc_eval w (lc_add l r) = lc_eval w l + lc_eval w r"
  by (simp add: lc_add_def lc_eval_op_impl[where k = 1])

lemma lc_eval_sub [simp]: "lc_eval w (lc_sub l r) = lc_eval w l - lc_eval w r"
  by (simp add: lc_sub_def lc_eval_op_impl[where k = "- 1"])

lemma lc_eval_add_scaled [simp]:
  "lc_eval w (lc_add_scaled l (k, r)) = lc_eval w l + k * lc_eval w r"
  by (simp add: lc_add_scaled_def lc_eval_op_impl[where k = k])

section \<open>Variables of the results\<close>

definition lc_vars :: "'f lc \<Rightarrow> variable set" where
  "lc_vars l = snd ` set l"

lemma lc_vars_simps [simp]:
  "lc_vars [] = {}"
  "lc_vars (t # l) = insert (snd t) (lc_vars l)"
  "lc_vars (l @ l') = lc_vars l \<union> lc_vars l'"
  by (auto simp: lc_vars_def)

lemma lc_vars_nth: "i < length l \<Longrightarrow> snd (l ! i) \<in> lc_vars l"
  by (auto simp: lc_vars_def)

lemma lc_vars_update: "lc_vars (l[i := t]) \<subseteq> insert (snd t) (lc_vars l)"
  using set_update_subset_insert[of l i t] by (auto simp: lc_vars_def)

lemma compactify_step_vars:
  assumes "r < length (snd st)" "fst st < r"
  shows "lc_vars (snd (compactify_step r st)) \<subseteq> lc_vars (snd st)
    \<and> length (snd (compactify_step r st)) = length (snd st) \<and> fst (compactify_step r st) \<le> r"
proof -
  obtain wi ys where st: "st = (wi, ys)" by (cases st)
  have "snd (ys ! wi) \<in> lc_vars ys" "snd (ys ! r) \<in> lc_vars ys"
    using assms by (auto simp: st intro: lc_vars_nth)
  moreover have "snd t \<in> lc_vars ys \<Longrightarrow> lc_vars (ys[i := t]) \<subseteq> lc_vars ys" for i t
    using lc_vars_update[of ys i t] by blast
  ultimately show ?thesis
    using assms(2) by (simp add: compactify_step_def Let_def st)
qed

lemma compactify_fold_vars:
  "n \<le> length xs \<Longrightarrow>
   lc_vars (snd (fold compactify_step [1..<n] (0, xs))) \<subseteq> lc_vars xs
    \<and> length (snd (fold compactify_step [1..<n] (0, xs))) = length xs
    \<and> fst (fold compactify_step [1..<n] (0, xs)) \<le> n - 1"
proof (induction n)
  case (Suc n)
  show ?case
  proof (cases n)
    case (Suc m)
    let ?st = "fold compactify_step [1..<n] (0, xs)"
    have "lc_vars (snd ?st) \<subseteq> lc_vars xs" "length (snd ?st) = length xs" "fst ?st < n"
      using Suc.IH Suc.prems Suc by auto
    moreover from this have "lc_vars (snd (compactify_step n ?st)) \<subseteq> lc_vars (snd ?st)"
        "length (snd (compactify_step n ?st)) = length (snd ?st)" "fst (compactify_step n ?st) \<le> n"
      using compactify_step_vars[of n ?st] Suc.prems by auto
    ultimately show ?thesis using Suc by auto
  qed simp
qed simp

lemma lc_vars_compactify: "lc_vars (compactify l) \<subseteq> lc_vars l"
proof (cases "length l \<le> 1")
  case False
  let ?xs = "sort_key snd l"
  obtain wi ys where f: "fold compactify_step [1..<length ?xs] (0, ?xs) = (wi, ys)" by force
  have "lc_vars ys \<subseteq> lc_vars ?xs"
    using compactify_fold_vars[of "length ?xs" ?xs] f by simp
  moreover have "compactify l = take (wi + 1) ys"
    using False f by (simp add: compactify_def)
  ultimately show ?thesis
    using set_take_subset[of "wi + 1" ys] unfolding lc_vars_def by auto
qed (simp add: compactify_def)

lemma lc_vars_diff_vars: "lc_vars (diff_vars a b) \<subseteq> {a, b}"
  by (simp add: diff_vars_def)

lemma lc_vars_from_coeff_var: "lc_vars (lc_from_coeff_var t) \<subseteq> {snd t}"
  by (simp add: lc_from_coeff_var_def)

lemma lc_vars_from_var: "lc_vars (lc_from_var v) \<subseteq> {v}"
  by (simp add: lc_from_var_def lc_from_coeff_var_def)

lemma lc_vars_add_term: "lc_vars (lc_add_term l t) \<subseteq> insert (snd t) (lc_vars l)"
proof (cases "get_var_loc l (snd t)")
  case (Inl i)
  have "lc_vars l = lc_vars (take i l) \<union> lc_vars (drop i l)"
    by (simp flip: lc_vars_simps(3))
  with Inl show ?thesis by (auto simp: lc_add_term_def)
next
  case (Inr i)
  then show ?thesis
    using lc_vars_update[of l i] lc_vars_nth[of i l] get_var_loc_found[OF Inr]
    by (fastforce simp: lc_add_term_def)
qed

lemmas lc_vars_subset =
  lc_vars_compactify lc_vars_diff_vars lc_vars_from_coeff_var lc_vars_from_var lc_vars_add_term

end
