(* ===== verification/Constraint_System.thy ===== *)
theory Constraint_System
  imports Linear_Combination
begin

text \<open>
  The constraint system the gadgets write to (vendor/snark/relations/src/gr1cs): its state, the
  allocation of variables, symbolic linear combinations, constraints and the satisfaction check.
  The shared reference \<^verbatim>\<open>ConstraintSystemRef::CS\<close> is the state threaded through the
  computations of theory Prelude; the predicate table holds the one predicate every constraint
  system is created with, \<^verbatim>\<open>R1CS\<close>.  The interning of coefficients and the flat layout of
  \<^verbatim>\<open>LcMap\<close> are not modelled: \<open>lc_map\<close> is the list of the linear combinations pushed to it.
\<close>

section \<open>Predicates\<close>

record 'f predicate_cs =
  argument_lcs :: "variable list list"
  num_constraints :: nat
  pred_arity :: nat
  pred_terms :: "('f \<times> (nat \<times> nat) list) list"

text \<open>\<^verbatim>\<open>PolynomialPredicate::eval\<close>: a term is a coefficient and (variable, power) pairs.\<close>

definition predicate_eval :: "('f \<times> (nat \<times> nat) list) list \<Rightarrow> 'f list \<Rightarrow> 'f::comm_ring_1" where
  "predicate_eval terms vals = (\<Sum>(c, t)\<leftarrow>terms. c * (\<Prod>(i, k)\<leftarrow>t. vals ! i ^ k))"

definition predicate_is_satisfied :: "('f \<times> (nat \<times> nat) list) list \<Rightarrow> 'f::comm_ring_1 list \<Rightarrow> bool" where
  "predicate_is_satisfied terms vals \<longleftrightarrow> predicate_eval terms vals = 0"

definition r1cs_terms :: "('f::comm_ring_1 \<times> (nat \<times> nat) list) list" where
  "r1cs_terms = [(1, [(0, 1), (1, 1)]), (- 1, [(2, 1)])]"

definition new_r1cs :: "'f::comm_ring_1 predicate_cs" where
  "new_r1cs = \<lparr>argument_lcs = replicate 3 [], num_constraints = 0, pred_arity = 3,
     pred_terms = r1cs_terms\<rparr>"

fun push_arguments :: "variable list \<Rightarrow> variable list list \<Rightarrow> variable list list" where
  "push_arguments (v # vs) (arg # args) = (arg @ [v]) # push_arguments vs args"
| "push_arguments vs args = args"

definition pred_enforce_constraint ::
  "variable list \<Rightarrow> 'f predicate_cs \<Rightarrow> synthesis_error + 'f predicate_cs" where
  "pred_enforce_constraint constraint p =
    (let arity = min (length constraint) (length (argument_lcs p));
         p' = p\<lparr>argument_lcs := push_arguments constraint (argument_lcs p)\<rparr>
     in if arity \<noteq> pred_arity p then Inl ArityMismatch
        else Inr (p'\<lparr>num_constraints := num_constraints p + 1\<rparr>))"

definition iter_constraints :: "'f predicate_cs \<Rightarrow> variable list list" where
  "iter_constraints p =
    map (\<lambda>i. map (\<lambda>lc_s. lc_s ! i) (argument_lcs p)) [0..<num_constraints p]"

section \<open>The state\<close>

datatype synthesis_mode =
    Setup
  | Prove (construct_matrices: bool) (generate_lc_assignments: bool)

record 'f cs =
  mode :: synthesis_mode
  num_instance_variables :: nat
  num_witness_variables :: nat
  num_linear_combinations :: nat
  instance_assignment :: "'f list"
  witness_assignment :: "'f list"
  lc_assignment :: "'f list"
  lc_map :: "'f lc list"
  r1cs :: "'f predicate_cs option"

definition cs_new :: "'f::comm_ring_1 cs" where
  "cs_new = \<lparr>mode = Prove True True, num_instance_variables = 1, num_witness_variables = 0,
     num_linear_combinations = 1, instance_assignment = [1], witness_assignment = [],
     lc_assignment = [0], lc_map = [[]], r1cs = Some new_r1cs\<rparr>"

definition set_mode :: "synthesis_mode \<Rightarrow> 'f cs \<Rightarrow> 'f cs" where
  "set_mode m cs = cs\<lparr>mode := m\<rparr>"

definition is_in_setup_mode :: "'f cs \<Rightarrow> bool" where
  "is_in_setup_mode cs \<longleftrightarrow> mode cs = Setup"

definition should_construct_matrices :: "'f cs \<Rightarrow> bool" where
  "should_construct_matrices cs = (case mode cs of Setup \<Rightarrow> True | Prove c g \<Rightarrow> c)"

definition should_generate_lc_assignments :: "'f cs \<Rightarrow> bool" where
  "should_generate_lc_assignments cs = (case mode cs of Setup \<Rightarrow> False | Prove c g \<Rightarrow> g)"

text \<open>\<^verbatim>\<open>slice.get(i)\<close>.\<close>

definition get_at :: "'a list \<Rightarrow> nat \<Rightarrow> 'a option" where
  "get_at xs i = (if i < length xs then Some (xs ! i) else None)"

definition assigned_value :: "'f::comm_ring_1 cs \<Rightarrow> variable \<Rightarrow> 'f option" where
  "assigned_value cs v = (case v of
     Zero \<Rightarrow> Some 0
   | One \<Rightarrow> Some 1
   | Instance i \<Rightarrow> get_at (instance_assignment cs) i
   | Witness i \<Rightarrow> get_at (witness_assignment cs) i
   | SymbolicLc i \<Rightarrow> get_at (lc_assignment cs) i)"

text \<open>The sum of a linear combination; \<open>None\<close> where the code panics on an unassigned variable.\<close>

primrec eval_terms :: "'f::comm_ring_1 cs \<Rightarrow> 'f lc \<Rightarrow> 'f option" where
  "eval_terms cs [] = Some 0"
| "eval_terms cs (t # l) =
    (case (assigned_value cs (snd t), eval_terms cs l) of
       (Some x, Some s) \<Rightarrow> Some (fst t * x + s)
     | _ \<Rightarrow> None)"

definition eval_lc :: "'f::comm_ring_1 cs \<Rightarrow> nat \<Rightarrow> 'f option" where
  "eval_lc cs i = (case get_at (lc_map cs) i of None \<Rightarrow> None | Some l \<Rightarrow> eval_terms cs l)"

section \<open>Linear combinations and constraints\<close>

definition new_lc_without_adding :: "('f cs, variable) comp" where
  "new_lc_without_adding cs =
    (let index = num_linear_combinations cs
     in Inr (SymbolicLc index, cs\<lparr>num_linear_combinations := index + 1\<rparr>))"

definition new_lc_add_helper :: "'f lc \<Rightarrow> ('f::comm_ring_1 cs, variable) comp" where
  "new_lc_add_helper l cs =
    (if l = [] \<or> length l = 1 \<and> snd (hd l) = Zero then Inr (SymbolicLc 0, cs)
     else if length l = 1 \<and> fst (hd l) = 1 then Inr (snd (hd l), cs)
     else
       let index = num_linear_combinations cs;
           cs1 = cs\<lparr>lc_map := lc_map cs @ [l], num_linear_combinations := index + 1\<rparr>
       in if should_generate_lc_assignments cs
          then (case eval_lc cs1 index of
                  None \<Rightarrow> Inl Panic
                | Some value \<Rightarrow>
                    Inr (SymbolicLc index, cs1\<lparr>lc_assignment := lc_assignment cs1 @ [value]\<rparr>))
          else Inr (SymbolicLc index, cs1))"

definition new_lc :: "'f lc \<Rightarrow> ('f::comm_ring_1 cs, variable) comp" where
  "new_lc l cs =
    (if should_construct_matrices cs \<or> should_generate_lc_assignments cs
     then new_lc_add_helper l cs else new_lc_without_adding cs)"

definition new_constraint_lc :: "'f lc \<Rightarrow> ('f::comm_ring_1 cs, variable) comp" where
  "new_constraint_lc l cs =
    (if should_construct_matrices cs then new_lc l cs else new_lc_without_adding cs)"

definition push_constraint :: "variable list \<Rightarrow> ('f cs, unit) comp" where
  "push_constraint vs cs =
    (case r1cs cs of
       None \<Rightarrow> Inl Panic
     | Some p \<Rightarrow> (case pred_enforce_constraint vs p of
         Inl e \<Rightarrow> Inl (Err e)
       | Inr p' \<Rightarrow> Inr ((), cs\<lparr>r1cs := Some p'\<rparr>)))"

definition enforce_constraint_arity_3 ::
  "'f lc \<Rightarrow> 'f lc \<Rightarrow> 'f lc \<Rightarrow> ('f::comm_ring_1 cs, unit) comp" where
  "enforce_constraint_arity_3 a b c cs =
    (if r1cs cs = None then Inl (Err PredicateNotFound)
     else if should_construct_matrices cs
     then bind (new_constraint_lc a) (\<lambda>a. bind (new_constraint_lc b) (\<lambda>b.
            bind (new_constraint_lc c) (\<lambda>c. push_constraint [a, b, c]))) cs
     else Inr ((), cs))"

definition enforce_r1cs_constraint ::
  "'f lc \<Rightarrow> 'f lc \<Rightarrow> 'f lc \<Rightarrow> ('f::comm_ring_1 cs, unit) comp" where
  "enforce_r1cs_constraint a b c cs =
    (if \<not> should_construct_matrices cs then Inr ((), cs)
     else if r1cs cs = None then Inl (Err PredicateNotFound)
     else enforce_constraint_arity_3 a b c cs)"

section \<open>Variables\<close>

definition new_input_variable :: "synthesis_error + 'f \<Rightarrow> ('f cs, variable) comp" where
  "new_input_variable f cs =
    (let index = num_instance_variables cs; cs1 = cs\<lparr>num_instance_variables := index + 1\<rparr>
     in if is_in_setup_mode cs then Inr (Instance index, cs1)
        else case f of
            Inl e \<Rightarrow> Inl (Err e)
          | Inr x \<Rightarrow> Inr (Instance index,
              cs1\<lparr>instance_assignment := instance_assignment cs1 @ [x]\<rparr>))"

definition new_witness_variable :: "synthesis_error + 'f \<Rightarrow> ('f cs, variable) comp" where
  "new_witness_variable f cs =
    (let index = num_witness_variables cs; cs1 = cs\<lparr>num_witness_variables := index + 1\<rparr>
     in if is_in_setup_mode cs then Inr (Witness index, cs1)
        else case f of
            Inl e \<Rightarrow> Inl (Err e)
          | Inr x \<Rightarrow> Inr (Witness index,
              cs1\<lparr>witness_assignment := witness_assignment cs1 @ [x]\<rparr>))"

section \<open>The satisfaction check\<close>

definition get_lc :: "'f::comm_ring_1 cs \<Rightarrow> variable \<Rightarrow> 'f lc option" where
  "get_lc cs v =
    (if v = Zero then Some []
     else case get_lc_index v of
         Some i \<Rightarrow> get_at (lc_map cs) i
       | None \<Rightarrow> Some (lc_from_var v))"

text \<open>The value of a constraint argument: the assigned one, else the sum of its combination.\<close>

definition argument_value :: "'f::comm_ring_1 cs \<Rightarrow> variable \<Rightarrow> 'f option" where
  "argument_value cs v = (case assigned_value cs v of
     Some x \<Rightarrow> Some x
   | None \<Rightarrow> (case get_lc cs v of None \<Rightarrow> None | Some l \<Rightarrow> eval_terms cs l))"

fun option_list :: "'a option list \<Rightarrow> 'a list option" where
  "option_list [] = Some []"
| "option_list (None # xs) = None"
| "option_list (Some x # xs) = (case option_list xs of None \<Rightarrow> None | Some ys \<Rightarrow> Some (x # ys))"

fun which_unsatisfied_loop ::
  "'f::comm_ring_1 cs \<Rightarrow> ('f \<times> (nat \<times> nat) list) list \<Rightarrow> nat \<Rightarrow> variable list list
   \<Rightarrow> fault + nat option" where
  "which_unsatisfied_loop cs terms i [] = Inr None"
| "which_unsatisfied_loop cs terms i (constraint # rest) =
    (case option_list (map (argument_value cs) constraint) of
       None \<Rightarrow> Inl Panic
     | Some vals \<Rightarrow>
         if \<not> predicate_is_satisfied terms vals then Inr (Some i)
         else which_unsatisfied_loop cs terms (i + 1) rest)"

definition which_is_unsatisfied :: "'f::comm_ring_1 cs \<Rightarrow> fault + nat option" where
  "which_is_unsatisfied cs =
    (if is_in_setup_mode cs then Inl (Err AssignmentMissing)
     else case r1cs cs of
         None \<Rightarrow> Inr None
       | Some p \<Rightarrow> which_unsatisfied_loop cs (pred_terms p) 0 (iter_constraints p))"

definition is_satisfied :: "'f::comm_ring_1 cs \<Rightarrow> fault + bool" where
  "is_satisfied cs = result_bind (which_is_unsatisfied cs) (\<lambda>u. Inr (u = None))"

end
