(* ===== verification/Circuit_Semantics.thy ===== *)
theory Circuit_Semantics
  imports Constraint_System
begin

text \<open>
  What a constraint system means, and the two judgements the gadgets are verified with.
  \<open>models w cs\<close>: the assignment \<open>w\<close> satisfies every linear combination and every constraint of
  \<open>cs\<close>.  \<open>sound m R\<close>: whenever the synthesis step \<open>m\<close> returns, every assignment that satisfies
  the constraint system it leaves is related by \<open>R\<close> to its result.  \<open>complete cs m Q\<close>: from the
  satisfied system \<open>cs\<close> the step returns, leaves a satisfied system and establishes \<open>Q\<close>.
\<close>

section \<open>Satisfying assignments\<close>

definition constraints :: "'f cs \<Rightarrow> variable list list" where
  "constraints cs = (case r1cs cs of None \<Rightarrow> [] | Some p \<Rightarrow> iter_constraints p)"

definition models :: "(variable \<Rightarrow> 'f::comm_ring_1) \<Rightarrow> 'f cs \<Rightarrow> bool" where
  "models w cs \<longleftrightarrow> w Zero = 0 \<and> w One = 1
     \<and> (\<forall>i<length (lc_map cs). w (SymbolicLc i) = lc_eval w (lc_map cs ! i))
     \<and> (\<forall>vs\<in>set (constraints cs). predicate_is_satisfied r1cs_terms (map w vs))"

definition r1cs_wf :: "'f::comm_ring_1 predicate_cs \<Rightarrow> bool" where
  "r1cs_wf p \<longleftrightarrow> pred_arity p = 3 \<and> pred_terms p = r1cs_terms
     \<and> (\<exists>a b c. argument_lcs p = [a, b, c] \<and> length a = num_constraints p
          \<and> length b = num_constraints p \<and> length c = num_constraints p)"

definition cs_wf :: "'f::comm_ring_1 cs \<Rightarrow> bool" where
  "cs_wf cs \<longleftrightarrow> should_construct_matrices cs
     \<and> num_linear_combinations cs = length (lc_map cs)
     \<and> lc_map cs \<noteq> [] \<and> lc_map cs ! 0 = []
     \<and> (\<exists>p. r1cs cs = Some p \<and> r1cs_wf p)"

definition cs_extends :: "'f cs \<Rightarrow> 'f cs \<Rightarrow> bool" where
  "cs_extends cs cs' \<longleftrightarrow> mode cs' = mode cs
     \<and> prefix (lc_map cs) (lc_map cs') \<and> prefix (constraints cs) (constraints cs')
     \<and> prefix (instance_assignment cs) (instance_assignment cs')
     \<and> prefix (witness_assignment cs) (witness_assignment cs')
     \<and> prefix (lc_assignment cs) (lc_assignment cs')"

lemma cs_extends_refl [simp]: "cs_extends cs cs"
  by (simp add: cs_extends_def)

lemma cs_extends_trans: "cs_extends a b \<Longrightarrow> cs_extends b c \<Longrightarrow> cs_extends a c"
  by (auto simp: cs_extends_def intro: prefix_order.trans)

lemma prefix_nth: "prefix xs ys \<Longrightarrow> i < length xs \<Longrightarrow> ys ! i = xs ! i"
  by (auto simp: prefix_def nth_append)

lemma models_mono:
  assumes "cs_extends cs cs'" "models w cs'"
  shows "models w cs"
proof -
  have "length (lc_map cs) \<le> length (lc_map cs')" "set (constraints cs) \<subseteq> set (constraints cs')"
    using assms(1) by (auto simp: cs_extends_def prefix_length_le dest: set_mono_prefix)
  moreover have "i < length (lc_map cs) \<Longrightarrow> lc_map cs' ! i = lc_map cs ! i" for i
    using assms(1) by (auto simp: cs_extends_def intro: prefix_nth)
  ultimately show ?thesis using assms(2) unfolding models_def by (metis order_less_le_trans subsetD)
qed

lemma models_consts [simp]: "models w cs \<Longrightarrow> w Zero = 0" "models w cs \<Longrightarrow> w One = 1"
  by (simp_all add: models_def)

lemma predicate_r1cs:
  "predicate_is_satisfied r1cs_terms [a, b, c] \<longleftrightarrow> a * b = (c::'f::comm_ring_1)"
  by (simp add: predicate_is_satisfied_def predicate_eval_def r1cs_terms_def)

lemma iter_constraints_push:
  assumes "r1cs_wf p"
  shows "\<exists>p'. pred_enforce_constraint [x, y, z] p = Inr p' \<and> r1cs_wf p'
    \<and> iter_constraints p' = iter_constraints p @ [[x, y, z]]"
proof -
  obtain a b c where abc: "argument_lcs p = [a, b, c]" "length a = num_constraints p"
    "length b = num_constraints p" "length c = num_constraints p"
    using assms by (auto simp: r1cs_wf_def)
  let ?p' = "p\<lparr>argument_lcs := [a @ [x], b @ [y], c @ [z]], num_constraints := num_constraints p + 1\<rparr>"
  have "pred_enforce_constraint [x, y, z] p = Inr ?p'"
    using assms abc(1) by (simp add: pred_enforce_constraint_def r1cs_wf_def Let_def)
  moreover have "r1cs_wf ?p'" using assms abc by (simp add: r1cs_wf_def)
  moreover have "iter_constraints ?p' = iter_constraints p @ [[x, y, z]]"
    using abc by (simp add: iter_constraints_def nth_append)
  ultimately show ?thesis by blast
qed

section \<open>Soundness of a step\<close>

definition sound :: "('f::comm_ring_1 cs, 'a) comp \<Rightarrow> ((variable \<Rightarrow> 'f) \<Rightarrow> 'a \<Rightarrow> bool) \<Rightarrow> bool" where
  "sound m R \<longleftrightarrow> (\<forall>cs x cs'. cs_wf cs \<longrightarrow> m cs = Inr (x, cs') \<longrightarrow>
     cs_wf cs' \<and> cs_extends cs cs' \<and> (\<forall>w. models w cs' \<longrightarrow> R w x))"

lemma soundI:
  assumes "\<And>cs x cs'. cs_wf cs \<Longrightarrow> m cs = Inr (x, cs') \<Longrightarrow>
     cs_wf cs' \<and> cs_extends cs cs' \<and> (\<forall>w. models w cs' \<longrightarrow> R w x)"
  shows "sound m R"
  using assms by (simp add: sound_def)

lemma soundD:
  assumes "sound m R" "cs_wf cs" "m cs = Inr (x, cs')"
  shows "cs_wf cs'" "cs_extends cs cs'" "models w cs' \<Longrightarrow> R w x"
  using assms unfolding sound_def by blast+

text \<open>The constants \<open>w Zero = 0\<close> and \<open>w One = 1\<close> may be used in every postcondition.\<close>

lemma sound_weaken:
  assumes "sound m P" "\<And>w x. w Zero = 0 \<Longrightarrow> w One = 1 \<Longrightarrow> P w x \<Longrightarrow> R w x"
  shows "sound m R"
  using assms unfolding sound_def by (metis models_consts)

lemma sound_ret [sound_intros]:
  "(\<And>w. w Zero = 0 \<Longrightarrow> w One = 1 \<Longrightarrow> R w x) \<Longrightarrow> sound (ret x) R"
  by (auto simp: sound_def)

lemma sound_raise [sound_intros]: "sound (raise e) R"
  by (simp add: sound_def)

lemma sound_unwrap: "sound m R \<Longrightarrow> sound (unwrap m) R"
  by (simp add: sound_def)

lemma sound_from_result: "(\<And>x. r = Inr x \<Longrightarrow> R x) \<Longrightarrow> sound (from_result r) (\<lambda>w. R)"
  by (auto simp: sound_def from_result_Inr_iff)

lemma sound_bind:
  assumes "sound m P" "\<And>x. sound (f x) (\<lambda>w r. P w x \<longrightarrow> R w r)"
  shows "sound (bind m f) R"
proof (rule soundI)
  fix cs r cs''
  assume wf: "cs_wf cs" and run: "bind m f cs = Inr (r, cs'')"
  then obtain x cs' where m: "m cs = Inr (x, cs')" and f: "f x cs' = Inr (r, cs'')"
    by (auto simp: bind_Inr_iff)
  note m' = soundD[OF assms(1) wf m]
  note f' = soundD[OF assms(2)[of x] m'(1) f]
  show "cs_wf cs'' \<and> cs_extends cs cs'' \<and> (\<forall>w. models w cs'' \<longrightarrow> R w r)"
    using m'(3) f' cs_extends_trans[OF m'(2) f'(2)] models_mono[OF f'(2)] by blast
qed

text \<open>A fact about the result that does not depend on an assignment.\<close>

definition returns :: "('s, 'a) comp \<Rightarrow> ('a \<Rightarrow> bool) \<Rightarrow> bool" where
  "returns m Q \<longleftrightarrow> (\<forall>cs x cs'. m cs = Inr (x, cs') \<longrightarrow> Q x)"

lemma returns_ret: "Q x \<Longrightarrow> returns (ret x) Q"
  by (simp add: returns_def)

lemma returns_raise: "returns (raise e) Q"
  by (simp add: returns_def)

lemma returns_bind: "(\<And>x. returns (f x) Q) \<Longrightarrow> returns (bind m f) Q"
  by (auto simp: returns_def bind_Inr_iff)

lemma returns_bind2: "returns m P \<Longrightarrow> (\<And>x. P x \<Longrightarrow> returns (f x) Q) \<Longrightarrow> returns (bind m f) Q"
  unfolding returns_def by (metis bind_Inr_iff)

lemma returns_map_m_length: "returns (map_m f xs) (\<lambda>ys. length ys = length xs)"
proof (induction xs)
  case (Cons x xs)
  show ?case
    unfolding map_m.simps
    by (rule returns_bind, rule returns_bind2[OF Cons.IH], rule returns_ret) simp
qed (simp add: returns_ret)

lemma sound_bind_returns:
  assumes "returns m Q" "sound m P" "\<And>x. Q x \<Longrightarrow> sound (f x) (\<lambda>w r. P w x \<longrightarrow> R w r)"
  shows "sound (bind m f) R"
proof (rule soundI)
  fix cs r cs''
  assume wf: "cs_wf cs" and run: "bind m f cs = Inr (r, cs'')"
  then obtain x cs' where m: "m cs = Inr (x, cs')" and f: "f x cs' = Inr (r, cs'')"
    by (auto simp: bind_Inr_iff)
  have "Q x" using assms(1) m unfolding returns_def by blast
  note m' = soundD[OF assms(2) wf m]
  note f' = soundD[OF assms(3)[OF \<open>Q x\<close>] m'(1) f]
  show "cs_wf cs'' \<and> cs_extends cs cs'' \<and> (\<forall>w. models w cs'' \<longrightarrow> R w r)"
    using m'(3) f' cs_extends_trans[OF m'(2) f'(2)] models_mono[OF f'(2)] by blast
qed

lemma sound_true: "sound m P \<Longrightarrow> (\<And>w x. P w x \<Longrightarrow> R w x) \<Longrightarrow> sound m R"
  by (rule sound_weaken)

lemma sound_map_m:
  assumes "\<And>x. x \<in> set xs \<Longrightarrow> sound (f x) (\<lambda>w y. R w x y)"
  shows "sound (map_m f xs) (\<lambda>w ys. list_all2 (R w) xs ys)"
  using assms
proof (induction xs)
  case (Cons x xs)
  have ih: "sound (map_m f xs) (\<lambda>w ys. list_all2 (R w) xs ys)"
    by (rule Cons.IH) (simp add: Cons.prems)
  show ?case
    unfolding map_m.simps
    by (rule sound_bind[OF Cons.prems[of x]], simp)
      (rule sound_bind[OF ih], rule sound_ret, simp)
qed (simp add: sound_ret)

text \<open>A loop: an invariant \<open>I\<close> over the items processed so far.\<close>

lemma sound_fold_m:
  assumes "\<And>x acc. x \<in> set xs \<Longrightarrow> sound (f x acc) (\<lambda>w acc'. S w x acc acc')"
    and "\<And>w x acc acc' ys. S w x acc acc' \<Longrightarrow> I w ys acc \<Longrightarrow> I w (ys @ [x]) acc'"
  shows "sound (fold_m f xs acc) (\<lambda>w acc'. I w ys acc \<longrightarrow> I w (ys @ xs) acc')"
  using assms
proof (induction xs arbitrary: acc ys)
  case Nil
  show ?case by (simp add: sound_ret)
next
  case (Cons x xs)
  show ?case
    unfolding fold_m.simps
  proof (rule sound_bind[OF Cons.prems(1)[of x acc]])
    fix acc'
    have "sound (fold_m f xs acc') (\<lambda>w acc''. I w (ys @ [x]) acc' \<longrightarrow> I w ((ys @ [x]) @ xs) acc'')"
      by (rule Cons.IH) (use Cons.prems in auto)
    then show "sound (fold_m f xs acc')
       (\<lambda>w r. S w x acc acc' \<longrightarrow> I w ys acc \<longrightarrow> I w (ys @ x # xs) r)"
      by (rule sound_weaken) (use Cons.prems(2) in auto)
  qed simp
qed

text \<open>
  Simulation of an outcome without a state: \<open>g\<close> gives the value of an item under an assignment,
  \<open>h\<close> that of a result.
\<close>

lemma sound_lift: "sound (lift r) (\<lambda>w x. r = Inr x)"
  by (auto simp: sound_def lift_Inr_iff)

lemma sound_result_map:
  assumes "\<And>x. x \<in> set xs \<Longrightarrow> sound (f x) (\<lambda>w y. f' (g w x) = Inr (h w y))"
  shows "sound (map_m f xs) (\<lambda>w ys. result_map f' (map (g w) xs) = Inr (map (h w) ys))"
proof (rule sound_weaken[OF sound_map_m[OF assms]])
  fix w ys assume "list_all2 (\<lambda>x y. f' (g w x) = Inr (h w y)) xs ys"
  then show "result_map f' (map (g w) xs) = Inr (map (h w) ys)"
    by (induction rule: list_all2_induct) auto
qed

lemma sound_result_fold:
  assumes "\<And>x acc. x \<in> set xs \<Longrightarrow> sound (f x acc) (\<lambda>w acc'. f' (g w x) (h w acc) = Inr (h w acc'))"
  shows "sound (fold_m f xs acc) (\<lambda>w r. result_fold f' (map (g w) xs) (h w acc) = Inr (h w r))"
  using assms
proof (induction xs arbitrary: acc)
  case (Cons x xs)
  show ?case
    unfolding fold_m.simps
    by (rule sound_bind[OF Cons.prems(1)], simp, rule sound_weaken[OF Cons.IH]) (use Cons.prems in auto)
qed (simp add: sound_ret)

section \<open>Soundness of the operations of the constraint system\<close>

lemma constraints_lc_upd [simp]:
  "constraints (cs\<lparr>lc_map := a\<rparr>) = constraints cs"
  "constraints (cs\<lparr>lc_assignment := b\<rparr>) = constraints cs"
  "constraints (cs\<lparr>num_linear_combinations := n\<rparr>) = constraints cs"
  "constraints (cs\<lparr>num_witness_variables := n\<rparr>) = constraints cs"
  "constraints (cs\<lparr>num_instance_variables := n\<rparr>) = constraints cs"
  "constraints (cs\<lparr>instance_assignment := d\<rparr>) = constraints cs"
  "constraints (cs\<lparr>witness_assignment := d\<rparr>) = constraints cs"
  by (simp_all add: constraints_def)

lemma should_construct_upd [simp]:
  "should_construct_matrices (cs\<lparr>lc_map := a\<rparr>) = should_construct_matrices cs"
  "should_construct_matrices (cs\<lparr>lc_assignment := b\<rparr>) = should_construct_matrices cs"
  "should_construct_matrices (cs\<lparr>num_linear_combinations := n\<rparr>) = should_construct_matrices cs"
  "should_construct_matrices (cs\<lparr>num_witness_variables := n\<rparr>) = should_construct_matrices cs"
  "should_construct_matrices (cs\<lparr>num_instance_variables := n\<rparr>) = should_construct_matrices cs"
  "should_construct_matrices (cs\<lparr>instance_assignment := d\<rparr>) = should_construct_matrices cs"
  "should_construct_matrices (cs\<lparr>witness_assignment := d\<rparr>) = should_construct_matrices cs"
  "should_construct_matrices (cs\<lparr>r1cs := e\<rparr>) = should_construct_matrices cs"
  by (simp_all add: should_construct_matrices_def)

lemma sound_new_lc_add_helper: "sound (new_lc_add_helper l) (\<lambda>w v. w v = lc_eval w l)"
proof (rule soundI)
  fix cs x cs'
  assume wf: "cs_wf cs" and run: "new_lc_add_helper l cs = Inr (x, cs')"
  have sym0: "models w cs \<Longrightarrow> w (SymbolicLc 0) = 0" for w
    using wf unfolding cs_wf_def models_def by (metis lc_eval_simps(1) length_greater_0_conv)
  consider (empty) "l = [] \<or> length l = 1 \<and> snd (hd l) = Zero"
    | (single) "\<not> (l = [] \<or> length l = 1 \<and> snd (hd l) = Zero)" "length l = 1 \<and> fst (hd l) = 1"
    | (other) "\<not> (l = [] \<or> length l = 1 \<and> snd (hd l) = Zero)" "\<not> (length l = 1 \<and> fst (hd l) = 1)"
    by blast
  then show "cs_wf cs' \<and> cs_extends cs cs' \<and> (\<forall>w. models w cs' \<longrightarrow> w x = lc_eval w l)"
  proof cases
    case empty
    then have "x = SymbolicLc 0" "cs' = cs" using run by (simp_all add: new_lc_add_helper_def)
    moreover have "models w cs \<Longrightarrow> lc_eval w l = 0" for w
      using empty by (cases l) auto
    ultimately show ?thesis using wf sym0 by simp
  next
    case single
    then have "x = snd (hd l)" "cs' = cs" using run by (simp_all add: new_lc_add_helper_def)
    moreover have "lc_eval w l = w (snd (hd l))" for w using single by (cases l) auto
    ultimately show ?thesis using wf by simp
  next
    case other
    then have cs': "lc_map cs' = lc_map cs @ [l]" "mode cs' = mode cs" "r1cs cs' = r1cs cs"
        "num_linear_combinations cs' = num_linear_combinations cs + 1"
        "instance_assignment cs' = instance_assignment cs"
        "witness_assignment cs' = witness_assignment cs"
        "prefix (lc_assignment cs) (lc_assignment cs')"
        "x = SymbolicLc (num_linear_combinations cs)"
      using run unfolding new_lc_add_helper_def Let_def
      by (auto split: if_splits option.splits)
    have "cs_wf cs'" using wf cs' by (auto simp: cs_wf_def nth_append should_construct_matrices_def)
    moreover have "cs_extends cs cs'" using cs' by (simp add: cs_extends_def constraints_def)
    moreover have "w x = lc_eval w l" if "models w cs'" for w
    proof -
      have "w (SymbolicLc (length (lc_map cs))) = lc_eval w (lc_map cs' ! length (lc_map cs))"
        using that cs' unfolding models_def by simp
      then show ?thesis using wf cs' by (simp add: cs_wf_def)
    qed
    ultimately show ?thesis by blast
  qed
qed

lemma sound_cases:
  assumes "\<And>cs. cs_wf cs \<Longrightarrow> m cs = m' cs" "sound m' R"
  shows "sound m R"
  using assms unfolding sound_def by metis

lemma sound_new_lc [sound_intros]: "sound (new_lc l) (\<lambda>w v. w v = lc_eval w l)"
  by (rule sound_cases[OF _ sound_new_lc_add_helper]) (simp add: new_lc_def cs_wf_def)

lemma sound_new_constraint_lc: "sound (new_constraint_lc l) (\<lambda>w v. w v = lc_eval w l)"
  by (rule sound_cases[OF _ sound_new_lc]) (simp add: new_constraint_lc_def cs_wf_def)

lemma push_constraint_step:
  assumes wf: "cs_wf cs"
  shows "\<exists>cs'. push_constraint [a, b, c] cs = Inr ((), cs') \<and> cs_wf cs' \<and> cs_extends cs cs'
    \<and> constraints cs' = constraints cs @ [[a, b, c]]
    \<and> (\<exists>p'. cs' = cs\<lparr>r1cs := Some p'\<rparr>)"
proof -
  obtain p where p: "r1cs cs = Some p" "r1cs_wf p" using wf by (auto simp: cs_wf_def)
  obtain p' where p': "pred_enforce_constraint [a, b, c] p = Inr p'" "r1cs_wf p'"
      "iter_constraints p' = iter_constraints p @ [[a, b, c]]"
    using iter_constraints_push[OF p(2)] by blast
  have "push_constraint [a, b, c] cs = Inr ((), cs\<lparr>r1cs := Some p'\<rparr>)"
    using p p' by (simp add: push_constraint_def)
  moreover have "cs_wf (cs\<lparr>r1cs := Some p'\<rparr>)" using wf p'(2) by (simp add: cs_wf_def)
  moreover have "constraints (cs\<lparr>r1cs := Some p'\<rparr>) = constraints cs @ [[a, b, c]]"
    using p p' by (simp add: constraints_def)
  ultimately show ?thesis by (intro exI[of _ "cs\<lparr>r1cs := Some p'\<rparr>"]) (auto simp: cs_extends_def)
qed

lemma sound_push_constraint: "sound (push_constraint [a, b, c]) (\<lambda>w _. w a * w b = w c)"
proof (rule soundI)
  fix cs cs' :: "'a cs" and x
  assume wf: "cs_wf cs" and run: "push_constraint [a, b, c] cs = Inr (x, cs')"
  obtain cs1 where cs1: "push_constraint [a, b, c] cs = Inr ((), cs1)" "cs_wf cs1" "cs_extends cs cs1"
      "constraints cs1 = constraints cs @ [[a, b, c]]"
    using push_constraint_step[OF wf, of a b c] by blast
  then have "cs' = cs1" using run by simp
  moreover have "w a * w b = w c" if "models w cs1" for w
  proof -
    have "predicate_is_satisfied r1cs_terms (map w [a, b, c])"
      using that cs1(4) unfolding models_def by (metis in_set_conv_decomp)
    then show ?thesis by (simp add: predicate_r1cs)
  qed
  ultimately show "cs_wf cs' \<and> cs_extends cs cs' \<and> (\<forall>w. models w cs' \<longrightarrow> w a * w b = w c)"
    using cs1 by blast
qed

lemma sound_enforce_r1cs [sound_intros]:
  "sound (enforce_r1cs_constraint a b c) (\<lambda>w _. lc_eval w a * lc_eval w b = lc_eval w c)"
proof (rule sound_cases)
  fix cs :: "'a cs" assume "cs_wf cs"
  then show "enforce_r1cs_constraint a b c cs =
      bind (new_constraint_lc a) (\<lambda>a. bind (new_constraint_lc b) (\<lambda>b.
            bind (new_constraint_lc c) (\<lambda>c. push_constraint [a, b, c]))) cs"
    by (auto simp: enforce_r1cs_constraint_def enforce_constraint_arity_3_def cs_wf_def)
next
  show "sound (bind (new_constraint_lc a) (\<lambda>a. bind (new_constraint_lc b) (\<lambda>b.
            bind (new_constraint_lc c) (\<lambda>c. push_constraint [a, b, c]))))
     (\<lambda>w _. lc_eval w a * lc_eval w b = lc_eval w c)"
    by (intro sound_bind[OF sound_new_constraint_lc] sound_weaken[OF sound_push_constraint] impI)
      (simp only:)
qed

lemma sound_new_witness_variable [sound_intros]:
  "sound (new_witness_variable f) (\<lambda>w v. True)"
  by (rule soundI)
    (auto simp: new_witness_variable_def Let_def cs_wf_def cs_extends_def split: if_splits sum.splits)

lemma sound_new_input_variable [sound_intros]:
  "sound (new_input_variable f) (\<lambda>w v. True)"
  by (rule soundI)
    (auto simp: new_input_variable_def Let_def cs_wf_def cs_extends_def split: if_splits sum.splits)

lemma cs_wf_new: "cs_wf cs_new"
  by (auto simp: cs_wf_def cs_new_def should_construct_matrices_def r1cs_wf_def new_r1cs_def
    numeral_3_eq_3)


section \<open>The assignment a constraint system carries\<close>

definition val :: "'f::comm_ring_1 cs \<Rightarrow> variable \<Rightarrow> 'f \<Rightarrow> bool" where
  "val cs v x \<longleftrightarrow> assigned_value cs v = Some x"

definition assign :: "'f::comm_ring_1 cs \<Rightarrow> variable \<Rightarrow> 'f" where
  "assign cs v = (case assigned_value cs v of Some x \<Rightarrow> x | None \<Rightarrow> 0)"

definition assigned :: "'f::comm_ring_1 cs \<Rightarrow> variable set \<Rightarrow> bool" where
  "assigned cs V \<longleftrightarrow> (\<forall>v\<in>V. assigned_value cs v \<noteq> None)"

text \<open>
  A \<open>tracked\<close> system keeps its values in step with its structure: it is in proving mode, every
  variable in use has a value, and a symbolic linear combination has the value of its terms.
  An \<open>honest\<close> one in addition satisfies its constraints.
\<close>

definition tracked :: "'f::comm_ring_1 cs \<Rightarrow> bool" where
  "tracked cs \<longleftrightarrow> cs_wf cs \<and> mode cs = Prove True True
     \<and> length (instance_assignment cs) = num_instance_variables cs
     \<and> length (witness_assignment cs) = num_witness_variables cs
     \<and> length (lc_assignment cs) = length (lc_map cs)
     \<and> (\<forall>l\<in>set (lc_map cs). assigned cs (lc_vars l))
     \<and> (\<forall>vs\<in>set (constraints cs). length vs = 3 \<and> assigned cs (set vs))
     \<and> (\<forall>i<length (lc_map cs). lc_assignment cs ! i = lc_eval (assign cs) (lc_map cs ! i))"

definition honest :: "'f::comm_ring_1 cs \<Rightarrow> bool" where
  "honest cs \<longleftrightarrow> tracked cs
     \<and> (\<forall>vs\<in>set (constraints cs). predicate_is_satisfied r1cs_terms (map (assign cs) vs))"

lemma val_consts [simp]:
  "val cs Zero x \<longleftrightarrow> x = 0" "val cs One x \<longleftrightarrow> x = 1"
  by (auto simp: val_def assigned_value_def)

lemma assign_val [simp]: "val cs v x \<Longrightarrow> assign cs v = x"
  by (simp add: val_def assign_def)

lemma assigned_simps [simp]:
  "assigned cs {}"
  "assigned cs (insert v V) \<longleftrightarrow> (\<exists>x. val cs v x) \<and> assigned cs V"
  "assigned cs (U \<union> V) \<longleftrightarrow> assigned cs U \<and> assigned cs V"
  by (auto simp: assigned_def val_def)

lemma assigned_subset: "assigned cs V \<Longrightarrow> U \<subseteq> V \<Longrightarrow> assigned cs U"
  by (auto simp: assigned_def)

lemma get_at_prefix: "prefix xs ys \<Longrightarrow> get_at xs i = Some x \<Longrightarrow> get_at ys i = Some x"
  by (auto simp: get_at_def prefix_nth dest: prefix_length_le split: if_splits)

lemma val_mono: "cs_extends cs cs' \<Longrightarrow> val cs v x \<Longrightarrow> val cs' v x"
  unfolding val_def assigned_value_def cs_extends_def
  by (cases v) (auto dest: get_at_prefix)

lemma assigned_mono: "cs_extends cs cs' \<Longrightarrow> assigned cs V \<Longrightarrow> assigned cs' V"
  unfolding assigned_def by (metis not_None_eq val_def val_mono)

lemma assign_mono: "cs_extends cs cs' \<Longrightarrow> assigned cs V \<Longrightarrow> v \<in> V \<Longrightarrow> assign cs' v = assign cs v"
  unfolding assigned_def by (metis assign_val not_None_eq val_def val_mono)

lemma lc_eval_assign_mono:
  "cs_extends cs cs' \<Longrightarrow> assigned cs (lc_vars l) \<Longrightarrow> lc_eval (assign cs') l = lc_eval (assign cs) l"
  by (rule lc_eval_cong) (simp add: assign_mono lc_vars_def)

lemma eval_terms_assigned:
  "assigned cs (lc_vars l) \<Longrightarrow> eval_terms cs l = Some (lc_eval (assign cs) l)"
  by (induction l) (auto simp: val_def assign_def)

lemma tracked_models_lc:
  "tracked cs \<Longrightarrow> i < length (lc_map cs) \<Longrightarrow> assign cs (SymbolicLc i) = lc_eval (assign cs) (lc_map cs ! i)"
  by (simp add: tracked_def assign_def assigned_value_def get_at_def)

lemma assign_consts: "assign cs Zero = 0 \<longleftrightarrow> True" "assign cs One = 1 \<longleftrightarrow> True"
  by (simp_all add: assign_def assigned_value_def)

lemma honest_models: "honest cs \<longleftrightarrow> tracked cs \<and> models (assign cs) cs"
  unfolding honest_def models_def assign_consts using tracked_models_lc by blast

text \<open>The check of the code answers whether the carried assignment satisfies the system.\<close>

lemma option_list_Some: "(\<And>x. x \<in> set xs \<Longrightarrow> f x = Some (g x)) \<Longrightarrow> option_list (map f xs) = Some (map g xs)"
  by (induction xs) auto

lemma argument_value_assigned: "assigned cs {v} \<Longrightarrow> argument_value cs v = Some (assign cs v)"
  by (auto simp: argument_value_def val_def assign_def)

lemma which_unsatisfied_loop_correct:
  "(\<And>vs. vs \<in> set css \<Longrightarrow> assigned cs (set vs)) \<Longrightarrow>
   \<exists>u. which_unsatisfied_loop cs terms i css = Inr u
     \<and> (u = None \<longleftrightarrow> (\<forall>vs\<in>set css. predicate_is_satisfied terms (map (assign cs) vs)))"
proof (induction css arbitrary: i)
  case (Cons vs css)
  have "option_list (map (argument_value cs) vs) = Some (map (assign cs) vs)"
    using Cons.prems[of vs] by (intro option_list_Some argument_value_assigned) (auto simp: assigned_def)
  then show ?case using Cons.IH[of "i + 1"] Cons.prems by auto
qed simp

lemma is_satisfied_tracked:
  assumes "tracked cs"
  shows "is_satisfied cs = Inr (models (assign cs) cs)"
proof -
  obtain p where p: "r1cs cs = Some p" "r1cs_wf p" "iter_constraints p = constraints cs"
    using assms by (auto simp: tracked_def cs_wf_def constraints_def)
  have "\<And>vs. vs \<in> set (constraints cs) \<Longrightarrow> assigned cs (set vs)" using assms by (simp add: tracked_def)
  then obtain u where u: "which_unsatisfied_loop cs r1cs_terms 0 (constraints cs) = Inr u"
      "u = None \<longleftrightarrow> (\<forall>vs\<in>set (constraints cs). predicate_is_satisfied r1cs_terms (map (assign cs) vs))"
    using which_unsatisfied_loop_correct by blast
  have "which_is_unsatisfied cs = Inr u"
    using assms p u by (simp add: which_is_unsatisfied_def tracked_def is_in_setup_mode_def r1cs_wf_def)
  moreover have "u = None \<longleftrightarrow> models (assign cs) cs"
    using u(2) assms honest_def honest_models by blast
  ultimately show ?thesis by (simp add: is_satisfied_def)
qed

section \<open>Completeness of a step\<close>

definition complete :: "'f::comm_ring_1 cs \<Rightarrow> ('f cs, 'a) comp \<Rightarrow> ('a \<Rightarrow> 'f cs \<Rightarrow> bool) \<Rightarrow> bool" where
  "complete cs m Q \<longleftrightarrow> (honest cs \<longrightarrow>
     (\<exists>x cs'. m cs = Inr (x, cs') \<and> honest cs' \<and> cs_extends cs cs' \<and> Q x cs'))"

lemma completeI:
  "(honest cs \<Longrightarrow> \<exists>x cs'. m cs = Inr (x, cs') \<and> honest cs' \<and> cs_extends cs cs' \<and> Q x cs')
   \<Longrightarrow> complete cs m Q"
  by (simp add: complete_def)

lemma completeE:
  assumes "complete cs m Q" "honest cs"
  obtains x cs' where "m cs = Inr (x, cs')" "honest cs'" "cs_extends cs cs'" "Q x cs'"
  using assms by (auto simp: complete_def)

lemma complete_weaken:
  assumes "complete cs m P" "\<And>x cs'. cs_extends cs cs' \<Longrightarrow> P x cs' \<Longrightarrow> Q x cs'"
  shows "complete cs m Q"
  using assms unfolding complete_def by meson

lemma complete_ret [complete_intros]: "Q x cs \<Longrightarrow> complete cs (ret x) Q"
  by (simp add: complete_def)

lemma complete_bind:
  assumes m: "complete cs m P"
    and f: "\<And>x cs'. cs_extends cs cs' \<Longrightarrow> P x cs' \<Longrightarrow> complete cs' (f x) Q"
  shows "complete cs (bind m f) Q"
proof (rule completeI)
  assume "honest cs"
  then obtain x cs' where 1: "m cs = Inr (x, cs')" "honest cs'" "cs_extends cs cs'" "P x cs'"
    by (rule completeE[OF m])
  obtain y cs'' where 2: "f x cs' = Inr (y, cs'')" "honest cs''" "cs_extends cs' cs''" "Q y cs''"
    by (rule completeE[OF f[OF 1(3,4)] 1(2)])
  show "\<exists>y cs''. bind m f cs = Inr (y, cs'') \<and> honest cs'' \<and> cs_extends cs cs'' \<and> Q y cs''"
    using 1 2 cs_extends_trans[OF 1(3) 2(3)] by (intro exI[of _ y] exI[of _ cs'']) simp
qed

lemma complete_unwrap: "complete cs m Q \<Longrightarrow> complete cs (unwrap m) Q"
  unfolding complete_def by simp

lemma complete_map_m:
  assumes "\<And>x cs'. x \<in> set xs \<Longrightarrow> cs_extends cs cs' \<Longrightarrow> complete cs' (f x) (\<lambda>y cs''. R cs'' x y)"
    and mono: "\<And>cs1 cs2 x y. cs_extends cs1 cs2 \<Longrightarrow> R cs1 x y \<Longrightarrow> R cs2 x y"
  shows "complete cs (map_m f xs) (\<lambda>ys cs'. list_all2 (R cs') xs ys)"
  using assms(1)
proof (induction xs arbitrary: cs)
  case (Cons x xs)
  have tl: "complete cs' (map_m f xs) (\<lambda>ys cs'. list_all2 (R cs') xs ys)" if "cs_extends cs cs'" for cs'
    by (rule Cons.IH, rule Cons.prems) (auto intro: cs_extends_trans[OF that])
  show ?case
    unfolding map_m.simps
  proof (rule complete_bind[OF Cons.prems[of x cs]])
    fix y cs' assume 1: "cs_extends cs cs'" "R cs' x y"
    show "complete cs' (bind (map_m f xs) (\<lambda>ys. ret (y # ys))) (\<lambda>ys cs'. list_all2 (R cs') (x # xs) ys)"
      by (rule complete_bind[OF tl[OF 1(1)]], rule complete_ret) (auto intro: mono 1(2))
  qed simp_all
qed (simp add: complete_ret)

text \<open>A map over items that carry values: \<open>P\<close> relates an item to its value, \<open>R\<close> its result.\<close>

lemma complete_map_m_values:
  assumes "list_all2 (P cs) xs vs"
    and "\<And>cs' x v. cs_extends cs cs' \<Longrightarrow> P cs' x v \<Longrightarrow> complete cs' (f x) (\<lambda>y cs''. R cs'' y v)"
    and P: "\<And>cs1 cs2 x v. cs_extends cs1 cs2 \<Longrightarrow> P cs1 x v \<Longrightarrow> P cs2 x v"
    and R: "\<And>cs1 cs2 y v. cs_extends cs1 cs2 \<Longrightarrow> R cs1 y v \<Longrightarrow> R cs2 y v"
  shows "complete cs (map_m f xs) (\<lambda>ys cs'. list_all2 (R cs') ys vs)"
  using assms(1,2)
proof (induction xs arbitrary: cs vs)
  case Nil
  then show ?case by (simp add: complete_ret)
next
  case (Cons x xs)
  then obtain v vs' where vs: "vs = v # vs'" "P cs x v" "list_all2 (P cs) xs vs'"
    by (auto simp: list_all2_Cons1)
  show ?case
    unfolding map_m.simps
  proof (rule complete_bind[OF Cons.prems(2)[OF cs_extends_refl vs(2)]])
    fix y cs1 assume 1: "cs_extends cs cs1" "R cs1 y v"
    have "complete cs1 (map_m f xs) (\<lambda>ys cs'. list_all2 (R cs') ys vs')"
    proof (rule Cons.IH)
      show "list_all2 (P cs1) xs vs'" using vs(3) by (rule list_all2_mono) (rule P[OF 1(1)])
    qed (rule Cons.prems(2)[OF cs_extends_trans[OF 1(1)]])
    then show "complete cs1 (bind (map_m f xs) (\<lambda>ys. ret (y # ys))) (\<lambda>ys cs'. list_all2 (R cs') ys vs)"
      by (rule complete_bind, intro complete_ret) (use 1(2) R in \<open>auto simp: vs(1)\<close>)
  qed
qed

lemma complete_fold_m:
  assumes "\<And>x acc cs' ys zs. xs = ys @ x # zs \<Longrightarrow> cs_extends cs cs' \<Longrightarrow> I ys acc cs' \<Longrightarrow>
      complete cs' (f x acc) (\<lambda>acc' cs''. I (ys @ [x]) acc' cs'')"
    and "I [] acc cs"
  shows "complete cs (fold_m f xs acc) (\<lambda>acc' cs'. I xs acc' cs')"
proof -
  have "complete cs' (fold_m f zs acc) (\<lambda>acc' cs''. I xs acc' cs'')"
    if "xs = ys @ zs" "cs_extends cs cs'" "I ys acc cs'" for ys zs acc cs'
    using that
  proof (induction zs arbitrary: ys acc cs')
    case (Cons z zs)
    show ?case unfolding fold_m.simps
    proof (rule complete_bind[OF assms(1)[OF Cons.prems]])
      fix acc' cs'' assume "cs_extends cs' cs''" "I (ys @ [z]) acc' cs''"
      then show "complete cs'' (fold_m f zs acc') (\<lambda>acc' cs''. I xs acc' cs'')"
        using Cons.IH[of "ys @ [z]" cs'' acc'] Cons.prems(1,2) cs_extends_trans by auto
    qed
  qed (simp add: complete_ret)
  from this[of "[]" xs cs acc] assms(2) show ?thesis by simp
qed


lemma complete_raise [complete_intros]: "False \<Longrightarrow> complete cs (raise e) Q"
  by simp

lemma complete_lift: "r = Inr x \<Longrightarrow> complete cs (lift r) (\<lambda>y cs'. y = x)"
  by (simp add: complete_ret)

lemma complete_result_map:
  assumes "list_all2 (P cs) xs vs" "result_map f' vs = Inr us"
    and "\<And>cs' x v u. cs_extends cs cs' \<Longrightarrow> P cs' x v \<Longrightarrow> f' v = Inr u \<Longrightarrow>
      complete cs' (f x) (\<lambda>y cs''. R cs'' y u)"
    and P: "\<And>cs1 cs2 x v. cs_extends cs1 cs2 \<Longrightarrow> P cs1 x v \<Longrightarrow> P cs2 x v"
    and R: "\<And>cs1 cs2 y u. cs_extends cs1 cs2 \<Longrightarrow> R cs1 y u \<Longrightarrow> R cs2 y u"
  shows "complete cs (map_m f xs) (\<lambda>ys cs'. list_all2 (R cs') ys us)"
proof -
  have "list_all2 (\<lambda>v u. f' v = Inr u) vs us" using assms(2)
    by (induction vs arbitrary: us) (auto simp: result_bind_Inr_iff)
  with assms(1) have "list_all2 (\<lambda>x u. \<exists>v. P cs x v \<and> f' v = Inr u) xs us"
    by (rule list_all2_trans[rotated]) auto
  then show ?thesis
    by (rule complete_map_m_values[where P = "\<lambda>cs x u. \<exists>v. P cs x v \<and> f' v = Inr u"])
      (use assms(3) P R in blast)+
qed

lemma complete_result_fold:
  assumes "list_all2 (P cs) xs vs" "A cs acc a" "result_fold f' vs a = Inr r"
    and "\<And>cs' x v acc a b. cs_extends cs cs' \<Longrightarrow> P cs' x v \<Longrightarrow> A cs' acc a \<Longrightarrow> f' v a = Inr b \<Longrightarrow>
      complete cs' (f x acc) (\<lambda>acc' cs''. A cs'' acc' b)"
    and P: "\<And>cs1 cs2 x v. cs_extends cs1 cs2 \<Longrightarrow> P cs1 x v \<Longrightarrow> P cs2 x v"
  shows "complete cs (fold_m f xs acc) (\<lambda>acc' cs'. A cs' acc' r)"
  using assms(1-4)
proof (induction xs arbitrary: cs vs acc a)
  case Nil
  then show ?case by (simp add: complete_ret)
next
  case (Cons x xs)
  then obtain v vs' b where vs: "vs = v # vs'" "P cs x v" "list_all2 (P cs) xs vs'"
      "f' v a = Inr b" "result_fold f' vs' b = Inr r"
    by (auto simp: list_all2_Cons1 result_bind_Inr_iff)
  show ?case
    unfolding fold_m.simps
  proof (rule complete_bind[OF Cons.prems(4)[OF cs_extends_refl vs(2) Cons.prems(2) vs(4)]])
    fix acc' cs1 assume 1: "cs_extends cs cs1" "A cs1 acc' b"
    show "complete cs1 (fold_m f xs acc') (\<lambda>acc' cs'. A cs' acc' r)"
    proof (rule Cons.IH[OF _ 1(2) vs(5)])
      show "list_all2 (P cs1) xs vs'" using vs(3) by (rule list_all2_mono) (rule P[OF 1(1)])
    qed (rule Cons.prems(4)[OF cs_extends_trans[OF 1(1)]])
  qed
qed

section \<open>Completeness of the operations of the constraint system\<close>

lemma honest_extendsI:
  assumes h: "honest cs" and e: "cs_extends cs cs'" and wf: "cs_wf cs'"
    and len: "length (instance_assignment cs') = num_instance_variables cs'"
      "length (witness_assignment cs') = num_witness_variables cs'"
      "length (lc_assignment cs') = length (lc_map cs')"
    and lcs: "lc_map cs' = lc_map cs @ ls" "\<And>l. l \<in> set ls \<Longrightarrow> assigned cs' (lc_vars l)"
      "\<And>i. length (lc_map cs) \<le> i \<Longrightarrow> i < length (lc_map cs') \<Longrightarrow>
         lc_assignment cs' ! i = lc_eval (assign cs') (lc_map cs' ! i)"
    and css: "constraints cs' = constraints cs @ css"
      "\<And>vs. vs \<in> set css \<Longrightarrow> length vs = 3 \<and> assigned cs' (set vs)
         \<and> predicate_is_satisfied r1cs_terms (map (assign cs') vs)"
  shows "honest cs'"
proof -
  note t = h[unfolded honest_def tracked_def]
  have lc_old: "lc_assignment cs' ! i = lc_eval (assign cs') (lc_map cs' ! i)"
    if i: "i < length (lc_map cs)" for i
  proof -
    have l: "lc_map cs ! i \<in> set (lc_map cs)" using i by simp
    have "lc_assignment cs' ! i = lc_assignment cs ! i"
      using e t i by (intro prefix_nth) (auto simp: cs_extends_def)
    also have "\<dots> = lc_eval (assign cs) (lc_map cs ! i)" using t i by blast
    also have "\<dots> = lc_eval (assign cs') (lc_map cs ! i)"
      using t l lc_eval_assign_mono[OF e] by metis
    finally show ?thesis using i by (simp add: lcs(1) nth_append)
  qed
  have "map (assign cs') vs = map (assign cs) vs" if "vs \<in> set (constraints cs)" for vs
    using t that by (intro map_cong refl assign_mono[OF e, of "set vs"]) auto
  then have "\<forall>vs\<in>set (constraints cs). predicate_is_satisfied r1cs_terms (map (assign cs') vs)"
    using t by metis
  then have "\<forall>vs\<in>set (constraints cs'). predicate_is_satisfied r1cs_terms (map (assign cs') vs)"
    using css by auto
  moreover have "\<forall>vs\<in>set (constraints cs'). length vs = 3 \<and> assigned cs' (set vs)"
    using t css assigned_mono[OF e] by auto
  moreover have "\<forall>l\<in>set (lc_map cs'). assigned cs' (lc_vars l)"
    using t lcs assigned_mono[OF e] by auto
  moreover have "\<forall>i<length (lc_map cs'). lc_assignment cs' ! i = lc_eval (assign cs') (lc_map cs' ! i)"
    using lc_old lcs(3) by (metis not_le)
  moreover have "mode cs' = Prove True True" using t e by (simp add: cs_extends_def)
  ultimately show ?thesis unfolding honest_def tracked_def using wf len by blast
qed

lemma complete_new_witness_variable [complete_intros]:
  "complete cs (new_witness_variable (Inr x)) (\<lambda>v cs'. val cs' v x)"
proof (rule completeI)
  assume h: "honest cs"
  then have t: "tracked cs" by (simp add: honest_def)
  let ?i = "num_witness_variables cs"
  let ?cs' = "cs\<lparr>num_witness_variables := ?i + 1, witness_assignment := witness_assignment cs @ [x]\<rparr>"
  have run: "new_witness_variable (Inr x) cs = Inr (Witness ?i, ?cs')"
    using t by (simp add: new_witness_variable_def is_in_setup_mode_def tracked_def Let_def)
  have e: "cs_extends cs ?cs'" by (simp add: cs_extends_def)
  have "honest ?cs'"
    by (rule honest_extendsI[OF h e, of "[]" "[]"]) (use t in \<open>auto simp: tracked_def cs_wf_def\<close>)
  moreover have "val ?cs' (Witness ?i) x"
    using t by (simp add: val_def assigned_value_def get_at_def tracked_def nth_append)
  ultimately show "\<exists>v cs'. new_witness_variable (Inr x) cs = Inr (v, cs') \<and> honest cs'
      \<and> cs_extends cs cs' \<and> val cs' v x"
    using run e by blast
qed

lemma complete_new_input_variable [complete_intros]:
  "complete cs (new_input_variable (Inr x)) (\<lambda>v cs'. val cs' v x)"
proof (rule completeI)
  assume h: "honest cs"
  then have t: "tracked cs" by (simp add: honest_def)
  let ?i = "num_instance_variables cs"
  let ?cs' = "cs\<lparr>num_instance_variables := ?i + 1, instance_assignment := instance_assignment cs @ [x]\<rparr>"
  have run: "new_input_variable (Inr x) cs = Inr (Instance ?i, ?cs')"
    using t by (simp add: new_input_variable_def is_in_setup_mode_def tracked_def Let_def)
  have e: "cs_extends cs ?cs'" by (simp add: cs_extends_def)
  have "honest ?cs'"
    by (rule honest_extendsI[OF h e, of "[]" "[]"]) (use t in \<open>auto simp: tracked_def cs_wf_def\<close>)
  moreover have "val ?cs' (Instance ?i) x"
    using t by (simp add: val_def assigned_value_def get_at_def tracked_def nth_append)
  ultimately show "\<exists>v cs'. new_input_variable (Inr x) cs = Inr (v, cs') \<and> honest cs'
      \<and> cs_extends cs cs' \<and> val cs' v x"
    using run e by blast
qed

lemma complete_new_lc_add_helper:
  assumes a: "assigned cs (lc_vars l)"
  shows "complete cs (new_lc_add_helper l) (\<lambda>v cs'. val cs' v (lc_eval (assign cs) l))"
proof (rule completeI)
  assume h: "honest cs"
  then have t: "tracked cs" by (simp add: honest_def)
  consider (empty) "l = [] \<or> length l = 1 \<and> snd (hd l) = Zero"
    | (single) "\<not> (l = [] \<or> length l = 1 \<and> snd (hd l) = Zero)" "length l = 1 \<and> fst (hd l) = 1"
    | (other) "\<not> (l = [] \<or> length l = 1 \<and> snd (hd l) = Zero)" "\<not> (length l = 1 \<and> fst (hd l) = 1)"
    by blast
  then show "\<exists>v cs'. new_lc_add_helper l cs = Inr (v, cs') \<and> honest cs' \<and> cs_extends cs cs'
      \<and> val cs' v (lc_eval (assign cs) l)"
  proof cases
    case empty
    then have "lc_eval (assign cs) l = 0" by (cases l) (auto simp: assign_def assigned_value_def)
    moreover have "val cs (SymbolicLc 0) 0"
    proof -
      have l0: "0 < length (lc_map cs)" "lc_map cs ! 0 = []" "length (lc_assignment cs) = length (lc_map cs)"
        using t by (auto simp: tracked_def cs_wf_def)
      then have "lc_assignment cs ! 0 = 0" using t unfolding tracked_def by (metis lc_eval_simps(1))
      with l0 show ?thesis by (simp add: val_def assigned_value_def get_at_def)
    qed
    ultimately show ?thesis using empty h by (simp add: new_lc_add_helper_def)
  next
    case single
    then obtain c v where l: "l = [(c, v)]" "c = 1" by (cases l) auto
    then obtain x where "val cs v x" using a by auto
    then show ?thesis using single h l by (auto simp: new_lc_add_helper_def)
  next
    case other
    let ?n = "num_linear_combinations cs"
    let ?x = "lc_eval (assign cs) l"
    let ?cs1 = "cs\<lparr>lc_map := lc_map cs @ [l], num_linear_combinations := ?n + 1\<rparr>"
    let ?cs' = "?cs1\<lparr>lc_assignment := lc_assignment cs @ [?x]\<rparr>"
    have n: "?n = length (lc_map cs)" "length (lc_assignment cs) = length (lc_map cs)"
      using t by (auto simp: tracked_def cs_wf_def)
    have av: "assigned_value ?cs1 v = assigned_value cs v" for v
      by (simp add: assigned_value_def split: variable.split)
    have "eval_terms ?cs1 k = eval_terms cs k" for k
      by (induction k) (simp_all only: eval_terms.simps av)
    then have "eval_lc ?cs1 ?n = Some ?x"
      using eval_terms_assigned[OF a] n by (simp add: eval_lc_def get_at_def nth_append)
    then have run: "new_lc_add_helper l cs = Inr (SymbolicLc ?n, ?cs')"
      using t unfolding new_lc_add_helper_def if_not_P[OF other(1)] if_not_P[OF other(2)] Let_def
      by (simp add: should_generate_lc_assignments_def tracked_def)
    have e: "cs_extends cs ?cs'" by (simp add: cs_extends_def)
    have "honest ?cs'"
    proof (rule honest_extendsI[OF h e, of "[l]" "[]"])
      fix i assume "length (lc_map cs) \<le> i" "i < length (lc_map ?cs')"
      then have "i = length (lc_map cs)" by simp
      then show "lc_assignment ?cs' ! i = lc_eval (assign ?cs') (lc_map ?cs' ! i)"
        using n lc_eval_assign_mono[OF e a] by (simp add: nth_append)
    qed (use t assigned_mono[OF e a] in \<open>auto simp: tracked_def cs_wf_def nth_append\<close>)
    moreover have "val ?cs' (SymbolicLc ?n) ?x"
      using n by (simp add: val_def assigned_value_def get_at_def nth_append)
    ultimately show ?thesis using run e by blast
  qed
qed

lemma complete_cong_run:
  assumes "\<And>cs. honest cs \<Longrightarrow> m cs = m' cs" "complete cs m' Q"
  shows "complete cs m Q"
  using assms unfolding complete_def by metis

lemma honest_modes:
  "honest cs \<Longrightarrow> should_construct_matrices cs"
  "honest cs \<Longrightarrow> r1cs cs \<noteq> None"
  by (auto simp: honest_def tracked_def cs_wf_def)

lemma complete_new_lc [complete_intros]:
  "assigned cs (lc_vars l) \<Longrightarrow>
   complete cs (new_lc l) (\<lambda>v cs'. val cs' v (lc_eval (assign cs) l))"
  by (rule complete_cong_run[OF _ complete_new_lc_add_helper]) (simp_all add: new_lc_def honest_modes)

lemma complete_new_constraint_lc:
  "assigned cs (lc_vars l) \<Longrightarrow>
   complete cs (new_constraint_lc l) (\<lambda>v cs'. val cs' v (lc_eval (assign cs) l))"
  by (rule complete_cong_run[OF _ complete_new_lc]) (simp_all add: new_constraint_lc_def honest_modes)

lemma complete_push_constraint:
  assumes "val cs a x" "val cs b y" "val cs c (x * y)"
  shows "complete cs (push_constraint [a, b, c]) (\<lambda>_ _. True)"
proof (rule completeI)
  assume h: "honest cs"
  then have t: "tracked cs" and wf: "cs_wf cs" by (simp_all add: honest_def tracked_def)
  obtain cs' p' where 1: "push_constraint [a, b, c] cs = Inr ((), cs')" "cs_wf cs'" "cs_extends cs cs'"
      "constraints cs' = constraints cs @ [[a, b, c]]" "cs' = cs\<lparr>r1cs := Some p'\<rparr>"
    using push_constraint_step[OF wf, of a b c] by blast
  have v: "val cs' a x" "val cs' b y" "val cs' c (x * y)"
    using assms val_mono[OF 1(3)] by auto
  have "honest cs'"
  proof (rule honest_extendsI[OF h 1(3,2) _ _ _ _ _ _ 1(4), of "[]"])
    fix vs assume "vs \<in> set [[a, b, c]]"
    then show "length vs = 3 \<and> assigned cs' (set vs)
        \<and> predicate_is_satisfied r1cs_terms (map (assign cs') vs)"
      using v by (auto simp: predicate_r1cs)
  qed (use t in \<open>auto simp: 1(5) tracked_def\<close>)
  with 1 show "\<exists>r cs'. push_constraint [a, b, c] cs = Inr (r, cs') \<and> honest cs' \<and> cs_extends cs cs' \<and> True"
    by blast
qed

lemma complete_enforce_r1cs [complete_intros]:
  assumes "assigned cs (lc_vars a)" "assigned cs (lc_vars b)" "assigned cs (lc_vars c)"
    and "lc_eval (assign cs) a * lc_eval (assign cs) b = lc_eval (assign cs) c"
  shows "complete cs (enforce_r1cs_constraint a b c) (\<lambda>_ _. True)"
proof (rule complete_cong_run)
  fix cs :: "'a cs" assume "honest cs"
  then show "enforce_r1cs_constraint a b c cs =
      bind (new_constraint_lc a) (\<lambda>a. bind (new_constraint_lc b) (\<lambda>b.
            bind (new_constraint_lc c) (\<lambda>c. push_constraint [a, b, c]))) cs"
    using honest_modes[of cs]
    by (cases "r1cs cs") (simp_all add: enforce_r1cs_constraint_def enforce_constraint_arity_3_def)
next
  let ?ev = "lc_eval (assign cs)"
  show "complete cs (bind (new_constraint_lc a) (\<lambda>a. bind (new_constraint_lc b) (\<lambda>b.
            bind (new_constraint_lc c) (\<lambda>c. push_constraint [a, b, c])))) (\<lambda>_ _. True)"
  proof (rule complete_bind[OF complete_new_constraint_lc[OF assms(1)]])
    fix va cs1 assume 1: "cs_extends cs cs1" "val cs1 va (?ev a)"
    note b1 = assigned_mono[OF 1(1) assms(2)] and e1 = lc_eval_assign_mono[OF 1(1)]
    show "complete cs1 (bind (new_constraint_lc b) (\<lambda>b.
            bind (new_constraint_lc c) (\<lambda>c. push_constraint [va, b, c]))) (\<lambda>_ _. True)"
    proof (rule complete_bind[OF complete_new_constraint_lc[OF b1]])
      fix vb cs2 assume 2: "cs_extends cs1 cs2" "val cs2 vb (lc_eval (assign cs1) b)"
      note e = cs_extends_trans[OF 1(1) 2(1)]
      note c2 = assigned_mono[OF e assms(3)]
      show "complete cs2 (bind (new_constraint_lc c) (\<lambda>c. push_constraint [va, vb, c])) (\<lambda>_ _. True)"
      proof (rule complete_bind[OF complete_new_constraint_lc[OF c2]])
        fix vc cs3 assume 3: "cs_extends cs2 cs3" "val cs3 vc (lc_eval (assign cs2) c)"
        have "val cs3 va (?ev a)" "val cs3 vb (?ev b)"
          using val_mono[OF 3(1)] val_mono[OF 2(1)] 1(2) 2(2) e1[OF assms(2)] by auto
        moreover have "val cs3 vc (?ev a * ?ev b)"
          using 3(2) lc_eval_assign_mono[OF e assms(3)] assms(4) by simp
        ultimately show "complete cs3 (push_constraint [va, vb, vc]) (\<lambda>_ _. True)"
          by (rule complete_push_constraint)
      qed
    qed
  qed
qed

lemma honest_new: "honest (cs_new :: 'f::comm_ring_1 cs)"
proof -
  have c: "constraints (cs_new :: 'f cs) = []"
    by (simp add: constraints_def cs_new_def new_r1cs_def iter_constraints_def)
  have "tracked (cs_new :: 'f cs)"
    unfolding tracked_def c using cs_wf_new by (simp add: cs_new_def)
  then show ?thesis by (simp add: honest_def c)
qed

lemmas val_monos = val_mono val_mono[OF cs_extends_trans]

text \<open>An honest run is one of the runs soundness speaks of.\<close>

lemma run_sound:
  assumes "honest cs" "complete cs m Q" "sound m R"
  shows "\<exists>x cs'. m cs = Inr (x, cs') \<and> honest cs' \<and> Q x cs' \<and> R (assign cs') x"
proof -
  have wf: "cs_wf cs" using assms(1) by (simp add: honest_def tracked_def)
  obtain x cs' where 1: "m cs = Inr (x, cs')" "honest cs'" "Q x cs'"
    using completeE[OF assms(2,1)] by blast
  moreover have "models (assign cs') cs'" using 1(2) by (simp add: honest_models)
  ultimately show ?thesis using soundD(3)[OF assms(3) wf 1(1)] by blast
qed

end
