(* ===== verification/Boolean_Gadget.thy ===== *)
theory Boolean_Gadget
  imports Circuit_Semantics
begin

text \<open>
  The \<^verbatim>\<open>Boolean\<close> gadget (vendor/r1cs-std/src/boolean: allocated.rs, mod.rs, not.rs, and.rs, or.rs,
  xor.rs, eq.rs, select.rs).  Every variable of the model lives in the one constraint system that
  is threaded through, so the \<^verbatim>\<open>cs\<close> field is not repeated in the variables.  For each operation
  there is a soundness lemma (what its constraints force) and a completeness lemma (an honest
  witness satisfies them).
\<close>

section \<open>Data\<close>

datatype allocated_bool = AllocatedBool (ab_variable: variable) (ab_value: "bool option")

datatype boolean = BoolVar allocated_bool | BoolConstant bool

datatype allocation_mode = Constant_Mode | Input_Mode | Witness_Mode

definition ab_get :: "allocated_bool \<Rightarrow> synthesis_error + bool" where
  "ab_get a = get_value (ab_value a)"

definition bool_value :: "boolean \<Rightarrow> synthesis_error + bool" where
  "bool_value b = (case b of BoolConstant c \<Rightarrow> Inr c | BoolVar v \<Rightarrow> ab_get v)"

definition bool_lc :: "boolean \<Rightarrow> 'f::comm_ring_1 lc" where
  "bool_lc b = (case b of
     BoolConstant False \<Rightarrow> []
   | BoolConstant True \<Rightarrow> lc_from_var One
   | BoolVar v \<Rightarrow> lc_from_var (ab_variable v))"

definition bool_variable :: "boolean \<Rightarrow> variable" where
  "bool_variable b = (case b of
     BoolConstant False \<Rightarrow> Zero
   | BoolConstant True \<Rightarrow> One
   | BoolVar v \<Rightarrow> ab_variable v)"

definition bool_is_constant :: "boolean \<Rightarrow> bool" where
  "bool_is_constant b = (case b of BoolConstant _ \<Rightarrow> True | BoolVar _ \<Rightarrow> False)"

text \<open>
  The closure of an allocation runs outside setup mode only, so the value a variable records is
  \<open>None\<close> in setup mode.
\<close>

definition closure_value :: "synthesis_error + 'a \<Rightarrow> ('f cs, 'a option) comp" where
  "closure_value f cs =
    Inr (if is_in_setup_mode cs then None else (case f of Inl _ \<Rightarrow> None | Inr x \<Rightarrow> Some x), cs)"

section \<open>Allocated booleans\<close>

definition new_witness_without_booleanity_check ::
  "synthesis_error + bool \<Rightarrow> ('f::comm_ring_1 cs, allocated_bool) comp" where
  "new_witness_without_booleanity_check f =
    bind (new_witness_variable (map_sum id of_bool f)) (\<lambda>variable.
    bind (closure_value f) (\<lambda>value. ret (AllocatedBool variable value)))"

definition ab_new_variable ::
  "synthesis_error + bool \<Rightarrow> allocation_mode \<Rightarrow> ('f::comm_ring_1 cs, allocated_bool) comp" where
  "ab_new_variable f m =
    (if m = Constant_Mode
     then bind (from_result f) (\<lambda>value.
            ret (AllocatedBool (if value then One else Zero) (Some value)))
     else
       bind (if m = Input_Mode then new_input_variable (map_sum id of_bool f)
             else new_witness_variable (map_sum id of_bool f)) (\<lambda>variable.
       bind (enforce_r1cs_constraint (diff_vars One variable) (lc_from_var variable) []) (\<lambda>_.
       bind (closure_value f) (\<lambda>value. ret (AllocatedBool variable value)))))"

definition ab_not :: "allocated_bool \<Rightarrow> ('f::comm_ring_1 cs, allocated_bool) comp" where
  "ab_not a =
    bind (new_lc (diff_vars One (ab_variable a))) (\<lambda>variable.
    ret (AllocatedBool variable (map_option Not (ab_value a))))"

definition ab_op :: "(bool \<Rightarrow> bool \<Rightarrow> bool) \<Rightarrow> allocated_bool \<Rightarrow> allocated_bool \<Rightarrow> synthesis_error + bool" where
  "ab_op f a b = result_bind (ab_get a) (\<lambda>x. result_bind (ab_get b) (\<lambda>y. Inr (f x y)))"

definition ab_xor :: "allocated_bool \<Rightarrow> allocated_bool \<Rightarrow> ('f::comm_ring_1 cs, allocated_bool) comp" where
  "ab_xor a b =
    bind (new_witness_without_booleanity_check (ab_op (\<lambda>x y. x \<noteq> y) a b)) (\<lambda>result.
    bind (enforce_r1cs_constraint
            (lc_from_coeff_var (1 + 1, ab_variable a))
            (lc_from_var (ab_variable b))
            (from_sum_coeff_vars
              [(1, ab_variable a), (1, ab_variable b), (- 1, ab_variable result)])) (\<lambda>_.
    ret result))"

definition ab_and :: "allocated_bool \<Rightarrow> allocated_bool \<Rightarrow> ('f::comm_ring_1 cs, allocated_bool) comp" where
  "ab_and a b =
    bind (new_witness_without_booleanity_check (ab_op (\<and>) a b)) (\<lambda>result.
    bind (enforce_r1cs_constraint (lc_from_var (ab_variable a)) (lc_from_var (ab_variable b))
            (lc_from_var (ab_variable result))) (\<lambda>_.
    ret result))"

definition ab_or :: "allocated_bool \<Rightarrow> allocated_bool \<Rightarrow> ('f::comm_ring_1 cs, allocated_bool) comp" where
  "ab_or a b =
    bind (new_witness_without_booleanity_check (ab_op (\<or>) a b)) (\<lambda>result.
    bind (enforce_r1cs_constraint (diff_vars One (ab_variable a)) (diff_vars One (ab_variable b))
            (diff_vars One (ab_variable result))) (\<lambda>_.
    ret result))"

definition ab_and_not :: "allocated_bool \<Rightarrow> allocated_bool \<Rightarrow> ('f::comm_ring_1 cs, allocated_bool) comp" where
  "ab_and_not a b =
    bind (new_witness_without_booleanity_check (ab_op (\<lambda>x y. x \<and> \<not> y) a b)) (\<lambda>result.
    bind (enforce_r1cs_constraint (lc_add_term [] (1, ab_variable a)) (diff_vars One (ab_variable b))
            (lc_add_term [] (1, ab_variable result))) (\<lambda>_.
    ret result))"

definition ab_nor :: "allocated_bool \<Rightarrow> allocated_bool \<Rightarrow> ('f::comm_ring_1 cs, allocated_bool) comp" where
  "ab_nor a b =
    bind (new_witness_without_booleanity_check (ab_op (\<lambda>x y. \<not> (x \<or> y)) a b)) (\<lambda>result.
    bind (enforce_r1cs_constraint (diff_vars One (ab_variable a)) (diff_vars One (ab_variable b))
            (lc_from_var (ab_variable result))) (\<lambda>_.
    ret result))"

section \<open>Booleans\<close>

definition bool_new_variable ::
  "synthesis_error + bool \<Rightarrow> allocation_mode \<Rightarrow> ('f::comm_ring_1 cs, boolean) comp" where
  "bool_new_variable f m =
    (if m = Constant_Mode then bind (from_result f) (\<lambda>b. ret (BoolConstant b))
     else bind (ab_new_variable f m) (\<lambda>a. ret (BoolVar a)))"

definition bool_not_in_place :: "boolean \<Rightarrow> ('f::comm_ring_1 cs, boolean) comp" where
  "bool_not_in_place b = (case b of
     BoolConstant c \<Rightarrow> ret (BoolConstant (\<not> c))
   | BoolVar v \<Rightarrow> bind (ab_not v) (\<lambda>v. ret (BoolVar v)))"

text \<open>\<open>bool_not\<close> is the operator \<^verbatim>\<open>!\<close>, which unwraps.\<close>

definition bool_not :: "boolean \<Rightarrow> ('f::comm_ring_1 cs, boolean) comp" where
  "bool_not b = unwrap (bool_not_in_place b)"

fun bool_and_fallible :: "boolean \<Rightarrow> boolean \<Rightarrow> ('f::comm_ring_1 cs, boolean) comp" where
  "bool_and_fallible (BoolConstant False) _ = ret (BoolConstant False)"
| "bool_and_fallible _ (BoolConstant False) = ret (BoolConstant False)"
| "bool_and_fallible (BoolConstant True) x = ret x"
| "bool_and_fallible x (BoolConstant True) = ret x"
| "bool_and_fallible (BoolVar x) (BoolVar y) = bind (ab_and x y) (\<lambda>r. ret (BoolVar r))"

definition bool_and :: "boolean \<Rightarrow> boolean \<Rightarrow> ('f::comm_ring_1 cs, boolean) comp" where
  "bool_and a b = unwrap (bool_and_fallible a b)"

definition bool_nand :: "boolean \<Rightarrow> boolean \<Rightarrow> ('f::comm_ring_1 cs, boolean) comp" where
  "bool_nand a b = bind (bool_and_fallible a b) bool_not"

fun bool_or_fallible :: "boolean \<Rightarrow> boolean \<Rightarrow> ('f::comm_ring_1 cs, boolean) comp" where
  "bool_or_fallible (BoolConstant False) x = ret x"
| "bool_or_fallible x (BoolConstant False) = ret x"
| "bool_or_fallible (BoolConstant True) _ = ret (BoolConstant True)"
| "bool_or_fallible _ (BoolConstant True) = ret (BoolConstant True)"
| "bool_or_fallible (BoolVar x) (BoolVar y) = bind (ab_or x y) (\<lambda>r. ret (BoolVar r))"

definition bool_or :: "boolean \<Rightarrow> boolean \<Rightarrow> ('f::comm_ring_1 cs, boolean) comp" where
  "bool_or a b = unwrap (bool_or_fallible a b)"

fun bool_xor_fallible :: "boolean \<Rightarrow> boolean \<Rightarrow> ('f::comm_ring_1 cs, boolean) comp" where
  "bool_xor_fallible (BoolConstant False) x = ret x"
| "bool_xor_fallible x (BoolConstant False) = ret x"
| "bool_xor_fallible (BoolConstant True) x = bool_not x"
| "bool_xor_fallible x (BoolConstant True) = bool_not x"
| "bool_xor_fallible (BoolVar x) (BoolVar y) = bind (ab_xor x y) (\<lambda>r. ret (BoolVar r))"

definition bool_xor :: "boolean \<Rightarrow> boolean \<Rightarrow> ('f::comm_ring_1 cs, boolean) comp" where
  "bool_xor a b = unwrap (bool_xor_fallible a b)"

definition bool_is_eq :: "boolean \<Rightarrow> boolean \<Rightarrow> ('f::comm_ring_1 cs, boolean) comp" where
  "bool_is_eq a b = bind (bool_xor a b) bool_not"

fun bool_difference :: "boolean \<Rightarrow> boolean \<Rightarrow> 'f::comm_ring_1 lc" where
  "bool_difference (BoolConstant True) (BoolVar a) = diff_vars One (ab_variable a)"
| "bool_difference (BoolVar a) (BoolConstant True) = diff_vars One (ab_variable a)"
| "bool_difference (BoolConstant False) (BoolVar a) = lc_from_var (ab_variable a)"
| "bool_difference (BoolVar a) (BoolConstant False) = lc_from_var (ab_variable a)"
| "bool_difference (BoolVar a) (BoolVar b) = diff_vars (ab_variable b) (ab_variable a)"
| "bool_difference (BoolConstant _) (BoolConstant _) = []"

definition bool_conditional_enforce_equal ::
  "boolean \<Rightarrow> boolean \<Rightarrow> boolean \<Rightarrow> ('f::comm_ring_1 cs, unit) comp" where
  "bool_conditional_enforce_equal a b condition =
    (if condition \<noteq> BoolConstant False then
       (case (a, b) of
          (BoolConstant x, BoolConstant y) \<Rightarrow>
            if x = y then ret () else raise (Err Unsatisfiable)
        | _ \<Rightarrow> enforce_r1cs_constraint (bool_difference a b) (bool_lc condition) [])
     else ret ())"

definition bool_enforce_equal :: "boolean \<Rightarrow> boolean \<Rightarrow> ('f::comm_ring_1 cs, unit) comp" where
  "bool_enforce_equal a b = bool_conditional_enforce_equal a b (BoolConstant True)"

fun bool_sum_lc :: "boolean \<Rightarrow> boolean \<Rightarrow> 'f::comm_ring_1 lc" where
  "bool_sum_lc (BoolConstant True) (BoolVar a) = sum_vars [One, ab_variable a]"
| "bool_sum_lc (BoolVar a) (BoolConstant True) = sum_vars [One, ab_variable a]"
| "bool_sum_lc (BoolConstant False) (BoolVar a) = lc_from_var (ab_variable a)"
| "bool_sum_lc (BoolVar a) (BoolConstant False) = lc_from_var (ab_variable a)"
| "bool_sum_lc (BoolVar a) (BoolVar b) = sum_vars [ab_variable b, ab_variable a]"
| "bool_sum_lc (BoolConstant _) (BoolConstant _) = []"

definition bool_conditional_enforce_not_equal ::
  "boolean \<Rightarrow> boolean \<Rightarrow> boolean \<Rightarrow> ('f::comm_ring_1 cs, unit) comp" where
  "bool_conditional_enforce_not_equal a b should_enforce =
    (if should_enforce \<noteq> BoolConstant False then
       (case (a, b) of
          (BoolConstant x, BoolConstant y) \<Rightarrow>
            if x \<noteq> y then ret () else raise (Err Unsatisfiable)
        | _ \<Rightarrow> enforce_r1cs_constraint (bool_sum_lc a b) (bool_lc should_enforce) (lc_from_var One))
     else ret ())"

definition bool_select_var ::
  "allocated_bool \<Rightarrow> boolean \<Rightarrow> boolean \<Rightarrow> ('f::comm_ring_1 cs, boolean) comp" where
  "bool_select_var cond a b =
    bind (new_witness_without_booleanity_check
            (result_bind (ab_get cond) (\<lambda>c. if c then bool_value a else bool_value b))) (\<lambda>result.
    bind (enforce_r1cs_constraint (bool_lc (BoolVar cond))
            (diff_vars (bool_variable a) (bool_variable b))
            (diff_vars (ab_variable result) (bool_variable b))) (\<lambda>_.
    ret (BoolVar result)))"

fun bool_conditionally_select ::
  "boolean \<Rightarrow> boolean \<Rightarrow> boolean \<Rightarrow> ('f::comm_ring_1 cs, boolean) comp" where
  "bool_conditionally_select (BoolConstant True) t f = ret t"
| "bool_conditionally_select (BoolConstant False) t f = ret f"
| "bool_conditionally_select (BoolVar c) x (BoolConstant False) = bool_and (BoolVar c) x"
| "bool_conditionally_select (BoolVar c) (BoolConstant False) x =
     bind (bool_not (BoolVar c)) (\<lambda>n. bool_and n x)"
| "bool_conditionally_select (BoolVar c) (BoolConstant True) x = bool_or (BoolVar c) x"
| "bool_conditionally_select (BoolVar c) x (BoolConstant True) =
     bind (bool_not (BoolVar c)) (\<lambda>n. bool_or n x)"
| "bool_conditionally_select (BoolVar c) a b = bool_select_var c a b"


section \<open>Soundness\<close>

definition bool_val :: "(variable \<Rightarrow> 'f) \<Rightarrow> boolean \<Rightarrow> 'f::comm_ring_1" where
  "bool_val w b = (case b of BoolConstant c \<Rightarrow> of_bool c | BoolVar a \<Rightarrow> w (ab_variable a))"

definition is_bit :: "'f::comm_ring_1 \<Rightarrow> bool" where
  "is_bit x \<longleftrightarrow> x = 0 \<or> x = 1"

lemma bool_val_simps [simp]:
  "bool_val w (BoolConstant c) = of_bool c"
  "bool_val w (BoolVar a) = w (ab_variable a)"
  by (simp_all add: bool_val_def)

lemma is_bit_of_bool [simp]: "is_bit (of_bool b)"
  by (simp add: is_bit_def)

lemma is_bitE:
  assumes "is_bit x" obtains "x = 0" | "x = 1"
  using assms by (auto simp: is_bit_def)

lemma lc_eval_bool_lc [simp]:
  "w Zero = 0 \<Longrightarrow> w One = 1 \<Longrightarrow> lc_eval w (bool_lc b) = bool_val w b"
  by (simp add: bool_lc_def split: boolean.split bool.split)

lemma bool_variable_val:
  "w Zero = 0 \<Longrightarrow> w One = 1 \<Longrightarrow> w (bool_variable b) = bool_val w b"
  by (simp add: bool_variable_def split: boolean.split bool.split)

lemma sound_closure_value [sound_intros]: "sound (closure_value f) (\<lambda>w v. True)"
  by (rule soundI) (auto simp: closure_value_def)

lemma sound_new_witness_without_booleanity_check [sound_intros]:
  "sound (new_witness_without_booleanity_check f) (\<lambda>w a. True)"
  unfolding new_witness_without_booleanity_check_def
  by (rule sound_bind[OF sound_new_witness_variable] sound_bind[OF sound_closure_value] sound_ret)+ simp

lemma square_eq_self_bit: "(1 - x) * x = 0 \<Longrightarrow> is_bit (x::'f::idom)"
  by (auto simp: is_bit_def)

lemma sound_ab_new_variable [sound_intros]:
  "sound (ab_new_variable f m) (\<lambda>w a. is_bit (w (ab_variable a) :: 'f::idom))"
proof (cases "m = Constant_Mode")
  case True
  then show ?thesis
    unfolding ab_new_variable_def if_P[OF True]
    by (intro sound_bind[OF sound_from_result[of _ "\<lambda>_. True"]] sound_ret)
      (auto simp: is_bit_def)
next
  case False
  have alloc: "sound (if m = Input_Mode then new_input_variable g else new_witness_variable g) (\<lambda>w v. True)"
    for g :: "synthesis_error + 'f"
    by (simp add: sound_new_input_variable sound_new_witness_variable)
  show ?thesis
    unfolding ab_new_variable_def if_not_P[OF False]
    by (rule sound_bind[OF alloc] sound_bind[OF sound_enforce_r1cs] sound_bind[OF sound_closure_value]
        sound_ret)+ (simp add: square_eq_self_bit)
qed

lemma sound_ab_not [sound_intros]:
  "sound (ab_not a) (\<lambda>w r. w (ab_variable r) = 1 - w (ab_variable a))"
  unfolding ab_not_def
  by (rule sound_bind[OF sound_new_lc] sound_ret)+ simp

lemma sound_ab_op:
  assumes "\<And>w r. w Zero = 0 \<Longrightarrow> w One = 1 \<Longrightarrow>
      lc_eval w A * lc_eval w B = lc_eval w (C r) \<Longrightarrow> R w (r::allocated_bool)"
  shows "sound (bind (new_witness_without_booleanity_check f) (\<lambda>result.
    bind (enforce_r1cs_constraint A B (C result)) (\<lambda>_. ret result))) R"
  by (rule sound_bind[OF sound_new_witness_without_booleanity_check]
      sound_bind[OF sound_enforce_r1cs] sound_ret)+ (simp add: assms)

lemma sound_ab_and [sound_intros]:
  "sound (ab_and a b) (\<lambda>w r. w (ab_variable r) = w (ab_variable a) * w (ab_variable b))"
  unfolding ab_and_def by (rule sound_ab_op) simp

lemma one_minus_product: "(1 - a) * (1 - b) = 1 - r \<Longrightarrow> r = a + b - a * (b::'f::comm_ring_1)"
proof -
  assume "(1 - a) * (1 - b) = 1 - r"
  then have "1 - (1 - r) = 1 - (1 - a) * (1 - b)" by simp
  then show ?thesis by (simp add: algebra_simps)
qed

lemma sound_ab_or [sound_intros]:
  "sound (ab_or a b) (\<lambda>w r. w (ab_variable r)
     = w (ab_variable a) + w (ab_variable b) - w (ab_variable a) * w (ab_variable b))"
  unfolding ab_or_def by (rule sound_ab_op) (simp add: one_minus_product)

lemma sound_ab_nor [sound_intros]:
  "sound (ab_nor a b)
     (\<lambda>w r. w (ab_variable r) = (1 - w (ab_variable a)) * (1 - w (ab_variable b)))"
  unfolding ab_nor_def by (rule sound_ab_op) simp

lemma sound_ab_and_not [sound_intros]:
  "sound (ab_and_not a b)
     (\<lambda>w r. w (ab_variable r) = w (ab_variable a) * (1 - w (ab_variable b)))"
  unfolding ab_and_not_def by (rule sound_ab_op) simp

lemma sound_ab_xor [sound_intros]:
  "sound (ab_xor a b) (\<lambda>w r. w (ab_variable r)
     = w (ab_variable a) + w (ab_variable b) - 2 * w (ab_variable a) * w (ab_variable b))"
  unfolding ab_xor_def by (rule sound_ab_op) (simp add: algebra_simps)

lemma sound_bool_new_variable [sound_intros]:
  "sound (bool_new_variable f m) (\<lambda>w b. is_bit (bool_val w b :: 'f::idom))"
  unfolding bool_new_variable_def
  by (auto intro!: sound_bind[OF sound_from_result[of _ "\<lambda>_. True"]]
      sound_bind[OF sound_ab_new_variable] sound_ret)

lemma sound_bool_not [sound_intros]:
  "sound (bool_not b) (\<lambda>w r. bool_val w r = 1 - bool_val w b)"
  unfolding bool_not_def bool_not_in_place_def
  by (auto split: boolean.split intro!: sound_unwrap sound_ret sound_bind[OF sound_ab_not])

lemma sound_bool_and_fallible:
  "sound (bool_and_fallible a b) (\<lambda>w r. bool_val w r = bool_val w a * bool_val w b)"
  by (cases "(a, b)" rule: bool_and_fallible.cases)
    (auto intro!: sound_ret sound_bind[OF sound_ab_and])

lemma sound_bool_and [sound_intros]:
  "sound (bool_and a b) (\<lambda>w r. bool_val w r = bool_val w a * bool_val w b)"
  unfolding bool_and_def by (rule sound_unwrap[OF sound_bool_and_fallible])

lemma sound_bool_nand [sound_intros]:
  "sound (bool_nand a b) (\<lambda>w r. bool_val w r = 1 - bool_val w a * bool_val w b)"
  unfolding bool_nand_def
  by (rule sound_bind[OF sound_bool_and_fallible sound_weaken[OF sound_bool_not]]) simp

lemma sound_bool_or_fallible:
  "sound (bool_or_fallible a b)
     (\<lambda>w r. bool_val w r = bool_val w a + bool_val w b - bool_val w a * bool_val w b)"
  by (cases "(a, b)" rule: bool_or_fallible.cases)
    (auto intro!: sound_ret sound_bind[OF sound_ab_or])

lemma sound_bool_or [sound_intros]:
  "sound (bool_or a b)
     (\<lambda>w r. bool_val w r = bool_val w a + bool_val w b - bool_val w a * bool_val w b)"
  unfolding bool_or_def by (rule sound_unwrap[OF sound_bool_or_fallible])

lemma sound_bool_xor_fallible:
  "sound (bool_xor_fallible a b)
     (\<lambda>w r. bool_val w r = bool_val w a + bool_val w b - 2 * bool_val w a * bool_val w b)"
  by (cases "(a, b)" rule: bool_xor_fallible.cases)
    (auto intro!: sound_ret sound_bind[OF sound_ab_xor] sound_weaken[OF sound_bool_not])

lemma sound_bool_xor [sound_intros]:
  "sound (bool_xor a b)
     (\<lambda>w r. bool_val w r = bool_val w a + bool_val w b - 2 * bool_val w a * bool_val w b)"
  unfolding bool_xor_def by (rule sound_unwrap[OF sound_bool_xor_fallible])

lemma sound_bool_is_eq [sound_intros]:
  "sound (bool_is_eq a b) (\<lambda>w r. is_bit (bool_val w a) \<longrightarrow> is_bit (bool_val w b)
     \<longrightarrow> bool_val w r = of_bool (bool_val w a = bool_val w b))"
  unfolding bool_is_eq_def
  by (rule sound_bind[OF sound_bool_xor sound_weaken[OF sound_bool_not]])
    (auto elim!: is_bitE)

lemma lc_eval_bool_difference:
  "w Zero = 0 \<Longrightarrow> w One = 1 \<Longrightarrow> lc_eval w (bool_difference a b) = 0 \<longleftrightarrow>
     (bool_val w a = bool_val w b \<or> bool_is_constant a \<and> bool_is_constant b)"
  by (cases "(a, b)" rule: bool_difference.cases) (auto simp: bool_is_constant_def)

lemma sound_bool_conditional_enforce_equal [sound_intros]:
  "sound (bool_conditional_enforce_equal a b c)
     (\<lambda>w _. bool_val w c = 1 \<longrightarrow> bool_val w a = (bool_val w b :: 'f::idom))"
proof (cases "c = BoolConstant False")
  case False
  show ?thesis
  proof (cases "bool_is_constant a \<and> bool_is_constant b")
    case True
    then show ?thesis using False
      by (auto simp: bool_conditional_enforce_equal_def bool_is_constant_def split: boolean.splits
          intro!: sound_ret sound_raise)
  next
    case nc: False
    then have "bool_conditional_enforce_equal a b c =
        enforce_r1cs_constraint (bool_difference a b) (bool_lc c) ([] :: 'f lc)"
      using False by (auto simp: bool_conditional_enforce_equal_def bool_is_constant_def split: boolean.splits)
    moreover have "sound (enforce_r1cs_constraint (bool_difference a b) (bool_lc c) [])
       (\<lambda>w _. bool_val w c = 1 \<longrightarrow> bool_val w a = (bool_val w b :: 'f))"
      by (rule sound_weaken[OF sound_enforce_r1cs]) (use nc lc_eval_bool_difference in auto)
    ultimately show ?thesis by simp
  qed
qed (auto simp: bool_conditional_enforce_equal_def intro!: sound_ret)

lemma sound_bool_enforce_equal [sound_intros]:
  "sound (bool_enforce_equal a b) (\<lambda>w _. bool_val w a = (bool_val w b :: 'f::idom))"
  unfolding bool_enforce_equal_def by (rule sound_weaken[OF sound_bool_conditional_enforce_equal]) simp

lemma sound_bool_select_var:
  "sound (bool_select_var c a b) (\<lambda>w r. bool_val w r =
     bool_val w b + w (ab_variable c) * (bool_val w a - bool_val w b))"
  unfolding bool_select_var_def
  by (rule sound_bind[OF sound_new_witness_without_booleanity_check]
      sound_bind[OF sound_enforce_r1cs] sound_ret)+ (simp add: bool_variable_val algebra_simps)

lemma sound_bool_conditionally_select [sound_intros]:
  "sound (bool_conditionally_select c a b) (\<lambda>w r. bool_val w r =
     bool_val w b + bool_val w c * (bool_val w a - bool_val w b))"
  by (cases "(c, a, b)" rule: bool_conditionally_select.cases)
    (auto intro!: sound_ret sound_weaken[OF sound_bool_select_var] sound_weaken[OF sound_bool_and]
      sound_weaken[OF sound_bool_or] sound_bind[OF sound_bool_not] simp: algebra_simps)


section \<open>Completeness\<close>

definition ab_is :: "'f::comm_ring_1 cs \<Rightarrow> allocated_bool \<Rightarrow> bool \<Rightarrow> bool" where
  "ab_is cs a x \<longleftrightarrow> ab_value a = Some x \<and> val cs (ab_variable a) (of_bool x)"

definition bool_is :: "'f::comm_ring_1 cs \<Rightarrow> boolean \<Rightarrow> bool \<Rightarrow> bool" where
  "bool_is cs b x \<longleftrightarrow> (case b of BoolConstant c \<Rightarrow> c = x | BoolVar a \<Rightarrow> ab_is cs a x)"

lemma bool_is_simps [simp]:
  "bool_is cs (BoolConstant c) x \<longleftrightarrow> c = x"
  "bool_is cs (BoolVar a) x \<longleftrightarrow> ab_is cs a x"
  by (simp_all add: bool_is_def)

lemma ab_is_mono: "cs_extends cs cs' \<Longrightarrow> ab_is cs a x \<Longrightarrow> ab_is cs' a x"
  by (auto simp: ab_is_def intro: val_mono)

lemma bool_is_mono: "cs_extends cs cs' \<Longrightarrow> bool_is cs b x \<Longrightarrow> bool_is cs' b x"
  by (auto simp: bool_is_def split: boolean.splits intro: ab_is_mono)

lemma ab_isD:
  "ab_is cs a x \<Longrightarrow> ab_get a = Inr x"
  "ab_is cs a x \<Longrightarrow> val cs (ab_variable a) (of_bool x)"
  by (auto simp: ab_is_def ab_get_def)

lemma bool_isD:
  "bool_is cs b x \<Longrightarrow> bool_value b = Inr x"
  "bool_is cs b x \<Longrightarrow> val cs (bool_variable b) (of_bool x)"
  "bool_is cs b x \<Longrightarrow> bool_val (assign cs) b = of_bool x"
  by (auto simp: bool_is_def bool_value_def bool_variable_def ab_is_def ab_get_def
      split: boolean.splits bool.splits)

lemma assign_zero_one [simp]: "assign cs Zero = 0" "assign cs One = 1"
  by (simp_all add: assign_consts)

lemmas assigned_lc_intros =
  assigned_subset[OF _ lc_vars_diff_vars]
  assigned_subset[OF _ lc_vars_from_var]
  assigned_subset[OF _ lc_vars_from_coeff_var]
  assigned_subset[OF _ lc_vars_add_term]
  assigned_subset[OF _ lc_vars_compactify]
  assigned_subset[OF _ lc_vars_compactify, folded from_sum_coeff_vars_def]

lemma assigned_sum_vars: "assigned cs (set vs) \<Longrightarrow> assigned cs (lc_vars (sum_vars vs))"
  unfolding sum_vars_def
  by (erule assigned_subset, rule subset_trans[OF lc_vars_compactify]) (auto simp: lc_vars_def)

lemma assigned_bool_lc: "bool_is cs b x \<Longrightarrow> assigned cs (lc_vars (bool_lc b))"
  by (auto simp: bool_lc_def bool_is_def ab_is_def intro!: assigned_lc_intros split: boolean.splits bool.splits)

lemma complete_closure_value [complete_intros]:
  "complete cs (closure_value (Inr x)) (\<lambda>v cs'. v = Some x)"
  by (rule completeI) (simp add: closure_value_def honest_def tracked_def is_in_setup_mode_def)

lemma complete_new_witness_without_booleanity_check [complete_intros]:
  "complete cs (new_witness_without_booleanity_check (Inr x)) (\<lambda>a cs'. ab_is cs' a x)"
  unfolding new_witness_without_booleanity_check_def map_sum.simps
  by (rule complete_bind[OF complete_new_witness_variable])
    (auto intro!: complete_bind[OF complete_closure_value] complete_ret simp: ab_is_def val_mono)

lemma complete_ab_new_variable [complete_intros]:
  "complete cs (ab_new_variable (Inr x) m) (\<lambda>a cs'. ab_is cs' a x)"
proof (cases "m = Constant_Mode")
  case True
  then show ?thesis
    by (auto simp: ab_new_variable_def ab_is_def intro!: complete_ret)
next
  case False
  have alloc: "complete cs (if m = Input_Mode then new_input_variable (Inr (of_bool x))
      else new_witness_variable (Inr (of_bool x))) (\<lambda>v cs'. val cs' v (of_bool x))"
    by (simp add: complete_new_witness_variable complete_new_input_variable)
  show ?thesis
    unfolding ab_new_variable_def if_not_P[OF False] map_sum.simps
  proof (rule complete_bind[OF alloc])
    fix v cs' assume v: "val cs' v (of_bool x)"
    show "complete cs' (bind (enforce_r1cs_constraint (diff_vars One v) (lc_from_var v) [])
        (\<lambda>_. bind (closure_value (Inr x)) (\<lambda>value. ret (AllocatedBool v value))))
        (\<lambda>a cs'. ab_is cs' a x)"
      by (rule complete_bind[OF complete_enforce_r1cs])
        (use v in \<open>auto intro!: assigned_lc_intros complete_bind[OF complete_closure_value] complete_ret
          simp: ab_is_def dest: val_mono\<close>)
  qed
qed

lemma complete_ab_not [complete_intros]:
  "ab_is cs a x \<Longrightarrow> complete cs (ab_not a) (\<lambda>r cs'. ab_is cs' r (\<not> x))"
  unfolding ab_not_def
  by (rule complete_bind[OF complete_new_lc])
    (auto intro!: assigned_lc_intros complete_ret simp: ab_is_def of_bool_def)

lemma complete_ab_op:
  assumes "f = Inr z"
    and "\<And>r cs'. cs_extends cs cs' \<Longrightarrow> ab_is cs' r z \<Longrightarrow>
      assigned cs' (lc_vars A) \<and> assigned cs' (lc_vars B) \<and> assigned cs' (lc_vars (C r))
      \<and> lc_eval (assign cs') A * lc_eval (assign cs') B = lc_eval (assign cs') (C r)"
  shows "complete cs (bind (new_witness_without_booleanity_check f) (\<lambda>result.
    bind (enforce_r1cs_constraint A B (C result)) (\<lambda>_. ret result))) (\<lambda>r cs'. ab_is cs' r z)"
  unfolding assms(1)
  by (rule complete_bind[OF complete_new_witness_without_booleanity_check])
    (use assms(2) in \<open>auto intro!: complete_bind[OF complete_enforce_r1cs] complete_ret
      dest: ab_is_mono\<close>)

lemma ab_op_Inr: "ab_is cs a x \<Longrightarrow> ab_is cs b y \<Longrightarrow> ab_op g a b = Inr (g x y)"
  by (simp add: ab_op_def ab_isD)

text \<open>The operations on two allocated booleans.\<close>

lemma complete_ab_binary:
  assumes a: "ab_is cs a x" and b: "ab_is cs b y"
  shows complete_ab_and: "complete cs (ab_and a b) (\<lambda>r cs'. ab_is cs' r (x \<and> y))"
    and complete_ab_or: "complete cs (ab_or a b) (\<lambda>r cs'. ab_is cs' r (x \<or> y))"
    and complete_ab_xor: "complete cs (ab_xor a b) (\<lambda>r cs'. ab_is cs' r (x \<noteq> y))"
    and complete_ab_nor: "complete cs (ab_nor a b) (\<lambda>r cs'. ab_is cs' r (\<not> (x \<or> y)))"
    and complete_ab_and_not: "complete cs (ab_and_not a b) (\<lambda>r cs'. ab_is cs' r (x \<and> \<not> y))"
proof -
  have ext: "val cs' (ab_variable a) (of_bool x) \<and> val cs' (ab_variable b) (of_bool y)"
    if "cs_extends cs cs'" for cs'
    using ab_is_mono[OF that a] ab_is_mono[OF that b] by (simp add: ab_is_def)
  note rules = complete_ab_op[OF ab_op_Inr[OF a b]]
  show "complete cs (ab_and a b) (\<lambda>r cs'. ab_is cs' r (x \<and> y))"
    unfolding ab_and_def
    by (rule rules, drule ext) (cases x; cases y; auto simp: ab_is_def intro!: assigned_lc_intros)
  show "complete cs (ab_or a b) (\<lambda>r cs'. ab_is cs' r (x \<or> y))"
    unfolding ab_or_def
    by (rule rules, drule ext) (cases x; cases y; auto simp: ab_is_def intro!: assigned_lc_intros)
  show "complete cs (ab_nor a b) (\<lambda>r cs'. ab_is cs' r (\<not> (x \<or> y)))"
    unfolding ab_nor_def
    by (rule rules, drule ext) (cases x; cases y; auto simp: ab_is_def intro!: assigned_lc_intros)
  show "complete cs (ab_and_not a b) (\<lambda>r cs'. ab_is cs' r (x \<and> \<not> y))"
    unfolding ab_and_not_def
    by (rule rules, drule ext) (cases x; cases y; auto simp: ab_is_def intro!: assigned_lc_intros)
  show "complete cs (ab_xor a b) (\<lambda>r cs'. ab_is cs' r (x \<noteq> y))"
    unfolding ab_xor_def
    by (rule rules, drule ext) (cases x; cases y; auto simp: ab_is_def intro!: assigned_lc_intros)
qed

lemma complete_bool_new_variable [complete_intros]:
  "complete cs (bool_new_variable (Inr x) m) (\<lambda>b cs'. bool_is cs' b x)"
  unfolding bool_new_variable_def
  by (auto intro!: complete_ret complete_bind[OF complete_ab_new_variable])

lemma complete_bool_not [complete_intros]:
  "bool_is cs b x \<Longrightarrow> complete cs (bool_not b) (\<lambda>r cs'. bool_is cs' r (\<not> x))"
  unfolding bool_not_def bool_not_in_place_def
  by (auto split: boolean.splits intro!: complete_unwrap complete_ret complete_bind[OF complete_ab_not])

lemma complete_bool_and [complete_intros]:
  "bool_is cs a x \<Longrightarrow> bool_is cs b y \<Longrightarrow> complete cs (bool_and a b) (\<lambda>r cs'. bool_is cs' r (x \<and> y))"
  unfolding bool_and_def
  by (cases "(a, b)" rule: bool_and_fallible.cases)
    (auto intro!: complete_unwrap complete_ret complete_bind[OF complete_ab_and])

lemma complete_bool_or [complete_intros]:
  "bool_is cs a x \<Longrightarrow> bool_is cs b y \<Longrightarrow> complete cs (bool_or a b) (\<lambda>r cs'. bool_is cs' r (x \<or> y))"
  unfolding bool_or_def
  by (cases "(a, b)" rule: bool_or_fallible.cases)
    (auto intro!: complete_unwrap complete_ret complete_bind[OF complete_ab_or])

lemma complete_bool_xor [complete_intros]:
  "bool_is cs a x \<Longrightarrow> bool_is cs b y \<Longrightarrow> complete cs (bool_xor a b) (\<lambda>r cs'. bool_is cs' r (x \<noteq> y))"
  unfolding bool_xor_def
  by (cases "(a, b)" rule: bool_xor_fallible.cases)
    (auto intro!: complete_unwrap complete_ret complete_bind[OF complete_ab_xor]
      complete_weaken[OF complete_bool_not])

lemma complete_bool_is_eq [complete_intros]:
  "bool_is cs a x \<Longrightarrow> bool_is cs b y \<Longrightarrow> complete cs (bool_is_eq a b) (\<lambda>r cs'. bool_is cs' r (x = y))"
  unfolding bool_is_eq_def
  by (rule complete_bind[OF complete_bool_xor])
    (auto intro!: complete_weaken[OF complete_bool_not])

lemma assigned_bool_difference:
  "bool_is cs a x \<Longrightarrow> bool_is cs b y \<Longrightarrow> assigned cs (lc_vars (bool_difference a b))"
  by (cases "(a, b)" rule: bool_difference.cases) (auto simp: ab_is_def intro!: assigned_lc_intros)

lemma complete_bool_conditional_enforce_equal [complete_intros]:
  assumes "bool_is cs a x" "bool_is cs b y" "bool_is cs c z" "z \<longrightarrow> x = y"
    and "bool_is_constant a \<and> bool_is_constant b \<longrightarrow> x = y"
  shows "complete cs (bool_conditional_enforce_equal a b c) (\<lambda>_ _. True)"
proof (cases "c = BoolConstant False")
  case False
  show ?thesis
  proof (cases "bool_is_constant a \<and> bool_is_constant b")
    case True
    then show ?thesis using False assms
      by (auto simp: bool_conditional_enforce_equal_def bool_is_constant_def split: boolean.splits
          intro!: complete_ret)
  next
    case nc: False
    then have "bool_conditional_enforce_equal a b c =
        enforce_r1cs_constraint (bool_difference a b) (bool_lc c) ([] :: 'a lc)"
      using False by (auto simp: bool_conditional_enforce_equal_def bool_is_constant_def split: boolean.splits)
    moreover have "lc_eval (assign cs) (bool_difference a b) * lc_eval (assign cs) (bool_lc c) = 0"
      using assms lc_eval_bool_difference[of "assign cs" a b]
      by (cases z) (auto simp: bool_isD)
    ultimately show ?thesis
      using assigned_bool_difference[OF assms(1,2)] assigned_bool_lc[OF assms(3)]
      by (auto intro!: complete_enforce_r1cs)
  qed
qed (auto simp: bool_conditional_enforce_equal_def intro!: complete_ret)

lemma complete_bool_select_var:
  assumes "ab_is cs c z" "bool_is cs a x" "bool_is cs b y"
  shows "complete cs (bool_select_var c a b) (\<lambda>r cs'. bool_is cs' r (if z then x else y))"
proof -
  have f: "result_bind (ab_get c) (\<lambda>c. if c then bool_value a else bool_value b)
      = Inr (if z then x else y)"
    using assms by (simp add: ab_isD bool_isD)
  show ?thesis
    unfolding bool_select_var_def f
  proof (rule complete_bind[OF complete_new_witness_without_booleanity_check])
    fix r cs' assume e: "cs_extends cs cs'" and r: "ab_is cs' r (if z then x else y)"
    have "ab_is cs' c z" "val cs' (bool_variable a) (of_bool x)" "val cs' (bool_variable b) (of_bool y)"
      using ab_is_mono[OF e assms(1)] bool_is_mono[OF e assms(2)] bool_is_mono[OF e assms(3)]
      by (simp_all add: bool_isD)
    then show "complete cs' (bind (enforce_r1cs_constraint (bool_lc (BoolVar c))
            (diff_vars (bool_variable a) (bool_variable b))
            (diff_vars (ab_variable r) (bool_variable b))) (\<lambda>_. ret (BoolVar r)))
         (\<lambda>r cs'. bool_is cs' r (if z then x else y))"
      using r by (cases z; cases x; cases y)
        (auto intro!: complete_bind[OF complete_enforce_r1cs] complete_ret assigned_bool_lc[of _ _ z]
          assigned_lc_intros simp: ab_is_def dest: val_mono)
  qed
qed

lemma complete_bool_conditionally_select [complete_intros]:
  "bool_is cs c z \<Longrightarrow> bool_is cs a x \<Longrightarrow> bool_is cs b y \<Longrightarrow>
   complete cs (bool_conditionally_select c a b) (\<lambda>r cs'. bool_is cs' r (if z then x else y))"
  by (cases "(c, a, b)" rule: bool_conditionally_select.cases)
    (auto intro!: complete_ret complete_weaken[OF complete_bool_select_var]
      complete_weaken[OF complete_bool_and] complete_weaken[OF complete_bool_or]
      complete_bind[OF complete_bool_not] dest: bool_is_mono ab_is_mono)

end
