(* ===== verification/Fp_Gadget.thy ===== *)
theory Fp_Gadget
  imports Boolean_Gadget Prime_Field
begin

text \<open>
  Field variables (vendor/r1cs-std/src/fields/fp/mod.rs and fields/mod.rs): \<^verbatim>\<open>AllocatedFp\<close>, a
  variable with the value the prover recorded for it, and \<^verbatim>\<open>FpVar\<close>, which is one of these or a
  constant.  As for booleans, every variable belongs to the one constraint system.
\<close>

section \<open>Data\<close>

datatype 'f allocated_fp = AllocatedFp (fp_value: "'f option") (fp_variable: variable)

datatype 'f fpvar = FpConstant 'f | FpVar "'f allocated_fp"

definition afp_get :: "'f allocated_fp \<Rightarrow> synthesis_error + 'f" where
  "afp_get a = get_value (fp_value a)"

definition fpvar_value :: "'f fpvar \<Rightarrow> synthesis_error + 'f" where
  "fpvar_value x = (case x of FpConstant v \<Rightarrow> Inr v | FpVar v \<Rightarrow> afp_get v)"

definition option_map2 :: "('a \<Rightarrow> 'b \<Rightarrow> 'c) \<Rightarrow> 'a option \<Rightarrow> 'b option \<Rightarrow> 'c option" where
  "option_map2 g x y = (case (x, y) of (Some a, Some b) \<Rightarrow> Some (g a b) | _ \<Rightarrow> None)"

text \<open>\<^verbatim>\<open>Field::inverse\<close> returns \<^verbatim>\<open>None\<close> for zero.\<close>

definition field_inverse :: "'f::field \<Rightarrow> 'f option" where
  "field_inverse x = (if x = 0 then None else Some (inverse x))"

definition inverse_or_zero :: "'f::field \<Rightarrow> 'f" where
  "inverse_or_zero x = (case field_inverse x of Some y \<Rightarrow> y | None \<Rightarrow> 0)"

section \<open>Allocated field elements\<close>

definition afp_new_variable ::
  "synthesis_error + 'f \<Rightarrow> allocation_mode \<Rightarrow> ('f::field cs, 'f allocated_fp) comp" where
  "afp_new_variable f m =
    (if m = Constant_Mode
     then bind (from_result f) (\<lambda>v. bind (new_lc (lc_from_coeff_var (v, One))) (\<lambda>lc.
            ret (AllocatedFp (Some v) lc)))
     else bind (if m = Input_Mode then new_input_variable f else new_witness_variable f) (\<lambda>variable.
          bind (closure_value f) (\<lambda>value. ret (AllocatedFp value variable))))"

abbreviation afp_new_witness :: "synthesis_error + 'f \<Rightarrow> ('f::field cs, 'f allocated_fp) comp" where
  "afp_new_witness f \<equiv> afp_new_variable f Witness_Mode"

abbreviation afp_new_constant :: "'f \<Rightarrow> ('f::field cs, 'f allocated_fp) comp" where
  "afp_new_constant c \<equiv> afp_new_variable (Inr c) Constant_Mode"

definition afp_from_boolean :: "boolean \<Rightarrow> ('f::field cs, 'f allocated_fp) comp" where
  "afp_from_boolean b =
    bind (unwrap (new_lc (bool_lc b))) (\<lambda>variable.
    ret (AllocatedFp (case bool_value b of Inr v \<Rightarrow> Some (of_bool v) | Inl _ \<Rightarrow> None) variable))"

definition afp_add :: "'f allocated_fp \<Rightarrow> 'f allocated_fp \<Rightarrow> ('f::field cs, 'f allocated_fp) comp" where
  "afp_add a b =
    bind (unwrap (new_lc (sum_vars [fp_variable a, fp_variable b]))) (\<lambda>variable.
    ret (AllocatedFp (option_map2 (+) (fp_value a) (fp_value b)) variable))"

definition sum_values :: "('f::field \<times> 'f option) list \<Rightarrow> 'f option" where
  "sum_values cs = (if list_all (\<lambda>(c, v). v \<noteq> None) cs
     then Some (\<Sum>(c, v)\<leftarrow>cs. c * the v) else None)"

definition afp_add_many :: "'f allocated_fp list \<Rightarrow> ('f::field cs, 'f allocated_fp option) comp" where
  "afp_add_many vs =
    (if vs = [] then ret None
     else bind (unwrap (new_lc (compactify (map (\<lambda>v. (1, fp_variable v)) vs)))) (\<lambda>variable.
          ret (Some (AllocatedFp (sum_values (map (\<lambda>v. (1, fp_value v)) vs)) variable))))"

definition afp_linear_combination ::
  "'f list \<Rightarrow> 'f allocated_fp list \<Rightarrow> ('f::field cs, 'f allocated_fp option) comp" where
  "afp_linear_combination coeffs vs =
    (if length coeffs \<noteq> length vs then raise Panic
     else if vs = [] then ret None
     else bind (unwrap (new_lc (compactify (map (\<lambda>(c, v). (c, fp_variable v)) (zip coeffs vs)))))
       (\<lambda>variable.
          ret (Some (AllocatedFp (sum_values (map (\<lambda>(c, v). (c, fp_value v)) (zip coeffs vs)))
            variable))))"

definition afp_sub :: "'f allocated_fp \<Rightarrow> 'f allocated_fp \<Rightarrow> ('f::field cs, 'f allocated_fp) comp" where
  "afp_sub a b =
    bind (unwrap (new_lc (diff_vars (fp_variable a) (fp_variable b)))) (\<lambda>variable.
    ret (AllocatedFp (option_map2 (-) (fp_value a) (fp_value b)) variable))"

definition afp_op :: "('f \<Rightarrow> 'f \<Rightarrow> 'a) \<Rightarrow> 'f allocated_fp \<Rightarrow> 'f allocated_fp \<Rightarrow> synthesis_error + 'a" where
  "afp_op g a b = result_bind (afp_get a) (\<lambda>x. result_bind (afp_get b) (\<lambda>y. Inr (g x y)))"

definition afp_mul :: "'f allocated_fp \<Rightarrow> 'f allocated_fp \<Rightarrow> ('f::field cs, 'f allocated_fp) comp" where
  "afp_mul a b =
    bind (unwrap (afp_new_witness (afp_op (*) a b))) (\<lambda>product.
    bind (unwrap (enforce_r1cs_constraint (lc_from_var (fp_variable a))
            (lc_from_var (fp_variable b)) (lc_from_var (fp_variable product)))) (\<lambda>_.
    ret product))"

text \<open>
  \<^verbatim>\<open>inner_product\<close>: every pair is multiplied in a constraint of its own and the products are
  summed in one linear combination.  The branches for a variable whose \<^verbatim>\<open>cs\<close> is \<^verbatim>\<open>None\<close> do not
  arise, since every allocated element has the constraint system.
\<close>

definition afp_inner_product ::
  "'f allocated_fp list \<Rightarrow> 'f allocated_fp list \<Rightarrow> ('f::field cs, 'f allocated_fp option) comp" where
  "afp_inner_product vs ws =
    (if length vs \<noteq> length ws then raise Panic
     else bind (map_m (\<lambda>(v, w). afp_mul v w) (zip vs ws)) (\<lambda>products.
       if products = [] then ret None
       else bind (unwrap (new_lc (compactify (map (\<lambda>p. (1, fp_variable p)) products)))) (\<lambda>variable.
            ret (Some (AllocatedFp
              (if list_all (\<lambda>(v, w). fp_value v \<noteq> None \<and> fp_value w \<noteq> None) (zip vs ws)
               then Some (\<Sum>(v, w)\<leftarrow>zip vs ws. the (fp_value v) * the (fp_value w)) else None)
              variable)))))"

definition afp_add_constant :: "'f allocated_fp \<Rightarrow> 'f \<Rightarrow> ('f::field cs, 'f allocated_fp) comp" where
  "afp_add_constant a c =
    (if c = 0 then ret a
     else bind (unwrap (new_lc (from_sum_coeff_vars [(1, fp_variable a), (c, One)]))) (\<lambda>variable.
          ret (AllocatedFp (map_option (\<lambda>x. x + c) (fp_value a)) variable)))"

definition afp_sub_constant :: "'f allocated_fp \<Rightarrow> 'f \<Rightarrow> ('f::field cs, 'f allocated_fp) comp" where
  "afp_sub_constant a c = afp_add_constant a (- c)"

definition afp_mul_constant :: "'f allocated_fp \<Rightarrow> 'f \<Rightarrow> ('f::field cs, 'f allocated_fp) comp" where
  "afp_mul_constant a c =
    (if c = 1 then ret a
     else bind (unwrap (new_lc (lc_from_coeff_var (c, fp_variable a)))) (\<lambda>variable.
          ret (AllocatedFp (map_option (\<lambda>x. x * c) (fp_value a)) variable)))"

definition afp_double :: "'f allocated_fp \<Rightarrow> ('f::field cs, 'f allocated_fp) comp" where
  "afp_double a =
    bind (new_lc (lc_from_coeff_var (1 + 1, fp_variable a))) (\<lambda>variable.
    ret (AllocatedFp (map_option (\<lambda>x. x + x) (fp_value a)) variable))"

definition afp_negate :: "'f allocated_fp \<Rightarrow> ('f::field cs, 'f allocated_fp) comp" where
  "afp_negate a =
    bind (unwrap (new_lc (lc_sub_term [] (1, fp_variable a)))) (\<lambda>variable.
    ret (AllocatedFp (map_option uminus (fp_value a)) variable))"

definition afp_square :: "'f allocated_fp \<Rightarrow> ('f::field cs, 'f allocated_fp) comp" where
  "afp_square a = afp_mul a a"

definition afp_inverse :: "'f allocated_fp \<Rightarrow> ('f::field cs, 'f allocated_fp) comp" where
  "afp_inverse a =
    bind (afp_new_witness (result_bind (afp_get a) (\<lambda>x. Inr (inverse_or_zero x)))) (\<lambda>inv.
    bind (enforce_r1cs_constraint (lc_from_var (fp_variable a)) (lc_from_var (fp_variable inv))
            (lc_from_var One)) (\<lambda>_.
    ret inv))"

definition afp_mul_equals ::
  "'f allocated_fp \<Rightarrow> 'f allocated_fp \<Rightarrow> 'f allocated_fp \<Rightarrow> ('f::field cs, unit) comp" where
  "afp_mul_equals a b result =
    enforce_r1cs_constraint (lc_from_var (fp_variable a)) (lc_from_var (fp_variable b))
      (lc_from_var (fp_variable result))"

definition afp_square_equals :: "'f allocated_fp \<Rightarrow> 'f allocated_fp \<Rightarrow> ('f::field cs, unit) comp" where
  "afp_square_equals a result =
    enforce_r1cs_constraint (lc_from_var (fp_variable a)) (lc_from_var (fp_variable a))
      (lc_from_var (fp_variable result))"

definition afp_is_neq :: "'f allocated_fp \<Rightarrow> 'f allocated_fp \<Rightarrow> ('f::field cs, boolean) comp" where
  "afp_is_neq a b =
    bind (new_witness_without_booleanity_check (afp_op (\<noteq>) a b)) (\<lambda>n.
    let is_not_equal = BoolVar n in
    bind (new_witness_variable (afp_op (\<lambda>x y. if x \<noteq> y then inverse_or_zero (x - y) else 1) a b))
      (\<lambda>multiplier.
    bind (new_lc (diff_vars (fp_variable a) (fp_variable b))) (\<lambda>difference.
    bind (enforce_r1cs_constraint (lc_from_var difference) (lc_from_var multiplier)
            (bool_lc is_not_equal)) (\<lambda>_.
    bind (bool_not is_not_equal) (\<lambda>is_equal.
    bind (enforce_r1cs_constraint (lc_from_var difference) (bool_lc is_equal) []) (\<lambda>_.
    ret is_not_equal))))))"

definition afp_is_eq :: "'f allocated_fp \<Rightarrow> 'f allocated_fp \<Rightarrow> ('f::field cs, boolean) comp" where
  "afp_is_eq a b = bind (afp_is_neq a b) bool_not"

definition afp_conditional_enforce_equal ::
  "'f allocated_fp \<Rightarrow> 'f allocated_fp \<Rightarrow> boolean \<Rightarrow> ('f::field cs, unit) comp" where
  "afp_conditional_enforce_equal a b should_enforce =
    enforce_r1cs_constraint (diff_vars (fp_variable a) (fp_variable b)) (bool_lc should_enforce) []"

definition afp_conditional_enforce_not_equal ::
  "'f allocated_fp \<Rightarrow> 'f allocated_fp \<Rightarrow> boolean \<Rightarrow> ('f::field cs, unit) comp" where
  "afp_conditional_enforce_not_equal a b should_enforce =
    bind (afp_new_witness (result_bind (bool_value should_enforce) (\<lambda>e.
            if e then afp_op (\<lambda>x y. inverse_or_zero (x - y)) a b else Inr 0))) (\<lambda>multiplier.
    enforce_r1cs_constraint (diff_vars (fp_variable a) (fp_variable b))
      (lc_from_var (fp_variable multiplier)) (bool_lc should_enforce))"

definition afp_conditionally_select ::
  "boolean \<Rightarrow> 'f allocated_fp \<Rightarrow> 'f allocated_fp \<Rightarrow> ('f::field cs, 'f allocated_fp) comp" where
  "afp_conditionally_select cond t f = (case cond of
     BoolConstant c \<Rightarrow> ret (if c then t else f)
   | BoolVar _ \<Rightarrow>
       bind (afp_new_witness (result_bind (bool_value cond) (\<lambda>c. afp_get (if c then t else f)))) (\<lambda>result.
       bind (enforce_r1cs_constraint (bool_lc cond)
               (diff_vars (fp_variable t) (fp_variable f))
               (diff_vars (fp_variable result) (fp_variable f))) (\<lambda>_.
       ret result)))"

section \<open>Field variables\<close>

definition fp_new_variable ::
  "synthesis_error + 'f \<Rightarrow> allocation_mode \<Rightarrow> ('f::field cs, 'f fpvar) comp" where
  "fp_new_variable f m =
    (if m = Constant_Mode then bind (from_result f) (\<lambda>v. ret (FpConstant v))
     else bind (afp_new_variable f m) (\<lambda>a. ret (FpVar a)))"

definition fp_from_boolean :: "boolean \<Rightarrow> ('f::field cs, 'f fpvar) comp" where
  "fp_from_boolean b = (case b of
     BoolConstant c \<Rightarrow> ret (FpConstant (of_bool c))
   | BoolVar _ \<Rightarrow>
       bind (unwrap (new_lc (bool_lc b))) (\<lambda>variable.
       ret (FpVar (AllocatedFp (case bool_value b of Inr v \<Rightarrow> Some (of_bool v) | Inl _ \<Rightarrow> None)
         variable))))"

fun fp_add :: "'f fpvar \<Rightarrow> 'f fpvar \<Rightarrow> ('f::field cs, 'f fpvar) comp" where
  "fp_add (FpConstant c) (FpConstant d) = ret (FpConstant (c + d))"
| "fp_add (FpConstant c) (FpVar v) = bind (afp_add_constant v c) (\<lambda>r. ret (FpVar r))"
| "fp_add (FpVar v) (FpConstant c) = bind (afp_add_constant v c) (\<lambda>r. ret (FpVar r))"
| "fp_add (FpVar v) (FpVar w) = bind (afp_add v w) (\<lambda>r. ret (FpVar r))"

fun fp_sub :: "'f fpvar \<Rightarrow> 'f fpvar \<Rightarrow> ('f::field cs, 'f fpvar) comp" where
  "fp_sub (FpConstant c) (FpConstant d) = ret (FpConstant (c - d))"
| "fp_sub (FpVar v) (FpConstant c) = bind (afp_sub_constant v c) (\<lambda>r. ret (FpVar r))"
| "fp_sub (FpConstant c) (FpVar v) =
     bind (afp_sub_constant v c) (\<lambda>d. bind (afp_negate d) (\<lambda>r. ret (FpVar r)))"
| "fp_sub (FpVar v) (FpVar w) = bind (afp_sub v w) (\<lambda>r. ret (FpVar r))"

fun fp_mul :: "'f fpvar \<Rightarrow> 'f fpvar \<Rightarrow> ('f::field cs, 'f fpvar) comp" where
  "fp_mul (FpConstant c) (FpConstant d) = ret (FpConstant (c * d))"
| "fp_mul (FpConstant c) (FpVar v) = bind (afp_mul_constant v c) (\<lambda>r. ret (FpVar r))"
| "fp_mul (FpVar v) (FpConstant c) = bind (afp_mul_constant v c) (\<lambda>r. ret (FpVar r))"
| "fp_mul (FpVar v) (FpVar w) = bind (afp_mul v w) (\<lambda>r. ret (FpVar r))"

definition fp_mul_by :: "'f fpvar \<Rightarrow> 'f \<Rightarrow> ('f::field cs, 'f fpvar) comp" where
  "fp_mul_by x c = (if c = 0 then ret (FpConstant 0) else fp_mul x (FpConstant c))"

definition fp_add_by :: "'f fpvar \<Rightarrow> 'f \<Rightarrow> ('f::field cs, 'f fpvar) comp" where
  "fp_add_by x c = fp_add x (FpConstant c)"

text \<open>\<^verbatim>\<open>Sum\<close>: the constants are added up natively, the variables in one linear combination.\<close>

definition fp_constants :: "'f fpvar list \<Rightarrow> 'f list" where
  "fp_constants xs = List.map_filter (\<lambda>x. case x of FpConstant c \<Rightarrow> Some c | FpVar _ \<Rightarrow> None) xs"

definition fp_variables :: "'f fpvar list \<Rightarrow> 'f allocated_fp list" where
  "fp_variables xs = List.map_filter (\<lambda>x. case x of FpConstant _ \<Rightarrow> None | FpVar v \<Rightarrow> Some v) xs"

definition fp_sum :: "'f fpvar list \<Rightarrow> ('f::field cs, 'f fpvar) comp" where
  "fp_sum xs =
    (let sum_constants = sum_list (fp_constants xs); vs = fp_variables xs in
     if vs = [] then ret (FpConstant sum_constants)
     else bind (afp_add_many vs) (\<lambda>s. case s of
         None \<Rightarrow> ret (FpConstant sum_constants)
       | Some v \<Rightarrow> fp_add_by (FpVar v) sum_constants))"

definition fp_double :: "'f fpvar \<Rightarrow> ('f::field cs, 'f fpvar) comp" where
  "fp_double x = (case x of
     FpConstant c \<Rightarrow> ret (FpConstant (c + c))
   | FpVar v \<Rightarrow> bind (afp_double v) (\<lambda>r. ret (FpVar r)))"

definition fp_negate :: "'f fpvar \<Rightarrow> ('f::field cs, 'f fpvar) comp" where
  "fp_negate x = (case x of
     FpConstant c \<Rightarrow> ret (FpConstant (- c))
   | FpVar v \<Rightarrow> bind (afp_negate v) (\<lambda>r. ret (FpVar r)))"

definition fp_square :: "'f fpvar \<Rightarrow> ('f::field cs, 'f fpvar) comp" where
  "fp_square x = (case x of
     FpConstant c \<Rightarrow> ret (FpConstant (c * c))
   | FpVar v \<Rightarrow> bind (afp_square v) (\<lambda>r. ret (FpVar r)))"

definition fp_inverse :: "'f fpvar \<Rightarrow> ('f::field cs, 'f fpvar) comp" where
  "fp_inverse x = (case x of
     FpConstant c \<Rightarrow> bind (from_result (get_value (field_inverse c))) (\<lambda>i. ret (FpConstant i))
   | FpVar v \<Rightarrow> bind (afp_inverse v) (\<lambda>r. ret (FpVar r)))"

fun fp_is_eq :: "'f fpvar \<Rightarrow> 'f fpvar \<Rightarrow> ('f::field cs, boolean) comp" where
  "fp_is_eq (FpConstant c) (FpConstant d) = ret (BoolConstant (c = d))"
| "fp_is_eq (FpConstant c) (FpVar v) = bind (afp_new_constant c) (\<lambda>c. afp_is_eq c v)"
| "fp_is_eq (FpVar v) (FpConstant c) = bind (afp_new_constant c) (\<lambda>c. afp_is_eq c v)"
| "fp_is_eq (FpVar v) (FpVar w) = afp_is_eq v w"

text \<open>The default \<^verbatim>\<open>is_neq\<close> of the trait \<^verbatim>\<open>EqGadget\<close>.\<close>

definition fp_is_neq :: "'f fpvar \<Rightarrow> 'f fpvar \<Rightarrow> ('f::field cs, boolean) comp" where
  "fp_is_neq a b = bind (fp_is_eq a b) bool_not"

text \<open>Two constants are accepted without a comparison, as in the code.\<close>

fun fp_conditional_enforce_equal :: "'f fpvar \<Rightarrow> 'f fpvar \<Rightarrow> boolean \<Rightarrow> ('f::field cs, unit) comp" where
  "fp_conditional_enforce_equal (FpConstant _) (FpConstant _) e = ret ()"
| "fp_conditional_enforce_equal (FpConstant c) (FpVar v) e =
     bind (afp_new_constant c) (\<lambda>c. afp_conditional_enforce_equal c v e)"
| "fp_conditional_enforce_equal (FpVar v) (FpConstant c) e =
     bind (afp_new_constant c) (\<lambda>c. afp_conditional_enforce_equal c v e)"
| "fp_conditional_enforce_equal (FpVar v) (FpVar w) e = afp_conditional_enforce_equal v w e"

definition fp_enforce_equal :: "'f fpvar \<Rightarrow> 'f fpvar \<Rightarrow> ('f::field cs, unit) comp" where
  "fp_enforce_equal a b = fp_conditional_enforce_equal a b (BoolConstant True)"

fun fp_conditional_enforce_not_equal :: "'f fpvar \<Rightarrow> 'f fpvar \<Rightarrow> boolean \<Rightarrow> ('f::field cs, unit) comp" where
  "fp_conditional_enforce_not_equal (FpConstant _) (FpConstant _) e = ret ()"
| "fp_conditional_enforce_not_equal (FpConstant c) (FpVar v) e =
     bind (afp_new_constant c) (\<lambda>c. afp_conditional_enforce_not_equal c v e)"
| "fp_conditional_enforce_not_equal (FpVar v) (FpConstant c) e =
     bind (afp_new_constant c) (\<lambda>c. afp_conditional_enforce_not_equal c v e)"
| "fp_conditional_enforce_not_equal (FpVar v) (FpVar w) e = afp_conditional_enforce_not_equal v w e"

definition afp_of_fp :: "'f fpvar \<Rightarrow> ('f::field cs, 'f allocated_fp) comp" where
  "afp_of_fp x = (case x of FpConstant c \<Rightarrow> afp_new_constant c | FpVar v \<Rightarrow> ret v)"

fun fp_mul_equals :: "'f fpvar \<Rightarrow> 'f fpvar \<Rightarrow> 'f fpvar \<Rightarrow> ('f::field cs, unit) comp" where
  "fp_mul_equals (FpConstant _) (FpConstant _) (FpConstant _) = ret ()"
| "fp_mul_equals (FpVar v1) (FpVar v2) (FpVar v3) = afp_mul_equals v1 v2 v3"
| "fp_mul_equals (FpVar v1) (FpVar v2) (FpConstant f) =
     bind (unwrap (afp_new_constant f)) (\<lambda>v3. afp_mul_equals v1 v2 v3)"
| "fp_mul_equals a b result = bind (fp_mul a b) (\<lambda>p. fp_enforce_equal result p)"

fun fp_square_equals :: "'f fpvar \<Rightarrow> 'f fpvar \<Rightarrow> ('f::field cs, unit) comp" where
  "fp_square_equals (FpConstant _) (FpConstant _) = ret ()"
| "fp_square_equals (FpConstant f) (FpVar r) =
     bind (afp_new_witness (Inr f)) (\<lambda>v. afp_square_equals v r)"
| "fp_square_equals (FpVar v) (FpConstant f) =
     bind (afp_new_witness (Inr f)) (\<lambda>r. afp_square_equals v r)"
| "fp_square_equals (FpVar v) (FpVar w) = afp_square_equals v w"

definition fp_conditionally_select ::
  "boolean \<Rightarrow> 'f fpvar \<Rightarrow> 'f fpvar \<Rightarrow> ('f::field cs, 'f fpvar) comp" where
  "fp_conditionally_select cond t f = (case cond of
     BoolConstant c \<Rightarrow> ret (if c then t else f)
   | BoolVar _ \<Rightarrow> (case (t, f) of
       (FpConstant t, FpConstant f) \<Rightarrow>
         bind (afp_from_boolean cond) (\<lambda>is. bind (bool_not cond) (\<lambda>n.
         bind (afp_from_boolean n) (\<lambda>nt. bind (afp_mul_constant is t) (\<lambda>a.
         bind (afp_mul_constant nt f) (\<lambda>b. bind (afp_add a b) (\<lambda>r. ret (FpVar r)))))))
     | _ \<Rightarrow>
         bind (afp_of_fp t) (\<lambda>t. bind (afp_of_fp f) (\<lambda>f.
         bind (afp_conditionally_select cond t f) (\<lambda>r. ret (FpVar r))))))"

text \<open>
  \<^verbatim>\<open>FpVar::inner_product\<close>: constant products are summed natively, a constant times a variable
  goes into one linear combination, products of variables cost a constraint each.
\<close>

fun split_pairs :: "('f::field fpvar \<times> 'f fpvar) list \<Rightarrow>
    'f \<times> ('f \<times> 'f allocated_fp) list \<times> ('f allocated_fp \<times> 'f allocated_fp) list" where
  "split_pairs [] = (0, [], [])"
| "split_pairs ((FpConstant x, FpConstant y) # ps) =
     (case split_pairs ps of (s, lcs, vars) \<Rightarrow> (x * y + s, lcs, vars))"
| "split_pairs ((FpConstant x, FpVar y) # ps) =
     (case split_pairs ps of (s, lcs, vars) \<Rightarrow> (s, (x, y) # lcs, vars))"
| "split_pairs ((FpVar y, FpConstant x) # ps) =
     (case split_pairs ps of (s, lcs, vars) \<Rightarrow> (s, (x, y) # lcs, vars))"
| "split_pairs ((FpVar x, FpVar y) # ps) =
     (case split_pairs ps of (s, lcs, vars) \<Rightarrow> (s, lcs, (x, y) # vars))"

definition fp_inner_product :: "'f fpvar list \<Rightarrow> 'f fpvar list \<Rightarrow> ('f::field cs, 'f fpvar) comp" where
  "fp_inner_product this other =
    (if length this \<noteq> length other then raise (Err Unsatisfiable)
     else case split_pairs (zip this other) of (sum_constants, lcs, vars) \<Rightarrow>
       bind (afp_linear_combination (map fst lcs) (map snd lcs)) (\<lambda>sum_lc.
       bind (afp_inner_product (map fst vars) (map snd vars)) (\<lambda>sum_variables.
       case (sum_lc, sum_variables) of
         (Some a, Some b) \<Rightarrow> bind (fp_add (FpVar a) (FpVar b)) (\<lambda>ab. fp_add ab (FpConstant sum_constants))
       | (Some a, None) \<Rightarrow> fp_add (FpVar a) (FpConstant sum_constants)
       | (None, Some a) \<Rightarrow> fp_add (FpVar a) (FpConstant sum_constants)
       | (None, None) \<Rightarrow> ret (FpConstant sum_constants))))"

text \<open>\<^verbatim>\<open>pow_by_constant\<close>: square and multiply over the bits of the exponent.\<close>

definition fp_pow_by_constant :: "'f fpvar \<Rightarrow> limbs \<Rightarrow> ('f::field cs, 'f fpvar) comp" where
  "fp_pow_by_constant x exp =
    fold_m (\<lambda>i res. bind (fp_square res) (\<lambda>res. if i then fp_mul res x else ret res))
      (be_without_leading_zeros exp) (FpConstant 1)"

section \<open>Soundness\<close>

definition fp_val :: "(variable \<Rightarrow> 'f) \<Rightarrow> 'f::field fpvar \<Rightarrow> 'f" where
  "fp_val w x = (case x of FpConstant c \<Rightarrow> c | FpVar a \<Rightarrow> w (fp_variable a))"

lemma fp_val_simps [simp]:
  "fp_val w (FpConstant c) = c"
  "fp_val w (FpVar a) = w (fp_variable a)"
  by (simp_all add: fp_val_def)

lemma sound_afp_new_variable:
  "sound (afp_new_variable f m)
     (\<lambda>w a. m = Constant_Mode \<longrightarrow> (\<exists>v. f = Inr v \<and> w (fp_variable a) = v))"
proof (cases "m = Constant_Mode")
  case True
  show ?thesis
    unfolding afp_new_variable_def if_P[OF True]
    by (rule sound_bind[OF sound_from_result[of _ "\<lambda>v. f = Inr v"]], assumption,
        rule sound_bind[OF sound_new_lc], rule sound_ret) (auto simp: True)
next
  case False
  have alloc: "sound (if m = Input_Mode then new_input_variable f else new_witness_variable f) (\<lambda>w v. True)"
    by (simp add: sound_new_input_variable sound_new_witness_variable)
  show ?thesis
    unfolding afp_new_variable_def if_not_P[OF False]
    by (rule sound_bind[OF alloc] sound_bind[OF sound_closure_value] sound_ret)+ (simp add: False)
qed

lemma sound_afp_new_witness [sound_intros]: "sound (afp_new_witness f) (\<lambda>w a. True)"
  by (rule sound_weaken[OF sound_afp_new_variable]) simp

lemma sound_afp_new_constant [sound_intros]:
  "sound (afp_new_constant c) (\<lambda>w a. w (fp_variable a) = c)"
  by (rule sound_weaken[OF sound_afp_new_variable]) simp

lemma sound_unwrap_new_lc: "sound (unwrap (new_lc l)) (\<lambda>w v. w v = lc_eval w l)"
  by (rule sound_unwrap[OF sound_new_lc])

lemma sound_afp_from_boolean [sound_intros]:
  "sound (afp_from_boolean b) (\<lambda>w a. w (fp_variable a) = bool_val w b)"
  unfolding afp_from_boolean_def by (rule sound_bind[OF sound_unwrap_new_lc] sound_ret)+ simp

lemma sound_afp_add [sound_intros]:
  "sound (afp_add a b) (\<lambda>w r. w (fp_variable r) = w (fp_variable a) + w (fp_variable b))"
  unfolding afp_add_def by (rule sound_bind[OF sound_unwrap_new_lc] sound_ret)+ simp

lemma lc_eval_map: "lc_eval w (map (\<lambda>x. (g x, h x)) xs) = (\<Sum>x\<leftarrow>xs. g x * w (h x))"
  by (induction xs) simp_all

lemma sound_afp_add_many [sound_intros]:
  "sound (afp_add_many vs) (\<lambda>w r. case r of
     None \<Rightarrow> vs = [] | Some a \<Rightarrow> w (fp_variable a) = (\<Sum>v\<leftarrow>vs. w (fp_variable v)))"
  unfolding afp_add_many_def
  by (auto intro!: sound_ret sound_bind[OF sound_unwrap_new_lc] simp: lc_eval_map)

lemma sound_afp_linear_combination [sound_intros]:
  "sound (afp_linear_combination cs vs) (\<lambda>w r. case r of
     None \<Rightarrow> vs = [] | Some a \<Rightarrow> w (fp_variable a) = (\<Sum>(c, v)\<leftarrow>zip cs vs. c * w (fp_variable v)))"
  unfolding afp_linear_combination_def
  by (auto intro!: sound_ret sound_raise sound_bind[OF sound_unwrap_new_lc]
      simp: lc_eval_map case_prod_beta')

lemma sound_afp_sub [sound_intros]:
  "sound (afp_sub a b) (\<lambda>w r. w (fp_variable r) = w (fp_variable a) - w (fp_variable b))"
  unfolding afp_sub_def by (rule sound_bind[OF sound_unwrap_new_lc] sound_ret)+ simp

lemma sound_afp_mul [sound_intros]:
  "sound (afp_mul a b) (\<lambda>w r. w (fp_variable r) = w (fp_variable a) * w (fp_variable b))"
  unfolding afp_mul_def
  by (rule sound_bind[OF sound_unwrap[OF sound_afp_new_witness]]
      sound_bind[OF sound_unwrap[OF sound_enforce_r1cs]] sound_ret)+ simp

lemma sound_afp_inner_product [sound_intros]:
  "sound (afp_inner_product vs ws) (\<lambda>w r. case r of
     None \<Rightarrow> vs = [] | Some a \<Rightarrow> w (fp_variable a)
       = (\<Sum>(v, u)\<leftarrow>zip vs ws. w (fp_variable v) * w (fp_variable u)))"
proof (cases "length vs = length ws")
  case len: True
  let ?R = "\<lambda>w. \<lambda>(v, u) p. w (fp_variable p) = w (fp_variable v) * w (fp_variable u)"
  have products: "sound (map_m (\<lambda>(v, u). afp_mul v u) (zip vs ws)) (\<lambda>w ps. list_all2 (?R w) (zip vs ws) ps)"
    by (rule sound_map_m) (auto intro: sound_afp_mul)
  have sum: "list_all2 (?R w) xs ps \<Longrightarrow>
      (\<Sum>p\<leftarrow>ps. w (fp_variable p)) = (\<Sum>(v, u)\<leftarrow>xs. w (fp_variable v) * w (fp_variable u))"
    for w :: "variable \<Rightarrow> 'a" and xs ps
    by (induction xs ps rule: list_all2_induct) auto
  have empty: "list_all2 (?R w) (zip vs ws) [] \<Longrightarrow> vs = []" for w :: "variable \<Rightarrow> 'a"
    using len by (cases vs; cases ws) auto
  show ?thesis
    unfolding afp_inner_product_def using len
    by (auto intro!: sound_bind[OF products] sound_bind[OF sound_unwrap_new_lc] sound_ret
        simp: lc_eval_map sum dest: empty)
qed (simp add: afp_inner_product_def sound_raise)

lemma sound_afp_add_constant [sound_intros]:
  "sound (afp_add_constant a c) (\<lambda>w r. w (fp_variable r) = w (fp_variable a) + c)"
  unfolding afp_add_constant_def by (auto intro!: sound_ret sound_bind[OF sound_unwrap_new_lc])

lemma sound_afp_sub_constant [sound_intros]:
  "sound (afp_sub_constant a c) (\<lambda>w r. w (fp_variable r) = w (fp_variable a) - c)"
  unfolding afp_sub_constant_def by (rule sound_weaken[OF sound_afp_add_constant]) simp

lemma sound_afp_mul_constant [sound_intros]:
  "sound (afp_mul_constant a c) (\<lambda>w r. w (fp_variable r) = w (fp_variable a) * c)"
  unfolding afp_mul_constant_def by (auto intro!: sound_ret sound_bind[OF sound_unwrap_new_lc])

lemma sound_afp_double [sound_intros]:
  "sound (afp_double a) (\<lambda>w r. w (fp_variable r) = w (fp_variable a) + w (fp_variable a))"
  unfolding afp_double_def
  by (rule sound_bind[OF sound_new_lc] sound_ret)+ (simp add: distrib_right)

lemma sound_afp_negate [sound_intros]:
  "sound (afp_negate a) (\<lambda>w r. w (fp_variable r) = - w (fp_variable a))"
  unfolding afp_negate_def by (rule sound_bind[OF sound_unwrap_new_lc] sound_ret)+ simp

lemma sound_afp_inverse [sound_intros]:
  "sound (afp_inverse a) (\<lambda>w r. w (fp_variable a) * w (fp_variable r) = 1)"
  unfolding afp_inverse_def
  by (rule sound_bind[OF sound_afp_new_witness] sound_bind[OF sound_enforce_r1cs] sound_ret)+ simp

lemma sound_afp_mul_equals [sound_intros]:
  "sound (afp_mul_equals a b r) (\<lambda>w _. w (fp_variable a) * w (fp_variable b) = w (fp_variable r))"
  unfolding afp_mul_equals_def by (rule sound_weaken[OF sound_enforce_r1cs]) simp

lemma sound_afp_square_equals [sound_intros]:
  "sound (afp_square_equals a r) (\<lambda>w _. w (fp_variable a) * w (fp_variable a) = w (fp_variable r))"
  unfolding afp_square_equals_def by (rule sound_weaken[OF sound_enforce_r1cs]) simp

text \<open>The comment in the code argues that the output is a bit although no constraint says so.\<close>

lemma sound_afp_is_neq [sound_intros]:
  "sound (afp_is_neq a b) (\<lambda>w r. bool_val w r = of_bool (w (fp_variable a) \<noteq> w (fp_variable b)))"
  unfolding afp_is_neq_def Let_def
  by (rule sound_bind[OF sound_new_witness_without_booleanity_check]
      sound_bind[OF sound_new_witness_variable] sound_bind[OF sound_new_lc]
      sound_bind[OF sound_enforce_r1cs] sound_bind[OF sound_bool_not] sound_ret)+ auto

lemma sound_afp_is_eq [sound_intros]:
  "sound (afp_is_eq a b) (\<lambda>w r. bool_val w r = of_bool (w (fp_variable a) = w (fp_variable b)))"
  unfolding afp_is_eq_def
  by (rule sound_bind[OF sound_afp_is_neq], rule sound_weaken[OF sound_bool_not]) auto

lemma sound_afp_conditional_enforce_equal [sound_intros]:
  "sound (afp_conditional_enforce_equal a b e)
     (\<lambda>w _. bool_val w e \<noteq> 0 \<longrightarrow> w (fp_variable a) = w (fp_variable b))"
  unfolding afp_conditional_enforce_equal_def by (rule sound_weaken[OF sound_enforce_r1cs]) auto

lemma sound_afp_conditional_enforce_not_equal [sound_intros]:
  "sound (afp_conditional_enforce_not_equal a b e)
     (\<lambda>w _. bool_val w e \<noteq> 0 \<longrightarrow> w (fp_variable a) \<noteq> w (fp_variable b))"
  unfolding afp_conditional_enforce_not_equal_def
  by (rule sound_bind[OF sound_afp_new_witness], rule sound_weaken[OF sound_enforce_r1cs]) auto

lemma sound_afp_conditionally_select [sound_intros]:
  "sound (afp_conditionally_select c a b) (\<lambda>w r. w (fp_variable r) =
     w (fp_variable b) + bool_val w c * (w (fp_variable a) - w (fp_variable b)))"
  unfolding afp_conditionally_select_def
  by (auto split: boolean.split intro!: sound_ret sound_bind[OF sound_afp_new_witness]
      sound_bind[OF sound_enforce_r1cs])

text \<open>The operations on \<^verbatim>\<open>FpVar\<close>.\<close>

lemma sound_fp_new_variable [sound_intros]:
  "sound (fp_new_variable f m) (\<lambda>w x. m = Constant_Mode \<longrightarrow> f = Inr (fp_val w x))"
  unfolding fp_new_variable_def
  by (auto intro!: sound_bind[OF sound_from_result[of _ "\<lambda>v. f = Inr v"]]
      sound_bind[OF sound_afp_new_variable] sound_ret)

lemma sound_fp_from_boolean [sound_intros]:
  "sound (fp_from_boolean b) (\<lambda>w x. fp_val w x = bool_val w b)"
  unfolding fp_from_boolean_def
  by (auto split: boolean.split intro!: sound_ret sound_bind[OF sound_unwrap_new_lc])

lemma sound_fp_add [sound_intros]: "sound (fp_add a b) (\<lambda>w r. fp_val w r = fp_val w a + fp_val w b)"
  by (cases a; cases b)
    (auto intro!: sound_ret sound_bind[OF sound_afp_add_constant] sound_bind[OF sound_afp_add])

lemma sound_fp_sub [sound_intros]: "sound (fp_sub a b) (\<lambda>w r. fp_val w r = fp_val w a - fp_val w b)"
  by (cases a; cases b)
    (auto intro!: sound_ret sound_bind[OF sound_afp_sub_constant] sound_bind[OF sound_afp_sub]
      sound_bind[OF sound_afp_negate])

lemma sound_fp_mul [sound_intros]: "sound (fp_mul a b) (\<lambda>w r. fp_val w r = fp_val w a * fp_val w b)"
  by (cases a; cases b)
    (auto intro!: sound_ret sound_bind[OF sound_afp_mul_constant] sound_bind[OF sound_afp_mul])

lemma sound_fp_mul_by [sound_intros]: "sound (fp_mul_by a c) (\<lambda>w r. fp_val w r = fp_val w a * c)"
  unfolding fp_mul_by_def by (auto intro!: sound_ret sound_weaken[OF sound_fp_mul])

lemma sound_fp_add_by [sound_intros]: "sound (fp_add_by a c) (\<lambda>w r. fp_val w r = fp_val w a + c)"
  unfolding fp_add_by_def by (rule sound_weaken[OF sound_fp_add]) simp

lemma fp_sum_split:
  "(\<Sum>x\<leftarrow>xs. fp_val w x) = (\<Sum>v\<leftarrow>fp_variables xs. w (fp_variable v)) + sum_list (fp_constants xs)"
  by (induction xs)
    (auto simp: fp_variables_def fp_constants_def map_filter_simps algebra_simps split: fpvar.split)

lemma sound_fp_sum [sound_intros]: "sound (fp_sum xs) (\<lambda>w r. fp_val w r = (\<Sum>x\<leftarrow>xs. fp_val w x))"
  unfolding fp_sum_def Let_def
  by (auto intro!: sound_ret sound_bind[OF sound_afp_add_many] sound_weaken[OF sound_fp_add_by]
      simp: fp_sum_split split: option.split)

lemma sound_fp_double [sound_intros]: "sound (fp_double a) (\<lambda>w r. fp_val w r = fp_val w a + fp_val w a)"
  unfolding fp_double_def by (auto split: fpvar.split intro!: sound_ret sound_bind[OF sound_afp_double])

lemma sound_fp_negate [sound_intros]: "sound (fp_negate a) (\<lambda>w r. fp_val w r = - fp_val w a)"
  unfolding fp_negate_def by (auto split: fpvar.split intro!: sound_ret sound_bind[OF sound_afp_negate])

lemma sound_fp_square [sound_intros]: "sound (fp_square a) (\<lambda>w r. fp_val w r = fp_val w a * fp_val w a)"
  unfolding fp_square_def afp_square_def
  by (auto split: fpvar.split intro!: sound_ret sound_bind[OF sound_afp_mul])

lemma sound_fp_inverse [sound_intros]: "sound (fp_inverse a) (\<lambda>w r. fp_val w a * fp_val w r = 1)"
proof (cases a)
  case (FpConstant c)
  have "sound (from_result (get_value (field_inverse c))) (\<lambda>w i. c * i = 1)"
    by (rule sound_from_result) (auto simp: field_inverse_def split: if_splits)
  then show ?thesis by (auto simp: FpConstant fp_inverse_def intro!: sound_bind sound_ret)
qed (auto simp: fp_inverse_def intro!: sound_bind[OF sound_afp_inverse] sound_ret)

lemma sound_fp_is_eq [sound_intros]:
  "sound (fp_is_eq a b) (\<lambda>w r. bool_val w r = of_bool (fp_val w a = fp_val w b))"
  by (cases a; cases b)
    (auto intro!: sound_ret sound_bind[OF sound_afp_new_constant] sound_weaken[OF sound_afp_is_eq])

lemma sound_fp_is_neq [sound_intros]:
  "sound (fp_is_neq a b) (\<lambda>w r. bool_val w r = of_bool (fp_val w a \<noteq> fp_val w b))"
  unfolding fp_is_neq_def
  by (rule sound_bind[OF sound_fp_is_eq], rule sound_weaken[OF sound_bool_not]) auto

definition both_constant :: "'f fpvar \<Rightarrow> 'f fpvar \<Rightarrow> bool" where
  "both_constant a b = (case (a, b) of (FpConstant _, FpConstant _) \<Rightarrow> True | _ \<Rightarrow> False)"

lemma both_constant_simps [simp]:
  "both_constant (FpConstant c) (FpConstant d)"
  "\<not> both_constant (FpVar v) b" "\<not> both_constant a (FpVar v)"
  by (simp_all add: both_constant_def split: fpvar.split)

lemma sound_fp_conditional_enforce_equal [sound_intros]:
  "sound (fp_conditional_enforce_equal a b e)
     (\<lambda>w _. \<not> both_constant a b \<longrightarrow> bool_val w e \<noteq> 0 \<longrightarrow> fp_val w a = fp_val w b)"
  by (cases a; cases b)
    (auto intro!: sound_ret sound_bind[OF sound_afp_new_constant]
      sound_weaken[OF sound_afp_conditional_enforce_equal])

lemma sound_fp_enforce_equal [sound_intros]:
  "sound (fp_enforce_equal a b) (\<lambda>w _. \<not> both_constant a b \<longrightarrow> fp_val w a = fp_val w b)"
  unfolding fp_enforce_equal_def by (rule sound_weaken[OF sound_fp_conditional_enforce_equal]) simp

lemma sound_fp_conditional_enforce_not_equal [sound_intros]:
  "sound (fp_conditional_enforce_not_equal a b e)
     (\<lambda>w _. \<not> both_constant a b \<longrightarrow> bool_val w e \<noteq> 0 \<longrightarrow> fp_val w a \<noteq> fp_val w b)"
  by (cases a; cases b)
    (auto intro!: sound_ret sound_bind[OF sound_afp_new_constant]
      sound_weaken[OF sound_afp_conditional_enforce_not_equal])

lemma sound_afp_of_fp [sound_intros]: "sound (afp_of_fp x) (\<lambda>w a. w (fp_variable a) = fp_val w x)"
  unfolding afp_of_fp_def
  by (auto split: fpvar.split intro!: sound_ret sound_weaken[OF sound_afp_new_constant])

lemma sound_fp_mul_var:
  "sound (fp_mul a b) (\<lambda>w r. fp_val w r = fp_val w a * fp_val w b
     \<and> (both_constant r r \<longleftrightarrow> both_constant a b))"
  by (cases a; cases b)
    (auto intro!: sound_ret sound_bind[OF sound_afp_mul_constant] sound_bind[OF sound_afp_mul])

lemma sound_fp_mul_equals [sound_intros]:
  "sound (fp_mul_equals a b r)
     (\<lambda>w _. \<not> (both_constant a b \<and> both_constant r r) \<longrightarrow> fp_val w a * fp_val w b = fp_val w r)"
proof -
  have mul: "sound (bind (fp_mul a b) (\<lambda>p. fp_enforce_equal r p))
      (\<lambda>w _. \<not> (both_constant a b \<and> both_constant r r) \<longrightarrow> fp_val w a * fp_val w b = fp_val w r)"
    by (rule sound_bind[OF sound_fp_mul_var], rule sound_weaken[OF sound_fp_enforce_equal])
      (auto simp: both_constant_def split: fpvar.splits)
  show ?thesis
    using mul by (cases a; cases b; cases r)
      (auto intro!: sound_ret sound_weaken[OF sound_afp_mul_equals]
        sound_bind[OF sound_unwrap[OF sound_afp_new_constant]])
qed

lemma sound_fp_square_equals_var [sound_intros]:
  "sound (fp_square_equals (FpVar a) (FpVar r))
     (\<lambda>w _. w (fp_variable a) * w (fp_variable a) = w (fp_variable r))"
  by (simp add: sound_afp_square_equals)

lemma sound_fp_conditionally_select [sound_intros]:
  "sound (fp_conditionally_select c a b) (\<lambda>w r. fp_val w r =
     fp_val w b + bool_val w c * (fp_val w a - fp_val w b))"
proof (cases c)
  case (BoolVar v)
  show ?thesis
  proof (cases "both_constant a b")
    case True
    then obtain x y where ab: "a = FpConstant x" "b = FpConstant y"
      by (cases a; cases b) auto
    show ?thesis
      unfolding fp_conditionally_select_def BoolVar ab boolean.case fpvar.case prod.case
      by (rule sound_bind[OF sound_afp_from_boolean] sound_bind[OF sound_bool_not]
          sound_bind[OF sound_afp_mul_constant] sound_bind[OF sound_afp_add] sound_ret)+
        (simp, simp add: algebra_simps)
  next
    case False
    then have "fp_conditionally_select c a b =
         bind (afp_of_fp a) (\<lambda>t. bind (afp_of_fp b) (\<lambda>f.
         bind (afp_conditionally_select c t f) (\<lambda>r. ret (FpVar r))))"
      by (cases a; cases b) (simp_all add: fp_conditionally_select_def BoolVar)
    then show ?thesis
      by (auto intro!: sound_bind[OF sound_afp_of_fp] sound_bind[OF sound_afp_conditionally_select]
          sound_ret)
  qed
qed (auto simp: fp_conditionally_select_def intro!: sound_ret)

lemma split_pairs_sum:
  "split_pairs ps = (s, lcs, vars) \<Longrightarrow>
   (\<Sum>(x, y)\<leftarrow>ps. fp_val w x * fp_val w y) =
     s + (\<Sum>(c, v)\<leftarrow>lcs. c * w (fp_variable v))
       + (\<Sum>(v, u)\<leftarrow>vars. w (fp_variable v) * w (fp_variable u))"
proof (induction ps arbitrary: s lcs vars rule: split_pairs.induct)
qed (auto split: prod.splits simp: algebra_simps)

lemma sound_fp_inner_product [sound_intros]:
  "sound (fp_inner_product xs ys)
     (\<lambda>w r. fp_val w r = (\<Sum>(x, y)\<leftarrow>zip xs ys. fp_val w x * fp_val w y))"
proof (cases "length xs = length ys")
  case len: True
  obtain s lcs vars where sp: "split_pairs (zip xs ys) = (s, lcs, vars)" by (cases "split_pairs (zip xs ys)")
  note sums = split_pairs_sum[OF sp]
  show ?thesis
    unfolding fp_inner_product_def sp prod.case if_not_P[OF not_not[THEN iffD2, OF len]]
    by (rule sound_bind[OF sound_afp_linear_combination],
        rule sound_bind[OF sound_afp_inner_product], unfold List.zip_map_fst_snd sums)
      (auto split: option.split intro!: sound_bind[OF sound_fp_add] sound_weaken[OF sound_fp_add]
          sound_ret simp del: fp_add.simps)
qed (simp add: fp_inner_product_def sound_raise)

lemma sound_fp_pow_by_constant [sound_intros]:
  "sound (fp_pow_by_constant x exp) (\<lambda>w r. fp_val w r = fp_val w x ^ limbs_value exp)"
proof -
  let ?bits = "be_without_leading_zeros exp"
  have step: "sound (bind (fp_square acc) (\<lambda>res. if i then fp_mul res x else ret res))
      (\<lambda>w acc'. fp_val w acc' = pow_step (fp_val w x) i (fp_val w acc))" for i acc
    by (cases i) (auto intro!: sound_bind[OF sound_fp_square] sound_weaken[OF sound_fp_mul] sound_ret
        simp: pow_step_def)
  have "sound (fp_pow_by_constant x exp)
      (\<lambda>w acc'. fp_val w (FpConstant 1) = fold (pow_step (fp_val w x)) [] 1 \<longrightarrow>
         fp_val w acc' = fold (pow_step (fp_val w x)) ([] @ ?bits) 1)"
    unfolding fp_pow_by_constant_def
    by (rule sound_fold_m[where I = "\<lambda>w ys acc. fp_val w acc = fold (pow_step (fp_val w x)) ys 1",
          OF step]) simp
  then show ?thesis by (rule sound_weaken) (simp add: pow_def flip: pow_eq)
qed


section \<open>Completeness\<close>

definition afp_is :: "'f::field cs \<Rightarrow> 'f allocated_fp \<Rightarrow> 'f \<Rightarrow> bool" where
  "afp_is cs a x \<longleftrightarrow> fp_value a = Some x \<and> val cs (fp_variable a) x"

definition fp_is :: "'f::field cs \<Rightarrow> 'f fpvar \<Rightarrow> 'f \<Rightarrow> bool" where
  "fp_is cs y x = (case y of FpConstant c \<Rightarrow> c = x | FpVar a \<Rightarrow> afp_is cs a x)"

lemma fp_is_simps [simp]:
  "fp_is cs (FpConstant c) x \<longleftrightarrow> c = x"
  "fp_is cs (FpVar a) x \<longleftrightarrow> afp_is cs a x"
  by (simp_all add: fp_is_def)

lemma afp_is_mono: "cs_extends cs cs' \<Longrightarrow> afp_is cs a x \<Longrightarrow> afp_is cs' a x"
  by (auto simp: afp_is_def intro: val_mono)

lemma fp_is_mono: "cs_extends cs cs' \<Longrightarrow> fp_is cs y x \<Longrightarrow> fp_is cs' y x"
  by (auto simp: fp_is_def split: fpvar.splits intro: afp_is_mono)

lemma afp_isD:
  "afp_is cs a x \<Longrightarrow> afp_get a = Inr x"
  "afp_is cs a x \<Longrightarrow> fp_value a = Some x"
  "afp_is cs a x \<Longrightarrow> val cs (fp_variable a) x"
  "afp_is cs a x \<Longrightarrow> assign cs (fp_variable a) = x"
  by (auto simp: afp_is_def afp_get_def)

lemma fp_isD:
  "fp_is cs y x \<Longrightarrow> fpvar_value y = Inr x"
  "fp_is cs y x \<Longrightarrow> fp_val (assign cs) y = x"
  by (auto simp: fp_is_def fpvar_value_def afp_isD split: fpvar.splits)

lemma complete_afp_new_variable [complete_intros]:
  "complete cs (afp_new_variable (Inr x) m) (\<lambda>a cs'. afp_is cs' a x)"
proof (cases "m = Constant_Mode")
  case True
  show ?thesis
    unfolding afp_new_variable_def if_P[OF True] from_result_Inr bind_ret
    by (rule complete_bind[OF complete_new_lc], rule assigned_lc_intros, simp)
      (auto intro!: complete_ret simp: afp_is_def)
next
  case False
  have alloc: "complete cs (if m = Input_Mode then new_input_variable (Inr x)
      else new_witness_variable (Inr x)) (\<lambda>v cs'. val cs' v x)"
    by (simp add: complete_new_witness_variable complete_new_input_variable)
  show ?thesis
    unfolding afp_new_variable_def if_not_P[OF False]
    by (rule complete_bind[OF alloc], rule complete_bind[OF complete_closure_value])
      (auto intro!: complete_ret simp: afp_is_def val_mono)
qed

text \<open>A step that makes one linear combination and records a value for it.\<close>

lemma complete_lc_step:
  assumes "assigned cs (lc_vars l)" and "v = Some (lc_eval (assign cs) l)" and "x = lc_eval (assign cs) l"
  shows "complete cs (bind (unwrap (new_lc l)) (\<lambda>variable. ret (AllocatedFp v variable)))
    (\<lambda>a cs'. afp_is cs' a x)"
  by (rule complete_bind[OF complete_unwrap[OF complete_new_lc[OF assms(1)]]])
    (auto intro!: complete_ret simp: afp_is_def assms)

lemma complete_afp_from_boolean [complete_intros]:
  "bool_is cs b x \<Longrightarrow> complete cs (afp_from_boolean b) (\<lambda>a cs'. afp_is cs' a (of_bool x))"
  unfolding afp_from_boolean_def
  by (rule complete_lc_step) (auto intro: assigned_bool_lc simp: bool_isD)

lemma complete_afp_add [complete_intros]:
  "afp_is cs a x \<Longrightarrow> afp_is cs b y \<Longrightarrow> complete cs (afp_add a b) (\<lambda>r cs'. afp_is cs' r (x + y))"
  unfolding afp_add_def
  by (rule complete_lc_step) (auto intro!: assigned_sum_vars simp: afp_is_def option_map2_def)

lemma complete_afp_sub [complete_intros]:
  "afp_is cs a x \<Longrightarrow> afp_is cs b y \<Longrightarrow> complete cs (afp_sub a b) (\<lambda>r cs'. afp_is cs' r (x - y))"
  unfolding afp_sub_def
  by (rule complete_lc_step) (auto intro!: assigned_lc_intros simp: afp_is_def option_map2_def)

lemma complete_afp_add_constant [complete_intros]:
  "afp_is cs a x \<Longrightarrow> complete cs (afp_add_constant a c) (\<lambda>r cs'. afp_is cs' r (x + c))"
  unfolding afp_add_constant_def
  by (cases "c = 0", simp add: complete_ret, simp, rule complete_lc_step)
    (auto intro!: assigned_lc_intros simp: afp_is_def)

lemma complete_afp_sub_constant [complete_intros]:
  "afp_is cs a x \<Longrightarrow> complete cs (afp_sub_constant a c) (\<lambda>r cs'. afp_is cs' r (x - c))"
  unfolding afp_sub_constant_def
  by (rule complete_weaken[OF complete_afp_add_constant]) auto

lemma complete_afp_mul_constant [complete_intros]:
  "afp_is cs a x \<Longrightarrow> complete cs (afp_mul_constant a c) (\<lambda>r cs'. afp_is cs' r (x * c))"
  unfolding afp_mul_constant_def
  by (cases "c = 1", simp add: complete_ret, simp, rule complete_lc_step)
    (auto intro!: assigned_lc_intros simp: afp_is_def mult.commute)

lemma complete_afp_negate [complete_intros]:
  "afp_is cs a x \<Longrightarrow> complete cs (afp_negate a) (\<lambda>r cs'. afp_is cs' r (- x))"
  unfolding afp_negate_def
  by (rule complete_lc_step)
    (auto intro!: assigned_lc_intros simp: afp_is_def lc_sub_term_def)

lemma complete_afp_double [complete_intros]:
  "afp_is cs a x \<Longrightarrow> complete cs (afp_double a) (\<lambda>r cs'. afp_is cs' r (x + x))"
  unfolding afp_double_def
  by (rule complete_bind[OF complete_new_lc])
    (auto intro!: complete_ret assigned_lc_intros simp: afp_is_def distrib_right)

lemma complete_afp_mul [complete_intros]:
  assumes "afp_is cs a x" "afp_is cs b y"
  shows "complete cs (afp_mul a b) (\<lambda>r cs'. afp_is cs' r (x * y))"
proof -
  have f: "afp_op (*) a b = Inr (x * y)" using assms by (simp add: afp_op_def afp_isD)
  show ?thesis
    unfolding afp_mul_def f
  proof (rule complete_bind[OF complete_unwrap[OF complete_afp_new_variable]])
    fix p cs' assume e: "cs_extends cs cs'" and p: "afp_is cs' p (x * y)"
    note ab = afp_is_mono[OF e assms(1)] afp_is_mono[OF e assms(2)]
    show "complete cs' (bind (unwrap (enforce_r1cs_constraint (lc_from_var (fp_variable a))
            (lc_from_var (fp_variable b)) (lc_from_var (fp_variable p)))) (\<lambda>_. ret p))
         (\<lambda>r cs'. afp_is cs' r (x * y))"
      by (rule complete_bind[OF complete_unwrap[OF complete_enforce_r1cs]])
        (use p ab in \<open>auto intro!: assigned_lc_intros complete_ret simp: afp_is_def dest: val_mono\<close>)
  qed
qed

lemma list_all2_sum:
  "list_all2 (\<lambda>v x. g v = x) vs xs \<Longrightarrow> (\<Sum>v\<leftarrow>vs. g v) = sum_list xs"
  by (induction vs xs rule: list_all2_induct) auto

lemma assigned_map_vars:
  "list_all2 (afp_is cs) vs xs \<Longrightarrow> assigned cs (lc_vars (map (\<lambda>v. (1, fp_variable v)) vs))"
  by (induction vs xs rule: list_all2_induct) (auto simp: afp_is_def)

lemma complete_afp_add_many [complete_intros]:
  assumes "list_all2 (afp_is cs) vs xs" "vs \<noteq> []"
  shows "complete cs (afp_add_many vs) (\<lambda>r cs'. \<exists>a. r = Some a \<and> afp_is cs' a (sum_list xs))"
proof -
  have ev: "lc_eval (assign cs) (map (\<lambda>v. (1, fp_variable v)) vs) = sum_list xs"
    using assms(1) by (induction vs xs rule: list_all2_induct) (auto simp: afp_is_def)
  have sv: "sum_values (map (\<lambda>v. (1, fp_value v)) vs) = Some (sum_list xs)"
    using assms(1) by (induction vs xs rule: list_all2_induct)
      (auto simp: sum_values_def afp_is_def list_all_iff split: if_splits)
  show ?thesis
    unfolding afp_add_many_def if_not_P[OF assms(2)] sv
    by (rule complete_bind[OF complete_unwrap[OF complete_new_lc]],
        rule assigned_lc_intros, rule assigned_map_vars[OF assms(1)])
      (auto intro!: complete_ret simp: afp_is_def ev)
qed

lemma complete_afp_linear_combination [complete_intros]:
  assumes "list_all2 (afp_is cs) vs xs" "length cfs = length vs"
  shows "complete cs (afp_linear_combination cfs vs) (\<lambda>r cs'. case r of
     None \<Rightarrow> vs = [] | Some a \<Rightarrow> vs \<noteq> [] \<and> afp_is cs' a (\<Sum>(c, x)\<leftarrow>zip cfs xs. c * x))"
proof -
  let ?l = "map (\<lambda>(c, v). (c, fp_variable v)) (zip cfs vs)"
  let ?s = "\<Sum>(c, x)\<leftarrow>zip cfs xs. c * x"
  have all: "lc_eval (assign cs) ?l = ?s \<and> assigned cs (lc_vars ?l)
     \<and> list_all (\<lambda>(c, v). v \<noteq> None) (map (\<lambda>(c, v). (c, fp_value v)) (zip cfs vs))
     \<and> (\<Sum>(c, v)\<leftarrow>map (\<lambda>(c, v). (c, fp_value v)) (zip cfs vs). c * the v) = ?s"
    using assms by (induction vs xs arbitrary: cfs rule: list_all2_induct)
      (auto simp: afp_is_def length_Suc_conv)
  then have sv: "sum_values (map (\<lambda>(c, v). (c, fp_value v)) (zip cfs vs)) = Some ?s"
    by (simp add: sum_values_def)
  show ?thesis
  proof (cases "vs = []")
    case False
    show ?thesis
      unfolding afp_linear_combination_def if_not_P[OF False] sv using assms(2)
      by (simp, intro complete_bind[OF complete_unwrap[OF complete_new_lc]] assigned_lc_intros)
        (use all False in \<open>auto intro!: complete_ret simp: afp_is_def\<close>)
  qed (use assms in \<open>simp add: afp_linear_combination_def complete_ret\<close>)
qed

lemma complete_afp_is_neq [complete_intros]:
  assumes "afp_is cs a x" "afp_is cs b y"
  shows "complete cs (afp_is_neq a b) (\<lambda>r cs'. bool_is cs' r (x \<noteq> y))"
proof -
  have f: "afp_op (\<noteq>) a b = Inr (x \<noteq> y)"
    "afp_op (\<lambda>x y. if x \<noteq> y then inverse_or_zero (x - y) else 1) a b
      = Inr (if x \<noteq> y then inverse (x - y) else 1)"
    using assms by (simp_all add: afp_op_def afp_isD inverse_or_zero_def field_inverse_def)
  show ?thesis
    unfolding afp_is_neq_def Let_def f
  proof (rule complete_bind[OF complete_new_witness_without_booleanity_check],
      rule complete_bind[OF complete_new_witness_variable],
      rule complete_bind[OF complete_new_lc])
    fix n cs1 m cs2
    assume 1: "cs_extends cs cs1" "ab_is cs1 n (x \<noteq> y)"
      and 2: "cs_extends cs1 cs2" "val cs2 m (if x \<noteq> y then inverse (x - y) else 1)"
    note e = cs_extends_trans[OF 1(1) 2(1)]
    note ab = afp_is_mono[OF e assms(1)] afp_is_mono[OF e assms(2)]
    show "assigned cs2 (lc_vars (diff_vars (fp_variable a) (fp_variable b)))"
      using ab by (intro assigned_lc_intros) (auto simp: afp_is_def)
    fix d cs3
    assume 3: "cs_extends cs2 cs3" "val cs3 d (lc_eval (assign cs2) (diff_vars (fp_variable a) (fp_variable b)))"
    have d: "val cs3 d (x - y)" using 3(2) ab by (simp add: afp_isD)
    have m: "val cs3 m (if x \<noteq> y then inverse (x - y) else 1)" by (rule val_mono[OF 3(1) 2(2)])
    have n: "ab_is cs3 n (x \<noteq> y)" by (rule ab_is_mono[OF cs_extends_trans[OF 2(1) 3(1)] 1(2)])
    show "complete cs3
        (bind (enforce_r1cs_constraint (lc_from_var d) (lc_from_var m) (bool_lc (BoolVar n)))
          (\<lambda>_. bind (bool_not (BoolVar n))
            (\<lambda>is_equal. bind (enforce_r1cs_constraint (lc_from_var d) (bool_lc is_equal) [])
              (\<lambda>_. ret (BoolVar n))))) (\<lambda>r cs'. bool_is cs' r (x \<noteq> y))"
    proof (rule complete_bind[OF complete_enforce_r1cs])
      fix cs4 assume 4: "cs_extends cs3 cs4"
      show "complete cs4 (bind (bool_not (BoolVar n))
            (\<lambda>is_equal. bind (enforce_r1cs_constraint (lc_from_var d) (bool_lc is_equal) [])
              (\<lambda>_. ret (BoolVar n)))) (\<lambda>r cs'. bool_is cs' r (x \<noteq> y))"
      proof (rule complete_bind[OF complete_bool_not[of _ _ "x \<noteq> y"]])
        show "bool_is cs4 (BoolVar n) (x \<noteq> y)" using ab_is_mono[OF 4 n] by simp
        fix q cs5 assume 5: "cs_extends cs4 cs5" "bool_is cs5 q (\<not> (x \<noteq> y))"
        have d5: "val cs5 d (x - y)" by (rule val_mono[OF cs_extends_trans[OF 4 5(1)] d])
        have n5: "ab_is cs5 n (x \<noteq> y)" by (rule ab_is_mono[OF cs_extends_trans[OF 4 5(1)] n])
        show "complete cs5 (bind (enforce_r1cs_constraint (lc_from_var d) (bool_lc q) [])
              (\<lambda>_. ret (BoolVar n))) (\<lambda>r cs'. bool_is cs' r (x \<noteq> y))"
          by (rule complete_bind[OF complete_enforce_r1cs])
            (use d5 n5 5(2) in \<open>auto intro!: assigned_lc_intros complete_ret
              intro: assigned_bool_lc ab_is_mono simp: bool_isD\<close>)
      qed
    qed (use d m n in \<open>auto intro!: assigned_lc_intros assigned_bool_lc[of _ _ "x \<noteq> y"]
          simp: ab_is_def\<close>)
  qed
qed

lemma complete_afp_is_eq [complete_intros]:
  "afp_is cs a x \<Longrightarrow> afp_is cs b y \<Longrightarrow> complete cs (afp_is_eq a b) (\<lambda>r cs'. bool_is cs' r (x = y))"
  unfolding afp_is_eq_def
  by (rule complete_bind[OF complete_afp_is_neq]) (auto intro!: complete_weaken[OF complete_bool_not])

lemma complete_afp_conditional_enforce_equal [complete_intros]:
  assumes "afp_is cs a x" "afp_is cs b y" "bool_is cs e z" "z \<longrightarrow> x = y"
  shows "complete cs (afp_conditional_enforce_equal a b e) (\<lambda>_ _. True)"
  unfolding afp_conditional_enforce_equal_def
  by (rule complete_enforce_r1cs)
    (use assms in \<open>auto intro!: assigned_lc_intros intro: assigned_bool_lc simp: afp_is_def bool_isD\<close>)

lemma complete_afp_conditionally_select [complete_intros]:
  assumes "bool_is cs c z" "afp_is cs a x" "afp_is cs b y"
  shows "complete cs (afp_conditionally_select c a b) (\<lambda>r cs'. afp_is cs' r (if z then x else y))"
proof (cases c)
  case (BoolVar v)
  have f: "result_bind (bool_value c) (\<lambda>c. afp_get (if c then a else b)) = Inr (if z then x else y)"
    using assms by (simp add: bool_isD afp_isD)
  have eq: "afp_conditionally_select c a b =
      bind (afp_new_witness (Inr (if z then x else y))) (\<lambda>result.
      bind (enforce_r1cs_constraint (bool_lc (BoolVar v))
        (diff_vars (fp_variable a) (fp_variable b))
        (diff_vars (fp_variable result) (fp_variable b))) (\<lambda>_. ret result))"
    using f by (simp add: BoolVar afp_conditionally_select_def)
  show ?thesis
    unfolding eq
  proof (rule complete_bind[OF complete_afp_new_variable])
    fix r cs' assume e: "cs_extends cs cs'" and r: "afp_is cs' r (if z then x else y)"
    note c = bool_is_mono[OF e assms(1)] and ab = afp_is_mono[OF e assms(2)] afp_is_mono[OF e assms(3)]
    show "complete cs' (bind (enforce_r1cs_constraint (bool_lc (BoolVar v))
            (diff_vars (fp_variable a) (fp_variable b)) (diff_vars (fp_variable r) (fp_variable b)))
          (\<lambda>_. ret r)) (\<lambda>r cs'. afp_is cs' r (if z then x else y))"
      using c ab r unfolding BoolVar
      by (intro complete_bind[OF complete_enforce_r1cs] complete_ret assigned_bool_lc assigned_lc_intros)
        (auto simp: afp_is_def ab_is_def dest: val_mono)
  qed
qed (use assms in \<open>auto simp: afp_conditionally_select_def intro!: complete_ret\<close>)

text \<open>The operations on \<^verbatim>\<open>FpVar\<close>.\<close>

lemma complete_fp_new_variable [complete_intros]:
  "complete cs (fp_new_variable (Inr x) m) (\<lambda>r cs'. fp_is cs' r x)"
  unfolding fp_new_variable_def by (auto intro!: complete_ret complete_bind[OF complete_afp_new_variable])

lemma complete_fp_from_boolean [complete_intros]:
  "bool_is cs b x \<Longrightarrow> complete cs (fp_from_boolean b) (\<lambda>r cs'. fp_is cs' r (of_bool x))"
proof (cases b)
  case (BoolVar v)
  assume b: "bool_is cs b x"
  show ?thesis
    unfolding fp_from_boolean_def BoolVar boolean.case
    by (rule complete_bind[OF complete_unwrap[OF complete_new_lc[OF assigned_bool_lc[OF b[unfolded BoolVar]]]]])
      (use b BoolVar in \<open>auto intro!: complete_ret simp: afp_is_def ab_is_def bool_value_def ab_get_def\<close>)
qed (auto simp: fp_from_boolean_def intro!: complete_ret)

lemma complete_fp_add [complete_intros]:
  "fp_is cs a x \<Longrightarrow> fp_is cs b y \<Longrightarrow> complete cs (fp_add a b) (\<lambda>r cs'. fp_is cs' r (x + y))"
  by (cases a; cases b)
    (auto intro!: complete_ret complete_bind[OF complete_afp_add_constant] complete_bind[OF complete_afp_add]
      simp: add.commute)

lemma complete_fp_sub [complete_intros]:
  "fp_is cs a x \<Longrightarrow> fp_is cs b y \<Longrightarrow> complete cs (fp_sub a b) (\<lambda>r cs'. fp_is cs' r (x - y))"
  by (cases a; cases b)
    (auto intro!: complete_ret complete_bind[OF complete_afp_sub_constant] complete_bind[OF complete_afp_sub]
      complete_bind[OF complete_afp_negate])

lemma complete_fp_mul [complete_intros]:
  "fp_is cs a x \<Longrightarrow> fp_is cs b y \<Longrightarrow> complete cs (fp_mul a b) (\<lambda>r cs'. fp_is cs' r (x * y))"
  by (cases a; cases b)
    (auto intro!: complete_ret complete_bind[OF complete_afp_mul_constant] complete_bind[OF complete_afp_mul]
      simp: mult.commute)

lemma complete_fp_mul_by [complete_intros]:
  "fp_is cs a x \<Longrightarrow> complete cs (fp_mul_by a c) (\<lambda>r cs'. fp_is cs' r (x * c))"
  unfolding fp_mul_by_def by (auto intro!: complete_ret complete_fp_mul)

lemma complete_fp_add_by [complete_intros]:
  "fp_is cs a x \<Longrightarrow> complete cs (fp_add_by a c) (\<lambda>r cs'. fp_is cs' r (x + c))"
  unfolding fp_add_by_def by (auto intro!: complete_fp_add)

lemma fp_is_split:
  "list_all2 (fp_is cs) ys xs \<Longrightarrow> \<exists>vs. list_all2 (afp_is cs) (fp_variables ys) vs
     \<and> sum_list xs = sum_list vs + sum_list (fp_constants ys)"
proof (induction ys xs rule: list_all2_induct)
  case (Cons y ys x xs)
  then obtain vs where "list_all2 (afp_is cs) (fp_variables ys) vs"
      "sum_list xs = sum_list vs + sum_list (fp_constants ys)" by blast
  with Cons(1) show ?case
    by (cases y) (auto simp: fp_variables_def fp_constants_def map_filter_simps
        intro: exI[of _ vs] exI[of _ "x # vs"])
qed (simp add: fp_variables_def fp_constants_def map_filter_simps)

lemma complete_fp_sum [complete_intros]:
  assumes "list_all2 (fp_is cs) ys xs"
  shows "complete cs (fp_sum ys) (\<lambda>r cs'. fp_is cs' r (sum_list xs))"
proof -
  obtain vs where vs: "list_all2 (afp_is cs) (fp_variables ys) vs"
      "sum_list xs = sum_list vs + sum_list (fp_constants ys)"
    using fp_is_split[OF assms] by blast
  show ?thesis
  proof (cases "fp_variables ys = []")
    case True
    with vs show ?thesis by (auto simp: fp_sum_def Let_def intro!: complete_ret)
  next
    case False
    show ?thesis
      unfolding fp_sum_def Let_def if_not_P[OF False]
      by (rule complete_bind[OF complete_afp_add_many[OF vs(1) False]])
        (auto intro!: complete_weaken[OF complete_fp_add_by] simp: vs(2))
  qed
qed

lemma complete_fp_square [complete_intros]:
  "fp_is cs a x \<Longrightarrow> complete cs (fp_square a) (\<lambda>r cs'. fp_is cs' r (x * x))"
  unfolding fp_square_def afp_square_def
  by (cases a) (auto intro!: complete_ret complete_bind[OF complete_afp_mul])

lemma complete_fp_is_eq [complete_intros]:
  "fp_is cs a x \<Longrightarrow> fp_is cs b y \<Longrightarrow> complete cs (fp_is_eq a b) (\<lambda>r cs'. bool_is cs' r (x = y))"
  by (cases a; cases b)
    (auto intro!: complete_ret complete_bind[OF complete_afp_new_variable]
      complete_weaken[OF complete_afp_is_eq] dest: afp_is_mono simp: eq_commute[of y x])

lemma complete_fp_conditional_enforce_equal [complete_intros]:
  "fp_is cs a x \<Longrightarrow> fp_is cs b y \<Longrightarrow> bool_is cs e z \<Longrightarrow> z \<longrightarrow> x = y \<Longrightarrow>
   complete cs (fp_conditional_enforce_equal a b e) (\<lambda>_ _. True)"
  by (cases a; cases b)
    (auto intro!: complete_ret complete_bind[OF complete_afp_new_variable]
      intro: complete_afp_conditional_enforce_equal afp_is_mono bool_is_mono)

lemma complete_fp_enforce_equal [complete_intros]:
  "fp_is cs a x \<Longrightarrow> fp_is cs b x \<Longrightarrow> complete cs (fp_enforce_equal a b) (\<lambda>_ _. True)"
  unfolding fp_enforce_equal_def by (rule complete_fp_conditional_enforce_equal[where z = True]) auto

lemma complete_afp_of_fp [complete_intros]:
  "fp_is cs a x \<Longrightarrow> complete cs (afp_of_fp a) (\<lambda>r cs'. afp_is cs' r x)"
  unfolding afp_of_fp_def by (cases a) (auto intro!: complete_ret complete_afp_new_variable)

lemma complete_fp_pow_by_constant [complete_intros]:
  assumes x: "fp_is cs a x"
  shows "complete cs (fp_pow_by_constant a exp) (\<lambda>r cs'. fp_is cs' r (x ^ limbs_value exp))"
proof -
  have "complete cs (fp_pow_by_constant a exp)
      (\<lambda>r cs'. fp_is cs' r (fold (pow_step x) (be_without_leading_zeros exp) 1))"
    unfolding fp_pow_by_constant_def
  proof (rule complete_fold_m[where I = "\<lambda>ys acc cs'. fp_is cs' acc (fold (pow_step x) ys 1)"])
    fix i acc cs1 ys zs
    assume e: "cs_extends cs cs1" and acc: "fp_is cs1 acc (fold (pow_step x) ys 1)"
    note a1 = fp_is_mono[OF e x]
    show "complete cs1 (bind (fp_square acc) (\<lambda>res. if i then fp_mul res a else ret res))
        (\<lambda>acc' cs''. fp_is cs'' acc' (fold (pow_step x) (ys @ [i]) 1))"
      by (rule complete_bind[OF complete_fp_square[OF acc]])
        (auto simp: pow_step_def intro!: complete_ret
          intro: complete_weaken[OF complete_fp_mul[OF _ fp_is_mono[OF _ a1]]])
  qed simp
  then show ?thesis by (simp flip: pow_eq add: pow_def)
qed

lemma complete_fp_conditionally_select [complete_intros]:
  assumes c: "bool_is cs c z" and a: "fp_is cs a x" and b: "fp_is cs b y"
  shows "complete cs (fp_conditionally_select c a b) (\<lambda>r cs'. fp_is cs' r (if z then x else y))"
proof (cases c)
  case (BoolVar v)
  show ?thesis
  proof (cases "both_constant a b")
    case True
    then have ab: "a = FpConstant x" "b = FpConstant y" using assms by (cases a; cases b; auto)+
    have run: "complete cs (bind (afp_from_boolean c) (\<lambda>is. bind (bool_not c) (\<lambda>n.
         bind (afp_from_boolean n) (\<lambda>nt. bind (afp_mul_constant is x) (\<lambda>p.
         bind (afp_mul_constant nt y) (\<lambda>q. bind (afp_add p q) (\<lambda>r. ret (FpVar r))))))))
       (\<lambda>r cs'. fp_is cs' r (of_bool z * x + of_bool (\<not> z) * y))"
    proof (rule complete_bind[OF complete_afp_from_boolean[OF c]])
      fix i cs1 assume 1: "cs_extends cs cs1" "afp_is cs1 i (of_bool z)"
      show "complete cs1 (bind (bool_not c) (\<lambda>n. bind (afp_from_boolean n) (\<lambda>nt.
           bind (afp_mul_constant i x) (\<lambda>p. bind (afp_mul_constant nt y) (\<lambda>q.
           bind (afp_add p q) (\<lambda>r. ret (FpVar r)))))))
         (\<lambda>r cs'. fp_is cs' r (of_bool z * x + of_bool (\<not> z) * y))"
      proof (rule complete_bind[OF complete_bool_not[OF bool_is_mono[OF 1(1) c]]],
          rule complete_bind[OF complete_afp_from_boolean], assumption)
        fix n cs2 nt cs3
        assume 2: "cs_extends cs1 cs2" "cs_extends cs2 cs3" "afp_is cs3 nt (of_bool (\<not> z))"
        have i3: "afp_is cs3 i (of_bool z)" using 1(2) 2(1,2) afp_is_mono by blast
        show "complete cs3 (bind (afp_mul_constant i x) (\<lambda>p. bind (afp_mul_constant nt y) (\<lambda>q.
             bind (afp_add p q) (\<lambda>r. ret (FpVar r)))))
           (\<lambda>r cs'. fp_is cs' r (of_bool z * x + of_bool (\<not> z) * y))"
        proof (rule complete_bind[OF complete_afp_mul_constant[OF i3]])
          fix p cs4 assume 4: "cs_extends cs3 cs4" "afp_is cs4 p (of_bool z * x)"
          show "complete cs4 (bind (afp_mul_constant nt y) (\<lambda>q. bind (afp_add p q) (\<lambda>r. ret (FpVar r))))
             (\<lambda>r cs'. fp_is cs' r (of_bool z * x + of_bool (\<not> z) * y))"
            by (rule complete_bind[OF complete_afp_mul_constant[OF afp_is_mono[OF 4(1) 2(3)]]],
                rule complete_bind[OF complete_afp_add[OF afp_is_mono[OF _ 4(2)]]], assumption, assumption,
                rule complete_ret) simp
        qed
      qed
    qed
    have eq: "fp_conditionally_select c a b = bind (afp_from_boolean c) (\<lambda>is. bind (bool_not c) (\<lambda>n.
         bind (afp_from_boolean n) (\<lambda>nt. bind (afp_mul_constant is x) (\<lambda>p.
         bind (afp_mul_constant nt y) (\<lambda>q. bind (afp_add p q) (\<lambda>r. ret (FpVar r)))))))"
      by (simp add: fp_conditionally_select_def BoolVar ab)
    show ?thesis unfolding eq by (rule complete_weaken[OF run]) (cases z; simp)
  next
    case False
    then have eq: "fp_conditionally_select c a b =
         bind (afp_of_fp a) (\<lambda>t. bind (afp_of_fp b) (\<lambda>f.
         bind (afp_conditionally_select c t f) (\<lambda>r. ret (FpVar r))))"
      by (cases a; cases b) (simp_all add: fp_conditionally_select_def BoolVar)
    show ?thesis
      unfolding eq
    proof (rule complete_bind[OF complete_afp_of_fp[OF a]])
      fix t cs1 assume 1: "cs_extends cs cs1" "afp_is cs1 t x"
      show "complete cs1 (bind (afp_of_fp b) (\<lambda>f. bind (afp_conditionally_select c t f) (\<lambda>r. ret (FpVar r))))
          (\<lambda>r cs'. fp_is cs' r (if z then x else y))"
      proof (rule complete_bind[OF complete_afp_of_fp[OF fp_is_mono[OF 1(1) b]]])
        fix f cs2 assume 2: "cs_extends cs1 cs2" "afp_is cs2 f y"
        have c2: "bool_is cs2 c z" by (rule bool_is_mono[OF cs_extends_trans[OF 1(1) 2(1)] c])
        show "complete cs2 (bind (afp_conditionally_select c t f) (\<lambda>r. ret (FpVar r)))
            (\<lambda>r cs'. fp_is cs' r (if z then x else y))"
          by (rule complete_bind[OF complete_afp_conditionally_select[OF c2 afp_is_mono[OF 2(1) 1(2)] 2(2)]],
              rule complete_ret) simp
      qed
    qed
  qed
qed (use assms in \<open>auto simp: fp_conditionally_select_def intro!: complete_ret\<close>)

end
