(* ===== verification/Bits_Gadget.thy ===== *)
theory Bits_Gadget
  imports Fp_Gadget
begin

text \<open>
  Bit decompositions: the \<open>k\<close>-ary conjunction (vendor/r1cs-std/src/boolean/and.rs), the comparison
  of a bit vector with a constant (boolean/cmp.rs) and \<^verbatim>\<open>to_bits_le\<close> (fields/fp/mod.rs).  The
  decomposition is shown to be the unique one below the modulus, which is what range checks built
  on it rest on.
\<close>

section \<open>Operations\<close>

definition kary_and :: "boolean list \<Rightarrow> ('f::field cs, boolean) comp" where
  "kary_and bits =
    (if bits = [] then raise Panic
     else if length bits \<le> 3 then fold_m (\<lambda>next cur. bool_and cur next) (tl bits) (hd bits)
     else bind (map_m fp_from_boolean bits) (\<lambda>xs. bind (fp_sum xs) (\<lambda>sum_bits.
            fp_is_eq sum_bits (FpConstant (of_nat (length bits))))))"

definition kary_nand :: "boolean list \<Rightarrow> ('f::field cs, boolean) comp" where
  "kary_nand bits = bind (kary_and bits) bool_not"

definition enforce_kary_nand :: "boolean list \<Rightarrow> ('f::field cs, unit) comp" where
  "enforce_kary_nand bits = bind (kary_and bits) (\<lambda>r. bool_enforce_equal r (BoolConstant False))"

text \<open>
  The loop of \<^verbatim>\<open>enforce_smaller_or_equal_than_le\<close> over the pairs (bit of the constant, bit
  variable), most significant first, with \<^verbatim>\<open>last_run\<close> and \<^verbatim>\<open>current_run\<close>.
\<close>

fun le_loop :: "(bool \<times> boolean) list \<Rightarrow> boolean \<Rightarrow> boolean list \<Rightarrow> ('f::field cs, boolean list) comp" where
  "le_loop [] last_run current_run = ret current_run"
| "le_loop ((b, a) # rest) last_run current_run =
    (if b then le_loop rest last_run (current_run @ [a])
     else bind (if current_run \<noteq> [] then kary_and (current_run @ [last_run]) else ret last_run)
            (\<lambda>last_run. bind (enforce_kary_nand [last_run, a]) (\<lambda>_. le_loop rest last_run [])))"

definition enforce_smaller_or_equal_than_le ::
  "boolean list \<Rightarrow> limbs \<Rightarrow> ('f::field cs, boolean list) comp" where
  "enforce_smaller_or_equal_than_le bits b =
    (let element_bits = be_without_leading_zeros b;
         element_num_bits = length element_bits;
         bits_iter = rev (take element_num_bits bits)
     in bind (if length bits > element_num_bits
              then bind (fold_m (\<lambda>should_be_zero or_result. bool_or or_result should_be_zero)
                           (drop element_num_bits bits) (BoolConstant False))
                     (\<lambda>or_result. bool_enforce_equal or_result (BoolConstant False))
              else ret ())
          (\<lambda>_. le_loop (zip element_bits bits_iter) (BoolConstant True) []))"

definition enforce_in_field_le :: "'f prime_field \<Rightarrow> boolean list \<Rightarrow> ('f::field cs, unit) comp" where
  "enforce_in_field_le pf bits =
    (case MODULUS pf of
       [] \<Rightarrow> raise Panic
     | b0 # bs \<Rightarrow>
         if b0 mod 2 \<noteq> 1 then raise Panic
         else bind (enforce_smaller_or_equal_than_le bits ((b0 - 1) # bs)) (\<lambda>run.
           if run \<noteq> [] then raise Panic else ret ()))"

text \<open>
  The bits the prover offers: those of the value, from the first bit set in the modulus on, most
  significant first, then reversed.
\<close>

definition witness_bits :: "'f prime_field \<Rightarrow> 'f option \<Rightarrow> fault + bool option list" where
  "witness_bits pf v = (case v of
     Some value \<Rightarrow>
       (let field_char = be_collect (be_new (MODULUS pf));
            bits = map (\<lambda>(b, _). Some b)
              (dropWhile (\<lambda>(_, c). \<not> c) (zip (be_collect (be_new (into_bigint pf value))) field_char))
        in if length bits \<noteq> modulus_bit_size pf then Inl Panic else Inr (rev bits))
   | None \<Rightarrow> Inr (rev (replicate (modulus_bit_size pf) None)))"

primrec powers_of_two :: "nat \<Rightarrow> 'f::comm_ring_1 \<Rightarrow> 'f list" where
  "powers_of_two 0 coeff = []"
| "powers_of_two (Suc n) coeff = coeff # powers_of_two n (coeff + coeff)"

definition afp_to_non_unique_bits_le ::
  "'f prime_field \<Rightarrow> 'f allocated_fp \<Rightarrow> ('f::field cs, boolean list) comp" where
  "afp_to_non_unique_bits_le pf a = (case witness_bits pf (fp_value a) of
     Inl e \<Rightarrow> raise e
   | Inr bits \<Rightarrow>
       bind (map_m (\<lambda>b. bool_new_variable (get_value b) Witness_Mode) bits) (\<lambda>bits.
       bind (enforce_r1cs_constraint [] []
              (compactify (zip (powers_of_two (length bits) 1) (map bool_variable bits)
                @ [(- 1, fp_variable a)]))) (\<lambda>_.
       ret bits)))"

definition afp_to_bits_le ::
  "'f prime_field \<Rightarrow> 'f allocated_fp \<Rightarrow> ('f::field cs, boolean list) comp" where
  "afp_to_bits_le pf a =
    bind (afp_to_non_unique_bits_le pf a) (\<lambda>bits. bind (enforce_in_field_le pf bits) (\<lambda>_. ret bits))"

definition fp_to_bits_le :: "'f prime_field \<Rightarrow> 'f fpvar \<Rightarrow> ('f::field cs, boolean list) comp" where
  "fp_to_bits_le pf x = (case x of
     FpConstant c \<Rightarrow> ret (map BoolConstant (le_take (modulus_bit_size pf) (le_new (into_bigint pf c))))
   | FpVar v \<Rightarrow> afp_to_bits_le pf v)"

section \<open>Bits as booleans\<close>

definition bit_val :: "(variable \<Rightarrow> 'f::comm_ring_1) \<Rightarrow> boolean \<Rightarrow> bool" where
  "bit_val w b \<longleftrightarrow> bool_val w b = 1"

abbreviation all_bits :: "(variable \<Rightarrow> 'f::comm_ring_1) \<Rightarrow> boolean list \<Rightarrow> bool" where
  "all_bits w bs \<equiv> \<forall>b\<in>set bs. is_bit (bool_val w b)"

lemma bool_val_bit: "is_bit (bool_val w b) \<Longrightarrow> bool_val w b = of_bool (bit_val w b)"
  by (auto simp: is_bit_def bit_val_def)

lemma bit_val_constant [simp]: "bit_val w (BoolConstant c) \<longleftrightarrow> c"
  by (cases c) (simp_all add: bit_val_def)

lemma sum_of_bits:
  "all_bits w bs \<Longrightarrow> (\<Sum>b\<leftarrow>bs. bool_val w b) = of_nat (length (filter (bit_val w) bs))"
  by (induction bs) (auto simp: bool_val_bit)

lemma filter_all_iff: "length (filter P xs) = length xs \<longleftrightarrow> (\<forall>x\<in>set xs. P x)"
  by (metis filter_True length_filter_less nat_neq_iff)

lemma length_powers_of_two [simp]: "length (powers_of_two n c) = n"
  by (induction n arbitrary: c) simp_all

lemma powers_of_two_eval:
  "all_bits w bs \<Longrightarrow> w Zero = 0 \<Longrightarrow> w One = 1 \<Longrightarrow>
   lc_eval w (zip (powers_of_two (length bs) c) (map bool_variable bs))
     = c * of_nat (bits_value (map (bit_val w) bs))"
proof (induction bs arbitrary: c)
  case (Cons b bs)
  have "w (bool_variable b) = of_bool (bit_val w b)"
    using Cons.prems by (simp add: bool_variable_val bool_val_bit)
  then show ?case using Cons by (simp add: algebra_simps)
qed simp

lemma bits_value_drop_leading: "bits_value (rev (dropWhile Not bs)) = bits_value (rev bs)"
  by (induction bs) (simp_all add: bits_value_append)

lemma without_leading_zeros_value: "bits_value (rev (be_without_leading_zeros e)) = limbs_value e"
  using limbs_value_bound[of e]
  by (simp add: be_without_leading_zeros_def bits_value_drop_leading be_collect_new bits_value_map_bit
      take_bit_nat_eq_self_iff)

lemma without_leading_zeros_length:
  assumes "limbs_value e < 2 ^ k"
  shows "length (be_without_leading_zeros e) \<le> k"
proof (cases "be_without_leading_zeros e")
  case (Cons b bs)
  then have b unfolding be_without_leading_zeros_def by (metis dropWhile_eq_Cons_conv)
  then have "2 ^ length bs \<le> limbs_value e"
    using without_leading_zeros_value[of e] by (simp add: Cons bits_value_append)
  with assms have "(2::nat) ^ length bs < 2 ^ k" by linarith
  then show ?thesis by (simp add: Cons)
qed simp

section \<open>Soundness\<close>

lemma sound_bool_and_fold:
  "sound (fold_m (\<lambda>next cur. bool_and cur next) bs b)
     (\<lambda>w r. bool_val w r = bool_val w b * (\<Prod>x\<leftarrow>bs. bool_val w x))"
proof -
  have "sound (fold_m (\<lambda>next cur. bool_and cur next) bs b)
     (\<lambda>w r. bool_val w b = bool_val w b * (\<Prod>x\<leftarrow>[]. bool_val w x) \<longrightarrow>
        bool_val w r = bool_val w b * (\<Prod>x\<leftarrow>[] @ bs. bool_val w x))"
    by (rule sound_fold_m[where I = "\<lambda>w ys acc. bool_val w acc = bool_val w b * (\<Prod>x\<leftarrow>ys. bool_val w x)"
          and S = "\<lambda>w x acc acc'. bool_val w acc' = bool_val w acc * bool_val w x"],
        rule sound_bool_and) (simp add: mult.assoc)
  then show ?thesis by (rule sound_weaken) simp
qed

lemma product_of_bits:
  "all_bits w bs \<Longrightarrow> (\<Prod>x\<leftarrow>bs. bool_val w x) = of_bool (\<forall>x\<in>set bs. bit_val w x)"
  by (induction bs) (auto simp: bool_val_bit)

lemma sound_bool_or_fold:
  "sound (fold_m (\<lambda>x acc. bool_or acc x) bs (BoolConstant False))
     (\<lambda>w r. all_bits w bs \<longrightarrow> bool_val w r = of_bool (\<exists>x\<in>set bs. bit_val w x))"
proof -
  let ?I = "\<lambda>w ys acc. all_bits w ys \<longrightarrow> bool_val w acc = of_bool (\<exists>x\<in>set ys. bit_val w x)"
  have "sound (fold_m (\<lambda>x acc. bool_or acc x) bs (BoolConstant False))
     (\<lambda>w r. ?I w [] (BoolConstant False) \<longrightarrow> ?I w ([] @ bs) r)"
    by (rule sound_fold_m[where I = ?I and S = "\<lambda>w x acc acc'. bool_val w acc'
            = bool_val w acc + bool_val w x - bool_val w acc * bool_val w x"], rule sound_bool_or)
      (auto simp: is_bit_def bit_val_def)
  then show ?thesis by (rule sound_weaken) simp
qed

context prime_field_impl
begin

lemma sound_kary_and:
  assumes "length bits < limbs_value (MODULUS pf)"
  shows "sound (kary_and bits :: ('f cs, boolean) comp)
     (\<lambda>w r. all_bits w bits \<longrightarrow> bool_val w r = of_bool (\<forall>b\<in>set bits. bit_val w b))"
proof -
  consider "bits = []" | "bits \<noteq> []" "length bits \<le> 3" | "bits \<noteq> []" "\<not> length bits \<le> 3" by blast
  then show ?thesis
  proof cases
    case 1
    then show ?thesis by (simp add: kary_and_def sound_raise)
  next
    case 2
    then obtain b bs where bits: "bits = b # bs" by (cases bits) auto
    show ?thesis
      unfolding kary_and_def if_not_P[OF 2(1)] if_P[OF 2(2)]
      by (rule sound_weaken[OF sound_bool_and_fold]) (auto simp: bits bool_val_bit product_of_bits)
  next
    case 3
    have xs: "sound (map_m fp_from_boolean bits) (\<lambda>w. list_all2 (\<lambda>b x. fp_val w x = bool_val w b) bits)"
      by (rule sound_map_m) (rule sound_fp_from_boolean)
    have sum: "list_all2 (\<lambda>b x. fp_val w x = bool_val w b) bits xs \<Longrightarrow>
        (\<Sum>x\<leftarrow>xs. fp_val w x) = (\<Sum>b\<leftarrow>bits. bool_val w b)" for w :: "variable \<Rightarrow> 'f" and xs
      by (induction bits xs rule: list_all2_induct) auto
    have all: "of_nat (length (filter P bits)) = (of_nat (length bits) :: 'f) \<longleftrightarrow> (\<forall>b\<in>set bits. P b)" for P
    proof -
      have "length (filter P bits) < limbs_value (MODULUS pf)"
        by (rule le_less_trans[OF length_filter_le assms])
      then show ?thesis using of_nat_inj assms by (metis filter_all_iff)
    qed
    show ?thesis
      unfolding kary_and_def if_not_P[OF 3(1)] if_not_P[OF 3(2)]
      by (rule sound_bind[OF xs], rule sound_bind[OF sound_fp_sum], rule sound_weaken[OF sound_fp_is_eq])
        (simp add: sum sum_of_bits all)
  qed
qed

lemma sound_enforce_kary_nand:
  assumes "length bits < limbs_value (MODULUS pf)"
  shows "sound (enforce_kary_nand bits :: ('f cs, unit) comp)
     (\<lambda>w _. all_bits w bits \<longrightarrow> \<not> (\<forall>b\<in>set bits. bit_val w b))"
  unfolding enforce_kary_nand_def
  by (rule sound_bind[OF sound_kary_and[OF assms]], rule sound_weaken[OF sound_bool_enforce_equal]) auto

text \<open>
  The comparison: while everything so far equals the constant on its one bits (the runs are all
  ones), the rest is at most the rest of the constant.
\<close>

lemma sound_le_loop:
  assumes "length cur + length ps + 1 < limbs_value (MODULUS pf)"
  shows "sound (le_loop ps lr cur :: ('f cs, boolean list) comp)
     (\<lambda>w run. all_bits w (lr # cur @ map snd ps) \<longrightarrow> bit_val w lr \<longrightarrow> (\<forall>c\<in>set cur. bit_val w c) \<longrightarrow>
        bits_value (rev (map (bit_val w) (map snd ps))) \<le> bits_value (rev (map fst ps)))"
  using assms
proof (induction ps lr cur rule: le_loop.induct)
  case (1 lr cur)
  then show ?case by (simp add: sound_ret)
next
  case (2 e a rest lr cur)
  show ?case
  proof (cases e)
    case True
    have "sound (le_loop rest lr (cur @ [a]) :: ('f cs, boolean list) comp)
       (\<lambda>w run. all_bits w (lr # (cur @ [a]) @ map snd rest) \<longrightarrow> bit_val w lr \<longrightarrow>
          (\<forall>c\<in>set (cur @ [a]). bit_val w c) \<longrightarrow>
          bits_value (rev (map (bit_val w) (map snd rest))) \<le> bits_value (rev (map fst rest)))"
      using 2 True by simp
    then show ?thesis
      unfolding le_loop.simps if_P[OF True]
    proof (rule sound_weaken)
      fix w :: "variable \<Rightarrow> 'f" and run :: "boolean list"
      assume ih: "all_bits w (lr # (cur @ [a]) @ map snd rest) \<longrightarrow> bit_val w lr \<longrightarrow>
          (\<forall>c\<in>set (cur @ [a]). bit_val w c) \<longrightarrow>
          bits_value (rev (map (bit_val w) (map snd rest))) \<le> bits_value (rev (map fst rest))"
      show "all_bits w (lr # cur @ map snd ((e, a) # rest)) \<longrightarrow> bit_val w lr \<longrightarrow>
         (\<forall>c\<in>set cur. bit_val w c) \<longrightarrow>
         bits_value (rev (map (bit_val w) (map snd ((e, a) # rest))))
           \<le> bits_value (rev (map fst ((e, a) # rest)))"
        using ih True bits_value_bound[of "rev (map (bit_val w) (map snd rest))"]
        by (cases "bit_val w a") (auto simp: bits_value_append)
    qed
  next
    case False
    have len: "length (cur @ [lr]) < limbs_value (MODULUS pf)" using 2(3) by simp
    have nand: "length [l, a] < limbs_value (MODULUS pf)" for l using modulus_gt_4 by simp
    have upd: "sound (if cur \<noteq> [] then kary_and (cur @ [lr]) else ret lr)
       (\<lambda>w l. all_bits w (cur @ [lr]) \<longrightarrow> is_bit (bool_val w l :: 'f) \<and>
          (bit_val w l \<longleftrightarrow> bit_val w lr \<and> (\<forall>c\<in>set cur. bit_val w c)))"
      by (cases "cur = []")
        (auto intro!: sound_ret sound_weaken[OF sound_kary_and[OF len]] simp: bit_val_def is_bit_def)
    show ?thesis
      unfolding le_loop.simps if_not_P[OF False]
      by (rule sound_bind[OF upd], rule sound_bind[OF sound_enforce_kary_nand[OF nand]],
          rule sound_weaken[OF "2.IH"(2)[OF False]])
        (use 2(3) False in \<open>auto simp: bits_value_append\<close>)
  qed
qed

lemma sound_enforce_smaller_or_equal_than_le:
  assumes "length (be_without_leading_zeros e) \<le> length bits"
    and "length bits + 1 < limbs_value (MODULUS pf)"
  shows "sound (enforce_smaller_or_equal_than_le bits e :: ('f cs, boolean list) comp)
     (\<lambda>w run. all_bits w bits \<longrightarrow> bits_value (map (bit_val w) bits) \<le> limbs_value e)"
proof -
  define eb where "eb = be_without_leading_zeros e"
  define n where "n = length eb"
  let ?ps = "zip eb (rev (take n bits))"
  have n: "n \<le> length bits" using assms(1) by (simp add: n_def eb_def)
  have ps: "map fst ?ps = eb" "map snd ?ps = rev (take n bits)" "length ?ps = n"
    using n by (simp_all add: n_def)
  have len: "length ([] :: boolean list) + length ?ps + 1 < limbs_value (MODULUS pf)"
    using assms(2) n by (simp add: ps(3))
  have top: "sound ((if length bits > n
        then bind (fold_m (\<lambda>x acc. bool_or acc x) (drop n bits) (BoolConstant False))
               (\<lambda>r. bool_enforce_equal r (BoolConstant False))
        else ret ()) :: ('f cs, unit) comp)
      (\<lambda>w _. all_bits w (drop n bits) \<longrightarrow> (\<forall>b\<in>set (drop n bits). \<not> bit_val w b))"
    by (auto intro!: sound_ret sound_bind[OF sound_bool_or_fold] sound_weaken[OF sound_bool_enforce_equal])
  have val: "bits_value (map (bit_val w) bits) = bits_value (map (bit_val w) (take n bits))"
    if "\<forall>b\<in>set (drop n bits). \<not> bit_val w b" for w :: "variable \<Rightarrow> 'f"
  proof -
    have "map (bit_val w) (drop n bits) = replicate (length bits - n) False"
      using that by (intro replicate_eqI) auto
    then have "map (bit_val w) bits = map (bit_val w) (take n bits) @ replicate (length bits - n) False"
      by (metis append_take_drop_id map_append)
    then show ?thesis by (simp add: bits_value_append)
  qed
  have sub: "set (take n bits) \<subseteq> set bits" "set (drop n bits) \<subseteq> set bits"
    by (rule set_take_subset set_drop_subset)+
  show ?thesis
    unfolding enforce_smaller_or_equal_than_le_def Let_def eb_def[symmetric] n_def[symmetric]
  proof (rule sound_bind[OF top], rule sound_weaken[OF sound_le_loop[OF len]])
    fix w :: "variable \<Rightarrow> 'f" and u :: unit and run :: "boolean list"
    assume le: "all_bits w (BoolConstant True # [] @ map snd ?ps) \<longrightarrow> bit_val w (BoolConstant True) \<longrightarrow>
        (\<forall>c\<in>set []. bit_val w c) \<longrightarrow>
        bits_value (rev (map (bit_val w) (map snd ?ps))) \<le> bits_value (rev (map fst ?ps))"
    show "(all_bits w (drop n bits) \<longrightarrow> (\<forall>b\<in>set (drop n bits). \<not> bit_val w b)) \<longrightarrow>
       all_bits w bits \<longrightarrow> bits_value (map (bit_val w) bits) \<le> limbs_value e"
    proof (intro impI)
      assume top: "all_bits w (drop n bits) \<longrightarrow> (\<forall>b\<in>set (drop n bits). \<not> bit_val w b)"
        and bits: "all_bits w bits"
      then have "bits_value (map (bit_val w) bits) = bits_value (map (bit_val w) (take n bits))"
        using sub val by blast
      also have "\<dots> \<le> bits_value (rev eb)"
        using le bits sub unfolding ps by (auto simp: rev_map[symmetric] is_bit_def)
      finally show "bits_value (map (bit_val w) bits) \<le> limbs_value e"
        by (simp add: eb_def without_leading_zeros_value)
    qed
  qed
qed

lemma modulus_minus_one:
  obtains b0 bs where "MODULUS pf = b0 # bs" "b0 mod 2 = 1"
    "limbs_value ((b0 - 1) # bs) = limbs_value (MODULUS pf) - 1"
proof -
  obtain b0 bs where m: "MODULUS pf = b0 # bs" using modulus_gt_4 by (cases "MODULUS pf") auto
  have "odd (unat b0)" using modulus_odd by (simp add: m)
  then have "unat (b0 mod 2) = unat (1 :: 64 word)" by (simp add: unat_mod_distrib odd_iff_mod_2_eq_one)
  then have b0: "b0 mod 2 = 1" by (simp only: word_unat_eq_iff)
  then have "b0 \<noteq> 0" by auto
  then have "unat (b0 - 1) + 1 = unat b0" by (simp add: unat_minus_one unat_gt_0 Suc_leI)
  then have "limbs_value ((b0 - 1) # bs) = limbs_value (MODULUS pf) - 1" by (simp add: m)
  with m b0 show thesis by (rule that)
qed

lemma sound_enforce_in_field_le:
  assumes "length bits = modulus_bit_size pf"
  shows "sound (enforce_in_field_le pf bits :: ('f cs, unit) comp)
     (\<lambda>w _. all_bits w bits \<longrightarrow> bits_value (map (bit_val w) bits) < limbs_value (MODULUS pf))"
proof -
  obtain b0 bs where m: "MODULUS pf = b0 # bs" "b0 mod 2 = 1"
      "limbs_value ((b0 - 1) # bs) = limbs_value (MODULUS pf) - 1"
    by (rule modulus_minus_one)
  have "limbs_value ((b0 - 1) # bs) < 2 ^ modulus_bit_size pf" using m(3) modulus_less by simp
  then have "length (be_without_leading_zeros ((b0 - 1) # bs)) \<le> length bits"
    unfolding assms by (rule without_leading_zeros_length)
  note le = sound_enforce_smaller_or_equal_than_le[OF this, unfolded assms, OF modulus_bit_size_less]
  have eq: "enforce_in_field_le pf bits = (bind (enforce_smaller_or_equal_than_le bits ((b0 - 1) # bs))
      (\<lambda>run. if run \<noteq> [] then raise Panic else ret ()) :: ('f cs, unit) comp)"
    using m(2) by (simp add: enforce_in_field_le_def m(1))
  show ?thesis
    unfolding eq
    by (rule sound_bind[OF le]) (use m(3) modulus_gt_4 in \<open>auto intro!: sound_ret sound_raise\<close>)
qed

lemma witness_bits_length:
  "witness_bits pf v = Inr bits \<Longrightarrow> length bits = modulus_bit_size pf"
  by (auto simp: witness_bits_def Let_def split: option.splits if_splits)

lemma sound_afp_to_non_unique_bits_le:
  "sound (afp_to_non_unique_bits_le pf a :: ('f cs, boolean list) comp)
     (\<lambda>w bs. length bs = modulus_bit_size pf \<and> all_bits w bs
        \<and> w (fp_variable a) = of_nat (bits_value (map (bit_val w) bs)))"
proof (cases "witness_bits pf (fp_value a)")
  case (Inr bits)
  let ?alloc = "map_m (\<lambda>b. bool_new_variable (get_value b) Witness_Mode) bits :: ('f cs, boolean list) comp"
  have alloc: "sound ?alloc (\<lambda>w bs. list_all2 (\<lambda>_ b. is_bit (bool_val w b)) bits bs)"
    by (rule sound_map_m) (rule sound_bool_new_variable)
  have bs: "list_all2 (\<lambda>_ b. is_bit (bool_val w b)) bits bs \<Longrightarrow>
      length bs = modulus_bit_size pf \<and> all_bits w bs" for w :: "variable \<Rightarrow> 'f" and bs
    using witness_bits_length[OF Inr] by (auto simp: list_all2_conv_all_nth in_set_conv_nth)
  have pow: "lc_eval w (zip (powers_of_two (length bs) 1) (map bool_variable bs))
      = of_nat (bits_value (map (bit_val w) bs))"
    if "list_all2 (\<lambda>_ b. is_bit (bool_val w b)) bits bs" "w Zero = 0" "w One = 1"
    for w :: "variable \<Rightarrow> 'f" and bs
    using bs[OF that(1)] that(2,3) powers_of_two_eval[of bs w 1] by simp
  show ?thesis
    unfolding afp_to_non_unique_bits_le_def Inr sum.case
  proof (rule sound_bind[OF alloc], rule sound_bind[OF sound_enforce_r1cs], rule sound_ret, intro impI)
    fix vs :: "boolean list" and u :: unit and w :: "variable \<Rightarrow> 'f"
    assume w: "w Zero = 0" "w One = 1" and vs: "list_all2 (\<lambda>_ b. is_bit (bool_val w b)) bits vs"
      and eq: "lc_eval w [] * lc_eval w [] = lc_eval w (compactify
        (zip (powers_of_two (length vs) 1) (map bool_variable vs) @ [(- 1, fp_variable a)]))"
    from eq pow[OF vs w] have "w (fp_variable a) = of_nat (bits_value (map (bit_val w) vs))"
      by simp
    then show "length vs = modulus_bit_size pf \<and> all_bits w vs
        \<and> w (fp_variable a) = of_nat (bits_value (map (bit_val w) vs))"
      using bs[OF vs] by simp
  qed
qed (simp add: afp_to_non_unique_bits_le_def sound_raise)

lemma returns_afp_to_non_unique_bits_le:
  "returns (afp_to_non_unique_bits_le pf a :: ('f cs, boolean list) comp)
     (\<lambda>bs. length bs = modulus_bit_size pf)"
proof (cases "witness_bits pf (fp_value a)")
  case (Inr bits)
  show ?thesis
    unfolding afp_to_non_unique_bits_le_def Inr sum.case
    by (rule returns_bind2[OF returns_map_m_length], rule returns_bind, rule returns_ret)
      (simp add: witness_bits_length[OF Inr])
qed (simp add: afp_to_non_unique_bits_le_def returns_raise)

text \<open>The bits \<^verbatim>\<open>to_bits_le\<close> returns are those of the canonical integer of the variable.\<close>

lemma sound_fp_to_bits_le:
  "sound (fp_to_bits_le pf x :: ('f cs, boolean list) comp)
     (\<lambda>w bs. length bs = modulus_bit_size pf \<and> all_bits w bs
        \<and> bits_value (map (bit_val w) bs) = int_repr pf (fp_val w x))"
proof (cases x)
  case (FpConstant c)
  let ?n = "modulus_bit_size pf"
  have "le_take ?n (le_new (into_bigint pf c)) = map (bit (int_repr pf c)) [0..<?n]"
    using modulus_bit_size_le by (simp add: le_take_new int_repr_def into_bigint_length)
  moreover have "bits_value (map (bit (int_repr pf c)) [0..<?n]) = int_repr pf c"
    using int_repr_bits by (simp add: bits_value_map_bit take_bit_nat_eq_self_iff)
  ultimately show ?thesis
    by (auto simp: FpConstant fp_to_bits_le_def comp_def intro!: sound_ret)
next
  case (FpVar v)
  show ?thesis
    unfolding FpVar fp_to_bits_le_def afp_to_bits_le_def fpvar.case
    by (rule sound_bind_returns[OF returns_afp_to_non_unique_bits_le sound_afp_to_non_unique_bits_le],
        rule sound_bind[OF sound_enforce_in_field_le], assumption, rule sound_ret)
      (auto simp: int_repr_of_nat)
qed

end

section \<open>Completeness\<close>

lemma bools_mono: "cs_extends cs cs' \<Longrightarrow> list_all2 (bool_is cs) bs vs \<Longrightarrow> list_all2 (bool_is cs') bs vs"
  by (erule list_all2_mono) (rule bool_is_mono)

lemma bools_values:
  assumes "list_all2 (bool_is cs) bs vs"
  shows "map (bit_val (assign cs)) bs = vs" "all_bits (assign cs) bs" "assigned cs (bool_variable ` set bs)"
  using assms
  by (induction bs vs rule: list_all2_induct) (auto simp: bool_isD bit_val_def intro: bool_isD)

lemma complete_bool_and_fold:
  "bool_is cs b x \<Longrightarrow> list_all2 (bool_is cs) bs vs \<Longrightarrow>
   complete cs (fold_m (\<lambda>next cur. bool_and cur next) bs b) (\<lambda>r cs'. bool_is cs' r (x \<and> (\<forall>v\<in>set vs. v)))"
proof (induction bs arbitrary: cs b x vs)
  case Nil
  then show ?case by (simp add: complete_ret)
next
  case (Cons a bs)
  then obtain v vs' where vs: "vs = v # vs'" "bool_is cs a v" "list_all2 (bool_is cs) bs vs'"
    by (auto simp: list_all2_Cons1)
  show ?case
    unfolding fold_m.simps vs(1)
    by (rule complete_bind[OF complete_bool_and[OF Cons.prems(1) vs(2)]],
        rule complete_weaken[OF Cons.IH[OF _ bools_mono[OF _ vs(3)]]]) auto
qed

lemma complete_bool_or_fold:
  "bool_is cs b x \<Longrightarrow> list_all2 (bool_is cs) bs vs \<Longrightarrow>
   complete cs (fold_m (\<lambda>a acc. bool_or acc a) bs b) (\<lambda>r cs'. bool_is cs' r (x \<or> (\<exists>v\<in>set vs. v)))"
proof (induction bs arbitrary: cs b x vs)
  case Nil
  then show ?case by (simp add: complete_ret)
next
  case (Cons a bs)
  then obtain v vs' where vs: "vs = v # vs'" "bool_is cs a v" "list_all2 (bool_is cs) bs vs'"
    by (auto simp: list_all2_Cons1)
  show ?case
    unfolding fold_m.simps vs(1)
    by (rule complete_bind[OF complete_bool_or[OF Cons.prems(1) vs(2)]],
        rule complete_weaken[OF Cons.IH[OF _ bools_mono[OF _ vs(3)]]]) auto
qed

lemma bits_value_eq_0: "bits_value bs = 0 \<Longrightarrow> \<forall>b\<in>set bs. \<not> b"
  by (induction bs) auto

lemma last_without_leading_zeros:
  assumes "be_without_leading_zeros e \<noteq> []"
  shows "last (be_without_leading_zeros e) = bit (limbs_value e) 0"
proof -
  let ?l = "be_collect (be_new e)"
  have "last ?l = last (takeWhile Not ?l @ dropWhile Not ?l)" by simp
  also have "\<dots> = last (dropWhile Not ?l)"
    using assms unfolding be_without_leading_zeros_def by (rule last_appendR)
  finally have "last (be_without_leading_zeros e) = last ?l" by (simp add: be_without_leading_zeros_def)
  moreover have "e \<noteq> []" using assms by (auto simp: be_without_leading_zeros_def be_collect_new)
  then have "0 < 64 * length e" by simp
  then have "[0..<64 * length e] = 0 # [1..<64 * length e]" by (simp add: upt_conv_Cons)
  then have "last ?l = bit (limbs_value e) 0"
    unfolding be_collect_new by simp
  ultimately show ?thesis by simp
qed

lemma sum_of_bools: "(\<Sum>v\<leftarrow>vs. of_bool v) = (of_nat (length (filter id vs)) :: 'f::comm_ring_1)"
  by (induction vs) simp_all

context prime_field_impl
begin

lemma complete_kary_and:
  assumes bs: "list_all2 (bool_is cs) bs vs" and ne: "bs \<noteq> []"
    and len: "length bs < limbs_value (MODULUS pf)"
  shows "complete (cs :: 'f cs) (kary_and bs) (\<lambda>r cs'. bool_is cs' r (\<forall>v\<in>set vs. v))"
proof (cases "length bs \<le> 3")
  case True
  obtain b bs' v vs' where 1: "bs = b # bs'" "vs = v # vs'" "bool_is cs b v" "list_all2 (bool_is cs) bs' vs'"
    using bs ne by (cases bs) (auto simp: list_all2_Cons1)
  show ?thesis
    unfolding kary_and_def if_not_P[OF ne] if_P[OF True]
    by (rule complete_weaken[OF complete_bool_and_fold[where x = v and vs = vs']]) (use 1 in auto)
next
  case False
  have xs: "complete cs (map_m fp_from_boolean bs) (\<lambda>xs cs'. list_all2 (\<lambda>x v. fp_is cs' x (of_bool v)) xs vs)"
    by (rule complete_map_m_values[where P = bool_is, OF bs complete_fp_from_boolean])
      (auto intro: bool_is_mono fp_is_mono)
  show ?thesis
    unfolding kary_and_def if_not_P[OF ne] if_not_P[OF False]
  proof (rule complete_bind[OF xs])
    fix xs and cs1 :: "'f cs"
    assume "list_all2 (\<lambda>x v. fp_is cs1 x (of_bool v)) xs vs"
    then have xs: "list_all2 (fp_is cs1) xs (map of_bool vs)" by (simp add: list_all2_map2)
    have n: "length bs = length vs" using bs by (rule list_all2_lengthD)
    have "of_nat (length (filter id vs)) = (of_nat (length vs) :: 'f) \<longleftrightarrow> length (filter id vs) = length vs"
    proof -
      have "length (filter id vs) < limbs_value (MODULUS pf)"
        using len n le_less_trans[OF length_filter_le] by metis
      then show ?thesis using len n of_nat_inj by metis
    qed
    then have eq: "sum_list (map of_bool vs) = (of_nat (length vs) :: 'f) \<longleftrightarrow> (\<forall>v\<in>set vs. v)"
      using sum_of_bools[of vs, where ?'f = 'f] filter_all_iff[of id vs] by simp
    show "complete cs1 (bind (fp_sum xs) (\<lambda>s. fp_is_eq s (FpConstant (of_nat (length bs)))))
        (\<lambda>r cs'. bool_is cs' r (\<forall>v\<in>set vs. v))"
      by (rule complete_bind[OF complete_fp_sum[OF xs]],
          rule complete_weaken[OF complete_fp_is_eq[where y = "of_nat (length vs)"]])
        (auto simp only: eq n fp_is_simps)
  qed
qed

lemma complete_enforce_kary_nand:
  assumes "list_all2 (bool_is cs) bs vs" "bs \<noteq> []" "length bs < limbs_value (MODULUS pf)"
    and "\<exists>v\<in>set vs. \<not> v"
  shows "complete (cs :: 'f cs) (enforce_kary_nand bs) (\<lambda>_ _. True)"
proof -
  have no: "(\<forall>v\<in>set vs. v) = False" using assms(4) by blast
  show ?thesis
    unfolding enforce_kary_nand_def bool_enforce_equal_def
    by (rule complete_bind[OF complete_kary_and[OF assms(1-3), unfolded no]],
        rule complete_bool_conditional_enforce_equal[where x = False and y = False and z = True]) auto
qed

lemma complete_le_loop:
  assumes "bool_is cs lr l" "list_all2 (bool_is cs) cur cv" "list_all2 (bool_is cs) (map snd ps) vs"
    and "l \<and> (\<forall>v\<in>set cv. v) \<longrightarrow> bits_value (rev vs) \<le> bits_value (rev (map fst ps))"
    and "length cur + length ps + 1 < limbs_value (MODULUS pf)"
  shows "complete (cs :: 'f cs) (le_loop ps lr cur)
    (\<lambda>run cs'. ps \<noteq> [] \<longrightarrow> \<not> fst (last ps) \<longrightarrow> run = [])"
  using assms
proof (induction ps lr cur arbitrary: cs l cv vs rule: le_loop.induct)
  case (1 lr cur)
  then show ?case by (simp add: complete_ret)
next
  case (2 e a rest lr cur)
  obtain v vs' where vs: "vs = v # vs'" "bool_is cs a v" "list_all2 (bool_is cs) (map snd rest) vs'"
    using "2.prems"(3) by (auto simp: list_all2_Cons1)
  have len: "length vs' = length rest" using vs(3) by (auto dest: list_all2_lengthD)
  have bound: "bits_value (rev vs') < 2 ^ length rest" "bits_value (rev (map fst rest)) < 2 ^ length rest"
    using bits_value_bound[of "rev vs'"] bits_value_bound[of "rev (map fst rest)"] len by simp_all
  have prem: "bits_value (rev vs') + of_bool v * 2 ^ length rest
      \<le> bits_value (rev (map fst rest)) + of_bool e * 2 ^ length rest"
    if "l \<and> (\<forall>v\<in>set cv. v)"
    using mp[OF "2.prems"(4) that] len unfolding vs(1) by (simp add: bits_value_append mult.commute)
  show ?case
  proof (cases e)
    case True
    have le: "l \<and> (\<forall>x\<in>set (cv @ [v]). x) \<longrightarrow> bits_value (rev vs') \<le> bits_value (rev (map fst rest))"
    proof
      assume l: "l \<and> (\<forall>x\<in>set (cv @ [v]). x)"
      then have "l \<and> (\<forall>v\<in>set cv. v)" by auto
      from prem[OF this] l True show "bits_value (rev vs') \<le> bits_value (rev (map fst rest))" by simp
    qed
    have cur: "list_all2 (bool_is cs) (cur @ [a]) (cv @ [v])"
      using "2.prems"(2) vs(2) by (simp add: list_all2_appendI)
    show ?thesis
      unfolding le_loop.simps if_P[OF True]
      by (rule complete_weaken[OF "2.IH"(1)[OF True "2.prems"(1) cur vs(3) le]])
        (use "2.prems"(5) True in auto)
  next
    case False
    let ?l = "l \<and> (\<forall>x\<in>set cv. x)"
    have cl: "list_all2 (bool_is cs) (cur @ [lr]) (cv @ [l])"
      using "2.prems"(1,2) by (simp add: list_all2_appendI)
    have upd: "complete cs (if cur \<noteq> [] then kary_and (cur @ [lr]) else ret lr) (\<lambda>r cs'. bool_is cs' r ?l)"
    proof (cases "cur = []")
      case True
      then show ?thesis using "2.prems"(1,2) by (simp add: complete_ret)
    next
      case False
      have "complete cs (kary_and (cur @ [lr])) (\<lambda>r cs'. bool_is cs' r ?l)"
        by (rule complete_weaken[OF complete_kary_and[OF cl]]) (use "2.prems"(5) in \<open>auto simp: ac_simps\<close>)
      with False show ?thesis by simp
    qed
    have nv: "\<not> (?l \<and> v)"
    proof
      assume lv: "?l \<and> v"
      then have "?l" by (rule conjunct1)
      from prem[OF this] lv False bound show False by simp
    qed
    have le: "?l \<and> (\<forall>x\<in>set []. x) \<longrightarrow> bits_value (rev vs') \<le> bits_value (rev (map fst rest))"
    proof
      assume "?l \<and> (\<forall>x\<in>set []. x)"
      then have "?l" by (rule conjunct1)
      from prem[OF this] False show "bits_value (rev vs') \<le> bits_value (rev (map fst rest))"
        by (cases v) simp_all
    qed
    show ?thesis
      unfolding le_loop.simps if_not_P[OF False]
    proof (rule complete_bind[OF upd])
      fix r cs1 assume 1: "cs_extends cs cs1" "bool_is cs1 r ?l"
      have ra: "list_all2 (bool_is cs1) [r, a] [?l, v]" using 1 vs(2) bool_is_mono by auto
      show "complete cs1 (bind (enforce_kary_nand [r, a]) (\<lambda>_. le_loop rest r []))
          (\<lambda>run cs'. (e, a) # rest \<noteq> [] \<longrightarrow> \<not> fst (last ((e, a) # rest)) \<longrightarrow> run = [])"
      proof (rule complete_bind[OF complete_enforce_kary_nand[OF ra]])
        fix u cs2 assume 2: "cs_extends cs1 cs2"
        note e2 = cs_extends_trans[OF 1(1) 2]
        show "complete cs2 (le_loop rest r [])
          (\<lambda>run cs'. (e, a) # rest \<noteq> [] \<longrightarrow> \<not> fst (last ((e, a) # rest)) \<longrightarrow> run = [])"
        proof (cases "rest = []")
          case False
          show ?thesis
            by (rule complete_weaken[OF "2.IH"(2)[OF \<open>\<not> e\<close> bool_is_mono[OF 2 1(2)] _ bools_mono[OF e2 vs(3)] le]])
              (use "2.prems"(5) False in auto)
        qed (simp add: complete_ret)
      qed (use modulus_gt_4 nv in auto)
    qed
  qed
qed

lemma complete_enforce_smaller_or_equal_than_le:
  assumes bits: "list_all2 (bool_is cs) bits vs" and le: "bits_value vs \<le> limbs_value e"
    and n: "length (be_without_leading_zeros e) \<le> length bits"
    and len: "length bits + 1 < limbs_value (MODULUS pf)"
    and e: "even (limbs_value e)" "limbs_value e \<noteq> 0"
  shows "complete (cs :: 'f cs) (enforce_smaller_or_equal_than_le bits e) (\<lambda>run cs'. run = [])"
proof -
  define eb where "eb = be_without_leading_zeros e"
  define n where "n = length eb"
  let ?ps = "zip eb (rev (take n bits))"
  have n': "n \<le> length bits" "length bits = length vs"
    using assms(3) bits by (auto simp: n_def eb_def dest: list_all2_lengthD)
  have ps: "map fst ?ps = eb" "map snd ?ps = rev (take n bits)" "length ?ps = n"
    using n' by (simp_all add: n_def)
  have eb: "bits_value (rev eb) = limbs_value e" by (simp add: eb_def without_leading_zeros_value)
  have vs: "bits_value vs = bits_value (take n vs) + 2 ^ n * bits_value (drop n vs)"
    using bits_value_append[of "take n vs" "drop n vs"] n' by (simp add: min_absorb2)
  have "2 ^ n * bits_value (drop n vs) < 2 ^ n * 1"
    using le vs bits_value_bound[of "rev eb"] unfolding eb length_rev n_def[symmetric] by linarith
  then have "bits_value (drop n vs) = 0" by simp
  then have high: "\<forall>v\<in>set (drop n vs). \<not> v" by (rule bits_value_eq_0)
  have low: "bits_value (take n vs) \<le> limbs_value e" using vs le by linarith
  have top: "complete cs (if length bits > n
        then bind (fold_m (\<lambda>x acc. bool_or acc x) (drop n bits) (BoolConstant False))
               (\<lambda>r. bool_enforce_equal r (BoolConstant False))
        else ret ()) (\<lambda>_ _. True)"
  proof (cases "length bits > n")
    case True
    have no: "(False \<or> (\<exists>v\<in>set (drop n vs). v)) = False" using high by blast
    have drop: "list_all2 (bool_is cs) (drop n bits) (drop n vs)" using bits by (rule list_all2_dropI)
    have or: "complete cs (fold_m (\<lambda>x acc. bool_or acc x) (drop n bits) (BoolConstant False))
        (\<lambda>r cs'. bool_is cs' r False)"
      using complete_bool_or_fold[OF _ drop, of "BoolConstant False" False] unfolding no by simp
    show ?thesis
      unfolding if_P[OF True] bool_enforce_equal_def
      by (rule complete_bind[OF or],
          rule complete_bool_conditional_enforce_equal[where x = False and y = False and z = True]) auto
  qed (simp add: complete_ret)
  have ne: "?ps \<noteq> []" "\<not> fst (last ?ps)"
  proof -
    have "eb \<noteq> []" using eb e(2) by auto
    then have "last eb = bit (limbs_value e) 0" unfolding eb_def by (rule last_without_leading_zeros)
    then have "\<not> last eb" using e(1) by (simp add: bit_0)
    then show "\<not> fst (last ?ps)" using ps(1) \<open>eb \<noteq> []\<close> by (metis last_map map_is_Nil_conv)
    show "?ps \<noteq> []" using ps(1) \<open>eb \<noteq> []\<close> by (metis list.map_disc_iff)
  qed
  show ?thesis
    unfolding enforce_smaller_or_equal_than_le_def Let_def eb_def[symmetric] n_def[symmetric]
  proof (rule complete_bind[OF top])
    fix u :: unit and cs1 :: "'f cs"
    assume e1: "cs_extends cs cs1"
    have all: "list_all2 (bool_is cs1) (map snd ?ps) (rev (take n vs))"
      unfolding ps using bools_mono[OF e1 bits] by (simp add: list_all2_rev list_all2_takeI)
    have "complete cs1 (le_loop ?ps (BoolConstant True) [])
        (\<lambda>run cs'. ?ps \<noteq> [] \<longrightarrow> \<not> fst (last ?ps) \<longrightarrow> run = [])"
    proof (rule complete_le_loop[OF _ _ all])
      show "bool_is cs1 (BoolConstant True) True" by simp
      show "list_all2 (bool_is cs1) [] []" by simp
      show "True \<and> (\<forall>v\<in>set []. v) \<longrightarrow>
          bits_value (rev (rev (take n vs))) \<le> bits_value (rev (map fst ?ps))"
        unfolding ps rev_rev_ident eb using low by blast
      show "length ([] :: boolean list) + length ?ps + 1 < limbs_value (MODULUS pf)"
        unfolding ps using len n' by simp
    qed
    then show "complete cs1 (le_loop ?ps (BoolConstant True) []) (\<lambda>run cs'. run = [])"
      by (rule complete_weaken) (use ne in blast)
  qed
qed

lemma complete_enforce_in_field_le:
  assumes "list_all2 (bool_is cs) bits vs" "bits_value vs < limbs_value (MODULUS pf)"
    and "length bits = modulus_bit_size pf"
  shows "complete (cs :: 'f cs) (enforce_in_field_le pf bits) (\<lambda>_ _. True)"
proof -
  obtain b0 bs where m: "MODULUS pf = b0 # bs" "b0 mod 2 = 1"
      "limbs_value ((b0 - 1) # bs) = limbs_value (MODULUS pf) - 1"
    by (rule modulus_minus_one)
  have "limbs_value ((b0 - 1) # bs) < 2 ^ modulus_bit_size pf" using m(3) modulus_less by simp
  then have len: "length (be_without_leading_zeros ((b0 - 1) # bs)) \<le> length bits"
    unfolding assms(3) by (rule without_leading_zeros_length)
  have "complete cs (enforce_smaller_or_equal_than_le bits ((b0 - 1) # bs)) (\<lambda>run cs'. run = [])"
  proof (rule complete_enforce_smaller_or_equal_than_le[OF assms(1) _ len])
    show "bits_value vs \<le> limbs_value ((b0 - 1) # bs)" using assms(2) unfolding m(3) by simp
    show "length bits + 1 < limbs_value (MODULUS pf)" unfolding assms(3) by (rule modulus_bit_size_less)
    show "even (limbs_value ((b0 - 1) # bs))" "limbs_value ((b0 - 1) # bs) \<noteq> 0"
      unfolding m(3) using modulus_odd modulus_gt_4 by simp_all
  qed
  moreover have "enforce_in_field_le pf bits = (bind (enforce_smaller_or_equal_than_le bits ((b0 - 1) # bs))
      (\<lambda>run. if run \<noteq> [] then raise Panic else ret ()) :: ('f cs, unit) comp)"
    using m(2) by (simp add: enforce_in_field_le_def m(1))
  ultimately show ?thesis by (auto intro!: complete_bind complete_ret)
qed

lemma modulus_top_bit: "bit (limbs_value (MODULUS pf)) (modulus_bit_size pf - 1)"
proof -
  let ?k = "modulus_bit_size pf - 1"
  have "Suc ?k = modulus_bit_size pf" using modulus_bit_size_pos by simp
  then have "limbs_value (MODULUS pf) < 2 * 2 ^ ?k" using modulus_less power_Suc[of 2 ?k] by metis
  then have "limbs_value (MODULUS pf) div 2 ^ ?k < 2" by (simp add: div_less_iff_less_mult)
  moreover have "0 < limbs_value (MODULUS pf) div 2 ^ ?k" using modulus_ge by (simp add: div_greater_zero_iff)
  ultimately have "limbs_value (MODULUS pf) div 2 ^ ?k = 1" by simp
  then show ?thesis by (simp add: bit_iff_odd)
qed

text \<open>The prover's bits are those of the value, as many as the modulus has.\<close>

lemma witness_bits_value:
  "witness_bits pf (Some x) = Inr (map (\<lambda>i. Some (bit (int_repr pf x) i)) [0..<modulus_bit_size pf])"
proof -
  let ?k = "modulus_bit_size pf" and ?n = "64 * length (MODULUS pf)"
  let ?m = "limbs_value (MODULUS pf)" and ?x = "int_repr pf x"
  let ?z = "\<lambda>i. (bit ?x i, bit ?m i)"
  have k: "?k \<le> ?n" "0 < ?k" using modulus_bit_size_le modulus_bit_size_pos by simp_all
  have zip: "zip (be_collect (be_new (into_bigint pf x))) (be_collect (be_new (MODULUS pf)))
      = rev (map ?z [0..<?n])"
  proof -
    have "be_collect (be_new (into_bigint pf x)) = rev (map (bit ?x) [0..<?n])"
      by (simp only: be_collect_new into_bigint_length int_repr_def)
    then show ?thesis by (simp add: be_collect_new zip_rev zip_map_map zip_same_conv_map)
  qed
  have split: "rev (map ?z [0..<?n]) = rev (map ?z [?k..<?n]) @ rev (map ?z [0..<?k])"
  proof -
    have upt: "[0..<?n] = [0..<?k] @ [?k..<?n]"
      using upt_add_eq_append[of 0 ?k "?n - ?k"] k(1) by simp
    show ?thesis unfolding upt map_append rev_append by (rule refl)
  qed
  have high: "\<not> bit ?m i" if "?k \<le> i" for i
  proof -
    have "?m < 2 ^ i" by (rule less_le_trans[OF modulus_less]) (use that in \<open>simp add: power_increasing\<close>)
    then show ?thesis by (simp add: bit_iff_odd)
  qed
  have "dropWhile (\<lambda>(_, c). \<not> c) (rev (map ?z [0..<?n])) = dropWhile (\<lambda>(_, c). \<not> c) (rev (map ?z [0..<?k]))"
    unfolding split using high by (intro dropWhile_append2) auto
  also have "\<dots> = rev (map ?z [0..<?k])"
  proof -
    have "[0..<?k] = [0..<?k - 1] @ [?k - 1]" using upt_Suc_append[of 0 "?k - 1"] k(2) by simp
    then have "rev (map ?z [0..<?k]) = ?z (?k - 1) # rev (map ?z [0..<?k - 1])" by (simp only: map_append rev_append) simp
    then show ?thesis using modulus_top_bit by simp
  qed
  finally show ?thesis
    unfolding witness_bits_def option.case Let_def zip by (simp add: rev_map comp_def)
qed

lemma complete_afp_to_non_unique_bits_le:
  assumes a: "afp_is cs a x"
  shows "complete (cs :: 'f cs) (afp_to_non_unique_bits_le pf a)
    (\<lambda>bs cs'. list_all2 (bool_is cs') bs (map (bit (int_repr pf x)) [0..<modulus_bit_size pf]))"
proof -
  let ?vs = "map (bit (int_repr pf x)) [0..<modulus_bit_size pf]"
  let ?bits = "map (\<lambda>i. Some (bit (int_repr pf x) i)) [0..<modulus_bit_size pf]"
  have w: "witness_bits pf (fp_value a) = Inr ?bits" using a by (simp add: afp_isD witness_bits_value)
  have alloc: "complete cs (map_m (\<lambda>b. bool_new_variable (get_value b) Witness_Mode) ?bits)
      (\<lambda>bs cs'. list_all2 (bool_is cs') bs ?vs)"
    by (rule complete_map_m_values[where P = "\<lambda>_ b v. b = Some v"])
      (auto simp: list_all2_map1 list_all2_map2 list_all2_same intro: complete_bool_new_variable bool_is_mono)
  show ?thesis
    unfolding afp_to_non_unique_bits_le_def w sum.case
  proof (rule complete_bind[OF alloc])
    fix bs and cs1 :: "'f cs"
    assume 1: "cs_extends cs cs1" "list_all2 (bool_is cs1) bs ?vs"
    have a1: "val cs1 (fp_variable a) x" using afp_is_mono[OF 1(1) a] by (rule afp_isD)
    note bools = bools_values[OF 1(2)]
    have "bits_value ?vs = int_repr pf x"
      using take_bit_nat_eq_self[OF int_repr_bits[of x]] by (simp add: bits_value_map_bit)
    then have sum: "lc_eval (assign cs1) (zip (powers_of_two (length bs) 1) (map bool_variable bs)) = x"
      using powers_of_two_eval[of bs "assign cs1" 1] bools by simp
    let ?l = "zip (powers_of_two (length bs) (1::'f)) (map bool_variable bs) @ [(- 1, fp_variable a)]"
    have "snd ` set (zip (powers_of_two (length bs) (1::'f)) (map bool_variable bs)) \<subseteq> bool_variable ` set bs"
      by (auto dest: set_zip_rightD)
    then have "assigned cs1 (lc_vars ?l)"
      using a1 unfolding lc_vars_def by (auto intro: assigned_subset[OF bools(3)])
    then have "assigned cs1 (lc_vars (compactify ?l))" by (rule assigned_subset[OF _ lc_vars_compactify])
    then show "complete cs1 (bind (enforce_r1cs_constraint [] [] (compactify ?l)) (\<lambda>_. ret bs))
        (\<lambda>bs cs'. list_all2 (bool_is cs') bs ?vs)"
      by (intro complete_bind[OF complete_enforce_r1cs] complete_ret)
        (use a1 sum bools_mono[OF _ 1(2)] in auto)
  qed
qed

lemma complete_fp_to_bits_le:
  assumes x: "fp_is cs a x"
  shows "complete (cs :: 'f cs) (fp_to_bits_le pf a)
    (\<lambda>bs cs'. list_all2 (bool_is cs') bs (map (bit (int_repr pf x)) [0..<modulus_bit_size pf]))"
proof (cases a)
  case (FpConstant c)
  then have "le_take (modulus_bit_size pf) (le_new (into_bigint pf c)) = map (bit (int_repr pf x)) [0..<modulus_bit_size pf]"
    using x modulus_bit_size_le by (simp add: le_take_new int_repr_def into_bigint_length)
  then show ?thesis
    by (auto simp: FpConstant fp_to_bits_le_def list_all2_map1 list_all2_map2 list_all2_same intro!: complete_ret)
next
  case (FpVar v)
  let ?vs = "map (bit (int_repr pf x)) [0..<modulus_bit_size pf]"
  have v: "afp_is cs v x" using x FpVar by simp
  have val: "bits_value ?vs < limbs_value (MODULUS pf)"
    using int_repr_less[of x] take_bit_nat_eq_self[OF int_repr_bits[of x]] by (simp add: bits_value_map_bit)
  show ?thesis
    unfolding FpVar fp_to_bits_le_def afp_to_bits_le_def fpvar.case
  proof (rule complete_bind[OF complete_afp_to_non_unique_bits_le[OF v]])
    fix bs and cs1 :: "'f cs" assume bs: "list_all2 (bool_is cs1) bs ?vs"
    then have len: "length bs = modulus_bit_size pf" by (auto dest: list_all2_lengthD)
    show "complete cs1 (bind (enforce_in_field_le pf bs) (\<lambda>_. ret bs)) (\<lambda>bs cs'. list_all2 (bool_is cs') bs ?vs)"
      by (intro complete_bind[OF complete_enforce_in_field_le[OF bs val len]] complete_ret bools_mono[OF _ bs])
  qed
qed

end

end
