(* ===== verification/Poseidon_Gadget.thy ===== *)
theory Poseidon_Gadget
  imports Poseidon_Sponge Bits_Gadget
begin

text \<open>
  The Poseidon sponge as a gadget
  (vendor/crypto-primitives/crypto-primitives/src/sponge/poseidon/constraints.rs) and \<^verbatim>\<open>CRHGadget\<close>
  (src/crh/poseidon/constraints.rs).  The gadget is simulated step by step by the native sponge:
  for every parameters, in every satisfying assignment the native hash of the values of the inputs
  returns the value of the output; and whenever the native hash of the inputs returns, the honest
  prover can run the gadget.
\<close>

section \<open>Operations\<close>

definition var_apply_s_box ::
  "'f poseidon_config \<Rightarrow> bool \<Rightarrow> 'f fpvar list \<Rightarrow> ('f::field cs, 'f fpvar list) comp" where
  "var_apply_s_box cfg is_full_round state =
    (if is_full_round then map_m (\<lambda>x. fp_pow_by_constant x [alpha cfg]) state
     else (case state of
         [] \<Rightarrow> raise Panic
       | x # xs \<Rightarrow> bind (fp_pow_by_constant x [alpha cfg]) (\<lambda>y. ret (y # xs))))"

definition var_apply_ark ::
  "'f poseidon_config \<Rightarrow> nat \<Rightarrow> 'f fpvar list \<Rightarrow> ('f::field cs, 'f fpvar list) comp" where
  "var_apply_ark cfg round_number state =
    map_m (\<lambda>(i, x). bind (lift (index2 (ark cfg) round_number i)) (\<lambda>k. fp_add_by x k)) (enumerate 0 state)"

definition var_apply_mds :: "'f poseidon_config \<Rightarrow> 'f fpvar list \<Rightarrow> ('f::field cs, 'f fpvar list) comp" where
  "var_apply_mds cfg state =
    map_m (\<lambda>i. fold_m (\<lambda>(j, x) cur. bind (lift (index2 (mds cfg) i j)) (\<lambda>m.
        bind (fp_mul_by x m) (\<lambda>term. fp_add cur term))) (enumerate 0 state) (FpConstant 0))
      [0..<length state]"

definition var_poseidon_round ::
  "'f poseidon_config \<Rightarrow> bool \<Rightarrow> nat \<Rightarrow> 'f fpvar list \<Rightarrow> ('f::field cs, 'f fpvar list) comp" where
  "var_poseidon_round cfg is_full_round i state =
    bind (var_apply_ark cfg i state) (\<lambda>state.
    bind (var_apply_s_box cfg is_full_round state) (\<lambda>state. var_apply_mds cfg state))"

definition var_permute_state :: "'f poseidon_config \<Rightarrow> 'f fpvar list \<Rightarrow> ('f::field cs, 'f fpvar list) comp" where
  "var_permute_state cfg state =
    (let h = full_rounds cfg div 2; p = partial_rounds cfg in
     bind (fold_m (var_poseidon_round cfg True) [0..<h] state) (\<lambda>state.
     bind (fold_m (var_poseidon_round cfg False) [h..<h + p] state) (\<lambda>state.
     fold_m (var_poseidon_round cfg True) [h + p..<p + full_rounds cfg] state)))"

definition var_permute :: "('f, 'f fpvar) sponge \<Rightarrow> ('f::field cs, ('f, 'f fpvar) sponge) comp" where
  "var_permute sp = bind (var_permute_state (parameters sp) (sponge_state sp))
     (\<lambda>state. ret (sp\<lparr>sponge_state := state\<rparr>))"

definition var_add_elements ::
  "nat \<Rightarrow> 'f fpvar list \<Rightarrow> 'f fpvar list \<Rightarrow> ('f::field cs, 'f fpvar list) comp" where
  "var_add_elements start elements state =
    fold_m (\<lambda>(i, element) state.
        bind (lift (index state (start + i))) (\<lambda>x. bind (fp_add x element) (\<lambda>y. ret (state[start + i := y]))))
      (enumerate 0 elements) state"

function var_absorb_internal ::
  "nat \<Rightarrow> 'f fpvar list \<Rightarrow> ('f, 'f fpvar) sponge \<Rightarrow> ('f::field cs, ('f, 'f fpvar) sponge) comp" where
  "var_absorb_internal start elements sp =
    (let cfg = parameters sp in
     if start + length elements \<le> rate cfg then
       bind (var_add_elements (capacity cfg + start) elements (sponge_state sp)) (\<lambda>state.
       ret (sp\<lparr>sponge_state := state, sponge_mode := Absorbing (start + length elements)\<rparr>))
     else if start > rate cfg then raise Panic
     else if rate cfg = 0 then bind (var_permute sp) (\<lambda>_. raise Diverge)
     else
       let n = rate cfg - start in
       bind (var_add_elements (capacity cfg + start) (take n elements) (sponge_state sp)) (\<lambda>state.
       bind (var_permute (sp\<lparr>sponge_state := state\<rparr>)) (\<lambda>sp'.
       var_absorb_internal 0 (drop n elements) sp')))"
  by pat_completeness auto

termination
  by (relation "measure (\<lambda>(start, elements, sp). length elements + (if start = 0 then 0 else 1))") auto

declare var_absorb_internal.simps [simp del]

function var_squeeze_internal ::
  "nat \<Rightarrow> nat \<Rightarrow> ('f, 'f fpvar) sponge \<Rightarrow> ('f::field cs, 'f fpvar list \<times> ('f, 'f fpvar) sponge) comp" where
  "var_squeeze_internal start n sp =
    (let cfg = parameters sp in
     if start + n \<le> rate cfg then
       bind (lift (slice (sponge_state sp) (capacity cfg + start) n)) (\<lambda>out.
       ret (out, sp\<lparr>sponge_mode := Squeezing (start + n)\<rparr>))
     else if start > rate cfg then raise Panic
     else if rate cfg = 0 then bind (var_permute sp) (\<lambda>_. raise Diverge)
     else
       let m = rate cfg - start in
       bind (lift (slice (sponge_state sp) (capacity cfg + start) m)) (\<lambda>out.
       bind (var_permute sp) (\<lambda>sp'.
       bind (var_squeeze_internal 0 (n - m) sp') (\<lambda>(out', sp''). ret (out @ out', sp'')))))"
  by pat_completeness auto

termination
  by (relation "measure (\<lambda>(start, n, sp). n + (if start = 0 then 0 else 1))") auto

declare var_squeeze_internal.simps [simp del]

definition var_sponge_new :: "'f::field poseidon_config \<Rightarrow> ('f, 'f fpvar) sponge" where
  "var_sponge_new cfg = \<lparr>parameters = cfg, sponge_state = replicate (rate cfg + capacity cfg) (FpConstant 0),
     sponge_mode = Absorbing 0\<rparr>"

definition var_absorb ::
  "'f fpvar list \<Rightarrow> ('f, 'f fpvar) sponge \<Rightarrow> ('f::field cs, ('f, 'f fpvar) sponge) comp" where
  "var_absorb input sp =
    (if input = [] then ret sp
     else case sponge_mode sp of
       Absorbing next_absorb_index \<Rightarrow>
         if next_absorb_index = rate (parameters sp)
         then bind (var_permute sp) (var_absorb_internal 0 input)
         else var_absorb_internal next_absorb_index input sp
     | Squeezing _ \<Rightarrow> var_absorb_internal 0 input sp)"

definition var_squeeze_field_elements ::
  "nat \<Rightarrow> ('f, 'f fpvar) sponge \<Rightarrow> ('f::field cs, 'f fpvar list \<times> ('f, 'f fpvar) sponge) comp" where
  "var_squeeze_field_elements n sp =
    (case sponge_mode sp of
       Absorbing _ \<Rightarrow> bind (var_permute sp) (var_squeeze_internal 0 n)
     | Squeezing next_squeeze_index \<Rightarrow>
         if next_squeeze_index = rate (parameters sp)
         then bind (var_permute sp) (var_squeeze_internal 0 n)
         else var_squeeze_internal next_squeeze_index n sp)"

text \<open>
  \<^verbatim>\<open>CRHGadget::evaluate\<close>: inputs that are all constants have no constraint system and are hashed
  natively.
\<close>

definition var_crh_evaluate ::
  "'f prime_field \<Rightarrow> 'f poseidon_config \<Rightarrow> 'f fpvar list \<Rightarrow> ('f::field cs, 'f fpvar) comp" where
  "var_crh_evaluate pf cfg input =
    (if fp_variables input = []
     then bind (map_m (\<lambda>x. from_result (fpvar_value x)) input) (\<lambda>constant_input.
          bind (lift (crh_evaluate pf cfg constant_input)) (\<lambda>h. ret (FpConstant h)))
     else bind (var_absorb input (var_sponge_new cfg)) (\<lambda>sp.
          bind (var_squeeze_field_elements 1 sp) (\<lambda>(res, sp). lift (index res 0))))"

section \<open>Soundness\<close>

definition sponge_val :: "(variable \<Rightarrow> 'f) \<Rightarrow> ('f::field, 'f fpvar) sponge \<Rightarrow> ('f, 'f) sponge" where
  "sponge_val w sp = \<lparr>parameters = parameters sp, sponge_state = map (fp_val w) (sponge_state sp),
     sponge_mode = sponge_mode sp\<rparr>"

lemma sponge_val_simps [simp]:
  "parameters (sponge_val w sp) = parameters sp"
  "sponge_state (sponge_val w sp) = map (fp_val w) (sponge_state sp)"
  "sponge_mode (sponge_val w sp) = sponge_mode sp"
  "sponge_val w (sp\<lparr>sponge_state := st\<rparr>) = (sponge_val w sp)\<lparr>sponge_state := map (fp_val w) st\<rparr>"
  "sponge_val w (sp\<lparr>sponge_mode := m\<rparr>) = (sponge_val w sp)\<lparr>sponge_mode := m\<rparr>"
  by (simp_all add: sponge_val_def)

text \<open>The items of an enumeration, with their values.\<close>

definition item_val :: "(variable \<Rightarrow> 'f) \<Rightarrow> nat \<times> 'f::field fpvar \<Rightarrow> nat \<times> 'f" where
  "item_val w p = (fst p, fp_val w (snd p))"

lemma item_val_enumerate: "map (item_val w) (enumerate n xs) = enumerate n (map (fp_val w) xs)"
  by (induction xs arbitrary: n) (simp_all add: item_val_def)

lemma sound_var_apply_ark:
  "sound (var_apply_ark cfg r st) (\<lambda>w st'. apply_ark cfg r (map (fp_val w) st) = Inr (map (fp_val w) st'))"
proof -
  have step: "sound (case p of (i, x) \<Rightarrow> bind (lift (index2 (ark cfg) r i)) (\<lambda>k. fp_add_by x k))
      (\<lambda>w y. (case item_val w p of (i, elem) \<Rightarrow>
          result_bind (index2 (ark cfg) r i) (\<lambda>k. Inr (elem + k))) = Inr (fp_val w y))" for p
    by (cases p) (auto simp: item_val_def intro!: sound_bind[OF sound_lift] sound_weaken[OF sound_fp_add_by])
  show ?thesis
    unfolding var_apply_ark_def apply_ark_def item_val_enumerate[symmetric]
    by (rule sound_result_map[where g = item_val and h = fp_val]) (rule step)
qed

lemma sound_var_apply_s_box:
  "sound (var_apply_s_box cfg full st) (\<lambda>w st'. apply_s_box cfg full (map (fp_val w) st) = Inr (map (fp_val w) st'))"
proof (cases full)
  case True
  have "sound (map_m (\<lambda>x. fp_pow_by_constant x [alpha cfg]) st)
      (\<lambda>w st'. list_all2 (\<lambda>x y. fp_val w y = pow (fp_val w x) [alpha cfg]) st st')"
    by (rule sound_map_m, rule sound_weaken[OF sound_fp_pow_by_constant]) (simp add: pow_eq)
  then show ?thesis
    unfolding var_apply_s_box_def apply_s_box_def if_P[OF True]
    by (rule sound_weaken) (auto simp: list_all2_conv_all_nth intro!: nth_equalityI)
next
  case False
  then show ?thesis
    by (auto simp: var_apply_s_box_def apply_s_box_def pow_eq split: list.split
        intro!: sound_raise sound_bind[OF sound_fp_pow_by_constant] sound_ret)
qed

lemma sound_var_apply_mds:
  "sound (var_apply_mds cfg st) (\<lambda>w st'. apply_mds cfg (map (fp_val w) st) = Inr (map (fp_val w) st'))"
proof -
  let ?f = "\<lambda>i (j, x) cur. bind (lift (index2 (mds cfg) i j)) (\<lambda>m. bind (fp_mul_by x m) (\<lambda>term. fp_add cur term))"
  let ?f' = "\<lambda>i (j, elem) cur. result_bind (index2 (mds cfg) i j) (\<lambda>m. Inr (cur + elem * m))"
  have step: "sound (?f i p acc) (\<lambda>w y. ?f' i (item_val w p) (fp_val w acc) = Inr (fp_val w y))" for i p acc
    by (cases p) (auto simp: item_val_def intro!: sound_bind[OF sound_lift] sound_bind[OF sound_fp_mul_by]
        sound_weaken[OF sound_fp_add])
  have row: "sound (fold_m (?f i) (enumerate 0 st) (FpConstant 0))
      (\<lambda>w y. result_fold (?f' i) (map (item_val w) (enumerate 0 st)) (fp_val w (FpConstant 0)) = Inr (fp_val w y))" for i
    by (rule sound_result_fold[where g = item_val and h = fp_val]) (rule step)
  have "sound (map_m (\<lambda>i. fold_m (?f i) (enumerate 0 st) (FpConstant 0)) [0..<length st])
      (\<lambda>w ys. result_map (\<lambda>i. result_fold (?f' i) (enumerate 0 (map (fp_val w) st)) 0) [0..<length st]
         = Inr (map (fp_val w) ys))"
  proof (rule sound_weaken[OF sound_map_m[OF row]])
    fix w :: "variable \<Rightarrow> 'a" and ys
    assume "list_all2 (\<lambda>i y. result_fold (?f' i) (map (item_val w) (enumerate 0 st)) (fp_val w (FpConstant 0))
        = Inr (fp_val w y)) [0..<length st] ys"
    then show "result_map (\<lambda>i. result_fold (?f' i) (enumerate 0 (map (fp_val w) st)) 0) [0..<length st]
        = Inr (map (fp_val w) ys)"
      unfolding item_val_enumerate by (induction rule: list_all2_induct) auto
  qed
  then show ?thesis unfolding var_apply_mds_def apply_mds_def by simp
qed

lemma sound_var_poseidon_round:
  "sound (var_poseidon_round cfg full i st)
     (\<lambda>w st'. poseidon_round cfg full i (map (fp_val w) st) = Inr (map (fp_val w) st'))"
  unfolding var_poseidon_round_def poseidon_round_def
  by (rule sound_bind[OF sound_var_apply_ark], rule sound_bind[OF sound_var_apply_s_box],
      rule sound_weaken[OF sound_var_apply_mds]) simp

lemma sound_var_rounds:
  "sound (fold_m (var_poseidon_round cfg full) rs st)
     (\<lambda>w st'. result_fold (poseidon_round cfg full) rs (map (fp_val w) st) = Inr (map (fp_val w) st'))"
  using sound_result_fold[where g = "\<lambda>w i. i" and h = "\<lambda>w. map (fp_val w)" and xs = rs
      and f' = "poseidon_round cfg full" and acc = st, OF sound_var_poseidon_round] by simp

lemma sound_var_permute:
  "sound (var_permute sp) (\<lambda>w sp'. permute (sponge_val w sp) = Inr (sponge_val w sp'))"
proof -
  have "sound (var_permute_state cfg st) (\<lambda>w st'. permute_state cfg (map (fp_val w) st) = Inr (map (fp_val w) st'))"
    for cfg :: "'a poseidon_config" and st
    unfolding var_permute_state_def permute_state_def Let_def
    by (rule sound_bind[OF sound_var_rounds], rule sound_bind[OF sound_var_rounds],
        rule sound_weaken[OF sound_var_rounds]) simp
  then show ?thesis
    unfolding var_permute_def permute_def by (rule sound_bind, intro sound_ret) simp
qed

lemma sound_var_add_elements:
  "sound (var_add_elements start xs st)
     (\<lambda>w st'. add_elements start (map (fp_val w) xs) (map (fp_val w) st) = Inr (map (fp_val w) st'))"
proof -
  let ?f = "\<lambda>(i, element) state. bind (lift (index state (start + i))) (\<lambda>x. bind (fp_add x element)
      (\<lambda>y. ret (state[start + i := y])))"
  let ?f' = "\<lambda>(i, element) state. result_bind (index state (start + i)) (\<lambda>x. Inr (state[start + i := x + element]))"
  have step: "sound (?f p acc) (\<lambda>w y. ?f' (item_val w p) (map (fp_val w) acc) = Inr (map (fp_val w) y))" for p acc
    by (cases p) (auto simp: item_val_def index_def map_update split: if_splits
        intro!: sound_bind[OF sound_lift] sound_bind[OF sound_fp_add] sound_ret sound_raise)
  have "sound (fold_m ?f (enumerate 0 xs) st)
      (\<lambda>w r. result_fold ?f' (map (item_val w) (enumerate 0 xs)) (map (fp_val w) st) = Inr (map (fp_val w) r))"
    by (rule sound_result_fold[where g = item_val and h = "\<lambda>w. map (fp_val w)"]) (rule step)
  then show ?thesis unfolding var_add_elements_def add_elements_def item_val_enumerate .
qed

lemma sound_var_absorb_internal:
  "sound (var_absorb_internal start xs sp)
     (\<lambda>w sp'. absorb_internal start (map (fp_val w) xs) (sponge_val w sp) = Inr (sponge_val w sp'))"
proof (induction start xs sp rule: var_absorb_internal.induct)
  case (1 start xs sp)
  show ?case
    unfolding var_absorb_internal.simps[of start xs] absorb_internal.simps[of start "map _ xs"] Let_def
    by (auto intro!: sound_raise sound_bind[OF sound_var_add_elements] sound_ret sound_bind[OF sound_var_permute]
        sound_weaken[OF 1] simp: take_map drop_map)
qed

lemma slice_map: "slice (map f xs) i n = result_bind (slice xs i n) (\<lambda>ys. Inr (map f ys))"
  by (simp add: slice_def take_map drop_map)

lemma sound_var_squeeze_internal:
  "sound (var_squeeze_internal start n sp)
     (\<lambda>w (out, sp'). squeeze_internal start n (sponge_val w sp) = Inr (map (fp_val w) out, sponge_val w sp'))"
proof (induction start n sp rule: var_squeeze_internal.induct)
  case (1 start n sp)
  show ?case
    unfolding var_squeeze_internal.simps[of start n] squeeze_internal.simps[of start n] Let_def
    by (auto intro!: sound_raise sound_bind[OF sound_lift] sound_ret sound_bind[OF sound_var_permute]
        sound_bind[OF 1] simp: slice_map simp del: diff_diff_right)
qed

lemma sound_var_absorb:
  "sound (var_absorb xs sp) (\<lambda>w sp'. (if xs = [] then Inr (sponge_val w sp)
     else case sponge_mode sp of
       Absorbing i \<Rightarrow> if i = rate (parameters sp)
         then result_bind (permute (sponge_val w sp)) (absorb_internal 0 (map (fp_val w) xs))
         else absorb_internal i (map (fp_val w) xs) (sponge_val w sp)
     | Squeezing _ \<Rightarrow> absorb_internal 0 (map (fp_val w) xs) (sponge_val w sp)) = Inr (sponge_val w sp'))"
  unfolding var_absorb_def
  by (auto split: duplex_sponge_mode.split intro!: sound_ret sound_bind[OF sound_var_permute]
      sound_weaken[OF sound_var_absorb_internal])

lemma sound_var_squeeze_field_elements:
  "sound (var_squeeze_field_elements n sp)
     (\<lambda>w (out, sp'). squeeze_native_field_elements n (sponge_val w sp) = Inr (map (fp_val w) out, sponge_val w sp'))"
  unfolding var_squeeze_field_elements_def squeeze_native_field_elements_def
  by (auto split: duplex_sponge_mode.split intro!: sound_bind[OF sound_var_permute]
      sound_weaken[OF sound_var_squeeze_internal])

lemma sponge_val_new: "sponge_val w (var_sponge_new cfg) = sponge_new cfg"
  by (simp add: sponge_val_def var_sponge_new_def sponge_new_def)

lemma sponge_new_simps [simp]:
  "parameters (sponge_new cfg) = cfg" "sponge_mode (sponge_new cfg) = Absorbing 0"
  "parameters (var_sponge_new cfg) = cfg" "sponge_mode (var_sponge_new cfg) = Absorbing 0"
  by (simp_all add: var_sponge_new_def sponge_new_def)

lemma fp_variables_Nil: "fp_variables xs = [] \<Longrightarrow> \<exists>cs. xs = map FpConstant cs"
proof (induction xs)
  case (Cons x xs)
  then obtain c cs where "x = FpConstant c" "xs = map FpConstant cs"
    by (cases x) (auto simp: fp_variables_def map_filter_simps)
  then show ?case by (intro exI[of _ "c # cs"]) simp
qed simp

lemma map_m_constants:
  "map_m (\<lambda>x. from_result (fpvar_value x)) (map FpConstant cs) = ret cs"
  by (induction cs) (simp_all add: fpvar_value_def)

context prime_field_impl
begin

lemma sound_var_crh_evaluate:
  "sound (var_crh_evaluate pf cfg xs :: ('f cs, 'f fpvar) comp)
     (\<lambda>w r. crh_evaluate pf cfg (map (fp_val w) xs) = Inr (fp_val w r))"
proof (cases "fp_variables xs = []")
  case True
  then obtain ks where xs: "xs = map FpConstant ks" using fp_variables_Nil by blast
  have run: "var_crh_evaluate pf cfg xs
      = (bind (lift (crh_evaluate pf cfg ks)) (\<lambda>h. ret (FpConstant h)) :: ('f cs, 'f fpvar) comp)"
    using True by (simp add: var_crh_evaluate_def xs map_m_constants)
  show ?thesis
    unfolding run by (rule sound_bind[OF sound_lift], rule sound_ret) (simp add: xs comp_def)
next
  case False
  then have ne: "xs \<noteq> []" by (auto simp: fp_variables_def map_filter_simps)
  show ?thesis
    unfolding var_crh_evaluate_def if_not_P[OF False]
    by (rule sound_bind[OF sound_var_absorb], rule sound_bind[OF sound_var_squeeze_field_elements])
      (use ne in \<open>auto intro!: sound_ret sound_raise simp: crh_evaluate_def absorb_def
        squeeze_field_elements_def sponge_val_new Let_def index_def split: prod.split\<close>)
qed

end

section \<open>Completeness\<close>

lemma fps_mono: "cs_extends cs cs' \<Longrightarrow> list_all2 (fp_is cs) xs vs \<Longrightarrow> list_all2 (fp_is cs') xs vs"
  by (erule list_all2_mono) (rule fp_is_mono)

definition item_is :: "'f::field cs \<Rightarrow> nat \<times> 'f fpvar \<Rightarrow> nat \<times> 'f \<Rightarrow> bool" where
  "item_is cs p q \<longleftrightarrow> fst p = fst q \<and> fp_is cs (snd p) (snd q)"

lemma item_is_enumerate:
  "list_all2 (fp_is cs) xs vs \<Longrightarrow> list_all2 (item_is cs) (enumerate n xs) (enumerate n vs)"
  by (induction xs vs arbitrary: n rule: list_all2_induct) (simp_all add: item_is_def)

lemma item_is_mono: "cs_extends cs cs' \<Longrightarrow> item_is cs p q \<Longrightarrow> item_is cs' p q"
  by (auto simp: item_is_def intro: fp_is_mono)

lemma complete_var_apply_ark:
  assumes "list_all2 (fp_is cs) st vs" "apply_ark cfg r vs = Inr us"
  shows "complete cs (var_apply_ark cfg r st) (\<lambda>st' cs'. list_all2 (fp_is cs') st' us)"
  unfolding var_apply_ark_def
proof (rule complete_result_map[where R = fp_is and P = item_is])
  show "list_all2 (item_is cs) (enumerate 0 st) (enumerate 0 vs)" by (rule item_is_enumerate[OF assms(1)])
  show "result_map (\<lambda>(i, elem). result_bind (index2 (ark cfg) r i) (\<lambda>k. Inr (elem + k))) (enumerate 0 vs) = Inr us"
    by (rule assms(2)[unfolded apply_ark_def])
next
  fix cs' :: "'a cs" and p q u
  assume "item_is cs' p q" "(case q of (i, elem) \<Rightarrow> result_bind (index2 (ark cfg) r i) (\<lambda>k. Inr (elem + k))) = Inr u"
  then show "complete cs' (case p of (i, x) \<Rightarrow> bind (lift (index2 (ark cfg) r i)) (\<lambda>k. fp_add_by x k))
      (\<lambda>y cs''. fp_is cs'' y u)"
    by (cases p; cases q) (auto simp: item_is_def result_bind_Inr_iff intro!: complete_fp_add_by)
qed (auto intro: item_is_mono fp_is_mono)

lemma complete_var_apply_s_box:
  assumes st: "list_all2 (fp_is cs) st vs" and us: "apply_s_box cfg full vs = Inr us"
  shows "complete cs (var_apply_s_box cfg full st) (\<lambda>st' cs'. list_all2 (fp_is cs') st' us)"
proof (cases full)
  case True
  have "complete cs (map_m (\<lambda>x. fp_pow_by_constant x [alpha cfg]) st) (\<lambda>st' cs'. list_all2 (fp_is cs') st' us)"
  proof (rule complete_result_map[where R = fp_is and P = fp_is])
    show "list_all2 (fp_is cs) st vs" by (rule st)
    show "result_map (\<lambda>v. Inr (pow v [alpha cfg]) :: fault + 'a) vs = Inr us"
      using us True by (subst result_map_Inr) (auto simp: apply_s_box_def)
  qed (auto intro: fp_is_mono complete_weaken[OF complete_fp_pow_by_constant] simp: pow_eq)
  then show ?thesis using True by (simp add: var_apply_s_box_def)
next
  case False
  then obtain v vs' where vs: "vs = v # vs'" "us = pow v [alpha cfg] # vs'"
    using us by (auto simp: apply_s_box_def split: list.splits)
  then obtain x xs where xs: "st = x # xs" "fp_is cs x v" "list_all2 (fp_is cs) xs vs'"
    using st by (auto simp: list_all2_Cons2)
  show ?thesis
    unfolding var_apply_s_box_def xs(1) list.case if_not_P[OF False]
    by (rule complete_bind[OF complete_fp_pow_by_constant[OF xs(2)]], rule complete_ret)
      (use fps_mono[OF _ xs(3)] in \<open>simp add: vs(2) pow_eq\<close>)
qed

lemma complete_var_apply_mds:
  assumes st: "list_all2 (fp_is cs) st vs" and us: "apply_mds cfg vs = Inr us"
  shows "complete cs (var_apply_mds cfg st) (\<lambda>st' cs'. list_all2 (fp_is cs') st' us)"
proof -
  let ?f = "\<lambda>i (j, x) cur. bind (lift (index2 (mds cfg) i j)) (\<lambda>m. bind (fp_mul_by x m) (\<lambda>term. fp_add cur term))"
  let ?f' = "\<lambda>i (j, elem) cur. result_bind (index2 (mds cfg) i j) (\<lambda>m. Inr (cur + elem * m)) :: fault + 'a"
  have step: "complete cs1 (?f i p acc) (\<lambda>acc' cs''. fp_is cs'' acc' b)"
    if "item_is cs1 p q" "fp_is cs1 acc a" "?f' i q a = Inr b" for i p q acc a b and cs1 :: "'a cs"
  proof -
    note run = that(3)
    have "p = (fst q, snd p)" "q = (fst q, snd q)" "fp_is cs1 (snd p) (snd q)"
      using that(1) by (simp_all add: item_is_def prod_eq_iff)
    then obtain j x y where 0: "p = (j, x)" "q = (j, y)" "fp_is cs1 x y" by blast
    then obtain m where 1: "p = (j, x)" "q = (j, y)" "fp_is cs1 x y" "index2 (mds cfg) i j = Inr m" "b = a + y * m"
      using run by (auto simp: result_bind_Inr_iff)
    show ?thesis
      unfolding 1 prod.case lift_simps bind_ret
      by (rule complete_bind[OF complete_fp_mul_by[OF 1(3)]], rule complete_fp_add)
        (use that(2) fp_is_mono in auto)
  qed
  have row: "complete cs1 (fold_m (?f i) (enumerate 0 st) (FpConstant 0)) (\<lambda>y cs'. fp_is cs' y u)"
    if "cs_extends cs cs1" "result_fold (?f' i) (enumerate 0 vs) 0 = Inr u" for i u and cs1 :: "'a cs"
  proof (rule complete_result_fold[where A = fp_is and P = item_is])
    show "list_all2 (item_is cs1) (enumerate 0 st) (enumerate 0 vs)"
      by (rule item_is_enumerate[OF fps_mono[OF that(1) st]])
    show "result_fold (?f' i) (enumerate 0 vs) 0 = Inr u" by (rule that(2))
  qed (simp, rule step, assumption+, erule (1) item_is_mono)
  have len: "length st = length vs" using st by (rule list_all2_lengthD)
  show ?thesis
    unfolding var_apply_mds_def len
  proof (rule complete_result_map[where P = "\<lambda>_. (=)" and R = fp_is])
    show "list_all2 (=) [0..<length vs] [0..<length vs]" by (simp add: list.rel_eq)
    show "result_map (\<lambda>i. result_fold (?f' i) (enumerate 0 vs) 0) [0..<length vs] = Inr us"
      using us by (simp add: apply_mds_def)
  qed (auto intro: row fp_is_mono)
qed

lemma complete_var_poseidon_round:
  assumes "list_all2 (fp_is cs) st vs" "poseidon_round cfg full i vs = Inr us"
  shows "complete cs (var_poseidon_round cfg full i st) (\<lambda>st' cs'. list_all2 (fp_is cs') st' us)"
proof -
  obtain vs1 vs2 where 1: "apply_ark cfg i vs = Inr vs1" "apply_s_box cfg full vs1 = Inr vs2" "apply_mds cfg vs2 = Inr us"
    using assms(2) by (auto simp: poseidon_round_def result_bind_Inr_iff)
  show ?thesis
    unfolding var_poseidon_round_def
    by (rule complete_bind[OF complete_var_apply_ark[OF assms(1) 1(1)]],
        rule complete_bind[OF complete_var_apply_s_box[OF _ 1(2)]], assumption,
        rule complete_var_apply_mds[OF _ 1(3)])
qed

lemma complete_var_rounds:
  assumes "list_all2 (fp_is cs) st vs" "result_fold (poseidon_round cfg full) rs vs = Inr us"
  shows "complete cs (fold_m (var_poseidon_round cfg full) rs st) (\<lambda>st' cs'. list_all2 (fp_is cs') st' us)"
  by (rule complete_result_fold[where A = "\<lambda>cs. list_all2 (fp_is cs)" and P = "\<lambda>_. (=)", OF _ assms])
    (auto simp: list.rel_eq intro: complete_var_poseidon_round)

lemma complete_var_permute_state:
  assumes "list_all2 (fp_is cs) st vs" "permute_state cfg vs = Inr us"
  shows "complete cs (var_permute_state cfg st) (\<lambda>st' cs'. list_all2 (fp_is cs') st' us)"
proof -
  let ?h = "full_rounds cfg div 2" and ?p = "partial_rounds cfg"
  obtain vs1 vs2 where 1: "result_fold (poseidon_round cfg True) [0..<?h] vs = Inr vs1"
      "result_fold (poseidon_round cfg False) [?h..<?h + ?p] vs1 = Inr vs2"
      "result_fold (poseidon_round cfg True) [?h + ?p..<?p + full_rounds cfg] vs2 = Inr us"
    using assms(2) by (auto simp: permute_state_def Let_def result_bind_Inr_iff)
  show ?thesis
    unfolding var_permute_state_def Let_def
    by (rule complete_bind[OF complete_var_rounds[OF assms(1) 1(1)]],
        rule complete_bind[OF complete_var_rounds[OF _ 1(2)]], assumption,
        rule complete_var_rounds[OF _ 1(3)])
qed

definition sponge_is :: "'f::field cs \<Rightarrow> ('f, 'f fpvar) sponge \<Rightarrow> ('f, 'f) sponge \<Rightarrow> bool" where
  "sponge_is cs sp nsp \<longleftrightarrow> parameters nsp = parameters sp \<and> sponge_mode nsp = sponge_mode sp
     \<and> list_all2 (fp_is cs) (sponge_state sp) (sponge_state nsp)"

lemma sponge_is_mono: "cs_extends cs cs' \<Longrightarrow> sponge_is cs sp nsp \<Longrightarrow> sponge_is cs' sp nsp"
  by (auto simp: sponge_is_def intro: fps_mono)

lemma complete_var_permute:
  assumes "sponge_is cs sp nsp" "permute nsp = Inr nsp'"
  shows "complete cs (var_permute sp) (\<lambda>sp' cs'. sponge_is cs' sp' nsp')"
proof -
  obtain us where us: "permute_state (parameters sp) (sponge_state nsp) = Inr us" "nsp' = nsp\<lparr>sponge_state := us\<rparr>"
    using assms by (auto simp: permute_def result_bind_Inr_iff sponge_is_def)
  have st: "list_all2 (fp_is cs) (sponge_state sp) (sponge_state nsp)" using assms(1) by (simp add: sponge_is_def)
  show ?thesis
    unfolding var_permute_def
    by (rule complete_bind[OF complete_var_permute_state[OF st us(1)]], rule complete_ret)
      (use assms(1) in \<open>simp add: us(2) sponge_is_def\<close>)
qed

lemma complete_var_add_elements:
  assumes xs: "list_all2 (fp_is cs) xs vs" and st: "list_all2 (fp_is cs) st ss"
    and run: "add_elements start vs ss = Inr us"
  shows "complete cs (var_add_elements start xs st) (\<lambda>st' cs'. list_all2 (fp_is cs') st' us)"
  unfolding var_add_elements_def
proof (rule complete_result_fold[where A = "\<lambda>cs. list_all2 (fp_is cs)" and P = item_is, OF _ st])
  show "list_all2 (item_is cs) (enumerate 0 xs) (enumerate 0 vs)" by (rule item_is_enumerate[OF xs])
  show "result_fold (\<lambda>(i, element) state. result_bind (index state (start + i))
      (\<lambda>x. Inr (state[start + i := x + element]))) (enumerate 0 vs) ss = Inr us"
    by (rule run[unfolded add_elements_def])
next
  fix cs1 :: "'a cs" and p q acc a b
  assume 1: "item_is cs1 p q" "list_all2 (fp_is cs1) acc a"
    and 2: "(case q of (i, element) \<Rightarrow> \<lambda>state. result_bind (index state (start + i))
        (\<lambda>x. Inr (state[start + i := x + element]))) a = Inr b"
  obtain i x y where pq: "p = (i, x)" "q = (i, y)" "fp_is cs1 x y" using 1(1) by (cases p; cases q) (auto simp: item_is_def)
  have len: "start + i < length a" "length acc = length a" and b: "b = a[start + i := a ! (start + i) + y]"
    using 2 pq list_all2_lengthD[OF 1(2)] by (auto simp: result_bind_Inr_iff index_def split: if_splits)
  have at: "fp_is cs1 (acc ! (start + i)) (a ! (start + i))" using 1(2) len by (simp add: list_all2_nthD2)
  have "complete cs1 (bind (fp_add (acc ! (start + i)) x) (\<lambda>y. ret (acc[start + i := y])))
      (\<lambda>acc' cs''. list_all2 (fp_is cs'') acc' b)"
    by (rule complete_bind[OF complete_fp_add[OF at pq(3)]], rule complete_ret)
      (auto simp: b intro!: list_all2_update_cong intro: fps_mono[OF _ 1(2)])
  then show "complete cs1 ((case p of (i, element) \<Rightarrow> \<lambda>state. bind (lift (index state (start + i)))
      (\<lambda>x. bind (fp_add x element) (\<lambda>y. ret (state[start + i := y])))) acc)
      (\<lambda>acc' cs''. list_all2 (fp_is cs'') acc' b)"
    using len pq by simp
qed (rule item_is_mono)

lemma complete_var_absorb_internal:
  "sponge_is cs sp nsp \<Longrightarrow> list_all2 (fp_is cs) xs vs \<Longrightarrow> absorb_internal start vs nsp = Inr nsp' \<Longrightarrow>
   complete cs (var_absorb_internal start xs sp) (\<lambda>sp' cs'. sponge_is cs' sp' nsp')"
proof (induction start xs sp arbitrary: cs nsp vs rule: var_absorb_internal.induct)
  case (1 start xs sp)
  let ?cfg = "parameters sp" and ?n = "rate (parameters sp) - start"
  have sp: "parameters nsp = ?cfg" "list_all2 (fp_is cs) (sponge_state sp) (sponge_state nsp)"
    using "1.prems"(1) by (simp_all add: sponge_is_def)
  have len: "length vs = length xs" using "1.prems"(2) by (auto dest: list_all2_lengthD)
  show ?case
  proof (cases "start + length xs \<le> rate ?cfg")
    case True
    then obtain us where us: "add_elements (capacity ?cfg + start) vs (sponge_state nsp) = Inr us"
        "nsp' = nsp\<lparr>sponge_state := us, sponge_mode := Absorbing (start + length xs)\<rparr>"
      using "1.prems"(3) sp(1) len by (auto simp: absorb_internal.simps[of start vs] Let_def result_bind_Inr_iff)
    show ?thesis
      unfolding var_absorb_internal.simps[of start xs] Let_def if_P[OF True]
      by (rule complete_bind[OF complete_var_add_elements[OF "1.prems"(2) sp(2) us(1)]], rule complete_ret)
        (simp add: us(2) sponge_is_def sp(1))
  next
    case False
    then obtain us nsp1 where us: "start \<le> rate ?cfg" "rate ?cfg \<noteq> 0"
        "add_elements (capacity ?cfg + start) (take ?n vs) (sponge_state nsp) = Inr us"
        "permute (nsp\<lparr>sponge_state := us\<rparr>) = Inr nsp1" "absorb_internal 0 (drop ?n vs) nsp1 = Inr nsp'"
      using "1.prems"(3) sp(1) len
      by (auto simp: absorb_internal.simps[of start vs] Let_def result_bind_Inr_iff split: if_splits)
    note g = False if_not_P[OF False] if_not_P[OF us(1)[unfolded not_less[symmetric]]] if_not_P[OF us(2)]
    have tk: "list_all2 (fp_is cs) (take ?n xs) (take ?n vs)" using "1.prems"(2) by (rule list_all2_takeI)
    show ?thesis
      unfolding var_absorb_internal.simps[of start xs] Let_def g(2-)
    proof (rule complete_bind[OF complete_var_add_elements[OF tk sp(2) us(3)]])
      fix st1 cs1 assume 2: "cs_extends cs cs1" "list_all2 (fp_is cs1) st1 us"
      have "sponge_is cs1 (sp\<lparr>sponge_state := st1\<rparr>) (nsp\<lparr>sponge_state := us\<rparr>)"
        using "1.prems"(1) 2(2) by (simp add: sponge_is_def)
      then show "complete cs1 (bind (var_permute (sp\<lparr>sponge_state := st1\<rparr>)) (var_absorb_internal 0 (drop ?n xs)))
          (\<lambda>sp' cs'. sponge_is cs' sp' nsp')"
      proof (rule complete_bind[OF complete_var_permute[OF _ us(4)]])
        fix sp1 cs2 assume 3: "cs_extends cs1 cs2" "sponge_is cs2 sp1 nsp1"
        show "complete cs2 (var_absorb_internal 0 (drop ?n xs) sp1) (\<lambda>sp' cs'. sponge_is cs' sp' nsp')"
        proof (rule "1.IH"[OF refl False _ us(2) refl 3(2) _ us(5)])
          show "list_all2 (fp_is cs2) (drop ?n xs) (drop ?n vs)"
            using fps_mono[OF cs_extends_trans[OF 2(1) 3(1)] "1.prems"(2)] by (rule list_all2_dropI)
        qed (use us(1) in simp)
      qed
    qed
  qed
qed

lemma list_all2_slice:
  "list_all2 P xs ys \<Longrightarrow> slice ys i n = Inr vs \<Longrightarrow> \<exists>us. slice xs i n = Inr us \<and> list_all2 P us vs"
  by (auto simp: slice_def list_all2_takeI list_all2_dropI dest: list_all2_lengthD split: if_splits)

text \<open>The squeeze of one element, the only one the hash uses.\<close>

lemma complete_var_squeeze_internal_one:
  assumes "sponge_is cs sp nsp" "squeeze_internal 0 (Suc 0) nsp = Inr (outs, nsp')"
  shows "complete cs (var_squeeze_internal 0 (Suc 0) sp) (\<lambda>(out, sp') cs'. list_all2 (fp_is cs') out outs)"
proof -
  have sp: "parameters nsp = parameters sp" "list_all2 (fp_is cs) (sponge_state sp) (sponge_state nsp)"
    using assms(1) by (simp_all add: sponge_is_def)
  have r: "1 \<le> rate (parameters sp)" and out: "slice (sponge_state nsp) (capacity (parameters sp)) 1 = Inr outs"
    using assms(2) sp(1) by (auto simp: squeeze_internal.simps[of 0 "Suc 0"] Let_def result_bind_Inr_iff split: if_splits)
  then show ?thesis
    using list_all2_slice[OF sp(2) out] by (auto simp: var_squeeze_internal.simps[of 0 "Suc 0"] Let_def complete_ret)
qed

lemma absorb_internal_mode:
  "absorb_internal start vs nsp = Inr nsp' \<Longrightarrow> \<exists>i. sponge_mode nsp' = Absorbing i"
proof (induction start vs nsp rule: absorb_internal.induct)
  case (1 start vs nsp)
  then show ?case
    unfolding absorb_internal.simps[of start vs] Let_def
    by (auto simp: result_bind_Inr_iff split: if_splits)
qed

lemma absorb_mode:
  "absorb pf vs nsp = Inr nsp' \<Longrightarrow> vs \<noteq> [] \<Longrightarrow> \<exists>i. sponge_mode nsp' = Absorbing i"
  by (auto simp: absorb_def field_cast_def Let_def result_bind_Inr_iff
      split: duplex_sponge_mode.splits if_splits dest: absorb_internal_mode)

lemma fps_values:
  "list_all2 (fp_is cs) xs vs \<Longrightarrow> map_m (\<lambda>x. from_result (fpvar_value x)) xs = ret vs"
  by (induction xs vs rule: list_all2_induct) (simp_all add: fp_isD)

context prime_field_impl
begin

lemma complete_var_crh_evaluate:
  assumes xs: "list_all2 (fp_is cs) xs vs" and run: "crh_evaluate pf cfg vs = Inr h"
  shows "complete (cs :: 'f cs) (var_crh_evaluate pf cfg xs) (\<lambda>r cs'. fp_is cs' r h)"
proof (cases "fp_variables xs = []")
  case True
  then show ?thesis
    by (simp add: var_crh_evaluate_def fps_values[OF xs] run complete_ret)
next
  case False
  then have ne: "xs \<noteq> []" "vs \<noteq> []" using xs by (auto simp: fp_variables_def map_filter_simps)
  obtain nsp outs nsp' where 1: "absorb pf vs (sponge_new cfg) = Inr nsp"
      "squeeze_native_field_elements 1 nsp = Inr (outs, nsp')" "index outs 0 = Inr h"
    using run by (auto simp: crh_evaluate_def squeeze_field_elements_def result_bind_Inr_iff split: prod.splits)
  have new: "sponge_is cs (var_sponge_new cfg) (sponge_new cfg)"
    by (simp add: sponge_is_def var_sponge_new_def sponge_new_def list_all2_conv_all_nth)
  have absorb: "complete cs (var_absorb xs (var_sponge_new cfg)) (\<lambda>sp cs'. sponge_is cs' sp nsp)"
  proof (cases "rate cfg = 0")
    case True
    then obtain nsp1 where 2: "permute (sponge_new cfg) = Inr nsp1" "absorb_internal 0 vs nsp1 = Inr nsp"
      using 1(1) ne by (auto simp: absorb_def Let_def result_bind_Inr_iff)
    show ?thesis
      using ne True
      by (auto simp: var_absorb_def intro!: complete_bind[OF complete_var_permute[OF new 2(1)]]
          complete_var_absorb_internal[OF _ _ 2(2)] intro: fps_mono[OF _ xs])
  next
    case False
    then have "absorb_internal 0 vs (sponge_new cfg) = Inr nsp" using 1(1) ne by (simp add: absorb_def Let_def)
    from complete_var_absorb_internal[OF new xs this] show ?thesis using ne False by (simp add: var_absorb_def)
  qed
  have squeeze: "complete cs1 (var_squeeze_field_elements 1 sp) (\<lambda>(out, sp') cs'. list_all2 (fp_is cs') out outs)"
    if "sponge_is cs1 sp nsp" for sp and cs1 :: "'f cs"
  proof -
    have "\<exists>i. sponge_mode nsp = Absorbing i" using 1(1) ne(2) by (rule absorb_mode)
    then obtain i nsp1 where 3: "sponge_mode nsp = Absorbing i" "permute nsp = Inr nsp1"
        "squeeze_internal 0 (Suc 0) nsp1 = Inr (outs, nsp')"
      using 1(2) by (auto simp: squeeze_native_field_elements_def result_bind_Inr_iff)
    then have "sponge_mode sp = Absorbing i" using that by (simp add: sponge_is_def)
    then show ?thesis
      by (auto simp: var_squeeze_field_elements_def intro!: complete_bind[OF complete_var_permute[OF that 3(2)]]
          complete_var_squeeze_internal_one[OF _ 3(3)])
  qed
  have last: "complete cs2 (case p of (res, sp) \<Rightarrow> lift (index res 0)) (\<lambda>r cs'. fp_is cs' r h)"
    if "case p of (out, sp') \<Rightarrow> list_all2 (fp_is cs2) out outs"
    for p :: "'f fpvar list \<times> ('f, 'f fpvar) sponge" and cs2 :: "'f cs"
    using that 1(3) by (cases p)
      (auto simp: index_def complete_ret list_all2_nthD2 dest: list_all2_lengthD split: if_splits)
  show ?thesis
    unfolding var_crh_evaluate_def if_not_P[OF False]
    by (rule complete_bind[OF absorb], rule complete_bind[OF squeeze], assumption, rule last) (simp split: prod.splits)
qed

end

end
