(* ===== verification/Hash_Interface.thy ===== *)
theory Hash_Interface
  imports Fp_Gadget
begin

text \<open>
  The contract between the hash and its clients.  The ledger uses the hash twice: natively, to
  build the tree and the witnesses, and as a gadget, inside the circuit.  The locale \<open>crh\<close> states
  what the clients rely on, that the gadget computes the native hash for every assignment that
  satisfies the constraints, and that an honest prover can always run it.  The Merkle path, in its
  two forms, is verified once against that contract.
\<close>

section \<open>The interface\<close>

locale crh =
  fixes native :: "'f::field list \<Rightarrow> fault + 'f"
    and gadget :: "'f fpvar list \<Rightarrow> ('f cs, 'f fpvar) comp"
  assumes gadget_sound:
      "sound (gadget xs) (\<lambda>w r. native (map (fp_val w) xs) = Inr (fp_val w r))"
    and gadget_complete:
      "list_all2 (fp_is cs) xs vs \<Longrightarrow> native vs = Inr h \<Longrightarrow>
       complete cs (gadget xs) (\<lambda>r cs'. fp_is cs' r h)"

section \<open>Merkle paths\<close>

text \<open>
  A path lists, from the leaf up, the sibling and whether the path comes from the right.  The
  loops of \<^verbatim>\<open>root_from_leaf\<close> and of \<^verbatim>\<open>merkle_root_from_leaf\<close>, for a hash of two elements.
\<close>

definition path_step :: "('f \<Rightarrow> 'f \<Rightarrow> fault + 'f) \<Rightarrow> 'f \<times> bool \<Rightarrow> 'f \<Rightarrow> fault + 'f" where
  "path_step h2 = (\<lambda>(sib, bit) cur. let (l, r) = (if bit then (sib, cur) else (cur, sib)) in h2 l r)"

definition path_root :: "('f \<Rightarrow> 'f \<Rightarrow> fault + 'f) \<Rightarrow> ('f \<times> bool) list \<Rightarrow> 'f \<Rightarrow> fault + 'f" where
  "path_root h2 = result_fold (path_step h2)"

definition path_gadget_step ::
  "('f fpvar \<Rightarrow> 'f fpvar \<Rightarrow> ('f::field cs, 'f fpvar) comp) \<Rightarrow> 'f fpvar \<times> boolean \<Rightarrow> 'f fpvar
   \<Rightarrow> ('f cs, 'f fpvar) comp" where
  "path_gadget_step h2 = (\<lambda>(sib, bit) cur.
     bind (fp_conditionally_select bit sib cur) (\<lambda>left.
     bind (fp_conditionally_select bit cur sib) (\<lambda>right. h2 left right)))"

definition path_gadget ::
  "('f fpvar \<Rightarrow> 'f fpvar \<Rightarrow> ('f::field cs, 'f fpvar) comp) \<Rightarrow> ('f fpvar \<times> boolean) list \<Rightarrow> 'f fpvar
   \<Rightarrow> ('f cs, 'f fpvar) comp" where
  "path_gadget h2 = fold_m (path_gadget_step h2)"

lemma path_root_simps [simp]:
  "path_root h2 [] = Inr"
  "path_root h2 (s # ss) cur = result_bind (path_step h2 s cur) (path_root h2 ss)"
  by (simp_all add: path_root_def fun_eq_iff)

lemma path_step_simps [simp]:
  "path_step h2 (sib, True) cur = h2 sib cur" "path_step h2 (sib, False) cur = h2 cur sib"
  by (simp_all add: path_step_def)

definition bool_of :: "'f::comm_ring_1 \<Rightarrow> bool" where
  "bool_of x \<longleftrightarrow> x = 1"

lemma bool_of_of_bool [simp]: "bool_of (of_bool b) = b"
  by (simp add: bool_of_def)

lemma bool_of_simps [simp]: "bool_of 1" "\<not> bool_of 0" "is_bit 0" "is_bit 1"
  by (simp_all add: bool_of_def is_bit_def)

lemma is_bit_bool_of: "is_bit x \<Longrightarrow> x = of_bool (bool_of x)"
  by (auto simp: is_bit_def bool_of_def)

abbreviation path_val :: "(variable \<Rightarrow> 'f) \<Rightarrow> 'f::field fpvar \<times> boolean \<Rightarrow> 'f \<times> bool" where
  "path_val w s \<equiv> (fp_val w (fst s), bool_of (bool_val w (snd s)))"

definition path_is :: "'f::field cs \<Rightarrow> 'f fpvar \<times> boolean \<Rightarrow> 'f \<times> bool \<Rightarrow> bool" where
  "path_is cs s v \<longleftrightarrow> fp_is cs (fst s) (fst v) \<and> bool_is cs (snd s) (snd v)"

lemma path_is_mono: "cs_extends cs cs' \<Longrightarrow> path_is cs s v \<Longrightarrow> path_is cs' s v"
  by (auto simp: path_is_def intro: fp_is_mono bool_is_mono)

context crh
begin

lemma path_step_sound:
  "sound (path_gadget_step (\<lambda>l r. gadget [l, r]) s cur) (\<lambda>w r. is_bit (bool_val w (snd s)) \<longrightarrow>
     path_step (\<lambda>l r. native [l, r]) (path_val w s) (fp_val w cur) = Inr (fp_val w r))"
proof (cases s)
  case (Pair sib bit)
  show ?thesis
    unfolding path_gadget_step_def Pair prod.case
    by (rule sound_bind[OF sound_fp_conditionally_select], rule sound_bind[OF sound_fp_conditionally_select],
        rule sound_weaken[OF gadget_sound])
      (auto simp: is_bit_def bool_of_def)
qed

lemma path_sound:
  "sound (path_gadget (\<lambda>l r. gadget [l, r]) ss cur) (\<lambda>w r.
     list_all (\<lambda>s. is_bit (bool_val w (snd s))) ss \<longrightarrow>
     path_root (\<lambda>l r. native [l, r]) (map (path_val w) ss) (fp_val w cur) = Inr (fp_val w r))"
proof (induction ss arbitrary: cur)
  case (Cons s ss)
  show ?case
    unfolding path_gadget_def fold_m.simps
    by (rule sound_bind[OF path_step_sound], rule sound_weaken[OF Cons.IH[unfolded path_gadget_def]]) auto
qed (simp add: path_gadget_def sound_ret)

lemma path_complete:
  assumes "list_all2 (path_is cs) ss vs" "fp_is cs cur x"
    and "path_root (\<lambda>l r. native [l, r]) vs x = Inr h"
  shows "complete cs (path_gadget (\<lambda>l r. gadget [l, r]) ss cur) (\<lambda>r cs'. fp_is cs' r h)"
  unfolding path_gadget_def
proof (rule complete_result_fold[where P = path_is and A = fp_is and
      f' = "path_step (\<lambda>l r. native [l, r])"])
  show "result_fold (path_step (\<lambda>l r. native [l, r])) vs x = Inr h"
    using assms(3) by (simp add: path_root_def)
next
  fix cs' s v acc a b
  assume 1: "path_is cs' s v" "fp_is cs' acc a" "path_step (\<lambda>l r. native [l, r]) v a = Inr b"
  obtain sib bit where s: "s = (sib, bit)" by fastforce
  obtain y z where v: "v = (y, z)" by fastforce
  have sv: "fp_is cs' sib y" "bool_is cs' bit z" using 1(1) by (simp_all add: path_is_def s v)
  show "complete cs' (path_gadget_step (\<lambda>l r. gadget [l, r]) s acc) (\<lambda>r cs''. fp_is cs'' r b)"
    unfolding path_gadget_step_def s prod.case
  proof (rule complete_bind[OF complete_fp_conditionally_select[OF sv(2,1) 1(2)]])
    fix l cs1 assume 2: "cs_extends cs' cs1" "fp_is cs1 l (if z then y else a)"
    show "complete cs1 (bind (fp_conditionally_select bit acc sib) (\<lambda>right. gadget [l, right]))
        (\<lambda>r cs''. fp_is cs'' r b)"
    proof (rule complete_bind[OF complete_fp_conditionally_select[OF bool_is_mono[OF 2(1) sv(2)]
            fp_is_mono[OF 2(1) 1(2)] fp_is_mono[OF 2(1) sv(1)]]])
      fix r cs2 assume 3: "cs_extends cs1 cs2" "fp_is cs2 r (if z then a else y)"
      have "native [if z then y else a, if z then a else y] = Inr b"
        using 1(3) by (cases z) (simp_all add: v)
      then show "complete cs2 (gadget [l, r]) (\<lambda>r cs''. fp_is cs'' r b)"
        using 3(2) fp_is_mono[OF 3(1) 2(2)] by (intro gadget_complete) simp_all
    qed
  qed
qed (use assms path_is_mono in auto)

end

section \<open>Binding\<close>

text \<open>
  Two paths along the same positions with different contents, a leaf or a sibling, that lead to
  the same root give a collision of the hash.  \<open>path_collision\<close> finds it: the lowest level at
  which two different pairs of children have the same hash.
\<close>

fun path_collision :: "('f \<Rightarrow> 'f \<Rightarrow> fault + 'f) \<Rightarrow> 'f list \<Rightarrow> 'f list \<Rightarrow> bool list \<Rightarrow> 'f \<Rightarrow> 'f
    \<Rightarrow> (('f \<times> 'f) \<times> ('f \<times> 'f)) option" where
  "path_collision h2 (s # ss) (t # ts) (b # bs) x y =
    (let l = (if b then (s, x) else (x, s)); r = (if b then (t, y) else (y, t)) in
     case (h2 (fst l) (snd l), h2 (fst r) (snd r)) of
       (Inr x', Inr y') \<Rightarrow> if x' = y' \<and> l \<noteq> r then Some (l, r) else path_collision h2 ss ts bs x' y'
     | _ \<Rightarrow> None)"
| "path_collision h2 _ _ _ x y = None"

definition is_collision :: "('f \<Rightarrow> 'f \<Rightarrow> fault + 'f) \<Rightarrow> ('f \<times> 'f) \<times> ('f \<times> 'f) \<Rightarrow> bool" where
  "is_collision h2 p \<longleftrightarrow> (case p of (l, r) \<Rightarrow> l \<noteq> r \<and>
     (case (h2 (fst l) (snd l), h2 (fst r) (snd r)) of (Inr x, Inr y) \<Rightarrow> x = y | _ \<Rightarrow> False))"

lemma path_collision_is_collision:
  "path_collision h2 ss ts bs x y = Some p \<Longrightarrow> is_collision h2 p"
proof (induction ss arbitrary: ts bs x y)
  case (Cons s ss)
  obtain t ts' b bs' where c: "ts = t # ts'" "bs = b # bs'"
    using Cons.prems by (cases ts; cases bs) auto
  let ?l = "if b then (s, x) else (x, s)" and ?r = "if b then (t, y) else (y, t)"
  obtain x' y' where h: "h2 (fst ?l) (snd ?l) = Inr x'" "h2 (fst ?r) (snd ?r) = Inr y'"
    using Cons.prems by (auto simp: c Let_def split: sum.splits)
  show ?case
  proof (cases "x' = y' \<and> ?l \<noteq> ?r")
    case True
    then have "p = (?l, ?r)" using Cons.prems h by (simp add: c Let_def)
    with True h show ?thesis by (simp add: is_collision_def)
  next
    case False
    then have "path_collision h2 ss ts' bs' x' y' = Some p" using Cons.prems h by (auto simp: c Let_def)
    then show ?thesis by (rule Cons.IH)
  qed
qed simp

lemma path_binding:
  "length ss = length bs \<Longrightarrow> length ts = length bs \<Longrightarrow>
   path_root h2 (zip ss bs) x = Inr r \<Longrightarrow> path_root h2 (zip ts bs) y = Inr r \<Longrightarrow>
   path_collision h2 ss ts bs x y = None \<Longrightarrow> x = y \<and> ss = ts"
proof (induction h2 ss ts bs x y rule: path_collision.induct)
  case (1 h2 s ss t ts b bs x y)
  let ?l = "if b then (s, x) else (x, s)" and ?r = "if b then (t, y) else (y, t)"
  obtain x' y' where h: "h2 (fst ?l) (snd ?l) = Inr x'" "h2 (fst ?r) (snd ?r) = Inr y'"
      and rest: "path_root h2 (zip ss bs) x' = Inr r" "path_root h2 (zip ts bs) y' = Inr r"
    using "1.prems"(3,4) by (cases b) (auto simp: result_bind_Inr_iff)
  have nc: "\<not> (x' = y' \<and> ?l \<noteq> ?r)" "path_collision h2 ss ts bs x' y' = None"
    using "1.prems"(5) h by (auto simp: Let_def split: if_splits)
  have "x' = y' \<and> ss = ts"
    by (rule "1.IH"[of ?l ?r "h2 (fst ?l) (snd ?l)" "h2 (fst ?r) (snd ?r)"])
      (use "1.prems" nc rest h in auto)
  then show ?case using nc(1) by (cases b) auto
qed auto

end
