(* ===== verification/Bn254_Prime.thy ===== *)
theory Bn254_Prime
  imports Main
begin

text \<open>
  The modulus of \<^verbatim>\<open>FrConfig\<close> (vendor/algebra/curves/bn254/src/fields/fr.rs) is a prime
  number.  \<^verbatim>\<open>Fp<MontBackend<FrConfig, 4>>\<close> is a field only because of this, so the fact is
  proved here and not assumed.  The proof is of Pocklington's kind: for three prime powers
  \<open>q\<close> dividing \<open>r - 1\<close> an element of order \<open>q\<close> modulo every prime factor \<open>p\<close> of \<open>r\<close> is given,
  so \<open>p = 1 (mod q)\<close>, and the product of the three exceeds the square root of \<open>r\<close>.  The powers
  are certified by lists of quotients (function \<open>pow_chain\<close>); the 94-bit factor of \<open>r - 1\<close> and
  the factors below it are proved prime in the same way.
\<close>

section \<open>Prime numbers and Fermat's little theorem\<close>

definition nat_prime :: "nat \<Rightarrow> bool" where
  "nat_prime p \<longleftrightarrow> 1 < p \<and> (\<forall>d. d dvd p \<longrightarrow> d = 1 \<or> d = p)"

lemma nat_prime_coprime:
  assumes "nat_prime p" and "\<not> p dvd a"
  shows "coprime p a"
proof (rule coprimeI)
  fix c assume "c dvd p" "c dvd a"
  with assms show "is_unit c" unfolding nat_prime_def by auto
qed

lemma nat_prime_dvd_mult:
  "nat_prime p \<Longrightarrow> p dvd a * b \<longleftrightarrow> p dvd a \<or> p dvd b"
  using nat_prime_coprime[of p a] coprime_dvd_mult_right_iff[of p a b]
  by (auto intro: dvd_mult dvd_mult2)

lemma nat_prime_dvd_mult_int:
  "nat_prime p \<Longrightarrow> int p dvd a * b \<longleftrightarrow> int p dvd a \<or> int p dvd b"
  using nat_prime_dvd_mult[of p "nat \<bar>a\<bar>" "nat \<bar>b\<bar>"]
  by (simp add: nat_abs_mult_distrib flip: dvd_nat_abs_iff)

lemma nat_prime_divisor: "1 < n \<Longrightarrow> \<exists>p. nat_prime p \<and> p dvd n"
proof (induction n rule: less_induct)
  case (less n)
  show ?case
  proof (cases "nat_prime n")
    case False
    then obtain d where d: "d dvd n" "d \<noteq> 1" "d \<noteq> n"
      using less.prems unfolding nat_prime_def by auto
    then have "1 < d" "d < n"
      using less.prems by (auto intro: Nat.gr0I dest: dvd_imp_le simp: nat_neq_iff)
    with less.IH d show ?thesis by (meson dvd_trans)
  qed auto
qed

lemma nat_prime_dvd_choose:
  assumes "nat_prime p" and "0 < k" and "k < p"
  shows "p dvd (p choose k)"
proof -
  have "p dvd k * (p choose k)"
    using assms times_binomial_minus1_eq[of k p] by simp
  moreover have "\<not> p dvd k"
    using assms by (auto dest: dvd_imp_le)
  ultimately show ?thesis
    using assms(1) by (simp add: nat_prime_dvd_mult)
qed

lemma fermat_nat:
  assumes p: "nat_prime p"
  shows "a ^ p mod p = (a::nat) mod p"
proof (induction a)
  case 0
  show ?case using p by (cases p) (simp_all add: nat_prime_def)
next
  case (Suc a)
  have p1: "1 < p" using p by (simp add: nat_prime_def)
  have "(a + 1) ^ p = (\<Sum>k\<le>p. (p choose k) * a ^ k)"
    using binomial[of a 1 p] by simp
  also have "\<dots> = (\<Sum>k\<in>insert 0 (insert p {0<..<p}). (p choose k) * a ^ k)"
    using p1 by (intro sum.cong) auto
  also have "\<dots> = 1 + a ^ p + (\<Sum>k\<in>{0<..<p}. (p choose k) * a ^ k)"
    using p1 by simp
  finally have e: "(a + 1) ^ p = 1 + a ^ p + (\<Sum>k\<in>{0<..<p}. (p choose k) * a ^ k)" .
  have "p dvd (\<Sum>k\<in>{0<..<p}. (p choose k) * a ^ k)"
    by (intro dvd_sum) (auto intro: dvd_mult2 nat_prime_dvd_choose[OF p])
  then have "(a + 1) ^ p mod p = (1 + a ^ p) mod p"
    unfolding e by (metis mod_add_right_eq add_0_right dvd_imp_mod_0)
  also have "\<dots> = (1 + a) mod p"
    using Suc.IH by (metis mod_add_right_eq)
  finally show ?case by simp
qed

lemma fermat_int:
  assumes p: "nat_prime p" and x: "\<not> int p dvd x"
  shows "int p dvd x ^ (p - 1) - 1"
proof -
  define a where "a = nat (x mod int p)"
  have p1: "1 < p" using p by (simp add: nat_prime_def)
  then have a: "int a = x mod int p" by (simp add: a_def)
  have "int p dvd int a ^ p - int a"
    using fermat_nat[OF p, of a] by (metis mod_eq_dvd_iff of_nat_mod of_nat_power)
  then have "int p dvd x ^ p - x"
    unfolding a by (metis mod_eq_dvd_iff mod_mod_trivial power_mod)
  moreover have "x ^ p - x = x * (x ^ (p - 1) - 1)"
    using p1 by (cases p) (auto simp: algebra_simps)
  ultimately show ?thesis
    using x by (simp add: nat_prime_dvd_mult_int[OF p])
qed

section \<open>Orders of elements modulo a prime factor\<close>

lemma mod_prime_factor:
  assumes "p dvd n" and "(x::int) mod int n = y mod int n"
  shows "int p dvd x - y"
  using assms by (metis dvd_trans int_dvd_int_iff mod_eq_dvd_iff)

lemma power_minus_1_dvd:
  assumes "(m::int) dvd x ^ d - 1" and "d dvd e"
  shows "m dvd x ^ e - 1"
  using assms by (metis (no_types) dvd_def mod_eq_dvd_iff power_mod power_mult power_one)

lemma order_prime_factor:
  assumes q: "nat_prime q" and p: "nat_prime p" "p dvd n"
    and x: "x ^ q mod int n = 1 mod int n"
    and unit: "s * (x - 1) = t * int n + 1"
  shows "q dvd p - 1"
proof (rule ccontr)
  assume no: "\<not> q dvd p - 1"
  have p1: "1 < p" and q1: "1 < q" using p(1) q by (simp_all add: nat_prime_def)
  have xq: "int p dvd x ^ q - 1" by (rule mod_prime_factor[OF p(2) x])
  have nx: "\<not> int p dvd x"
  proof
    assume "int p dvd x"
    then have "int p dvd x ^ q" using q1 by (cases q) auto
    with xq have "int p dvd 1" by (metis dvd_diff_right_iff dvd_add_right_iff diff_add_cancel)
    with p1 show False by simp
  qed
  from no have "coprime q (p - 1)" by (rule nat_prime_coprime[OF q])
  then obtain a b where ab: "q * a = (p - 1) * b + 1"
    using q1 by (metis coprime_crossproduct_nat bezout_nat coprime_imp_gcd_eq_1 gr_implies_not0 not_one_less_zero)
  have "int p dvd x ^ (q * a) - 1" by (rule power_minus_1_dvd[OF xq]) simp
  moreover have "int p dvd x ^ ((p - 1) * b) - 1"
    by (rule power_minus_1_dvd[OF fermat_int[OF p(1) nx]]) simp
  ultimately have "int p dvd (x ^ (q * a) - 1) - x * (x ^ ((p - 1) * b) - 1)"
    by simp
  then have "int p dvd x - 1"
    unfolding ab by (simp add: right_diff_distrib)
  then have "int p dvd t * int n + 1" using unit by (metis dvd_mult)
  then have "int p dvd 1" using p(2) by (metis dvd_add_right_iff dvd_mult int_dvd_int_iff)
  with p1 show False by simp
qed

lemma odd_part: "0 < (n::nat) \<Longrightarrow> \<exists>j m. n = 2 ^ j * m \<and> odd m"
proof (induction n rule: less_induct)
  case (less n)
  show ?case
  proof (cases "odd n")
    case False
    then obtain h where h: "n = 2 * h" by (auto elim: evenE)
    with less.IH[of h] less.prems obtain j m where "h = 2 ^ j * m" "odd m" by auto
    with h have "n = 2 ^ Suc j * m \<and> odd m" by simp
    then show ?thesis by blast
  qed (auto intro: exI[of _ 0])
qed

lemma minus_one_mod: "y + 1 = n \<Longrightarrow> y mod n = (-1) mod (n::int)"
  by (metis add_diff_cancel_left' diff_add_eq_diff_diff_swap diff_minus_eq_add minus_add_cancel
      minus_mod_self2 add.commute uminus_add_conv_diff)

lemma order_power_of_two:
  assumes p: "nat_prime p" "p dvd n" "odd n"
    and e: "x ^ e mod int n = (-1) mod int n" "e = 2 ^ k"
  shows "2 ^ Suc k dvd p - 1"
proof (rule ccontr)
  assume no: "\<not> 2 ^ Suc k dvd p - 1"
  have x: "x ^ (2 ^ k) mod int n = (-1) mod int n" using e by simp
  have p1: "1 < p" using p(1) by (simp add: nat_prime_def)
  have po: "odd p" using p(2,3) dvd_trans by blast
  have x2: "int p dvd x ^ (2 ^ k) + 1"
    using mod_prime_factor[OF p(2) x] by simp
  have nx: "\<not> int p dvd x"
  proof
    assume "int p dvd x"
    then have "int p dvd x ^ (2 ^ k)" by (rule dvd_power_le[where n = 1, simplified]) simp
    with x2 have "int p dvd 1" by (metis dvd_add_right_iff)
    with p1 show False by simp
  qed
  obtain j m where jm: "p - 1 = 2 ^ j * m" "odd m"
    using odd_part[of "p - 1"] p1 by auto
  from no have "j \<le> k" unfolding jm(1) by (metis dvd_mult2 le_imp_power_dvd not_less_eq_eq)
  then have "p - 1 dvd 2 ^ k * m" unfolding jm(1) by (simp add: le_imp_power_dvd mult_dvd_mono)
  then have "int p dvd x ^ (2 ^ k * m) - 1" by (rule power_minus_1_dvd[OF fermat_int[OF p(1) nx]])
  moreover have "int p dvd x ^ (2 ^ k * m) + 1"
  proof -
    have "x ^ (2 ^ k) mod int p = (-1) mod int p" using x2 by (simp add: mod_eq_dvd_iff)
    then have "x ^ (2 ^ k * m) mod int p = (-1) ^ m mod int p" by (metis power_mod power_mult)
    with jm(2) show ?thesis by (simp add: mod_eq_dvd_iff)
  qed
  ultimately have "int p dvd (x ^ (2 ^ k * m) + 1) - (x ^ (2 ^ k * m) - 1)" by (rule dvd_diff[rotated])
  then have "int p dvd int 2" by simp
  then have "p dvd 2" by (simp only: int_dvd_int_iff)
  then have "p \<le> 2" by (simp add: dvd_imp_le)
  with p1 have "p = 2" by simp
  with po show False by simp
qed

lemma nat_prime_if_factors_large:
  assumes n: "1 < n" and large: "\<And>p. nat_prime p \<Longrightarrow> p dvd n \<Longrightarrow> n < p * p"
  shows "nat_prime n"
proof (rule ccontr)
  assume no: "\<not> nat_prime n"
  then obtain d where d: "d dvd n" "d \<noteq> 1" "d \<noteq> n" using n unfolding nat_prime_def by auto
  then obtain e where e: "n = d * e" by auto
  have de: "1 < d" "1 < e" using d n e by (auto simp: nat_neq_iff less_Suc_eq)
  obtain p where p: "nat_prime p" "p dvd d" using nat_prime_divisor[OF de(1)] by auto
  obtain q where q: "nat_prime q" "q dvd e" using nat_prime_divisor[OF de(2)] by auto
  have "p \<le> d" "q \<le> e" using p q de by (auto dest: dvd_imp_le)
  then have "p * q \<le> n" unfolding e by (rule mult_le_mono)
  moreover have "n < p * p" "n < q * q" using large p q e by (auto intro: dvd_mult dvd_mult2)
  moreover have "p * p \<le> p * q \<or> q * q \<le> p * q" by (cases "p \<le> q") auto
  ultimately show False by linarith
qed

lemma nat_prime_by_trial:
  assumes "1 < n" "n < k * k" "\<forall>d\<in>set [2..<k]. n mod d \<noteq> 0"
  shows "nat_prime n"
proof (rule nat_prime_if_factors_large[OF assms(1)])
  fix p assume p: "nat_prime p" "p dvd n"
  then have "\<not> (2 \<le> p \<and> p < k)" using assms(3) by (metis atLeastLessThan_iff dvd_imp_mod_0 set_upt)
  then have "k \<le> p" using p(1) by (auto simp: nat_prime_def)
  then have "k * k \<le> p * p" by (rule mult_le_mono) fact
  with assms(2) show "n < p * p" by simp
qed

lemma square_exceeds:
  assumes p: "nat_prime p" and d: "F dvd p - 1" and n: "n < F * F"
  shows "n < p * p"
proof -
  have "F \<le> p - 1" using p d by (intro dvd_imp_le) (auto simp: nat_prime_def)
  then have "F \<le> p" by simp
  then have "F * F \<le> p * p" by (rule mult_le_mono) fact
  with n show ?thesis by simp
qed

lemma coprime_two_power: "odd m \<Longrightarrow> coprime (2 ^ k) (m::nat)"
  by (simp add: coprime_power_left_iff)

section \<open>Certified powers\<close>

fun pow_chain :: "int \<Rightarrow> int \<Rightarrow> int \<Rightarrow> (bool \<times> int) list \<Rightarrow> int" where
  "pow_chain n a x [] = x"
| "pow_chain n a x ((False, q) # cs) = pow_chain n a (x * x - q * n) cs"
| "pow_chain n a x ((True, q) # cs) = pow_chain n a (x * x * a - q * n) cs"

fun chain_exp :: "nat \<Rightarrow> (bool \<times> int) list \<Rightarrow> nat" where
  "chain_exp e [] = e"
| "chain_exp e ((False, q) # cs) = chain_exp (e + e) cs"
| "chain_exp e ((True, q) # cs) = chain_exp (e + e + 1) cs"

lemmas pow_chain_eval = pow_chain.simps arith_simps
lemmas chain_exp_eval = chain_exp.simps arith_simps add_numeral_special

lemma pow_chain_mod:
  "x mod n = a ^ e mod n \<Longrightarrow> pow_chain n a x cs mod n = a ^ chain_exp e cs mod n"
proof (induction n a x cs arbitrary: e rule: pow_chain.induct)
  case (2 n a x q cs)
  have "(x * x - q * n) mod n = (x * x) mod n" by (simp add: mod_diff_eq[symmetric])
  also have "\<dots> = a ^ (e + e) mod n"
    using 2(2) unfolding power_add by (metis mod_mult_eq)
  finally show ?case using 2(1)[of "e + e"] by simp
next
  case (3 n a x q cs)
  have "(x * x * a - q * n) mod n = (x * x * a) mod n" by (simp add: mod_diff_eq[symmetric])
  also have "\<dots> = a ^ (e + e + 1) mod n"
    using 3(2) unfolding power_add power_one_right by (metis mod_mult_eq mod_mult_left_eq)
  finally show ?case using 3(1)[of "e + e + 1"] by simp
qed simp

lemma pow_chain_step:
  assumes "a ^ e mod n = x mod n" and "pow_chain n a x cs = y" and "chain_exp e cs = e'"
  shows "a ^ e' mod n = y mod n"
  using pow_chain_mod[of x n a e cs] assms by simp

lemma pow_chain_start: "a ^ 1 mod n = a mod (n::int)"
  by simp

section \<open>The primes below the modulus\<close>

lemma prime_853: "nat_prime 853"
  by (rule nat_prime_by_trial[of _ 30]) (simp_all add: upt_rec)

lemma prime_1637: "nat_prime 1637"
  by (rule nat_prime_by_trial[of _ 41]) (simp_all add: upt_rec)

lemma prime_983: "nat_prime 983"
  by (rule nat_prime_by_trial[of _ 32]) (simp_all add: upt_rec)

lemma q3_853_chain_1:
  "pow_chain 639533339 256057581
    256057581
    [(True, 26251234154655810),
     (False, 68304208),
     (True, 111172640029382790),
     (False, 566658317),
     (True, 1246011527796494),
     (False, 84579483),
     (True, 38018919612993705),
     (False, 128561894),
     (True, 54359876137728841)]
   = 1"
  by (simp only: pow_chain_eval)

lemma q3_853_pow:
  "(256057581::int) ^ 853
   mod 639533339 =
   1 mod 639533339"
  by (rule pow_chain_step[OF pow_chain_start q3_853_chain_1]) (simp only: chain_exp_eval)

lemma q3_853_unit:
  "(303978671::int) *
   (256057581 - 1) =
   121707561 *
   int 639533339 + 1"
  by (simp only: of_nat_numeral diff_numeral_special numeral_plus_one arith_simps rel_simps)

lemma q3_1637_chain_1:
  "pow_chain 639533339 248876995
    248876995
    [(True, 24104108513732596),
     (False, 103886036),
     (False, 314681730),
     (True, 82718831445793624),
     (True, 142512760780281521),
     (False, 469075630),
     (False, 51423588),
     (True, 45830503833922619),
     (False, 33815864),
     (True, 35313606304240566)]
   = 1"
  by (simp only: pow_chain_eval)

lemma q3_1637_pow:
  "(248876995::int) ^ 1637
   mod 639533339 =
   1 mod 639533339"
  by (rule pow_chain_step[OF pow_chain_start q3_1637_chain_1]) (simp only: chain_exp_eval)

lemma q3_1637_unit:
  "(296391531::int) *
   (248876995 - 1) =
   115341967 *
   int 639533339 + 1"
  by (simp only: of_nat_numeral diff_numeral_special numeral_plus_one arith_simps rel_simps)

lemma prime_q3: "nat_prime 639533339"
proof (rule nat_prime_if_factors_large)
  fix p :: nat assume p: "nat_prime p" "p dvd 639533339"
  have d853: "853 dvd p - 1"
    by (rule order_prime_factor[OF prime_853 p _ q3_853_unit])
      (simp only: of_nat_numeral q3_853_pow)
  have d1637: "1637 dvd p - 1"
    by (rule order_prime_factor[OF prime_1637 p _ q3_1637_unit])
      (simp only: of_nat_numeral q3_1637_pow)
  have "coprime 853 (1637::nat)"
    by (rule nat_prime_coprime[OF prime_853]) simp
  with d853 d1637 have F: "853 * 1637 dvd p - 1" by (rule divides_mult)
  show "639533339 < p * p"
    by (rule square_exceeds[OF p(1) F]) simp
qed simp

lemma q2_q3_chain_1:
  "pow_chain 65865678001877903 8595199928015311
    8595199928015311
    [(False, 1121638219535948),
     (False, 5612054531243013),
     (True, 423510183232298076066708681834053),
     (True, 45202959374349877660961621177297),
     (False, 29039037011862199),
     (False, 35635434184421551),
     (False, 63791688952762989),
     (False, 40002140595916967),
     (True, 490142921288394337846414271406219),
     (True, 446057554997906898972272095157838),
     (True, 82612513787164335000675626766215),
     (True, 244471495027615063934132657189104),
     (False, 4684008398454788),
     (True, 399319307562260678798468385898334),
     (False, 15757161600212),
     (False, 2286816488902135),
     (False, 55555497738486739),
     (False, 40057151456145759),
     (False, 18805961086870182),
     (False, 26498279738793255),
     (True, 193017574525211962194057670023672),
     (False, 17601064792557961),
     (False, 62465572167997396),
     (False, 778313152257439),
     (True, 142637744203100821101567003574651),
     (True, 270700714503731058371995098223914),
     (False, 55804294176725281),
     (True, 424256912718228810479975320665579),
     (True, 344093910544517473616235870615330)]
   = 1"
  by (simp only: pow_chain_eval)

lemma q2_q3_pow:
  "(8595199928015311::int) ^ 639533339
   mod 65865678001877903 =
   1 mod 65865678001877903"
  by (rule pow_chain_step[OF pow_chain_start q2_q3_chain_1]) (simp only: chain_exp_eval)

lemma q2_q3_unit:
  "(39033286818209505::int) *
   (8595199928015311 - 1) =
   5093683299525283 *
   int 65865678001877903 + 1"
  by (simp only: of_nat_numeral diff_numeral_special numeral_plus_one arith_simps rel_simps)

lemma prime_q2: "nat_prime 65865678001877903"
proof (rule nat_prime_if_factors_large)
  fix p :: nat assume p: "nat_prime p" "p dvd 65865678001877903"
  have F: "639533339 dvd p - 1"
    by (rule order_prime_factor[OF prime_q3 p _ q2_q3_unit])
      (simp only: of_nat_numeral q2_q3_pow)
  show "65865678001877903 < p * p"
    by (rule square_exceeds[OF p(1) F]) simp
qed simp

lemma q1_q2_chain_1:
  "pow_chain 13818364434197438864469338081 7935281130018080704632618576
    7935281130018080704632618576
    [(True, 36160157234019820593656434810912400073923117856596640388),
     (True, 20843270889732861504642252020179335800848481377405675075),
     (False, 12148439916717187945993007246),
     (True, 97545300189312131588803716683816824912735272897555113753),
     (False, 6282347664290678482172820614),
     (True, 6983042830610096821690238426374757642570061406534182653),
     (False, 5823353613936214452629922993),
     (False, 12318834183271586178204503029),
     (False, 218066780238875881708645688),
     (False, 375489476416926927519801274),
     (False, 7913059196821277262825356721),
     (False, 9707709772458610131767890683),
     (False, 1427181835548658164227207531),
     (False, 5068570390649222222447822820),
     (False, 6208243277799203197439006991),
     (False, 7846986668837679889618568807),
     (True, 76499064186232298931551398142410375436989102897297042427),
     (True, 9602329411420467013837213596607194569588137258964910571),
     (True, 8800667306140912692751007403220991781344172469321524),
     (True, 9169324035484884386315786489910343715427711914546378041)]
   = 7213163208392189156475395815"
  by (simp only: pow_chain_eval)

lemma q1_q2_pow_1:
  "(7935281130018080704632618576::int) ^ 1916943
   mod 13818364434197438864469338081 =
   7213163208392189156475395815 mod 13818364434197438864469338081"
  by (rule pow_chain_step[OF pow_chain_start q1_q2_chain_1]) (simp only: chain_exp_eval)

lemma q1_q2_chain_2:
  "pow_chain 13818364434197438864469338081 7935281130018080704632618576
    7213163208392189156475395815
    [(True, 29878390081893383536680654949741633182927953850389896181),
     (False, 776027583842131564554195909),
     (False, 4383902044145152776301274455),
     (False, 10660309049614580476033707195),
     (False, 41053714139785103145534241),
     (True, 51608779354032304601844427235438354507461239986294555401),
     (True, 61043374658555247524768685186814798224406808011672472493),
     (False, 712834170252007700279149200),
     (True, 89491701248344353636660922585606478587825200665978331935),
     (False, 376660300561203939319250238),
     (False, 5145553972584220841260386703),
     (False, 6241283026006494625360125555),
     (False, 3909398619257669835214187983),
     (True, 72563195183604974763557242973781612092903686333931172970),
     (True, 63258007625692293349038722439362663270062652653233660169),
     (False, 255347119878347713289285475),
     (False, 3766904424235236668690114342),
     (False, 5080565997746519261641650059),
     (True, 95618413550745840307716752928220339353119280733914553914),
     (False, 8162792658097975055380754810)]
   = 2552326705477704630885573290"
  by (simp only: pow_chain_eval)

lemma q1_q2_pow_2:
  "(7935281130018080704632618576::int) ^ 2010060974178
   mod 13818364434197438864469338081 =
   2552326705477704630885573290 mod 13818364434197438864469338081"
  by (rule pow_chain_step[OF q1_q2_pow_1 q1_q2_chain_2]) (simp only: chain_exp_eval)

lemma q1_q2_chain_3:
  "pow_chain 13818364434197438864469338081 7935281130018080704632618576
    2552326705477704630885573290
    [(False, 471428557447292700283853517),
     (True, 5061095872150748168633396977833222747944212071880761),
     (True, 19731478398026598964785085339503304957691047997579130911),
     (False, 2364435928482029727391501744),
     (False, 6280386855539157330383867780),
     (True, 27599597315488376749123508104598921971575946919681282583),
     (True, 5460940661845436937051013321219417080959782739717531005),
     (True, 5605098837909056663051674949084411895287930127706647470),
     (False, 676687891952362932159807334),
     (False, 1078013469197015318761326081),
     (False, 2823370130928126115010642214),
     (True, 33384886522644002102307075280757292915309801211280165261),
     (True, 18998614333635614113345463345054052558812856274856728064),
     (True, 48908744806797015680538685549567579040555357538794911464),
     (True, 29880169289190174974897177631906616417384215380690163679)]
   = 1"
  by (simp only: pow_chain_eval)

lemma q1_q2_pow:
  "(7935281130018080704632618576::int) ^ 65865678001877903
   mod 13818364434197438864469338081 =
   1 mod 13818364434197438864469338081"
  by (rule pow_chain_step[OF q1_q2_pow_2 q1_q2_chain_3]) (simp only: chain_exp_eval)

lemma q1_q2_unit:
  "(12281824895882260584345986666::int) *
   (7935281130018080704632618576 - 1) =
   7052913809197938965814028629 *
   int 13818364434197438864469338081 + 1"
  by (simp only: of_nat_numeral diff_numeral_special numeral_plus_one arith_simps rel_simps)

lemma prime_q1: "nat_prime 13818364434197438864469338081"
proof (rule nat_prime_if_factors_large)
  fix p :: nat assume p: "nat_prime p" "p dvd 13818364434197438864469338081"
  have F: "65865678001877903 dvd p - 1"
    by (rule order_prime_factor[OF prime_q2 p _ q1_q2_unit])
      (simp only: of_nat_numeral q1_q2_pow)
  show "13818364434197438864469338081 < p * p"
    by (rule square_exceeds[OF p(1) F]) simp
qed simp

section \<open>The modulus\<close>

lemma r_983_chain_1:
  "pow_chain 21888242871839275222246405745257275088548364400416034343698204186575808495617 11035934218492892419174280177436664354923999619470866602204493405253352194910
    11035934218492892419174280177436664354923999619470866602204493405253352194910
    [(True, 61406792104304782129010398698436759254896436364570808151217438217888713338074440315874127806178201746061786016318567297731547219919650279488126094870271),
     (True, 18378100989803436700975031008853116612027656383375325433631984797206268182397907732932249472633328237640745502212447916796052483957664042599099861148339),
     (True, 23305716138877065977654839499769259976841389765688605955548202984000088005264490658278661243831586729312831186871813221735669418914211557408859991220552),
     (False, 7175975200074302228321049301834347750448216259458760858623563879140840157410),
     (True, 128269959653218152384571934694392913016002740759627348433942069018075815263049366818573444071337746491598947439691975424669806129944223115441379254944052),
     (False, 5606192309616109612825716052318133329407971519202898557237067851248609828186),
     (True, 147976462581477535907724436955821508105373374154486790349898726407591392699101073958632176467751274319742287878630257266133486092101417313839888060878180),
     (True, 35772991551777199791977384438513745915133210473063585348027851304306127607185058527033976893579210992127702978932567159916393418527907176390828917803826),
     (True, 16047530816867311807469569990819172410800829920651348037683293202209437165681455800037658951124373121573621496712271397461793855096280853119523904491767)]
   = 1"
  by (simp only: pow_chain_eval)

lemma r_983_pow:
  "(11035934218492892419174280177436664354923999619470866602204493405253352194910::int) ^ 983
   mod 21888242871839275222246405745257275088548364400416034343698204186575808495617 =
   1 mod 21888242871839275222246405745257275088548364400416034343698204186575808495617"
  by (rule pow_chain_step[OF pow_chain_start r_983_chain_1]) (simp only: chain_exp_eval)

lemma r_983_unit:
  "(15457287042300990689727963408263541375490811290930566788915493826533213572427::int) *
   (11035934218492892419174280177436664354923999619470866602204493405253352194910 - 1) =
   7793480910917082668395990067144956989848871152389017418011046636148383659326 *
   int 21888242871839275222246405745257275088548364400416034343698204186575808495617 + 1"
  by (simp only: of_nat_numeral diff_numeral_special numeral_plus_one arith_simps rel_simps)

lemma r_2_chain_1:
  "pow_chain 21888242871839275222246405745257275088548364400416034343698204186575808495617 13359963657527328671725748940750870023541858091907008114697755617967075011946
    13359963657527328671725748940750870023541858091907008114697755617967075011946
    [(False, 8154543513407778063248307552320114558390203403892740063656345495023849352243),
     (False, 20136174028375125705592916937498272492836329550056002646924364789666545886391),
     (False, 11624374645292884234423107251318580485228397619872693195398166172351301596296),
     (False, 10189317917495249046783975404187705750249562423957101569560070747869297622090),
     (False, 8931758887163604706298574617241143209581686982711846434645969949971327437588),
     (False, 19554983485680129777800990613537873612097797907760188119296925421399944325757)]
   = 11028069772024767049506772794628918962834349371112576433558272677652141299331"
  by (simp only: pow_chain_eval)

lemma r_2_pow_1:
  "(13359963657527328671725748940750870023541858091907008114697755617967075011946::int) ^ 64
   mod 21888242871839275222246405745257275088548364400416034343698204186575808495617 =
   11028069772024767049506772794628918962834349371112576433558272677652141299331 mod 21888242871839275222246405745257275088548364400416034343698204186575808495617"
  by (rule pow_chain_step[OF pow_chain_start r_2_chain_1]) (simp only: chain_exp_eval)

lemma r_2_chain_2:
  "pow_chain 21888242871839275222246405745257275088548364400416034343698204186575808495617 13359963657527328671725748940750870023541858091907008114697755617967075011946
    11028069772024767049506772794628918962834349371112576433558272677652141299331
    [(False, 5556331022492294536009323649545117386545354017717022089317983274980567011698),
     (False, 14402187623656655689672787846535017156137690790539727675701534265810416685940),
     (False, 3644812149187161752620454759342855671557512067195971631055442448122021900950),
     (False, 5049640618247915921923523085627164146965731505595060834356856204829102402300),
     (False, 1650887097147098685758310180259602704523890908022929914934460431745626598311),
     (False, 2694473719916359052922240283451359553715652735372984674338557767878130202518)]
   = 7670379366010983133402169856373639927129047679093661506154062463579181853038"
  by (simp only: pow_chain_eval)

lemma r_2_pow_2:
  "(13359963657527328671725748940750870023541858091907008114697755617967075011946::int) ^ 4096
   mod 21888242871839275222246405745257275088548364400416034343698204186575808495617 =
   7670379366010983133402169856373639927129047679093661506154062463579181853038 mod 21888242871839275222246405745257275088548364400416034343698204186575808495617"
  by (rule pow_chain_step[OF r_2_pow_1 r_2_chain_2]) (simp only: chain_exp_eval)

lemma r_2_chain_3:
  "pow_chain 21888242871839275222246405745257275088548364400416034343698204186575808495617 13359963657527328671725748940750870023541858091907008114697755617967075011946
    7670379366010983133402169856373639927129047679093661506154062463579181853038
    [(False, 2687959922731940769595999861438783802324902146506329630428853197567059121176),
     (False, 13559252489538445641094377377488545445490385953122796880054681085161917574484),
     (False, 7138008400027621229034588174492058471885867816139592680614384930080144042243),
     (False, 12139689550484721060643697265053465178905957361039903979788191628228041192564),
     (False, 4074444087231118445706798840400166309239892619158028388790508993882039310495),
     (False, 20599281890418716742633665010727720532438092953312804816698278882835092151930)]
   = 8391596312305897393521658965798178749833034375372030130916961474113213995306"
  by (simp only: pow_chain_eval)

lemma r_2_pow_3:
  "(13359963657527328671725748940750870023541858091907008114697755617967075011946::int) ^ 262144
   mod 21888242871839275222246405745257275088548364400416034343698204186575808495617 =
   8391596312305897393521658965798178749833034375372030130916961474113213995306 mod 21888242871839275222246405745257275088548364400416034343698204186575808495617"
  by (rule pow_chain_step[OF r_2_pow_2 r_2_chain_3]) (simp only: chain_exp_eval)

lemma r_2_chain_4:
  "pow_chain 21888242871839275222246405745257275088548364400416034343698204186575808495617 13359963657527328671725748940750870023541858091907008114697755617967075011946
    8391596312305897393521658965798178749833034375372030130916961474113213995306
    [(False, 3217201539704434810385295777792196053239069827732271406793650904867965680234),
     (False, 1529308694498637946245191471516486870918756997368156954253915979317979876659),
     (False, 3264992751093325480901058976225596273340411194573676589281897173067890169456),
     (False, 11618299332219269527283023110398846972401829851300565876206653377040690843362),
     (False, 17559501213772045958153450445281930900499533910656088238999047450416090694045),
     (False, 799651223797041191101389715962893287285079692582907350840509634631037173298)]
   = 1307561275430600547084599052067232502310777467428991595475612152992795732190"
  by (simp only: pow_chain_eval)

lemma r_2_pow_4:
  "(13359963657527328671725748940750870023541858091907008114697755617967075011946::int) ^ 16777216
   mod 21888242871839275222246405745257275088548364400416034343698204186575808495617 =
   1307561275430600547084599052067232502310777467428991595475612152992795732190 mod 21888242871839275222246405745257275088548364400416034343698204186575808495617"
  by (rule pow_chain_step[OF r_2_pow_3 r_2_chain_4]) (simp only: chain_exp_eval)

lemma r_2_chain_5:
  "pow_chain 21888242871839275222246405745257275088548364400416034343698204186575808495617 13359963657527328671725748940750870023541858091907008114697755617967075011946
    1307561275430600547084599052067232502310777467428991595475612152992795732190
    [(False, 78111180464164452461621163925715576489463309715302220889710582851971106281),
     (False, 3389630158966243273738286254298054225048004719447671563359983495712931811342),
     (False, 887680541290735914004590184822820464377)]
   = 21888242871839275222246405745257275088548364400416034343698204186575808495616"
  by (simp only: pow_chain_eval)

lemma r_2_pow:
  "(13359963657527328671725748940750870023541858091907008114697755617967075011946::int) ^ 134217728
   mod 21888242871839275222246405745257275088548364400416034343698204186575808495617 =
   21888242871839275222246405745257275088548364400416034343698204186575808495616 mod 21888242871839275222246405745257275088548364400416034343698204186575808495617"
  by (rule pow_chain_step[OF r_2_pow_4 r_2_chain_5]) (simp only: chain_exp_eval)

lemma r_q1_chain_1:
  "pow_chain 21888242871839275222246405745257275088548364400416034343698204186575808495617 2936873827532081758312868737137173115400710695399759299475855200137263491176
    2936873827532081758312868737137173115400710695399759299475855200137263491176
    [(False, 394057573709577518839316320857561489335091765671479586960112000329950991215),
     (True, 34104547156225848166943233961798789196775800663369793524884050771290757700932303441188694305336381542728343147142552983470808776304083329899973460871005),
     (True, 19322514217091200737410554213130446207689316307331146195121481945112215720207520697514142884232058178960022916716162280409996627281681622664603372379783),
     (False, 17650739016903113508792369808987397959981410457546379831058134560601451113111),
     (False, 36647360459439104896677554858439314451666598233233604521389261420442521007),
     (True, 52707863930032667630745841282322907452897959877222778497829705582653863042164112637870290146257239452340170948163400198261111999461205415436600350383640)]
   = 4583113382918160025347373206837317878160659630242339354801258788989966479120"
  by (simp only: pow_chain_eval)

lemma r_q1_pow_1:
  "(2936873827532081758312868737137173115400710695399759299475855200137263491176::int) ^ 89
   mod 21888242871839275222246405745257275088548364400416034343698204186575808495617 =
   4583113382918160025347373206837317878160659630242339354801258788989966479120 mod 21888242871839275222246405745257275088548364400416034343698204186575808495617"
  by (rule pow_chain_step[OF pow_chain_start r_q1_chain_1]) (simp only: chain_exp_eval)

lemma r_q1_chain_2:
  "pow_chain 21888242871839275222246405745257275088548364400416034343698204186575808495617 2936873827532081758312868737137173115400710695399759299475855200137263491176
    4583113382918160025347373206837317878160659630242339354801258788989966479120
    [(False, 959644335256706281001269142449275335340621540748240082510496538802034920007),
     (True, 14374875917409855097430169998376232060645820833428737361354402193467767853283355358823584801031934525549205435379301758918223811924790459731725334472880),
     (False, 4493908480371188880632194902111478961596919506807429163891021937102003879803),
     (False, 4718853041102637769336617955574797450331693776737901902356763373870662310849),
     (True, 1815262662575231923028986649422303013790770087946261130925913011793143443448696670414817840170136566435178626915010753517172221164534819185152311652845),
     (True, 33096684555622064025244161052438303971376936667501808888977193225303546025201381259528784881815470781875267551000515464863187503381803241891871435478945)]
   = 21076297341651663172451641263522099504590636230013462718983558077857865179911"
  by (simp only: pow_chain_eval)

lemma r_q1_pow_2:
  "(2936873827532081758312868737137173115400710695399759299475855200137263491176::int) ^ 5715
   mod 21888242871839275222246405745257275088548364400416034343698204186575808495617 =
   21076297341651663172451641263522099504590636230013462718983558077857865179911 mod 21888242871839275222246405745257275088548364400416034343698204186575808495617"
  by (rule pow_chain_step[OF r_q1_pow_1 r_q1_chain_2]) (simp only: chain_exp_eval)

lemma r_q1_chain_3:
  "pow_chain 21888242871839275222246405745257275088548364400416034343698204186575808495617 2936873827532081758312868737137173115400710695399759299475855200137263491176
    21076297341651663172451641263522099504590636230013462718983558077857865179911
    [(False, 20294470973968402711165001019322887241238472795654021181981965175305241332811),
     (False, 14968859230009456899456463268583863838496757366095033711468047231606829369769),
     (True, 37248529544890015759641161920065060378003464149971856944243002779201169186195620513277246265106894216488786888556609489026226317644185814160851558073665),
     (False, 20474516975344424117910900129772527416104742830156159612527759052193170853333),
     (False, 3546029114173084961465849877815457197313429844618503505039765768292675590269),
     (True, 54944267561748861962741772939234444146867977545945428789391882652833959048411431306901840869465404905859955078992417767683001892293481904864127176036886)]
   = 20897593852811577299822562702458088670874573127795970589233799876845331972242"
  by (simp only: pow_chain_eval)

lemma r_q1_pow_3:
  "(2936873827532081758312868737137173115400710695399759299475855200137263491176::int) ^ 365769
   mod 21888242871839275222246405745257275088548364400416034343698204186575808495617 =
   20897593852811577299822562702458088670874573127795970589233799876845331972242 mod 21888242871839275222246405745257275088548364400416034343698204186575808495617"
  by (rule pow_chain_step[OF r_q1_pow_2 r_q1_chain_3]) (simp only: chain_exp_eval)

lemma r_q1_chain_4:
  "pow_chain 21888242871839275222246405745257275088548364400416034343698204186575808495617 2936873827532081758312868737137173115400710695399759299475855200137263491176
    20897593852811577299822562702458088670874573127795970589233799876845331972242
    [(False, 19951781026649920711750810239920510152690247916817839971061574114274330407160),
     (False, 16158632138152051279388083903742497091919686743565138151073441087174710831582),
     (False, 20443287304316286289367726479354139066076977108863605545941475391929818295),
     (False, 10681743852103873942495180669339013528772448766616591398346477601592049945231),
     (True, 51511889054564406049731412686690573935301620653291841296447388794028400885584309168576162972204237810759741448561263928576695232761068301760811686905854),
     (True, 32969540493613216192564457249263397881147305964438625783030338422975927939688355673929460635377076788801804650491151096215991563685556869150710896121299)]
   = 8775810375734786023955228252450457413173468424531621390750457823180126072781"
  by (simp only: pow_chain_eval)

lemma r_q1_pow_4:
  "(2936873827532081758312868737137173115400710695399759299475855200137263491176::int) ^ 23409219
   mod 21888242871839275222246405745257275088548364400416034343698204186575808495617 =
   8775810375734786023955228252450457413173468424531621390750457823180126072781 mod 21888242871839275222246405745257275088548364400416034343698204186575808495617"
  by (rule pow_chain_step[OF r_q1_pow_3 r_q1_chain_4]) (simp only: chain_exp_eval)

lemma r_q1_chain_5:
  "pow_chain 21888242871839275222246405745257275088548364400416034343698204186575808495617 2936873827532081758312868737137173115400710695399759299475855200137263491176
    8775810375734786023955228252450457413173468424531621390750457823180126072781
    [(True, 10333533487142171461150480498947401201709265426835877742374027577761750122722743300156485547329646233064715547545164216627661695224813377631744999057126),
     (True, 5993491199263961467603907044904548384235758232515440090625776457670544463276146410730065744912061264771862124124621492483843710536666621712020107372007),
     (True, 25282087575126357058660459766170977699505444402070532701777517631654107387983027729724804655898786024359127255214811392899284527818685388282564025868684),
     (False, 15416665287857002510224270182223223875598732039432361973830953851453891863991),
     (False, 7789772427615308408957411129093671006181377061340019057506496219641199204591),
     (True, 6011925785715228344309256058470556974889948905173192489721385015280459284792670873202934664555405713262853789090579104039875612600800188458449928616704)]
   = 456621392318422572012807060197110478993413007786706722644483537740604876448"
  by (simp only: pow_chain_eval)

lemma r_q1_pow_5:
  "(2936873827532081758312868737137173115400710695399759299475855200137263491176::int) ^ 1498190073
   mod 21888242871839275222246405745257275088548364400416034343698204186575808495617 =
   456621392318422572012807060197110478993413007786706722644483537740604876448 mod 21888242871839275222246405745257275088548364400416034343698204186575808495617"
  by (rule pow_chain_step[OF r_q1_pow_4 r_q1_chain_5]) (simp only: chain_exp_eval)

lemma r_q1_chain_6:
  "pow_chain 21888242871839275222246405745257275088548364400416034343698204186575808495617 2936873827532081758312868737137173115400710695399759299475855200137263491176
    456621392318422572012807060197110478993413007786706722644483537740604876448
    [(True, 27976082363511809803153103421993112349358576107525839429988878102898044983323863820726448374665659789532570867709214317817834284173597807164599435985),
     (True, 31242682839993776801389907735395716791367775801654448207153752565811095016913219556236786014424807409180904280936640611469737067182001264967955406204167),
     (True, 52064794402079527733309931156937901965859652797528208362317889701654322515273298255792273710329641599510377648530874501028110123490051733503173024432013),
     (True, 44166632294706574041780920177672081803013930645141921061622971155988367577969036837476382238543000896267811326694236927674948752404222163610708131623363),
     (True, 7230556160777136983693936188732118822845994089223168899793427975312101484065036466490995147806644132380598285171155346262248320573801567819145266562280),
     (False, 13229733477056356230869913609656455968511204385657075924349999816461778732508)]
   = 18257766178772917209584487899646333544666953827951375045006464361852056226340"
  by (simp only: pow_chain_eval)

lemma r_q1_pow_6:
  "(2936873827532081758312868737137173115400710695399759299475855200137263491176::int) ^ 95884164734
   mod 21888242871839275222246405745257275088548364400416034343698204186575808495617 =
   18257766178772917209584487899646333544666953827951375045006464361852056226340 mod 21888242871839275222246405745257275088548364400416034343698204186575808495617"
  by (rule pow_chain_step[OF r_q1_pow_5 r_q1_chain_6]) (simp only: chain_exp_eval)

lemma r_q1_chain_7:
  "pow_chain 21888242871839275222246405745257275088548364400416034343698204186575808495617 2936873827532081758312868737137173115400710695399759299475855200137263491176
    18257766178772917209584487899646333544666953827951375045006464361852056226340
    [(False, 15229455730666106707266095920153596421276189192877727967392160440310819076573),
     (True, 2005452786737544290405728484704044639540901222332419560275156163586235715636475865682066867525077652362678492883303599997691152690793313647332476437750),
     (True, 56575304358289302470966211132192278697930969190408562013514096789630395621967605701917129774098094496772614220613919156247624764780582168182609140686918),
     (False, 5020482154897625469684236926170033309531239463131885416350696645781697497219),
     (True, 1940877605709979998816730607182047547179259091630019202834663751823229096815853625414618845141124493594262988163167449492975787791060819582436167289746),
     (False, 6436458212419524688784598343752653493643264717597894446378874059455797654052)]
   = 1482469173819980482574750438901208963649033866005651728650000775925311326400"
  by (simp only: pow_chain_eval)

lemma r_q1_pow_7:
  "(2936873827532081758312868737137173115400710695399759299475855200137263491176::int) ^ 6136586543002
   mod 21888242871839275222246405745257275088548364400416034343698204186575808495617 =
   1482469173819980482574750438901208963649033866005651728650000775925311326400 mod 21888242871839275222246405745257275088548364400416034343698204186575808495617"
  by (rule pow_chain_step[OF r_q1_pow_6 r_q1_chain_7]) (simp only: chain_exp_eval)

lemma r_q1_chain_8:
  "pow_chain 21888242871839275222246405745257275088548364400416034343698204186575808495617 2936873827532081758312868737137173115400710695399759299475855200137263491176
    1482469173819980482574750438901208963649033866005651728650000775925311326400
    [(True, 294880281849548888341588474861686693763239980391316056557915009260846468086978646642183320344394483456842675968656654324757295193128916923554904812631),
     (True, 14627000989356847911447429649507314766125603372042511155055794353918865840785855419393233372987461551883101165108704901507507454587281214770930404276436),
     (True, 3496602625435529912139122617016503979805778412728314760244330965556120289634866038553851948246024577644204686371807907349652239889321698114818288618021),
     (True, 16021457870787641580949899223672549454578744232693567974517609611630558140105032220792525631798236406119186919628975118656375079730510486350333223502364),
     (False, 5745282097596997053940333923749563717624710478101876713406930220507165451593),
     (False, 14189408028247444715663944679636583626109290783700938768506834418171612129997)]
   = 6906753829091572750705215764665423011746470092452837451065261057977042191076"
  by (simp only: pow_chain_eval)

lemma r_q1_pow_8:
  "(2936873827532081758312868737137173115400710695399759299475855200137263491176::int) ^ 392741538752188
   mod 21888242871839275222246405745257275088548364400416034343698204186575808495617 =
   6906753829091572750705215764665423011746470092452837451065261057977042191076 mod 21888242871839275222246405745257275088548364400416034343698204186575808495617"
  by (rule pow_chain_step[OF r_q1_pow_7 r_q1_chain_8]) (simp only: chain_exp_eval)

lemma r_q1_chain_9:
  "pow_chain 21888242871839275222246405745257275088548364400416034343698204186575808495617 2936873827532081758312868737137173115400710695399759299475855200137263491176
    6906753829091572750705215764665423011746470092452837451065261057977042191076
    [(True, 6400624421888468747032005662364624064516241142366815703814053075277430604915534535019386675557128760219108579280336638756166821762519939539444814706983),
     (False, 2172490478320969222066684290444709735409543257739333755891454247665106840626),
     (True, 59205856929705393015264169187675991892311356018532012961277138803936109392895514863220371473900134169588109937352199723228819575771797983912095747930207),
     (False, 8534736512861106548501261672871401211576784881848557635491721172509104414763),
     (True, 2795431490709197976486452925341690962649974203888209799304712641947773331309442890551919550069014371536657128874879784758483070949060364747466115385173),
     (True, 14788756203529847989799064624679161124511047661604477873532070141143069756020334876638907718124734492167186327267357277278184698598887619113287651446734)]
   = 9517450014444354224161520275378561592894042635526645200529496197851005900122"
  by (simp only: pow_chain_eval)

lemma r_q1_pow_9:
  "(2936873827532081758312868737137173115400710695399759299475855200137263491176::int) ^ 25135458480140075
   mod 21888242871839275222246405745257275088548364400416034343698204186575808495617 =
   9517450014444354224161520275378561592894042635526645200529496197851005900122 mod 21888242871839275222246405745257275088548364400416034343698204186575808495617"
  by (rule pow_chain_step[OF r_q1_pow_8 r_q1_chain_9]) (simp only: chain_exp_eval)

lemma r_q1_chain_10:
  "pow_chain 21888242871839275222246405745257275088548364400416034343698204186575808495617 2936873827532081758312868737137173115400710695399759299475855200137263491176
    9517450014444354224161520275378561592894042635526645200529496197851005900122
    [(True, 12153898332673294125120784287648781599098706458780999162082759716454381500058024158733364600262113982447120703449357849841234626993405204821782158458295),
     (True, 21415552630327309075677512304703190864172584223902268058628801242980362192966275782266824939097214671254530626289306697187285401426018270811169403447937),
     (False, 13039295531891698123031330989489162449438195204711470129063577614383326680062),
     (True, 179757347202209498871260153075334865222953393626885447805870599954223093267489914260452882892996341514665507168679506873721146368121669587041611776532),
     (False, 7738951861671914579359836269817788127592832644001579875388998735947691175937),
     (False, 13977106184289508616182064455691351675625491831648071907999753676863493125472)]
   = 11999357728446921078110418169411572501490107230242167749630773729999945322625"
  by (simp only: pow_chain_eval)

lemma r_q1_pow_10:
  "(2936873827532081758312868737137173115400710695399759299475855200137263491176::int) ^ 1608669342728964852
   mod 21888242871839275222246405745257275088548364400416034343698204186575808495617 =
   11999357728446921078110418169411572501490107230242167749630773729999945322625 mod 21888242871839275222246405745257275088548364400416034343698204186575808495617"
  by (rule pow_chain_step[OF r_q1_pow_9 r_q1_chain_10]) (simp only: chain_exp_eval)

lemma r_q1_chain_11:
  "pow_chain 21888242871839275222246405745257275088548364400416034343698204186575808495617 2936873827532081758312868737137173115400710695399759299475855200137263491176
    11999357728446921078110418169411572501490107230242167749630773729999945322625
    [(False, 6578170149988827696357932498122197000751244543160256978783262593466741858849),
     (False, 4135737846733211141406384814748977720883915764543088347220969380668580832922),
     (True, 46126609231223822135446486837117573156624343439063992302556539400748153904465545295355429054448587140153192661678221706763118233336320388323963666029129),
     (True, 49219525354862102352505282374903890530869100592184967483479528924862958972520703437128975047543930754313522823635928406976807184534840696792961096740214),
     (True, 63786240094697230620440155574612724561882185174714040283608735592485180651769079718110212534199324162008230595928239029764974640837500787916402615535822),
     (False, 3242843792440759003434185466561824476730734614779928505167289484933253650895)]
   = 18143780973267148284277716979177363793172966135599642830725943126254251633269"
  by (simp only: pow_chain_eval)

lemma r_q1_pow_11:
  "(2936873827532081758312868737137173115400710695399759299475855200137263491176::int) ^ 102954837934653750542
   mod 21888242871839275222246405745257275088548364400416034343698204186575808495617 =
   18143780973267148284277716979177363793172966135599642830725943126254251633269 mod 21888242871839275222246405745257275088548364400416034343698204186575808495617"
  by (rule pow_chain_step[OF r_q1_pow_10 r_q1_chain_11]) (simp only: chain_exp_eval)

lemma r_q1_chain_12:
  "pow_chain 21888242871839275222246405745257275088548364400416034343698204186575808495617 2936873827532081758312868737137173115400710695399759299475855200137263491176
    18143780973267148284277716979177363793172966135599642830725943126254251633269
    [(False, 15039891047144091182832757219711642724263395381071128507220334890232177705613),
     (True, 2352760909045090920396028714961203687804655988207210280938914803259892147941283409552989851022802620665225868606221576375972908657837258157604533261988),
     (False, 591128935856666457774696257315569353343751920092586666402555797001138542919),
     (True, 22734028086493151674052533228819796832775882669158696711287688246504399766202574394699812627641949626028495563664340785884717271865519590197813904503205),
     (False, 11847859449924830536979808841745178999192292070542273480390349802023589933929),
     (False, 4367818458712680032693959233852190854280760711988011208238930900586363013041)]
   = 16769928443269532495603756635385389180562783015615965935376917497895707819087"
  by (simp only: pow_chain_eval)

lemma r_q1_pow_12:
  "(2936873827532081758312868737137173115400710695399759299475855200137263491176::int) ^ 6589109627817840034708
   mod 21888242871839275222246405745257275088548364400416034343698204186575808495617 =
   16769928443269532495603756635385389180562783015615965935376917497895707819087 mod 21888242871839275222246405745257275088548364400416034343698204186575808495617"
  by (rule pow_chain_step[OF r_q1_pow_11 r_q1_chain_12]) (simp only: chain_exp_eval)

lemma r_q1_chain_13:
  "pow_chain 21888242871839275222246405745257275088548364400416034343698204186575808495617 2936873827532081758312868737137173115400710695399759299475855200137263491176
    16769928443269532495603756635385389180562783015615965935376917497895707819087
    [(True, 37734344404319912489869832955755994138091303272665410512376249274610673790444485867882404247758269081453370020517822001470012289738904343534023465302368),
     (False, 10219268492031956402686458917449226041764242749542853318366501894050006089096),
     (True, 874513101150199199927406464897072840983860214999961402505421858901792649829749452141290098579256975255175570751175082403379884714618498974382734216042),
     (False, 7855365468387674650731202796803008834349629374746805025747643632654103344133),
     (True, 17176235263207565016568441601728545554722913784356365956128019241793810528245311292902641724949140624525181668917542000640870929481308016308510236247682),
     (False, 15830923999052651395062617050867040461416092483272540875750130541997534964623)]
   = 5027405444137097620095479494323570052143706585447548161730588034780990465813"
  by (simp only: pow_chain_eval)

lemma r_q1_pow_13:
  "(2936873827532081758312868737137173115400710695399759299475855200137263491176::int) ^ 421703016180341762221354
   mod 21888242871839275222246405745257275088548364400416034343698204186575808495617 =
   5027405444137097620095479494323570052143706585447548161730588034780990465813 mod 21888242871839275222246405745257275088548364400416034343698204186575808495617"
  by (rule pow_chain_step[OF r_q1_pow_12 r_q1_chain_13]) (simp only: chain_exp_eval)

lemma r_q1_chain_14:
  "pow_chain 21888242871839275222246405745257275088548364400416034343698204186575808495617 2936873827532081758312868737137173115400710695399759299475855200137263491176
    5027405444137097620095479494323570052143706585447548161730588034780990465813
    [(False, 1154720625485067945255404303614614368374304275009528716961932325773193970152),
     (True, 19524195799926920147665274604581792935453185648799071378217380384885844141916719253425656157541569830520939179976462654243062009952265070705854883375870),
     (False, 20210939188287779735880604005829386812659585707446170611469344901458855590),
     (False, 13295855978858910448588526055813179041296614479627457724216551256917653097493),
     (True, 10450453570682136889951327174007285919648141968793443732527286331219016868746918029394471286700236109493274203902718999900587660261567417291849778635361),
     (True, 12450041763066432684538538990767967903489664838009030392620747646756096003442458793031991769049011067373135976276062216258053054189023579320868978830487)]
   = 10771012791596214119027486892638272038242394914140087584769449727098791042897"
  by (simp only: pow_chain_eval)

lemma r_q1_pow_14:
  "(2936873827532081758312868737137173115400710695399759299475855200137263491176::int) ^ 26988993035541872782166675
   mod 21888242871839275222246405745257275088548364400416034343698204186575808495617 =
   10771012791596214119027486892638272038242394914140087584769449727098791042897 mod 21888242871839275222246405745257275088548364400416034343698204186575808495617"
  by (rule pow_chain_step[OF r_q1_pow_13 r_q1_chain_14]) (simp only: chain_exp_eval)

lemma r_q1_chain_15:
  "pow_chain 21888242871839275222246405745257275088548364400416034343698204186575808495617 2936873827532081758312868737137173115400710695399759299475855200137263491176
    10771012791596214119027486892638272038242394914140087584769449727098791042897
    [(True, 15566374453125767048905719632144882567661056946463884597566892456856210832336535978672169909785461382566525711193227569459743369423438635454250101984678),
     (True, 16233611718286915027407931773165393990153597219198091321577300682323385491219367798780231047275296295528524310036696025464799224618871959956494149523133),
     (True, 2745699850877687050152098587481087735021414521486607806243986548654822601319235175397438431420806219633462974557423400881382356293372722598186368235964),
     (True, 907027356782428758816503687513593470499130009581711701165114087909032223794237941913858098923729819179099422412016039334133596619154779537037114554998),
     (False, 7844792111066260006475026488080523897002872851254054907119912474709521326574),
     (False, 18115702536335554605582754310482787946165113348944078382153205740712511567264)]
   = 17665560754790695087930016610111140806920128156347358096008555546856289659076"
  by (simp only: pow_chain_eval)

lemma r_q1_pow_15:
  "(2936873827532081758312868737137173115400710695399759299475855200137263491176::int) ^ 1727295554274679858058667260
   mod 21888242871839275222246405745257275088548364400416034343698204186575808495617 =
   17665560754790695087930016610111140806920128156347358096008555546856289659076 mod 21888242871839275222246405745257275088548364400416034343698204186575808495617"
  by (rule pow_chain_step[OF r_q1_pow_14 r_q1_chain_15]) (simp only: chain_exp_eval)

lemma r_q1_chain_16:
  "pow_chain 21888242871839275222246405745257275088548364400416034343698204186575808495617 2936873827532081758312868737137173115400710695399759299475855200137263491176
    17665560754790695087930016610111140806920128156347358096008555546856289659076
    [(False, 14257518915906368114569597731041592294075587157835321525137688396083644365847),
     (False, 1718387672933137524040886801623300873161877431014082335196614473204709260516),
     (True, 27396845198040958520349715951117145934275818169926766842823535124049455632466084968674842504491005135872412713566295937969174631893745696428995468542119)]
   = 1"
  by (simp only: pow_chain_eval)

lemma r_q1_pow:
  "(2936873827532081758312868737137173115400710695399759299475855200137263491176::int) ^ 13818364434197438864469338081
   mod 21888242871839275222246405745257275088548364400416034343698204186575808495617 =
   1 mod 21888242871839275222246405745257275088548364400416034343698204186575808495617"
  by (rule pow_chain_step[OF r_q1_pow_15 r_q1_chain_16]) (simp only: chain_exp_eval)

lemma r_q1_unit:
  "(9451901030951183510499339070202633623501164693989368058060044312066331466581::int) *
   (2936873827532081758312868737137173115400710695399759299475855200137263491176 - 1) =
   1268216956507639110551863265009112747378253711211546849804546522573217302322 *
   int 21888242871839275222246405745257275088548364400416034343698204186575808495617 + 1"
  by (simp only: of_nat_numeral diff_numeral_special numeral_plus_one arith_simps rel_simps)

lemma r_2_pow_neg:
  "(13359963657527328671725748940750870023541858091907008114697755617967075011946::int) ^ 134217728
   mod 21888242871839275222246405745257275088548364400416034343698204186575808495617 =
   - 1 mod 21888242871839275222246405745257275088548364400416034343698204186575808495617"
  by (rule trans[OF r_2_pow minus_one_mod]) simp

lemma prime_r:
  "nat_prime 21888242871839275222246405745257275088548364400416034343698204186575808495617"
proof (rule nat_prime_if_factors_large)
  fix p :: nat assume p: "nat_prime p" "p dvd 21888242871839275222246405745257275088548364400416034343698204186575808495617"
  have d983: "983 dvd p - 1"
    by (rule order_prime_factor[OF prime_983 p _ r_983_unit])
      (simp only: of_nat_numeral r_983_pow)
  have dq1: "13818364434197438864469338081 dvd p - 1"
    by (rule order_prime_factor[OF prime_q1 p _ r_q1_unit])
      (simp only: of_nat_numeral r_q1_pow)
  have d2: "2 ^ Suc 27 dvd p - 1"
    by (rule order_power_of_two[OF p, where e = 134217728 and x = 13359963657527328671725748940750870023541858091907008114697755617967075011946])
      (simp, simp only: of_nat_numeral r_2_pow_neg, simp)
  have c1: "coprime 983 (13818364434197438864469338081::nat)"
    by (rule nat_prime_coprime[OF prime_983]) simp
  have d1: "983 * 13818364434197438864469338081 dvd p - 1"
    by (rule divides_mult[OF d983 dq1 c1])
  have c2: "coprime (2 ^ Suc 27) (983 * 13818364434197438864469338081::nat)"
    by (rule coprime_two_power) simp
  have F: "2 ^ Suc 27 * (983 * 13818364434197438864469338081) dvd p - 1"
    by (rule divides_mult[OF d2 d1 c2])
  show "21888242871839275222246405745257275088548364400416034343698204186575808495617 < p * p"
    by (rule square_exceeds[OF p(1) F]) simp
qed simp

end
