(* ===== verification/Bn254_Fr.thy ===== *)
theory Bn254_Fr
  imports Prime_Field Bn254_Prime
begin

text \<open>
  The scalar field of BN254: the type \<^verbatim>\<open>Fr = Fp256<MontBackend<FrConfig, 4>>\<close> of
  vendor/algebra/curves/bn254/src/fields/fr.rs.  An element is modelled by the integer in
  \<open>0 ..< r\<close> it denotes (the Montgomery form of the limbs is not modelled); \<open>into_bigint\<close> gives
  its four limbs.  That \<open>fr\<close> is a field rests on the primality of the modulus, and the
  interpretation \<open>bn254\<close> provides the laws of \<open>prime_field_impl\<close>.
\<close>

definition fr_modulus :: nat where
  "fr_modulus = 21888242871839275222246405745257275088548364400416034343698204186575808495617"

lemma fr_modulus_nat_prime: "nat_prime fr_modulus"
  unfolding fr_modulus_def by (rule prime_r)

lemma fr_modulus_gt_1: "1 < int fr_modulus"
  by (simp add: fr_modulus_def)

typedef fr = "{0 ..< int fr_modulus}"
  morphisms fr_int Abs_fr
  using fr_modulus_gt_1 by (intro exI[of _ 0]) simp

setup_lifting type_definition_fr

lift_definition fr_of_int :: "int \<Rightarrow> fr" is "\<lambda>i. i mod int fr_modulus"
  using fr_modulus_gt_1 by simp

lemma fr_int_of_int [simp]: "fr_int (fr_of_int i) = i mod int fr_modulus"
  by (rule fr_of_int.rep_eq)

lemma fr_int_bounds: "0 \<le> fr_int x" "fr_int x < int fr_modulus"
  using fr_int[of x] by simp_all

lemma fr_int_mod [simp]: "fr_int x mod int fr_modulus = fr_int x"
  using fr_int_bounds[of x] by simp

lemma fr_eqI: "fr_int x = fr_int y \<Longrightarrow> x = y"
  by (simp add: fr_int_inject)

instantiation fr :: comm_ring_1
begin

definition zero_fr :: fr where "0 = fr_of_int 0"
definition one_fr :: fr where "1 = fr_of_int 1"
definition plus_fr :: "fr \<Rightarrow> fr \<Rightarrow> fr" where "x + y = fr_of_int (fr_int x + fr_int y)"
definition minus_fr :: "fr \<Rightarrow> fr \<Rightarrow> fr" where "x - y = fr_of_int (fr_int x - fr_int y)"
definition uminus_fr :: "fr \<Rightarrow> fr" where "- x = fr_of_int (- fr_int x)"
definition times_fr :: "fr \<Rightarrow> fr \<Rightarrow> fr" where "x * y = fr_of_int (fr_int x * fr_int y)"

instance
proof
  fix a b c :: fr
  show "a * b * c = a * (b * c)"
    by (rule fr_eqI) (simp add: times_fr_def mod_mult_left_eq mod_mult_right_eq mult.assoc)
  show "a * b = b * a" by (simp add: times_fr_def mult.commute)
  show "1 * a = a" using fr_modulus_gt_1 by (intro fr_eqI) (simp add: times_fr_def one_fr_def)
  show "a + b + c = a + (b + c)"
    by (rule fr_eqI) (simp add: plus_fr_def mod_add_left_eq mod_add_right_eq add.assoc)
  show "a + b = b + a" by (simp add: plus_fr_def add.commute)
  show "0 + a = a" by (rule fr_eqI) (simp add: plus_fr_def zero_fr_def)
  show "- a + a = 0" by (rule fr_eqI) (simp add: plus_fr_def uminus_fr_def zero_fr_def mod_add_left_eq)
  show "a - b = a + - b"
    by (rule fr_eqI) (simp add: plus_fr_def minus_fr_def uminus_fr_def mod_add_right_eq)
  show "(a + b) * c = a * c + b * c"
    by (rule fr_eqI)
      (simp add: plus_fr_def times_fr_def mod_mult_left_eq mod_add_left_eq mod_add_right_eq
        distrib_right)
  show "(0::fr) \<noteq> 1"
  proof
    assume "(0::fr) = 1"
    then have "fr_int 0 = fr_int 1" by simp
    then show False using fr_modulus_gt_1 by (simp add: zero_fr_def one_fr_def)
  qed
qed

end

lemma fr_int_simps:
  "fr_int 0 = 0" "fr_int 1 = 1"
  "fr_int (x + y) = (fr_int x + fr_int y) mod int fr_modulus"
  "fr_int (x - y) = (fr_int x - fr_int y) mod int fr_modulus"
  "fr_int (x * y) = (fr_int x * fr_int y) mod int fr_modulus"
  "fr_int (- x) = (- fr_int x) mod int fr_modulus"
  using fr_modulus_gt_1
  by (simp_all add: zero_fr_def one_fr_def plus_fr_def minus_fr_def times_fr_def uminus_fr_def)

lemma fr_int_of_nat: "fr_int (of_nat n) = int n mod int fr_modulus"
  by (induction n) (simp_all add: fr_int_simps mod_add_right_eq)

lemma fr_int_numeral: "fr_int (numeral k) = numeral k mod int fr_modulus"
  using fr_int_of_nat[of "numeral k"] by simp

lemma fr_numeral_eq_iff:
  "(numeral j :: fr) = numeral k \<longleftrightarrow> numeral j mod int fr_modulus = numeral k mod int fr_modulus"
  by (metis fr_int_numeral fr_eqI)

lemma fr_int_of_int_ring: "fr_int (of_int i) = i mod int fr_modulus"
  by (cases i rule: int_diff_cases)
    (simp add: fr_int_simps fr_int_of_nat mod_diff_eq)

lemma fr_of_int_eq_iff:
  "(of_int a :: fr) = of_int b \<longleftrightarrow> a mod int fr_modulus = b mod int fr_modulus"
  by (metis fr_eqI fr_int_of_int_ring)

text \<open>The inverse is computed by the extended Euclidean algorithm.\<close>

instantiation fr :: field
begin

definition inverse_fr :: "fr \<Rightarrow> fr" where
  "inverse x = fr_of_int (fst (bezw (nat (fr_int x)) fr_modulus))"
definition divide_fr :: "fr \<Rightarrow> fr \<Rightarrow> fr" where "x div y = x * inverse y" for x y :: fr

instance
proof
  fix a b :: fr
  assume "a \<noteq> 0"
  then have "fr_int a \<noteq> 0" using fr_eqI[of a 0] by (auto simp: fr_int_simps)
  then have "0 < nat (fr_int a)" "nat (fr_int a) < fr_modulus" using fr_int_bounds[of a] by auto
  then have "\<not> fr_modulus dvd nat (fr_int a)" by (auto dest: dvd_imp_le)
  then have "coprime fr_modulus (nat (fr_int a))" by (rule nat_prime_coprime[OF fr_modulus_nat_prime])
  then have "gcd (nat (fr_int a)) fr_modulus = 1" by (simp add: gcd.commute coprime_iff_gcd_eq_1)
  then have "fst (bezw (nat (fr_int a)) fr_modulus) * int (nat (fr_int a))
      + snd (bezw (nat (fr_int a)) fr_modulus) * int fr_modulus = 1"
    using bezw_aux[of "nat (fr_int a)" fr_modulus] by simp
  then have "(fst (bezw (nat (fr_int a)) fr_modulus) * fr_int a) mod int fr_modulus = 1 mod int fr_modulus"
    using fr_int_bounds[of a] by (metis int_nat_eq mod_mult_self1 mult.commute)
  then show "inverse a * a = 1"
    using fr_modulus_gt_1 by (intro fr_eqI) (simp add: inverse_fr_def fr_int_simps mod_mult_left_eq)
next
  show "inverse (0::fr) = 0"
    using fr_modulus_gt_1
    by (intro fr_eqI) (simp add: inverse_fr_def fr_int_simps bezw.simps[of 0] bezw_0)
qed (simp_all add: divide_fr_def)

end

section \<open>Limbs\<close>

primrec limbs_of :: "nat \<Rightarrow> nat \<Rightarrow> limbs" where
  "limbs_of 0 v = []"
| "limbs_of (Suc n) v = of_nat v # limbs_of n (v div 2 ^ 64)"

lemma length_limbs_of [simp]: "length (limbs_of n v) = n"
  by (induction n arbitrary: v) simp_all

lemma limbs_value_limbs_of: "limbs_value (limbs_of n v) = v mod 2 ^ (64 * n)"
proof (induction n arbitrary: v)
  case (Suc n)
  have "v mod 2 ^ (64 * Suc n) = v mod (2 ^ 64 * 2 ^ (64 * n))" by (simp add: power_add)
  also have "\<dots> = v mod 2 ^ 64 + 2 ^ 64 * (v div 2 ^ 64 mod 2 ^ (64 * n))"
    by (simp add: mod_mult2_eq)
  finally show ?case using Suc.IH by (simp add: unat_of_nat)
qed simp

definition fr_field :: "fr prime_field" where
  "fr_field = \<lparr>MODULUS = limbs_of 4 fr_modulus, into_bigint = (\<lambda>x. limbs_of 4 (nat (fr_int x)))\<rparr>"

lemma fr_modulus_256: "fr_modulus < 2 ^ 256"
  by (simp add: fr_modulus_def)

lemma fr_field_simps [simp]:
  "limbs_value (MODULUS fr_field) = fr_modulus"
  "limbs_value (into_bigint fr_field x) = nat (fr_int x)"
  "length (MODULUS fr_field) = 4"
  "length (into_bigint fr_field x) = 4"
  using fr_modulus_256 fr_int_bounds[of x]
  by (simp_all add: fr_field_def limbs_value_limbs_of)

interpretation bn254: prime_field_impl fr_field
proof
  show "4 < limbs_value (MODULUS fr_field)" "odd (limbs_value (MODULUS fr_field))"
    by (simp_all add: fr_modulus_def)
  fix x :: fr and n :: nat
  show "length (into_bigint fr_field x) = length (MODULUS fr_field)" by simp
  show "limbs_value (into_bigint fr_field x) < limbs_value (MODULUS fr_field)"
    using fr_int_bounds[of x] by simp
  show "of_nat (limbs_value (into_bigint fr_field x)) = x"
    using fr_int_bounds[of x] by (intro fr_eqI) (simp add: fr_int_of_int_ring)
  have "of_nat n = (0::fr) \<longleftrightarrow> fr_int (of_nat n) = 0"
    by (metis fr_eqI fr_int_simps(1))
  also have "\<dots> \<longleftrightarrow> fr_modulus dvd n"
    by (metis fr_int_of_nat dvd_eq_mod_eq_0 int_dvd_int_iff of_nat_0 of_nat_mod)
  finally show "of_nat n = (0::fr) \<longleftrightarrow> limbs_value (MODULUS fr_field) dvd n" by simp
qed

text \<open>
  C40. The modulus written in \<^verbatim>\<open>FrConfig\<close> is a prime number of 254 bits, so the type \<^verbatim>\<open>Fr\<close> is a
  field, and values of 96 bits, and sums and differences of them, are far from wrapping round it.
\<close>

theorem fr_modulus_prime:
  "nat_prime (limbs_value (MODULUS fr_field)) \<and> modulus_bit_size fr_field = 254
   \<and> 2 ^ 98 < limbs_value (MODULUS fr_field)"
proof (intro conjI)
  show "nat_prime (limbs_value (MODULUS fr_field))" by (simp add: fr_modulus_nat_prime)
  show "modulus_bit_size fr_field = 254"
  proof -
    let ?k = "modulus_bit_size fr_field"
    have lt: "fr_modulus < 2 ^ ?k" and ge: "2 ^ (?k - 1) \<le> fr_modulus"
      using bn254.modulus_less bn254.modulus_ge by simp_all
    have "(2::nat) ^ 253 < 2 ^ ?k" by (rule le_less_trans[OF _ lt]) (simp add: fr_modulus_def)
    then have "253 < ?k" by (simp only: power_strict_increasing_iff)
    moreover have "(2::nat) ^ (?k - 1) < 2 ^ 254" by (rule le_less_trans[OF ge]) (simp add: fr_modulus_def)
    then have "?k - 1 < 254" by (simp only: power_strict_increasing_iff)
    ultimately show ?thesis by linarith
  qed
  show "2 ^ 98 < limbs_value (MODULUS fr_field)" by (simp add: fr_modulus_def)
qed

end
