(* ===== verification/Fr_Gadgets.thy ===== *)
theory Fr_Gadgets
  imports Bn254_Fr Bits_Gadget Field_Bytes
begin

text \<open>
  The properties of the gadgets at the field the program uses, the scalar field of BN254.
\<close>

lemma fr_limbs_value [simp]: "limbs_value (limbs_of 4 fr_modulus) = fr_modulus"
  using fr_field_simps(1) by (simp add: fr_field_def)

lemma int_repr_fr [simp]: "int_repr fr_field x = nat (fr_int x)"
  by (simp add: int_repr_def)

text \<open>A variable to run a gadget on: the first witness of a new system.\<close>

lemma fr_witness:
  obtains a cs where "fp_new_variable (Inr v) Witness_Mode cs_new = Inr (a, cs)" "honest cs"
    "fp_is cs a (v :: fr)"
  using completeE[OF complete_fp_new_variable honest_new] by blast

text \<open>
  Whatever an assignment that satisfies the constraints does, the bits \<^verbatim>\<open>to_bits_le\<close> returns
  are as many as the modulus has, each is 0 or 1, and they are the binary digits of the integer
  below the modulus that the variable denotes: the decomposition is unique, not only correct
  modulo the prime.
\<close>

theorem to_bits_le_sound:
  "sound (fp_to_bits_le fr_field x)
     (\<lambda>w bs. length bs = modulus_bit_size fr_field \<and> list_all (\<lambda>b. is_bit (bool_val w b)) bs
        \<and> bits_value (map (bit_val w) bs) = nat (fr_int (fp_val w x)))"
  using prime_field_impl.sound_fp_to_bits_le[OF bn254.prime_field_impl_axioms, of x]
  by (simp add: list_all_iff)

text \<open>
  \<^verbatim>\<open>is_eq\<close> of two field variables is, in every satisfying assignment, the bit that says
  whether their values are equal; in particular it is a bit although it was allocated without a
  booleanity check.
\<close>

theorem is_eq_sound:
  "sound (fp_is_eq (a :: fr fpvar) b) (\<lambda>w r. bool_val w r = of_bool (fp_val w a = fp_val w b))"
  by (rule sound_fp_is_eq)

end
