(* ===== verification/Poseidon_Hash.thy ===== *)
theory Poseidon_Hash
  imports Poseidon_Gadget Hash_Interface Fr_Gadgets
begin

text \<open>
  The hashes of the ledger (crates/ledger-circuit/src/poseidon.rs): \<^verbatim>\<open>PoseidonNative\<close> and
  \<^verbatim>\<open>PoseidonGadget\<close>.  The canonical parameters come from the package \<^verbatim>\<open>folding_schemes\<close>, which is
  not part of the sources, so they are an argument; every agreement of the two sides is proved
  for all parameters.
\<close>

section \<open>The native hashes\<close>

record 'f poseidon_native =
  config :: "'f poseidon_config"

definition poseidon_native_new :: "'f poseidon_config \<Rightarrow> 'f poseidon_native" where
  "poseidon_native_new canonical_config = \<lparr>config = canonical_config\<rparr>"

text \<open>\<^verbatim>\<open>result.expect(..)\<close>: an error becomes a panic.\<close>

definition expect :: "fault + 'a \<Rightarrow> fault + 'a" where
  "expect r = (case r of Inl (Err e) \<Rightarrow> Inl Panic | _ \<Rightarrow> r)"

lemma expect_Inr_iff [simp]: "expect r = Inr x \<longleftrightarrow> r = Inr x"
  by (auto simp: expect_def split: sum.splits fault.splits)

definition native_h4 :: "'f::field prime_field \<Rightarrow> 'f poseidon_native \<Rightarrow> 'f \<Rightarrow> 'f \<Rightarrow> 'f \<Rightarrow> 'f \<Rightarrow> fault + 'f" where
  "native_h4 pf self a b c d = expect (crh_evaluate pf (config self) [a, b, c, d])"

definition native_h2 :: "'f::field prime_field \<Rightarrow> 'f poseidon_native \<Rightarrow> 'f \<Rightarrow> 'f \<Rightarrow> fault + 'f" where
  "native_h2 pf self a b = expect (crh_evaluate pf (config self) [a, b])"

definition native_hn :: "'f::field prime_field \<Rightarrow> 'f poseidon_native \<Rightarrow> 'f list \<Rightarrow> fault + 'f" where
  "native_hn pf self input = expect (crh_evaluate pf (config self) input)"

section \<open>The gadget\<close>

text \<open>\<^verbatim>\<open>CRHParametersVar::new_constant\<close> keeps the parameters and adds nothing to the system.\<close>

record 'f poseidon_gadget =
  params :: "'f poseidon_config"

definition poseidon_gadget_new :: "'f poseidon_config \<Rightarrow> ('f::field cs, 'f poseidon_gadget) comp" where
  "poseidon_gadget_new cfg = ret \<lparr>params = cfg\<rparr>"

definition gadget_h4 ::
  "'f prime_field \<Rightarrow> 'f poseidon_gadget \<Rightarrow> 'f fpvar \<Rightarrow> 'f fpvar \<Rightarrow> 'f fpvar \<Rightarrow> 'f fpvar
   \<Rightarrow> ('f::field cs, 'f fpvar) comp" where
  "gadget_h4 pf self a b c d = var_crh_evaluate pf (params self) [a, b, c, d]"

definition gadget_h2 ::
  "'f prime_field \<Rightarrow> 'f poseidon_gadget \<Rightarrow> 'f fpvar \<Rightarrow> 'f fpvar \<Rightarrow> ('f::field cs, 'f fpvar) comp" where
  "gadget_h2 pf self a b = var_crh_evaluate pf (params self) [a, b]"

definition gadget_hn ::
  "'f prime_field \<Rightarrow> 'f poseidon_gadget \<Rightarrow> 'f fpvar list \<Rightarrow> ('f::field cs, 'f fpvar) comp" where
  "gadget_hn pf self input = var_crh_evaluate pf (params self) input"

section \<open>Agreement\<close>

text \<open>The hash of the ledger satisfies the interface, whatever its parameters are.\<close>

interpretation ledger_hash: crh "native_hn fr_field \<lparr>config = cfg\<rparr>" "gadget_hn fr_field \<lparr>params = cfg\<rparr>"
  for cfg :: "fr poseidon_config"
proof
  fix xs :: "fr fpvar list"
  show "sound (gadget_hn fr_field \<lparr>params = cfg\<rparr> xs)
      (\<lambda>w r. native_hn fr_field \<lparr>config = cfg\<rparr> (map (fp_val w) xs) = Inr (fp_val w r))"
    unfolding gadget_hn_def native_hn_def expect_Inr_iff poseidon_gadget.simps poseidon_native.simps
    by (rule prime_field_impl.sound_var_crh_evaluate[OF bn254.prime_field_impl_axioms])
next
  fix xs :: "fr fpvar list" and vs h cs
  assume "list_all2 (fp_is cs) xs vs" "native_hn fr_field \<lparr>config = cfg\<rparr> vs = Inr h"
  then show "complete cs (gadget_hn fr_field \<lparr>params = cfg\<rparr> xs) (\<lambda>r cs'. fp_is cs' r h)"
    using prime_field_impl.complete_var_crh_evaluate[OF bn254.prime_field_impl_axioms, of cs xs vs cfg h]
    by (simp add: gadget_hn_def native_hn_def)
qed

text \<open>The fixed arities are instances of the variable one.\<close>

lemma native_arity:
  "native_h2 pf p a b = native_hn pf p [a, b]"
  "native_h4 pf p a b c d = native_hn pf p [a, b, c, d]"
  by (simp_all add: native_h2_def native_h4_def native_hn_def)

lemma gadget_arity:
  "gadget_h2 pf g a b = gadget_hn pf g [a, b]"
  "gadget_h4 pf g a b c d = gadget_hn pf g [a, b, c, d]"
  by (simp_all add: gadget_h2_def gadget_h4_def gadget_hn_def)

lemma native_hn_spec:
  "config_wf cfg \<Longrightarrow> native_hn fr_field \<lparr>config = cfg\<rparr> xs = Inr (crh_spec cfg xs)"
  by (simp add: native_hn_def prime_field_impl.crh_evaluate_eq[OF bn254.prime_field_impl_axioms])

section \<open>Properties of the hash\<close>

text \<open>Small parameters of the right shape, to run the definitions on.\<close>

definition toy_config :: "fr poseidon_config" where
  "toy_config = \<lparr>full_rounds = 2, partial_rounds = 1, alpha = 5, ark = replicate 3 [1, 2, 3, 4, 5],
     mds = [[2, 1, 1, 1, 1], [1, 2, 1, 1, 1], [1, 1, 2, 1, 1], [1, 1, 1, 2, 1], [1, 1, 1, 1, 2]],
     rate = 4, capacity = 1\<rparr>"

text \<open>Without a round the permutation is the identity, and the hash returns its first input.\<close>

definition roundless_config :: "fr poseidon_config" where
  "roundless_config = \<lparr>full_rounds = 0, partial_rounds = 0, alpha = 5, ark = [],
     mds = replicate 5 (replicate 5 0), rate = 4, capacity = 1\<rparr>"

lemma toy_config_wf [simp]: "config_wf toy_config" "config_wf roundless_config"
  by (simp_all add: config_wf_def toy_config_def roundless_config_def)

lemma small_configs [simp]:
  "rate toy_config = 4" "capacity toy_config = 1"
  "rate roundless_config = 4" "capacity roundless_config = 1"
  "full_rounds roundless_config = 0" "partial_rounds roundless_config = 0"
  by (simp_all add: toy_config_def roundless_config_def)

lemma roundless_hash:
  "length xs \<le> 3 \<Longrightarrow> native_hn fr_field \<lparr>config = roundless_config\<rparr> (x # xs) = Inr x"
  by (simp add: native_hn_spec crh_spec_def permutation_def absorb_spec.simps[of roundless_config]
      add_block_def)

text \<open>
  C38. For parameters of the shape \<^verbatim>\<open>PoseidonConfig::new\<close> asserts, the native hash never panics
  on any number of inputs and is the sponge over the permutation of the specification.
\<close>

theorem hash_refines_sponge:
  assumes "config_wf cfg" "4 \<le> rate cfg"
  shows "native_hn fr_field \<lparr>config = cfg\<rparr> xs = Inr (crh_spec cfg xs)
    \<and> native_h4 fr_field \<lparr>config = cfg\<rparr> a b c d
        = Inr (permutation cfg (add_block cfg [a, b, c, d] (replicate (rate cfg + capacity cfg) 0)) ! capacity cfg)"
  using native_hn_spec[OF assms(1)] assms(2)
  by (auto simp: native_arity crh_spec_def absorb_spec.simps[of cfg "[a, b, c, d]"])

theorem hash_refines_sponge_witness:
  "native_h4 fr_field \<lparr>config = toy_config\<rparr> 1 2 3 4
     = Inr (permutation toy_config (add_block toy_config [1, 2, 3, 4] (replicate 5 0)) ! 1)"
  using hash_refines_sponge[of toy_config "[]" 1 2 3 4] by simp

text \<open>
  C37. The hash gadget agrees with the native hash bit for bit, for the fixed arities and the
  variable one: in every satisfying assignment the native hash of the values of the inputs is the
  value of the output.
\<close>

theorem hash_gadget_sound:
  "sound (gadget_h4 fr_field \<lparr>params = cfg\<rparr> a b c d) (\<lambda>w r. native_h4 fr_field \<lparr>config = cfg\<rparr>
     (fp_val w a) (fp_val w b) (fp_val w c) (fp_val w d) = Inr (fp_val w r))
   \<and> sound (gadget_h2 fr_field \<lparr>params = cfg\<rparr> a b) (\<lambda>w r. native_h2 fr_field \<lparr>config = cfg\<rparr>
     (fp_val w a) (fp_val w b) = Inr (fp_val w r))
   \<and> sound (gadget_hn fr_field \<lparr>params = cfg\<rparr> xs) (\<lambda>w r. native_hn fr_field \<lparr>config = cfg\<rparr>
     (map (fp_val w) xs) = Inr (fp_val w r))"
  using ledger_hash.gadget_sound[of cfg "[a, b, c, d]"] ledger_hash.gadget_sound[of cfg "[a, b]"]
    ledger_hash.gadget_sound[of cfg xs]
  by (simp add: gadget_arity native_arity)

text \<open>
  The honest prover can always run the hash gadget: on inputs whose values are known, whenever
  the native hash returns, the gadget returns, every constraint it adds is satisfied, and the
  output carries the native hash.
\<close>

theorem hash_gadget_complete:
  assumes "list_all2 (fp_is cs) xs vs" "native_hn fr_field \<lparr>config = cfg\<rparr> vs = Inr h"
  shows "complete cs (gadget_hn fr_field \<lparr>params = cfg\<rparr> xs) (\<lambda>r cs'. fp_is cs' r h)"
  using assms by (rule ledger_hash.gadget_complete)

theorem hash_gadget_complete_witness:
  "\<exists>a cs r cs'. fp_new_variable (Inr 7) Witness_Mode cs_new = Inr (a, cs)
     \<and> gadget_hn fr_field \<lparr>params = toy_config\<rparr> [a, FpConstant 3] cs = Inr (r, cs') \<and> honest cs'
     \<and> fp_is cs' r (crh_spec toy_config [7, 3])"
proof -
  obtain a and cs :: "fr cs" where a: "fp_new_variable (Inr 7) Witness_Mode cs_new = Inr (a, cs)" "honest cs"
    "fp_is cs a 7"
    by (rule fr_witness)
  have "complete cs (gadget_hn fr_field \<lparr>params = toy_config\<rparr> [a, FpConstant 3])
      (\<lambda>r cs'. fp_is cs' r (crh_spec toy_config [7, 3]))"
    by (rule hash_gadget_complete[where vs = "[7, 3]"]) (use a(3) in \<open>simp_all add: native_hn_spec\<close>)
  from completeE[OF this a(2)] show ?thesis using a(1) by metis
qed

end
