(* ===== verification/Merkle_Tree.thy ===== *)
theory Merkle_Tree
  imports Poseidon_Hash
begin

text \<open>
  The incremental Merkle tree (crates/ledger-circuit/src/imt.rs): the sparse native tree with its
  map of non-default nodes, and the gadget that recomputes a root.  An index is a 64-bit word.
  The flag \<open>oc\<close> says whether the build checks overflow (a debug build panics where a release build
  wraps).  The invariant \<open>tree_wf\<close> is that every node is the hash of its two children; it gives
  the round trip between the paths the tree hands out and its root.
\<close>

section \<open>Shifts\<close>

text \<open>A shift of a \<^verbatim>\<open>u64\<close> by a \<^verbatim>\<open>usize\<close>: an amount of 64 or more panics or is masked.\<close>

definition shift_amount :: "bool \<Rightarrow> nat \<Rightarrow> fault + nat" where
  "shift_amount oc n = (if n < 64 then Inr n else if oc then Inl Panic else Inr (n mod 64))"

lemma shift_amount_less [simp]: "n < 64 \<Longrightarrow> shift_amount oc n = Inr n"
  by (simp add: shift_amount_def)

section \<open>The native tree\<close>

record 'f merkle_tree =
  depth :: nat
  poseidon :: "'f poseidon_native"
  zeros :: "'f list"
  nodes :: "nat \<times> 64 word \<rightharpoonup> 'f"

definition merkle_new :: "'f::field prime_field \<Rightarrow> 'f poseidon_config \<Rightarrow> nat \<Rightarrow> fault + 'f merkle_tree" where
  "merkle_new pf canonical_config d =
    (let p = poseidon_native_new canonical_config in
     result_bind (result_fold (\<lambda>l zs. result_bind (index zs l) (\<lambda>z.
        result_bind (native_h2 pf p z z) (\<lambda>h. Inr (zs @ [h])))) [0..<d] [0]) (\<lambda>zs.
     Inr \<lparr>depth = d, poseidon = p, zeros = zs, nodes = Map.empty\<rparr>))"

text \<open>The default \<^verbatim>\<open>&self.zeros[level]\<close> is evaluated, and bounds-checked, even if it is not used.\<close>

definition node :: "'f merkle_tree \<Rightarrow> nat \<Rightarrow> 64 word \<Rightarrow> fault + 'f" where
  "node t level i = result_bind (index (zeros t) level) (\<lambda>z.
     Inr (case nodes t (level, i) of None \<Rightarrow> z | Some v \<Rightarrow> v))"

definition root :: "'f merkle_tree \<Rightarrow> fault + 'f" where
  "root t = node t (depth t) 0"

definition leaf :: "'f merkle_tree \<Rightarrow> 64 word \<Rightarrow> fault + 'f" where
  "leaf t i = node t 0 i"

definition index_bits :: "bool \<Rightarrow> 'f merkle_tree \<Rightarrow> 64 word \<Rightarrow> fault + bool list" where
  "index_bits oc t i = result_map (\<lambda>k. result_bind (shift_amount oc k) (\<lambda>n.
     Inr (drop_bit n i AND 1 = 1))) [0..<depth t]"

definition siblings :: "'f merkle_tree \<Rightarrow> 64 word \<Rightarrow> fault + 'f list" where
  "siblings t i = result_bind (result_fold (\<lambda>level (sibs, idx).
      let sib_index = idx XOR 1 in
      result_bind (node t level sib_index) (\<lambda>s. Inr (sibs @ [s], drop_bit 1 idx)))
      [0..<depth t] ([], i)) (\<lambda>(sibs, idx). Inr sibs)"

definition set_leaf_step ::
  "'f::field prime_field \<Rightarrow> nat \<Rightarrow> 'f merkle_tree \<times> 64 word \<Rightarrow> fault + 'f merkle_tree \<times> 64 word" where
  "set_leaf_step pf level = (\<lambda>(t, idx).
     result_bind (if idx AND 1 = 0
        then result_bind (node t level idx) (\<lambda>l. result_bind (node t level (idx XOR 1)) (\<lambda>r. Inr (l, r)))
        else result_bind (node t level (idx XOR 1)) (\<lambda>l. result_bind (node t level idx) (\<lambda>r. Inr (l, r))))
     (\<lambda>(left, right).
     result_bind (native_h2 pf (poseidon t) left right) (\<lambda>parent.
     let parent_index = drop_bit 1 idx in
     Inr (t\<lparr>nodes := (nodes t)((level + 1, parent_index) \<mapsto> parent)\<rparr>, parent_index))))"

definition set_leaf :: "'f::field prime_field \<Rightarrow> 64 word \<Rightarrow> 'f \<Rightarrow> 'f merkle_tree \<Rightarrow> fault + 'f merkle_tree" where
  "set_leaf pf i leaf_hash t =
    result_bind (result_fold (set_leaf_step pf) [0..<depth t]
      (t\<lparr>nodes := (nodes t)((0, i) \<mapsto> leaf_hash)\<rparr>, i)) (\<lambda>(t, idx). Inr t)"

definition root_from_leaf ::
  "'f::field prime_field \<Rightarrow> 'f merkle_tree \<Rightarrow> 'f \<Rightarrow> 'f list \<Rightarrow> bool list \<Rightarrow> fault + 'f" where
  "root_from_leaf pf t lf sibs bits = path_root (native_h2 pf (poseidon t)) (zip sibs bits) lf"

section \<open>The gadget\<close>

definition merkle_root_from_leaf ::
  "'f prime_field \<Rightarrow> 'f poseidon_gadget \<Rightarrow> 'f fpvar \<Rightarrow> 'f fpvar list \<Rightarrow> boolean list
   \<Rightarrow> ('f::field cs, 'f fpvar) comp" where
  "merkle_root_from_leaf pf g lf sibs bits = path_gadget (gadget_h2 pf g) (zip sibs bits) lf"

section \<open>The invariant\<close>

text \<open>The value of a node, when its level exists.\<close>

definition node_val :: "'f merkle_tree \<Rightarrow> nat \<Rightarrow> 64 word \<Rightarrow> 'f" where
  "node_val t level i = (case nodes t (level, i) of None \<Rightarrow> zeros t ! level | Some v \<Rightarrow> v)"

definition left_of :: "64 word \<Rightarrow> 64 word" where "left_of i = (if i AND 1 = 0 then i else i XOR 1)"
definition right_of :: "64 word \<Rightarrow> 64 word" where "right_of i = (if i AND 1 = 0 then i XOR 1 else i)"

definition node_ok :: "'f::field prime_field \<Rightarrow> 'f merkle_tree \<Rightarrow> nat \<Rightarrow> 64 word \<Rightarrow> bool" where
  "node_ok pf t level i \<longleftrightarrow> native_h2 pf (poseidon t) (node_val t level (left_of i)) (node_val t level (right_of i))
     = Inr (node_val t (level + 1) (drop_bit 1 i))"

definition tree_wf :: "'f::field prime_field \<Rightarrow> 'f merkle_tree \<Rightarrow> bool" where
  "tree_wf pf t \<longleftrightarrow> length (zeros t) = depth t + 1
     \<and> (\<forall>level<depth t. \<forall>i. node_ok pf t level i)"

lemma node_eq: "level < length (zeros t) \<Longrightarrow> node t level i = Inr (node_val t level i)"
  by (simp add: node_def node_val_def)

lemma and_one_bit: "(i::64 word) AND 1 = 0 \<longleftrightarrow> \<not> bit i 0" "(i::64 word) AND 1 = 1 \<longleftrightarrow> bit i 0"
  by (simp_all add: and_one_eq bit_0 even_iff_mod_2_eq_zero odd_iff_mod_2_eq_one)

lemma xor_one_drop [simp]: "drop_bit (Suc 0) ((i::64 word) XOR 1) = drop_bit (Suc 0) i"
  by (rule bit_eqI) (auto simp: bit_simps)

lemma xor_one_twice [simp]: "((i::64 word) XOR 1) XOR 1 = i"
  by (simp add: xor.assoc)

lemma xor_one_bit [simp]: "bit ((i::64 word) XOR 1) 0 \<longleftrightarrow> \<not> bit i 0"
  by (simp add: bit_simps)

lemma xor_one_neq [simp]: "(i::64 word) XOR 1 \<noteq> i" "i \<noteq> i XOR 1"
  using xor_one_bit[of i] by metis+

lemma children_cases:
  "bit (i::64 word) 0 \<Longrightarrow> left_of i = i XOR 1" "bit i 0 \<Longrightarrow> right_of i = i"
  "\<not> bit i 0 \<Longrightarrow> left_of i = i" "\<not> bit i 0 \<Longrightarrow> right_of i = i XOR 1"
  by (simp_all add: left_of_def right_of_def and_one_bit)

text \<open>Two indices have the same parent exactly when they are equal or siblings.\<close>

lemma same_parent:
  "drop_bit 1 (i::64 word) = drop_bit 1 j \<longleftrightarrow> j = i \<or> j = i XOR 1"
proof
  assume eq: "drop_bit 1 i = drop_bit 1 j"
  have above: "bit j (Suc n) = bit i (Suc n)" for n
    using eq by (metis bit_drop_bit_eq comp_apply plus_1_eq_Suc)
  show "j = i \<or> j = i XOR 1"
  proof (cases "bit j 0 = bit i 0")
    case True
    then have "j = i" using above by (intro bit_word_eqI) (metis not0_implies_Suc)
    then show ?thesis ..
  next
    case False
    have "j = i XOR 1"
    proof (rule bit_word_eqI)
      fix n
      show "bit j n = bit (i XOR 1) n" using False above by (cases n) (auto simp: bit_simps)
    qed
    then show ?thesis ..
  qed
qed (auto simp del: One_nat_def simp add: One_nat_def[symmetric])

lemma children_parent:
  "drop_bit 1 (i::64 word) = drop_bit 1 j \<Longrightarrow> left_of j = left_of i \<and> right_of j = right_of i"
  unfolding same_parent by (cases "bit i 0") (auto simp: children_cases)

section \<open>A new tree\<close>

lemma merkle_new_wf:
  assumes new: "merkle_new pf cfg d = Inr t"
  shows "tree_wf pf t" "depth t = d" "nodes t = Map.empty" "poseidon t = \<lparr>config = cfg\<rparr>"
    "node_val t 0 i = 0"
proof -
  let ?p = "\<lparr>config = cfg\<rparr> :: 'a poseidon_native"
  let ?f = "\<lambda>l zs. result_bind (index zs l) (\<lambda>z. result_bind (native_h2 pf ?p z z) (\<lambda>h. Inr (zs @ [h])))"
  define I where "I l zs \<longleftrightarrow> length zs = l + 1 \<and> zs ! 0 = 0
    \<and> (\<forall>k<l. native_h2 pf ?p (zs ! k) (zs ! k) = Inr (zs ! (k + 1)))" for l and zs :: "'a list"
  obtain zs where zs: "result_fold ?f [0..<d] [0] = Inr zs"
      and t: "t = \<lparr>depth = d, poseidon = ?p, zeros = zs, nodes = Map.empty\<rparr>"
    using new by (auto simp: merkle_new_def Let_def poseidon_native_new_def result_bind_Inr_iff)
  have "I d zs"
  proof (rule result_fold_upt_partial[OF _ _ zs])
    fix k xs ys
    assume "I k xs" "?f k xs = Inr ys"
    then show "I (Suc k) ys"
      by (auto simp: I_def result_bind_Inr_iff less_Suc_eq nth_append)
  qed (simp_all add: I_def)
  then show "tree_wf pf t" "depth t = d" "nodes t = Map.empty" "poseidon t = ?p" "node_val t 0 i = 0"
    by (auto simp: t I_def tree_wf_def node_ok_def node_val_def)
qed

lemma native_h2_total:
  "config_wf (config p) \<Longrightarrow> \<exists>h. native_h2 fr_field p a b = Inr h"
  by (cases p) (simp add: native_arity native_hn_spec)

lemma merkle_new_total:
  assumes "config_wf cfg"
  shows "\<exists>t. merkle_new fr_field cfg d = Inr t"
proof -
  let ?p = "\<lparr>config = cfg\<rparr> :: fr poseidon_native"
  have "\<exists>zs. result_fold (\<lambda>l zs. result_bind (index zs l) (\<lambda>z. result_bind (native_h2 fr_field ?p z z)
      (\<lambda>h. Inr (zs @ [h])))) [0..<d] [0] = Inr zs \<and> length zs = d + 1"
  proof (rule result_fold_upt)
    fix k and zs :: "fr list"
    assume "length zs = k + 1"
    moreover obtain h where "native_h2 fr_field ?p (zs ! k) (zs ! k) = Inr h"
      using native_h2_total[of ?p] assms by auto
    ultimately show "\<exists>y. result_bind (index zs k) (\<lambda>z. result_bind (native_h2 fr_field ?p z z)
        (\<lambda>h. Inr (zs @ [h]))) = Inr y \<and> length y = Suc k + 1" by simp
  qed simp_all
  then show ?thesis by (auto simp: merkle_new_def Let_def poseidon_native_new_def)
qed

section \<open>Setting a leaf\<close>

lemma node_val_upd [simp]:
  "node_val (t\<lparr>nodes := (nodes t)((l, i) \<mapsto> v)\<rparr>) k j = (if k = l \<and> j = i then v else node_val t k j)"
  by (auto simp: node_val_def split: option.split)

definition same_shape :: "'f merkle_tree \<Rightarrow> 'f merkle_tree \<Rightarrow> bool" where
  "same_shape t t' \<longleftrightarrow> depth t' = depth t \<and> poseidon t' = poseidon t \<and> zeros t' = zeros t"

text \<open>After \<open>l\<close> levels: the path up to level \<open>l\<close> is consistent, nothing beside it has changed.\<close>

definition path_written ::
  "'f::field prime_field \<Rightarrow> 'f merkle_tree \<Rightarrow> 64 word \<Rightarrow> 'f \<Rightarrow> nat \<Rightarrow> 'f merkle_tree \<times> 64 word \<Rightarrow> bool" where
  "path_written pf t i v l = (\<lambda>(t', idx). idx = drop_bit l i \<and> same_shape t t'
     \<and> node_val t' 0 i = v \<and> (\<forall>k<l. node_ok pf t' k (drop_bit k i))
     \<and> (\<forall>k j. l < k \<or> j \<noteq> drop_bit k i \<longrightarrow> node_val t' k j = node_val t k j))"

lemma set_leaf_step_eq:
  assumes "level < length (zeros t)"
  shows "set_leaf_step pf level (t, idx) =
     result_bind (native_h2 pf (poseidon t) (node_val t level (left_of idx)) (node_val t level (right_of idx)))
       (\<lambda>parent. Inr (t\<lparr>nodes := (nodes t)((level + 1, drop_bit 1 idx) \<mapsto> parent)\<rparr>, drop_bit 1 idx))"
  by (cases "bit idx 0")
    (simp_all add: set_leaf_step_def node_eq[OF assms] and_one_bit children_cases Let_def)

lemma path_written_step:
  assumes wf: "tree_wf pf t" and l: "l < depth t" and inv: "path_written pf t i v l (t', idx)"
    and step: "set_leaf_step pf l (t', idx) = Inr s"
  shows "path_written pf t i v (Suc l) s"
proof -
  have shape: "same_shape t t'" and idx: "idx = drop_bit l i" using inv by (simp_all add: path_written_def)
  then have "l < length (zeros t')" using wf l by (simp add: tree_wf_def same_shape_def)
  then obtain p where p: "native_h2 pf (poseidon t') (node_val t' l (left_of idx)) (node_val t' l (right_of idx)) = Inr p"
      and s: "s = (t'\<lparr>nodes := (nodes t')((l + 1, drop_bit 1 idx) \<mapsto> p)\<rparr>, drop_bit 1 idx)"
    using step by (auto simp: set_leaf_step_eq result_bind_Inr_iff)
  have up: "drop_bit 1 idx = drop_bit (Suc l) i" by (simp add: idx)
  show ?thesis
    unfolding s path_written_def prod.case up
  proof (intro conjI allI impI)
    let ?t = "t'\<lparr>nodes := (nodes t')((l + 1, drop_bit (Suc l) i) \<mapsto> p)\<rparr>"
    show "same_shape t ?t" using shape by (simp add: same_shape_def)
    show "node_val ?t 0 i = v" using inv by (simp add: path_written_def)
    fix k
    show "node_ok pf ?t k (drop_bit k i)" if "k < Suc l"
    proof (cases "k = l")
      case True
      with p show ?thesis by (simp add: node_ok_def idx up)
    next
      case False
      with that inv show ?thesis by (simp add: path_written_def node_ok_def)
    qed
    fix j
    show "node_val ?t k j = node_val t k j" if "Suc l < k \<or> j \<noteq> drop_bit k i"
      using that inv by (auto simp: path_written_def)
  qed simp
qed

lemma path_written_wf:
  assumes wf: "tree_wf pf t" and inv: "path_written pf t i v (depth t) (t', idx)"
  shows "tree_wf pf t'"
  unfolding tree_wf_def
proof (intro conjI allI impI)
  have shape: "same_shape t t'" using inv by (simp add: path_written_def)
  then show "length (zeros t') = depth t' + 1" using wf by (simp add: same_shape_def tree_wf_def)
  fix k j assume "k < depth t'"
  then have k: "k < depth t" using shape by (simp add: same_shape_def)
  then have on: "node_ok pf t' k (drop_bit k i)" using inv by (simp add: path_written_def)
  have off: "node_val t' k j' = node_val t k j'" if "j' \<noteq> drop_bit k i" for k j'
    using inv that by (simp add: path_written_def)
  show "node_ok pf t' k j"
  proof (cases "drop_bit 1 j = drop_bit 1 (drop_bit k i)")
    case True
    with on show ?thesis using children_parent[OF True] by (simp only: node_ok_def)
  next
    case False
    then have "drop_bit 1 j \<noteq> drop_bit (k + 1) i" by simp
    moreover have "left_of j \<noteq> drop_bit k i" "right_of j \<noteq> drop_bit k i"
      using False unfolding same_parent by (auto simp: left_of_def right_of_def split: if_splits)
    ultimately show ?thesis
      using wf k shape off by (simp add: tree_wf_def node_ok_def same_shape_def)
  qed
qed

lemma set_leaf_correct:
  assumes wf: "tree_wf pf t" and run: "set_leaf pf i v t = Inr t'"
  shows "tree_wf pf t'" "same_shape t t'" "node_val t' 0 i = v"
    "\<And>k j. j \<noteq> drop_bit k i \<Longrightarrow> node_val t' k j = node_val t k j"
proof -
  obtain idx where fold: "result_fold (set_leaf_step pf) [0..<depth t]
      (t\<lparr>nodes := (nodes t)((0, i) \<mapsto> v)\<rparr>, i) = Inr (t', idx)"
    using run by (auto simp: set_leaf_def result_bind_Inr_iff)
  have inv: "path_written pf t i v (depth t) (t', idx)"
  proof (rule result_fold_upt_partial[OF _ _ fold])
    show "path_written pf t i v 0 (t\<lparr>nodes := (nodes t)((0, i) \<mapsto> v)\<rparr>, i)"
      by (auto simp: path_written_def same_shape_def)
  qed (use path_written_step[OF wf] in auto)
  show "tree_wf pf t'" by (rule path_written_wf[OF wf inv])
  show "same_shape t t'" "node_val t' 0 i = v"
    "\<And>k j. j \<noteq> drop_bit k i \<Longrightarrow> node_val t' k j = node_val t k j"
    using inv by (simp_all add: path_written_def)
qed


text \<open>With parameters of the right shape no operation of the tree panics.\<close>

lemma set_leaf_total:
  assumes wf: "tree_wf fr_field t" and cfg: "config_wf (config (poseidon t))"
  shows "\<exists>t'. set_leaf fr_field i v t = Inr t'"
proof -
  let ?I = "\<lambda>l (t', idx). same_shape t t'"
  have "\<exists>r. result_fold (set_leaf_step fr_field) [0..<depth t]
      (t\<lparr>nodes := (nodes t)((0, i) \<mapsto> v)\<rparr>, i) = Inr r \<and> ?I (depth t) r"
  proof (rule result_fold_upt)
    fix k and s :: "fr merkle_tree \<times> 64 word"
    assume k: "k < depth t" and s: "?I k s"
    obtain t' idx where st: "s = (t', idx)" by fastforce
    have shape: "same_shape t t'" using s by (simp add: st)
    obtain h where h: "native_h2 fr_field (poseidon t') (node_val t' k (left_of idx)) (node_val t' k (right_of idx)) = Inr h"
      using native_h2_total cfg shape unfolding same_shape_def by metis
    have "k < length (zeros t')" using wf k shape by (simp add: tree_wf_def same_shape_def)
    with h shape show "\<exists>y. set_leaf_step fr_field k s = Inr y \<and> ?I (Suc k) y"
      by (simp add: st set_leaf_step_eq same_shape_def)
  qed (simp_all add: same_shape_def)
  then show ?thesis by (auto simp: set_leaf_def)
qed

section \<open>Paths\<close>

lemma path_root_append:
  "path_root h (xs @ ys) cur = result_bind (path_root h xs cur) (path_root h ys)"
  by (simp add: path_root_def result_fold_append)

lemma siblings_eq:
  assumes "tree_wf pf t"
  shows "siblings t i = Inr (map (\<lambda>l. node_val t l (drop_bit l i XOR 1)) [0..<depth t])"
proof -
  let ?f = "\<lambda>level (sibs, idx). let sib_index = idx XOR 1 in
      result_bind (node t level sib_index) (\<lambda>s. Inr (sibs @ [s], drop_bit 1 idx))"
  let ?I = "\<lambda>l (sibs, idx). idx = drop_bit l i \<and> sibs = map (\<lambda>l. node_val t l (drop_bit l i XOR 1)) [0..<l]"
  have "\<exists>r. result_fold ?f [0..<depth t] ([], i) = Inr r \<and> ?I (depth t) r"
    by (rule result_fold_upt) (use assms in \<open>auto simp: node_eq tree_wf_def Let_def\<close>)
  then show ?thesis by (auto simp: siblings_def)
qed

lemma index_bits_eq:
  "depth t \<le> 64 \<Longrightarrow> index_bits oc t i = Inr (map (bit i) [0..<depth t])"
  unfolding index_bits_def
  by (rule result_map_Inr) (auto simp: and_one_bit bit_simps)

text \<open>
  The path of an index, for any node values \<open>nv\<close> on it: the siblings are those of the tree.
\<close>

definition path_of :: "'f merkle_tree \<Rightarrow> 64 word \<Rightarrow> ('f \<times> bool) list" where
  "path_of t i = map (\<lambda>l. (node_val t l (drop_bit l i XOR 1), bit i l)) [0..<depth t]"

lemma zip_path: "zip (map f xs) (map g xs) = map (\<lambda>x. (f x, g x)) xs"
  by (induction xs) simp_all

lemma path_climbs:
  assumes wf: "tree_wf pf t" and "n \<le> depth t"
  shows "path_root (native_h2 pf (poseidon t)) (map (\<lambda>l. (node_val t l (drop_bit l i XOR 1), bit i l)) [0..<n])
     (node_val t 0 i) = Inr (node_val t n (drop_bit n i))"
  using assms(2)
proof (induction n)
  case (Suc n)
  have bit: "bit i n \<longleftrightarrow> bit (drop_bit n i) 0" by (simp add: bit_simps)
  have ok: "node_ok pf t n (drop_bit n i)" using wf Suc.prems by (simp add: tree_wf_def)
  have "path_step (native_h2 pf (poseidon t)) (node_val t n (drop_bit n i XOR 1), bit i n) (node_val t n (drop_bit n i))
      = Inr (node_val t (Suc n) (drop_bit (Suc n) i))"
    using ok unfolding node_ok_def bit
    by (cases "bit (drop_bit n i) 0") (simp_all add: children_cases path_step_def)
  then show ?case using Suc by (simp add: path_root_append)
qed simp

lemma index_in_range: "unat i < 2 ^ n \<Longrightarrow> drop_bit n (i::64 word) = 0"
proof -
  assume i: "unat i < 2 ^ n"
  have "unat (drop_bit n i) = drop_bit n (take_bit 64 (unat i))" by (simp add: unsigned_drop_bit_eq)
  also have "\<dots> = drop_bit n (unat i)" using unat_64_bound[of i] by (simp add: take_bit_nat_eq_self)
  also have "\<dots> = 0" using i by (simp add: drop_bit_eq_div)
  finally show ?thesis by (simp only: unsigned_eq_0_iff)
qed

lemma path_of_root:
  assumes "tree_wf pf t" "drop_bit (depth t) i = 0"
  shows "path_root (native_h2 pf (poseidon t)) (path_of t i) (node_val t 0 i) = Inr (node_val t (depth t) 0)"
  using path_climbs[OF assms(1) order.refl, of i] assms(2) by (simp add: path_of_def)

lemma root_eq: "tree_wf pf t \<Longrightarrow> root t = Inr (node_val t (depth t) 0)"
  by (simp add: root_def node_eq tree_wf_def)

lemma leaf_eq: "tree_wf pf t \<Longrightarrow> leaf t i = Inr (node_val t 0 i)"
  by (simp add: leaf_def node_eq tree_wf_def)

text \<open>Writing a leaf leaves the siblings on its own path as they are.\<close>

lemma path_of_set_leaf:
  assumes "tree_wf pf t" "set_leaf pf i v t = Inr t'"
  shows "path_of t' i = path_of t i"
  using set_leaf_correct(2,4)[OF assms] by (simp add: path_of_def same_shape_def)

section \<open>Properties of the tree\<close>

text \<open>
  C36. Writing a leaf of a well-formed tree stores it, changes no other leaf, keeps the tree well
  formed, and the path read back afterwards opens the new leaf to the new root; the siblings were
  the same before the write, so the same path opens the old leaf to the old root.
\<close>

theorem set_leaf_roundtrip:
  assumes wf: "tree_wf fr_field t" and d: "depth t \<le> 64" and i: "unat i < 2 ^ depth t"
    and run: "set_leaf fr_field i v t = Inr t'"
  shows "tree_wf fr_field t' \<and> leaf t' i = Inr v \<and> (\<forall>j. j = i \<or> leaf t' j = leaf t j)
    \<and> (\<exists>old sibs bits. leaf t i = Inr old \<and> siblings t i = Inr sibs \<and> siblings t' i = Inr sibs
         \<and> index_bits oc t i = Inr bits \<and> index_bits oc t' i = Inr bits
         \<and> root_from_leaf fr_field t old sibs bits = root t
         \<and> root_from_leaf fr_field t' v sibs bits = root t')"
proof -
  note 1 = set_leaf_correct[OF wf run]
  have z: "drop_bit (depth t) i = 0" using i by (rule index_in_range)
  have shape: "depth t' = depth t" "poseidon t' = poseidon t" using 1(2) by (simp_all add: same_shape_def)
  let ?sibs = "map (\<lambda>l. node_val t l (drop_bit l i XOR 1)) [0..<depth t]"
  let ?bits = "map (bit i) [0..<depth t]"
  have path: "zip ?sibs ?bits = path_of t i" by (simp add: path_of_def zip_path)
  have "siblings t' i = Inr ?sibs" using siblings_eq[OF 1(1), of i] shape 1(4) by simp
  moreover have "root_from_leaf fr_field t' v ?sibs ?bits = root t'"
    using path_of_root[OF 1(1), of i] root_eq[OF 1(1)] shape z 1(3) path_of_set_leaf[OF wf run] path
    by (simp add: root_from_leaf_def)
  moreover have "root_from_leaf fr_field t (node_val t 0 i) ?sibs ?bits = root t"
    using path_of_root[OF wf z] root_eq[OF wf] path by (simp add: root_from_leaf_def)
  moreover have "j = i \<or> leaf t' j = leaf t j" for j
    using 1(4)[of j 0] leaf_eq[OF wf] leaf_eq[OF 1(1)] by auto
  ultimately show ?thesis
    using 1(1,3) leaf_eq[OF wf] leaf_eq[OF 1(1)] siblings_eq[OF wf, of i] index_bits_eq[OF d, of oc i]
      index_bits_eq[of t' oc i] d shape
    by (auto intro!: exI[of _ ?sibs] exI[of _ ?bits])
qed

lemma toy_tree:
  obtains t where "merkle_new fr_field toy_config 22 = Inr t" "tree_wf fr_field t" "depth t = 22"
    "config_wf (config (poseidon t))" "\<And>i. node_val t 0 i = 0"
  using merkle_new_total[of toy_config 22] merkle_new_wf[of fr_field toy_config 22]
  by (metis poseidon_native.simps(1) toy_config_wf)

theorem set_leaf_roundtrip_witness:
  "\<exists>t t'. merkle_new fr_field toy_config 22 = Inr t \<and> set_leaf fr_field 12345 7 t = Inr t'
     \<and> leaf t' 12345 = Inr 7 \<and> leaf t' 999 = Inr 0"
proof -
  obtain t where t: "merkle_new fr_field toy_config 22 = Inr t" "tree_wf fr_field t" "depth t = 22"
      "config_wf (config (poseidon t))" "\<And>i. node_val t 0 i = 0"
    by (rule toy_tree) blast
  obtain t' where run: "set_leaf fr_field 12345 7 t = Inr t'" using set_leaf_total[OF t(2,4)] by blast
  have "leaf t' 12345 = Inr 7 \<and> (\<forall>j. j = 12345 \<or> leaf t' j = leaf t j)"
    using set_leaf_roundtrip[OF t(2) _ _ run, of True] t(3) by simp
  moreover have "leaf t 999 = Inr 0" using leaf_eq[OF t(2), of 999] t(5) by simp
  moreover have "(999 :: 64 word) \<noteq> 12345" by simp
  ultimately show ?thesis using t(1) run by metis
qed

text \<open>
  C35. The root binds the leaves and the siblings: if two paths along the same positions differ in
  the leaf or in a sibling and lead to the same root, then \<open>path_collision\<close> computes a collision of
  the two-element hash; and whatever it returns is a collision.
\<close>

theorem merkle_binding:
  assumes "length sibs = length bits" "length sibs' = length bits" "(lf, sibs) \<noteq> (lf', sibs')"
    and "root_from_leaf fr_field t lf sibs bits = Inr r" "root_from_leaf fr_field t lf' sibs' bits = Inr r"
  shows "\<exists>p. path_collision (native_h2 fr_field (poseidon t)) sibs sibs' bits lf lf' = Some p
     \<and> is_collision (native_h2 fr_field (poseidon t)) p"
  using path_binding[of sibs bits sibs' "native_h2 fr_field (poseidon t)" lf r lf'] assms
    path_collision_is_collision[of "native_h2 fr_field (poseidon t)" sibs sibs' bits lf lf']
  by (cases "path_collision (native_h2 fr_field (poseidon t)) sibs sibs' bits lf lf'")
    (auto simp: root_from_leaf_def)

theorem merkle_binding_witness:
  "path_collision (native_h2 fr_field \<lparr>config = roundless_config\<rparr>) [3] [3] [True] 5 6 = Some ((3, 5), (3, 6))"
proof -
  let ?t = "\<lparr>depth = 1, poseidon = \<lparr>config = roundless_config\<rparr>, zeros = [], nodes = Map.empty\<rparr>"
  have h: "native_h2 fr_field \<lparr>config = roundless_config\<rparr> x y = Inr x" for x y
    using roundless_hash[of "[y]" x] by (simp add: native_arity)
  have ne: "(5::fr) \<noteq> 6" by (simp add: fr_numeral_eq_iff fr_modulus_def)
  then have "\<exists>p. path_collision (native_h2 fr_field (poseidon ?t)) [3] [3] [True] 5 6 = Some p
      \<and> is_collision (native_h2 fr_field (poseidon ?t)) p"
    by (intro merkle_binding[of _ _ _ _ _ ?t 3]) (simp_all add: root_from_leaf_def h)
  then show ?thesis using ne by (simp add: h Let_def)
qed

text \<open>
  The gadget recomputes the root: in every satisfying assignment in which the index bits are
  bits (their allocation enforces it), the value of its result is the root the native function
  computes from the values of the leaf, the siblings and the bits.
\<close>

theorem merkle_root_sound:
  "sound (merkle_root_from_leaf fr_field \<lparr>params = cfg\<rparr> lf sibs bits) (\<lambda>w r.
     list_all (\<lambda>b. is_bit (bool_val w b)) bits \<longrightarrow>
     root_from_leaf fr_field \<lparr>depth = d, poseidon = \<lparr>config = cfg\<rparr>, zeros = zs, nodes = ns\<rparr>
       (fp_val w lf) (map (fp_val w) sibs) (map (\<lambda>b. bool_of (bool_val w b)) bits) = Inr (fp_val w r))"
proof -
  have "list_all (\<lambda>s. is_bit (bool_val w (snd s))) (zip sibs bits)"
    if "list_all (\<lambda>b. is_bit (bool_val w b)) bits" for w :: "variable \<Rightarrow> fr"
    using that by (auto simp: list_all_iff dest: set_zip_rightD)
  then show ?thesis
    unfolding merkle_root_from_leaf_def root_from_leaf_def gadget_arity native_arity
    by (intro sound_weaken[OF ledger_hash.path_sound]) (simp add: zip_map1 zip_map2 split_def comp_def)
qed


theorem merkle_root_sound_witness:
  "\<exists>r cs. merkle_root_from_leaf fr_field \<lparr>params = toy_config\<rparr> (FpConstant 7) [FpConstant 3] [BoolConstant True]
       cs_new = Inr (r, cs)
     \<and> native_h2 fr_field \<lparr>config = toy_config\<rparr> 3 7 = Inr (fp_val (assign cs) r)"
proof -
  let ?m = "merkle_root_from_leaf fr_field \<lparr>params = toy_config\<rparr> (FpConstant 7) [FpConstant 3] [BoolConstant True]"
  let ?p = "\<lparr>config = toy_config\<rparr> :: fr poseidon_native"
  obtain h where h: "native_h2 fr_field ?p 3 7 = Inr h" using native_h2_total[of ?p] by auto
  have "complete cs_new ?m (\<lambda>r cs'. fp_is cs' r h)"
    unfolding merkle_root_from_leaf_def gadget_arity
    by (rule ledger_hash.path_complete[where vs = "[(3, True)]"])
      (use h in \<open>simp_all add: path_is_def native_arity\<close>)
  from run_sound[OF honest_new this merkle_root_sound[where d = 1 and zs = "[]" and ns = Map.empty]]
  show ?thesis by (auto simp: root_from_leaf_def)
qed

end
