(* ===== verification/Ledger_Ops.thy ===== *)
theory Ledger_Ops
  imports Merkle_Tree
begin

text \<open>
  The operations of the ledger and their allocation in the circuit
  (crates/ledger-circuit/src/ops.rs).  \<^verbatim>\<open>OpWitness\<close> and \<^verbatim>\<open>OpWitnessVar\<close> have the same fields, so
  they are two instances of one record: over \<^verbatim>\<open>bool\<close>, \<^verbatim>\<open>u64\<close> and field elements, and over the
  variables of the circuit.  An array of the constant length \<^verbatim>\<open>D\<close> is a list.
\<close>

section \<open>Operations\<close>

text \<open>\<^verbatim>\<open>F::from\<close> of a \<^verbatim>\<open>u64\<close> and of a \<^verbatim>\<open>u128\<close>.\<close>

definition from_u64 :: "64 word \<Rightarrow> 'f::comm_ring_1" where
  "from_u64 k = of_nat (unat k)"

definition from_u128 :: "128 word \<Rightarrow> 'f::comm_ring_1" where
  "from_u128 k = of_nat (unat k)"

datatype op_kind = Load | Spend | Withdraw

fun code :: "op_kind \<Rightarrow> 64 word" where
  "code Load = 0"
| "code Spend = 1"
| "code Withdraw = 2"

record ('b, 'k, 'f) op_data =
  active :: 'b
  kind :: 'k
  from_key :: 'f
  to_key :: 'f
  token_id :: 'f
  amount :: 'f
  nonce :: 'f
  from_old_balance :: 'f
  from_old_nonce :: 'f
  from_index_bits :: "'b list"
  from_siblings :: "'f list"
  to_old_balance :: 'f
  to_old_nonce :: 'f
  to_index_bits :: "'b list"
  to_siblings :: "'f list"

type_synonym 'f op_witness = "(bool, 64 word, 'f) op_data"
type_synonym 'f op_witness_var = "(boolean, 'f fpvar, 'f fpvar) op_data"

definition padding :: "nat \<Rightarrow> 'f::zero op_witness" where
  "padding D = \<lparr>active = False, kind = code Load, from_key = 0, to_key = 0, token_id = 0,
     amount = 0, nonce = 0, from_old_balance = 0, from_old_nonce = 0,
     from_index_bits = replicate D False, from_siblings = replicate D 0,
     to_old_balance = 0, to_old_nonce = 0,
     to_index_bits = replicate D False, to_siblings = replicate D 0\<rparr>"

text \<open>\<^verbatim>\<open>EpochStepInput\<close> and \<^verbatim>\<open>EpochStepInputVar\<close>.\<close>

record 'o epoch_step_input =
  ops :: "'o list"

definition epoch_step_input_default :: "nat \<Rightarrow> nat \<Rightarrow> 'f::zero op_witness epoch_step_input" where
  "epoch_step_input_default B D = \<lparr>ops = map (\<lambda>_. padding D) [0..<B]\<rparr>"

section \<open>Allocation\<close>

text \<open>The closure that selects a value of an operation which is present only when proving.\<close>

definition op_get :: "'o option \<Rightarrow> ('o \<Rightarrow> 'a) \<Rightarrow> synthesis_error + 'a" where
  "op_get op sel = get_value (map_option sel op)"

definition path_new_variable ::
  "'f op_witness option \<Rightarrow> allocation_mode \<Rightarrow> nat
   \<Rightarrow> boolean list \<times> 'f fpvar list \<times> boolean list \<times> 'f fpvar list
   \<Rightarrow> ('f::field cs, boolean list \<times> 'f fpvar list \<times> boolean list \<times> 'f fpvar list) comp" where
  "path_new_variable op md d = (\<lambda>(fbits, fsibs, tbits, tsibs).
     bind (bool_new_variable (op_get op (\<lambda>o'. from_index_bits o' ! d)) md) (\<lambda>fb.
     bind (fp_new_variable (op_get op (\<lambda>o'. from_siblings o' ! d)) md) (\<lambda>fs.
     bind (bool_new_variable (op_get op (\<lambda>o'. to_index_bits o' ! d)) md) (\<lambda>tb.
     bind (fp_new_variable (op_get op (\<lambda>o'. to_siblings o' ! d)) md) (\<lambda>ts.
     ret (fbits @ [fb], fsibs @ [fs], tbits @ [tb], tsibs @ [ts]))))))"

definition op_new_variable ::
  "nat \<Rightarrow> 'f op_witness option \<Rightarrow> allocation_mode \<Rightarrow> ('f::field cs, 'f op_witness_var) comp" where
  "op_new_variable D op md =
     bind (bool_new_variable (op_get op active) md) (\<lambda>ac.
     bind (fp_new_variable (op_get op (\<lambda>o'. from_u64 (kind o'))) md) (\<lambda>k.
     bind (fp_new_variable (op_get op from_key) md) (\<lambda>fk.
     bind (fp_new_variable (op_get op to_key) md) (\<lambda>tk.
     bind (fp_new_variable (op_get op token_id) md) (\<lambda>tok.
     bind (fp_new_variable (op_get op amount) md) (\<lambda>amt.
     bind (fp_new_variable (op_get op nonce) md) (\<lambda>n.
     bind (fp_new_variable (op_get op from_old_balance) md) (\<lambda>fbal.
     bind (fp_new_variable (op_get op from_old_nonce) md) (\<lambda>fn.
     bind (fp_new_variable (op_get op to_old_balance) md) (\<lambda>tbal.
     bind (fp_new_variable (op_get op to_old_nonce) md) (\<lambda>tn.
     bind (fold_m (path_new_variable op md) [0..<D] ([], [], [], [])) (\<lambda>(fbits, fsibs, tbits, tsibs).
     ret \<lparr>active = ac, kind = k, from_key = fk, to_key = tk, token_id = tok, amount = amt, nonce = n,
       from_old_balance = fbal, from_old_nonce = fn, from_index_bits = fbits, from_siblings = fsibs,
       to_old_balance = tbal, to_old_nonce = tn, to_index_bits = tbits, to_siblings = tsibs\<rparr>))))))))))))"

definition epoch_step_input_new_variable ::
  "nat \<Rightarrow> nat \<Rightarrow> synthesis_error + 'f op_witness epoch_step_input \<Rightarrow> allocation_mode
   \<Rightarrow> ('f::field cs, 'f op_witness_var epoch_step_input) comp" where
  "epoch_step_input_new_variable B D f md =
     (let value = (case f of Inl _ \<Rightarrow> None | Inr v \<Rightarrow> Some v) in
      bind (map_m (\<lambda>i. op_new_variable D (map_option (\<lambda>v. ops v ! i) value) md) [0..<B]) (\<lambda>os.
      ret \<lparr>ops = os\<rparr>))"

section \<open>Values\<close>

definition op_map ::
  "('b \<Rightarrow> 'c) \<Rightarrow> ('k \<Rightarrow> 'l) \<Rightarrow> ('f \<Rightarrow> 'g) \<Rightarrow> ('b, 'k, 'f) op_data \<Rightarrow> ('c, 'l, 'g) op_data" where
  "op_map b k f op = \<lparr>active = b (active op), kind = k (kind op), from_key = f (from_key op),
     to_key = f (to_key op), token_id = f (token_id op), amount = f (amount op), nonce = f (nonce op),
     from_old_balance = f (from_old_balance op), from_old_nonce = f (from_old_nonce op),
     from_index_bits = map b (from_index_bits op), from_siblings = map f (from_siblings op),
     to_old_balance = f (to_old_balance op), to_old_nonce = f (to_old_nonce op),
     to_index_bits = map b (to_index_bits op), to_siblings = map f (to_siblings op)\<rparr>"

lemma op_map_simps [simp]:
  "active (op_map b k f op) = b (active op)" "kind (op_map b k f op) = k (kind op)"
  "from_key (op_map b k f op) = f (from_key op)" "to_key (op_map b k f op) = f (to_key op)"
  "token_id (op_map b k f op) = f (token_id op)" "amount (op_map b k f op) = f (amount op)"
  "nonce (op_map b k f op) = f (nonce op)"
  "from_old_balance (op_map b k f op) = f (from_old_balance op)"
  "from_old_nonce (op_map b k f op) = f (from_old_nonce op)"
  "from_index_bits (op_map b k f op) = map b (from_index_bits op)"
  "from_siblings (op_map b k f op) = map f (from_siblings op)"
  "to_old_balance (op_map b k f op) = f (to_old_balance op)"
  "to_old_nonce (op_map b k f op) = f (to_old_nonce op)"
  "to_index_bits (op_map b k f op) = map b (to_index_bits op)"
  "to_siblings (op_map b k f op) = map f (to_siblings op)"
  by (simp_all add: op_map_def)

text \<open>An operation over field values: the kind is the field element of its code.\<close>

type_synonym 'f op_values = "(bool, 'f, 'f) op_data"

definition field_op :: "'f::comm_ring_1 op_witness \<Rightarrow> 'f op_values" where
  "field_op = op_map (\<lambda>b. b) from_u64 (\<lambda>x. x)"

definition op_val :: "(variable \<Rightarrow> 'f) \<Rightarrow> 'f::field op_witness_var \<Rightarrow> 'f op_values" where
  "op_val w = op_map (\<lambda>b. bool_of (bool_val w b)) (fp_val w) (fp_val w)"

definition op_is :: "'f::field cs \<Rightarrow> 'f op_witness_var \<Rightarrow> 'f op_values \<Rightarrow> bool" where
  "op_is cs v op \<longleftrightarrow> bool_is cs (active v) (active op) \<and> fp_is cs (kind v) (kind op)
     \<and> fp_is cs (from_key v) (from_key op) \<and> fp_is cs (to_key v) (to_key op)
     \<and> fp_is cs (token_id v) (token_id op) \<and> fp_is cs (amount v) (amount op)
     \<and> fp_is cs (nonce v) (nonce op) \<and> fp_is cs (from_old_balance v) (from_old_balance op)
     \<and> fp_is cs (from_old_nonce v) (from_old_nonce op)
     \<and> list_all2 (bool_is cs) (from_index_bits v) (from_index_bits op)
     \<and> list_all2 (fp_is cs) (from_siblings v) (from_siblings op)
     \<and> fp_is cs (to_old_balance v) (to_old_balance op) \<and> fp_is cs (to_old_nonce v) (to_old_nonce op)
     \<and> list_all2 (bool_is cs) (to_index_bits v) (to_index_bits op)
     \<and> list_all2 (fp_is cs) (to_siblings v) (to_siblings op)"

lemma op_val_simps [simp]:
  "active (op_val w op) = bool_of (bool_val w (active op))" "kind (op_val w op) = fp_val w (kind op)"
  "from_key (op_val w op) = fp_val w (from_key op)" "to_key (op_val w op) = fp_val w (to_key op)"
  "token_id (op_val w op) = fp_val w (token_id op)" "amount (op_val w op) = fp_val w (amount op)"
  "nonce (op_val w op) = fp_val w (nonce op)"
  "from_old_balance (op_val w op) = fp_val w (from_old_balance op)"
  "from_old_nonce (op_val w op) = fp_val w (from_old_nonce op)"
  "to_old_balance (op_val w op) = fp_val w (to_old_balance op)"
  "to_old_nonce (op_val w op) = fp_val w (to_old_nonce op)"
  by (simp_all add: op_val_def)

lemma op_is_mono: "cs_extends cs cs' \<Longrightarrow> op_is cs v op \<Longrightarrow> op_is cs' v op"
  by (simp add: op_is_def bool_is_mono fp_is_mono bools_mono fps_mono)

section \<open>Soundness of the allocation\<close>

definition fp_is_constant :: "'f fpvar \<Rightarrow> bool" where
  "fp_is_constant x = (case x of FpConstant _ \<Rightarrow> True | FpVar _ \<Rightarrow> False)"

lemma fp_is_constant_simps [simp]: "fp_is_constant (FpConstant c)" "\<not> fp_is_constant (FpVar v)"
  by (simp_all add: fp_is_constant_def)

lemma both_constant_iff: "both_constant a b \<longleftrightarrow> fp_is_constant a \<and> fp_is_constant b"
  by (cases a; cases b) simp_all

text \<open>
  What the step relies on about an operation: its flag and its index bits are bits, and the flag
  and the nonce were allocated, so that the comparisons guarded by them are enforced.
\<close>

definition op_bits :: "(variable \<Rightarrow> 'f) \<Rightarrow> 'f::field op_witness_var \<Rightarrow> bool" where
  "op_bits w op \<longleftrightarrow> is_bit (bool_val w (active op))
     \<and> list_all (\<lambda>b. is_bit (bool_val w b)) (from_index_bits op)
     \<and> list_all (\<lambda>b. is_bit (bool_val w b)) (to_index_bits op)"

definition op_allocated :: "'f op_witness_var \<Rightarrow> bool" where
  "op_allocated op \<longleftrightarrow> \<not> bool_is_constant (active op) \<and> \<not> fp_is_constant (nonce op)"

definition op_shape :: "nat \<Rightarrow> ('b, 'k, 'f) op_data \<Rightarrow> bool" where
  "op_shape D op \<longleftrightarrow> length (from_index_bits op) = D \<and> length (from_siblings op) = D
     \<and> length (to_index_bits op) = D \<and> length (to_siblings op) = D"

lemma op_shape_map [simp]: "op_shape D (op_map b k f op) = op_shape D op"
  by (simp add: op_shape_def)

lemma sound_fp_new_var:
  "sound (fp_new_variable f m) (\<lambda>w x. m = Constant_Mode \<or> \<not> fp_is_constant x)"
  unfolding fp_new_variable_def
  by (auto intro!: sound_bind[OF sound_from_result[of _ "\<lambda>v. True"]]
      sound_bind[OF sound_afp_new_variable] sound_ret)

lemma sound_bool_new_var:
  "sound (bool_new_variable f m)
     (\<lambda>w b. is_bit (bool_val w b :: 'f::idom) \<and> (m = Constant_Mode \<or> \<not> bool_is_constant b))"
  unfolding bool_new_variable_def
  by (auto intro!: sound_bind[OF sound_from_result[of _ "\<lambda>_. True"]]
      sound_bind[OF sound_ab_new_variable] sound_ret simp: bool_is_constant_def)

definition path_ok ::
  "(variable \<Rightarrow> 'f) \<Rightarrow> nat \<Rightarrow> boolean list \<times> 'f fpvar list \<times> boolean list \<times> 'f::field fpvar list \<Rightarrow> bool" where
  "path_ok w n = (\<lambda>(fb, fs, tb, ts).
     list_all (\<lambda>b. is_bit (bool_val w b)) fb \<and> list_all (\<lambda>b. is_bit (bool_val w b)) tb
     \<and> length fb = n \<and> length fs = n \<and> length tb = n \<and> length ts = n)"

lemma sound_path_new_variable:
  "sound (path_new_variable op md d acc) (\<lambda>w r. path_ok w n acc \<longrightarrow> path_ok w (Suc n) r)"
  unfolding path_new_variable_def case_prod_beta
  by (rule sound_bind[OF sound_bool_new_var], rule sound_bind[OF sound_fp_new_var],
      rule sound_bind[OF sound_bool_new_var], rule sound_bind[OF sound_fp_new_var], rule sound_ret)
    (simp add: path_ok_def case_prod_beta)

lemma sound_path_new_variables:
  "sound (fold_m (path_new_variable op md) ds acc)
     (\<lambda>w r. path_ok w n acc \<longrightarrow> path_ok w (n + length ds) r)"
proof (induction ds arbitrary: acc n)
  case (Cons d ds)
  show ?case
    unfolding fold_m.simps
    by (rule sound_bind[OF sound_path_new_variable[where n = n]], rule sound_weaken[OF Cons.IH[of _ "Suc n"]]) simp
qed (simp add: sound_ret)

lemma sound_op_new_variable:
  "sound (op_new_variable D op md :: ('f::field cs, 'f op_witness_var) comp)
     (\<lambda>w v. op_bits w v \<and> op_shape D v \<and> (md = Constant_Mode \<or> op_allocated v))"
  unfolding op_new_variable_def
  by (rule sound_bind[OF sound_bool_new_var], (rule sound_bind[OF sound_fp_new_var])+,
      rule sound_bind[OF sound_path_new_variables[where n = 0]], unfold case_prod_beta, rule sound_ret)
    (auto simp: path_ok_def case_prod_beta op_bits_def op_shape_def op_allocated_def)

section \<open>Completeness of the allocation\<close>

text \<open>The ten field elements in their order, as one list.\<close>

lemma op_new_variable_eq:
  "op_new_variable D op md = bind (bool_new_variable (op_get op active) md) (\<lambda>ac.
     bind (map_m (\<lambda>sel. fp_new_variable (op_get op sel) md)
       [\<lambda>o'. from_u64 (kind o'), from_key, to_key, token_id, amount, nonce, from_old_balance,
        from_old_nonce, to_old_balance, to_old_nonce]) (\<lambda>as.
     bind (fold_m (path_new_variable op md) [0..<D] ([], [], [], [])) (\<lambda>(fbits, fsibs, tbits, tsibs).
     ret \<lparr>active = ac, kind = as ! 0, from_key = as ! 1, to_key = as ! 2, token_id = as ! 3,
       amount = as ! 4, nonce = as ! 5, from_old_balance = as ! 6, from_old_nonce = as ! 7,
       from_index_bits = fbits, from_siblings = fsibs, to_old_balance = as ! 8, to_old_nonce = as ! 9,
       to_index_bits = tbits, to_siblings = tsibs\<rparr>)))"
  by (simp add: op_new_variable_def bind_assoc)

lemma op_get_Some [simp]: "op_get (Some op) sel = Inr (sel op)"
  by (simp add: op_get_def)

definition path_vars_are ::
  "'f op_witness \<Rightarrow> nat \<Rightarrow> 'f::field cs \<Rightarrow> boolean list \<times> 'f fpvar list \<times> boolean list \<times> 'f fpvar list \<Rightarrow> bool" where
  "path_vars_are op n cs = (\<lambda>(fb, fs, tb, ts).
     list_all2 (bool_is cs) fb (take n (from_index_bits op)) \<and> list_all2 (fp_is cs) fs (take n (from_siblings op))
     \<and> list_all2 (bool_is cs) tb (take n (to_index_bits op)) \<and> list_all2 (fp_is cs) ts (take n (to_siblings op)))"

lemma path_vars_mono: "cs_extends cs cs' \<Longrightarrow> path_vars_are op n cs p \<Longrightarrow> path_vars_are op n cs' p"
  by (auto simp: path_vars_are_def bools_mono fps_mono)

lemma complete_path_new_variable:
  assumes shape: "op_shape D op" and d: "d < D" and acc: "path_vars_are op d cs acc"
  shows "complete cs (path_new_variable (Some op) md d acc) (\<lambda>r cs'. path_vars_are op (Suc d) cs' r)"
  unfolding path_new_variable_def case_prod_beta op_get_Some
proof (rule complete_bind[OF complete_bool_new_variable])
  fix fb cs1 assume 1: "cs_extends cs cs1" "bool_is cs1 fb (from_index_bits op ! d)"
  show "complete cs1 (bind (fp_new_variable (Inr (from_siblings op ! d)) md) (\<lambda>fs.
      bind (bool_new_variable (Inr (to_index_bits op ! d)) md) (\<lambda>tb.
      bind (fp_new_variable (Inr (to_siblings op ! d)) md) (\<lambda>ts.
      ret (fst acc @ [fb], fst (snd acc) @ [fs], fst (snd (snd acc)) @ [tb], snd (snd (snd acc)) @ [ts])))))
      (\<lambda>r cs'. path_vars_are op (Suc d) cs' r)"
  proof (rule complete_bind[OF complete_fp_new_variable], rule complete_bind[OF complete_bool_new_variable],
      rule complete_bind[OF complete_fp_new_variable], rule complete_ret)
    fix fs cs2 tb cs3 ts cs4
    assume 2: "cs_extends cs1 cs2" "fp_is cs2 fs (from_siblings op ! d)"
      and 3: "cs_extends cs2 cs3" "bool_is cs3 tb (to_index_bits op ! d)"
      and 4: "cs_extends cs3 cs4" "fp_is cs4 ts (to_siblings op ! d)"
    note e3 = 4(1) and e2 = cs_extends_trans[OF 3(1) 4(1)]
    note e1 = cs_extends_trans[OF 2(1) e2]
    have "path_vars_are op d cs4 acc" by (rule path_vars_mono[OF cs_extends_trans[OF 1(1) e1] acc])
    then show "path_vars_are op (Suc d) cs4
        (fst acc @ [fb], fst (snd acc) @ [fs], fst (snd (snd acc)) @ [tb], snd (snd (snd acc)) @ [ts])"
      using shape d bool_is_mono[OF e1 1(2)] fp_is_mono[OF e2 2(2)] bool_is_mono[OF e3 3(2)] 4(2)
      by (simp add: path_vars_are_def op_shape_def take_Suc_conv_app_nth case_prod_beta list_all2_appendI)
  qed
qed

lemma complete_path_new_variables:
  assumes "op_shape D op"
  shows "complete cs (fold_m (path_new_variable (Some op) md) [0..<D] ([], [], [], []))
    (\<lambda>(fb, fs, tb, ts) cs'. list_all2 (bool_is cs') fb (from_index_bits op)
       \<and> list_all2 (fp_is cs') fs (from_siblings op) \<and> list_all2 (bool_is cs') tb (to_index_bits op)
       \<and> list_all2 (fp_is cs') ts (to_siblings op))"
proof -
  have "complete cs (fold_m (path_new_variable (Some op) md) [0..<D] ([], [], [], []))
      (\<lambda>r cs'. path_vars_are op (length [0..<D]) cs' r)"
  proof (rule complete_fold_m[where I = "\<lambda>ys acc cs'. path_vars_are op (length ys) cs' acc"])
    fix x acc cs' ys zs
    assume split: "[0..<D] = ys @ x # zs" and acc: "path_vars_are op (length ys) cs' acc"
    have "x = length ys" "length ys < D"
      using split by (metis add_0 diff_zero length_append length_upt less_add_same_cancel1 list.size(4)
          nth_append_length nth_upt zero_less_Suc add.commute add_Suc_right plus_1_eq_Suc)+
    then show "complete cs' (path_new_variable (Some op) md x acc)
        (\<lambda>r cs''. path_vars_are op (length (ys @ [x])) cs'' r)"
      using complete_path_new_variable[OF assms _ acc] by simp
  qed (simp add: path_vars_are_def)
  then show ?thesis
    by (rule complete_weaken) (use assms in \<open>simp add: path_vars_are_def op_shape_def case_prod_beta\<close>)
qed

lemma complete_op_new_variable:
  assumes shape: "op_shape D op"
  shows "complete cs (op_new_variable D (Some op) md) (\<lambda>v cs'. op_is cs' v (field_op op))"
  unfolding op_new_variable_eq op_get_Some
proof (rule complete_bind[OF complete_bool_new_variable])
  fix ac cs1 assume 1: "cs_extends cs cs1" "bool_is cs1 ac (active op)"
  let ?sels = "[\<lambda>o'. from_u64 (kind o'), from_key, to_key, token_id, amount, nonce, from_old_balance,
        from_old_nonce, to_old_balance, to_old_nonce]"
  have news: "complete cs1 (map_m (\<lambda>sel. fp_new_variable (Inr (sel op)) md) ?sels)
      (\<lambda>ys cs'. list_all2 (fp_is cs') ys (map (\<lambda>sel. sel op) ?sels))"
    by (rule complete_map_m_values[where P = "\<lambda>_ sel v. v = sel op"])
      (auto simp: list_all2_map2 list.rel_refl intro: complete_fp_new_variable fp_is_mono)
  show "complete cs1 (bind (map_m (\<lambda>sel. fp_new_variable (Inr (sel op)) md) ?sels) (\<lambda>as.
     bind (fold_m (path_new_variable (Some op) md) [0..<D] ([], [], [], [])) (\<lambda>(fbits, fsibs, tbits, tsibs).
     ret \<lparr>active = ac, kind = as ! 0, from_key = as ! 1, to_key = as ! 2, token_id = as ! 3,
       amount = as ! 4, nonce = as ! 5, from_old_balance = as ! 6, from_old_nonce = as ! 7,
       from_index_bits = fbits, from_siblings = fsibs, to_old_balance = as ! 8, to_old_nonce = as ! 9,
       to_index_bits = tbits, to_siblings = tsibs\<rparr>))) (\<lambda>v cs'. op_is cs' v (field_op op))"
    unfolding case_prod_beta
  proof (rule complete_bind[OF news], rule complete_bind[OF complete_path_new_variables[OF shape]], rule complete_ret)
    fix as cs2 p cs3
    assume 2: "cs_extends cs1 cs2" "list_all2 (fp_is cs2) as (map (\<lambda>sel. sel op) ?sels)"
      and 3: "cs_extends cs2 cs3" "(case p of (fb, fs, tb, ts) \<Rightarrow> \<lambda>cs'. list_all2 (bool_is cs') fb (from_index_bits op)
       \<and> list_all2 (fp_is cs') fs (from_siblings op) \<and> list_all2 (bool_is cs') tb (to_index_bits op)
       \<and> list_all2 (fp_is cs') ts (to_siblings op)) cs3"
    show "op_is cs3 \<lparr>active = ac, kind = as ! 0, from_key = as ! 1, to_key = as ! 2, token_id = as ! 3,
       amount = as ! 4, nonce = as ! 5, from_old_balance = as ! 6, from_old_nonce = as ! 7,
       from_index_bits = fst p, from_siblings = fst (snd p), to_old_balance = as ! 8, to_old_nonce = as ! 9,
       to_index_bits = fst (snd (snd p)), to_siblings = snd (snd (snd p))\<rparr> (field_op op)"
      using bool_is_mono[OF cs_extends_trans[OF 2(1) 3(1)] 1(2)] fps_mono[OF 3(1) 2(2)] 3(2)
      by (auto simp: op_is_def field_op_def list_all2_Cons2 case_prod_beta)
  qed
qed

lemma complete_epoch_step_input:
  assumes "length (ops inp) = B" "list_all (op_shape D) (ops inp)"
  shows "complete cs (epoch_step_input_new_variable B D (Inr inp) md)
    (\<lambda>v cs'. list_all2 (op_is cs') (ops v) (map field_op (ops inp)))"
proof -
  have "complete cs (map_m (\<lambda>i. op_new_variable D (Some (ops inp ! i)) md) [0..<B])
      (\<lambda>vs cs'. list_all2 (op_is cs') vs (map field_op (ops inp)))"
  proof (rule complete_map_m_values[where P = "\<lambda>_ i v. i < B \<and> v = field_op (ops inp ! i)"])
    show "list_all2 (\<lambda>i v. i < B \<and> v = field_op (ops inp ! i)) [0..<B] (map field_op (ops inp))"
      using assms(1) by (simp add: list_all2_conv_all_nth)
  qed (use assms in \<open>auto simp: list_all_length intro: complete_op_new_variable op_is_mono\<close>)
  then show ?thesis
    by (auto simp: epoch_step_input_new_variable_def intro!: complete_bind complete_ret)
qed

end
