(* ===== verification/Ledger_Circuit.thy ===== *)
theory Ledger_Circuit
  imports Ledger_Ops
begin

text \<open>
  The step circuit of the epoch ledger (crates/ledger-circuit/src/lib.rs).  The body of the loop
  over the operations is cut at its own comments: the debit of \<^verbatim>\<open>from\<close> (1-4a), the credit of
  \<^verbatim>\<open>to\<close> (4b), the two accumulators (5a, 5b).  Each part has a native check next to it, over field
  values; the circuit is sound and complete for it.
\<close>

section \<open>The circuit\<close>

definition state_len_const :: nat where "state_len_const = 3"
definition DEPTH :: nat where "DEPTH = 22"
definition BATCH :: nat where "BATCH = 16"
definition withdraw_code_const :: "64 word" where "withdraw_code_const = code Withdraw"
definition VALUE_BITS :: nat where "VALUE_BITS = 96"

record 'f ledger_circuit =
  circuit_config :: "'f poseidon_config"

definition ledger_circuit_new :: "'f poseidon_config \<Rightarrow> 'f ledger_circuit" where
  "ledger_circuit_new canonical_config = \<lparr>circuit_config = canonical_config\<rparr>"

definition state_len :: "'f ledger_circuit \<Rightarrow> nat" where
  "state_len self = state_len_const"

definition enforce_bit_width :: "'f prime_field \<Rightarrow> 'f fpvar \<Rightarrow> nat \<Rightarrow> ('f::field cs, unit) comp" where
  "enforce_bit_width pf x bits = bind (fp_to_bits_le pf x) (\<lambda>le.
     fold_m (\<lambda>b _. bool_enforce_equal b (BoolConstant False)) (drop bits le) ())"

text \<open>The root over the leaf of an account, for a balance and a nonce.\<close>

definition from_root ::
  "'f prime_field \<Rightarrow> 'f poseidon_gadget \<Rightarrow> 'f op_witness_var \<Rightarrow> 'f fpvar \<Rightarrow> 'f fpvar \<Rightarrow> ('f::field cs, 'f fpvar) comp" where
  "from_root pf pg op balance n =
     bind (gadget_h4 pf pg (from_key op) (token_id op) balance n) (\<lambda>lf.
     merkle_root_from_leaf pf pg lf (from_siblings op) (from_index_bits op))"

definition to_root ::
  "'f prime_field \<Rightarrow> 'f poseidon_gadget \<Rightarrow> 'f op_witness_var \<Rightarrow> 'f fpvar \<Rightarrow> ('f::field cs, 'f fpvar) comp" where
  "to_root pf pg op balance =
     bind (gadget_h4 pf pg (to_key op) (token_id op) balance (to_old_nonce op)) (\<lambda>lf.
     merkle_root_from_leaf pf pg lf (to_siblings op) (to_index_bits op))"

definition debit_from ::
  "'f prime_field \<Rightarrow> 'f poseidon_gadget \<Rightarrow> 'f fpvar \<Rightarrow> 'f op_witness_var \<Rightarrow> 'f fpvar \<Rightarrow> ('f::field cs, 'f fpvar) comp" where
  "debit_from pf pg one op state_root =
     bind (from_root pf pg op (from_old_balance op) (from_old_nonce op)) (\<lambda>from_old_root.
     bind (fp_conditional_enforce_equal from_old_root state_root (active op)) (\<lambda>_.
     bind (enforce_bit_width pf (amount op) VALUE_BITS) (\<lambda>_.
     bind (enforce_bit_width pf (from_old_balance op) VALUE_BITS) (\<lambda>_.
     bind (fp_sub (from_old_balance op) (amount op)) (\<lambda>from_new_balance.
     bind (enforce_bit_width pf from_new_balance VALUE_BITS) (\<lambda>_.
     bind (fp_conditional_enforce_equal (nonce op) (from_old_nonce op) (active op)) (\<lambda>_.
     bind (fp_add (from_old_nonce op) one) (\<lambda>from_new_nonce.
     bind (from_root pf pg op from_new_balance from_new_nonce) (\<lambda>inter_root_active.
     fp_conditionally_select (active op) inter_root_active state_root)))))))))"

definition credit_to ::
  "'f prime_field \<Rightarrow> 'f poseidon_gadget \<Rightarrow> 'f op_witness_var \<Rightarrow> 'f fpvar \<Rightarrow> ('f::field cs, 'f fpvar) comp" where
  "credit_to pf pg op inter_root =
     bind (to_root pf pg op (to_old_balance op)) (\<lambda>to_old_root.
     bind (fp_conditional_enforce_equal to_old_root inter_root (active op)) (\<lambda>_.
     bind (fp_add (to_old_balance op) (amount op)) (\<lambda>to_new_balance.
     bind (enforce_bit_width pf to_new_balance VALUE_BITS) (\<lambda>_.
     bind (to_root pf pg op to_new_balance) (\<lambda>new_root_active.
     fp_conditionally_select (active op) new_root_active inter_root)))))"

definition fold_ops_acc ::
  "'f prime_field \<Rightarrow> 'f poseidon_gadget \<Rightarrow> 'f op_witness_var \<Rightarrow> 'f fpvar \<Rightarrow> ('f::field cs, 'f fpvar) comp" where
  "fold_ops_acc pf pg op ops_acc =
     bind (gadget_hn pf pg [kind op, from_key op, to_key op, token_id op, amount op, nonce op]) (\<lambda>op_hash.
     bind (gadget_h2 pf pg ops_acc op_hash) (\<lambda>ops_acc_next.
     fp_conditionally_select (active op) ops_acc_next ops_acc))"

definition fold_nets_acc ::
  "'f prime_field \<Rightarrow> 'f poseidon_gadget \<Rightarrow> 'f fpvar \<Rightarrow> 'f op_witness_var \<Rightarrow> 'f fpvar \<Rightarrow> ('f::field cs, 'f fpvar) comp" where
  "fold_nets_acc pf pg withdraw_code op nets_acc =
     bind (fp_is_eq (kind op) withdraw_code) (\<lambda>is_withdraw.
     bind (bool_and (active op) is_withdraw) (\<lambda>do_nets.
     bind (gadget_h4 pf pg nets_acc (from_key op) (token_id op) (amount op)) (\<lambda>nets_acc_next.
     fp_conditionally_select do_nets nets_acc_next nets_acc)))"

definition process_op ::
  "'f prime_field \<Rightarrow> 'f poseidon_gadget \<Rightarrow> 'f fpvar \<Rightarrow> 'f fpvar \<Rightarrow> 'f op_witness_var
   \<Rightarrow> 'f fpvar \<times> 'f fpvar \<times> 'f fpvar \<Rightarrow> ('f::field cs, 'f fpvar \<times> 'f fpvar \<times> 'f fpvar) comp" where
  "process_op pf pg withdraw_code one op = (\<lambda>(state_root, ops_acc, nets_acc).
     bind (debit_from pf pg one op state_root) (\<lambda>inter_root.
     bind (credit_to pf pg op inter_root) (\<lambda>state_root.
     bind (fold_ops_acc pf pg op ops_acc) (\<lambda>ops_acc.
     bind (fold_nets_acc pf pg withdraw_code op nets_acc) (\<lambda>nets_acc.
     ret (state_root, ops_acc, nets_acc))))))"

definition generate_step_constraints ::
  "'f prime_field \<Rightarrow> 'f ledger_circuit \<Rightarrow> nat \<Rightarrow> 'f fpvar list \<Rightarrow> 'f op_witness_var epoch_step_input
   \<Rightarrow> ('f::field cs, 'f fpvar list) comp" where
  "generate_step_constraints pf self B z_i external_inputs =
    (if length z_i \<noteq> state_len_const then raise Panic
     else if length (ops external_inputs) \<noteq> B then raise Panic
     else
       bind (poseidon_gadget_new (circuit_config self)) (\<lambda>pg.
       let withdraw_code = FpConstant (from_u64 withdraw_code_const); one = FpConstant 1 in
       bind (fold_m (process_op pf pg withdraw_code one) (ops external_inputs) (z_i ! 0, z_i ! 1, z_i ! 2))
         (\<lambda>(state_root, ops_acc, nets_acc). ret [state_root, ops_acc, nets_acc])))"

section \<open>The native check\<close>

text \<open>What a step demands of the values, and the state it leads to.\<close>

definition guard :: "bool \<Rightarrow> fault + unit" where
  "guard b = (if b then Inr () else Inl (Err Unsatisfiable))"

definition in_range :: "fr \<Rightarrow> bool" where
  "in_range x \<longleftrightarrow> fr_int x < 2 ^ VALUE_BITS"

definition leaf_root ::
  "fr poseidon_native \<Rightarrow> fr \<Rightarrow> fr \<Rightarrow> fr \<Rightarrow> fr \<Rightarrow> fr list \<Rightarrow> bool list \<Rightarrow> fault + fr" where
  "leaf_root pn key token balance n sibs bits =
     result_bind (native_h4 fr_field pn key token balance n) (path_root (native_h2 fr_field pn) (zip sibs bits))"

definition debit_check :: "fr poseidon_native \<Rightarrow> fr op_values \<Rightarrow> fr \<Rightarrow> fault + fr" where
  "debit_check pn op rt =
     result_bind (leaf_root pn (from_key op) (token_id op) (from_old_balance op) (from_old_nonce op)
       (from_siblings op) (from_index_bits op)) (\<lambda>old.
     result_bind (guard (active op \<longrightarrow> old = rt)) (\<lambda>_.
     result_bind (guard (in_range (amount op) \<and> in_range (from_old_balance op)
        \<and> in_range (from_old_balance op - amount op))) (\<lambda>_.
     result_bind (guard (active op \<longrightarrow> nonce op = from_old_nonce op)) (\<lambda>_.
     result_bind (leaf_root pn (from_key op) (token_id op) (from_old_balance op - amount op)
       (from_old_nonce op + 1) (from_siblings op) (from_index_bits op)) (\<lambda>new.
     Inr (if active op then new else rt))))))"

definition credit_check :: "fr poseidon_native \<Rightarrow> fr op_values \<Rightarrow> fr \<Rightarrow> fault + fr" where
  "credit_check pn op rt =
     result_bind (leaf_root pn (to_key op) (token_id op) (to_old_balance op) (to_old_nonce op)
       (to_siblings op) (to_index_bits op)) (\<lambda>old.
     result_bind (guard (active op \<longrightarrow> old = rt)) (\<lambda>_.
     result_bind (guard (in_range (to_old_balance op + amount op))) (\<lambda>_.
     result_bind (leaf_root pn (to_key op) (token_id op) (to_old_balance op + amount op)
       (to_old_nonce op) (to_siblings op) (to_index_bits op)) (\<lambda>new.
     Inr (if active op then new else rt)))))"

definition ops_check :: "fr poseidon_native \<Rightarrow> fr op_values \<Rightarrow> fr \<Rightarrow> fault + fr" where
  "ops_check pn op acc =
     result_bind (native_hn fr_field pn [kind op, from_key op, to_key op, token_id op, amount op, nonce op]) (\<lambda>h.
     result_bind (native_h2 fr_field pn acc h) (\<lambda>next. Inr (if active op then next else acc)))"

definition nets_check :: "fr poseidon_native \<Rightarrow> fr op_values \<Rightarrow> fr \<Rightarrow> fault + fr" where
  "nets_check pn op acc =
     result_bind (native_h4 fr_field pn acc (from_key op) (token_id op) (amount op)) (\<lambda>next.
     Inr (if active op \<and> kind op = from_u64 withdraw_code_const then next else acc))"

definition op_check ::
  "fr poseidon_native \<Rightarrow> fr op_values \<Rightarrow> fr \<times> fr \<times> fr \<Rightarrow> fault + fr \<times> fr \<times> fr" where
  "op_check pn op = (\<lambda>(rt, oacc, nacc).
     result_bind (debit_check pn op rt) (\<lambda>inter.
     result_bind (credit_check pn op inter) (\<lambda>rt'.
     result_bind (ops_check pn op oacc) (\<lambda>oacc'.
     result_bind (nets_check pn op nacc) (\<lambda>nacc'. Inr (rt', oacc', nacc'))))))"

definition step_check ::
  "fr poseidon_native \<Rightarrow> fr op_values list \<Rightarrow> fr \<times> fr \<times> fr \<Rightarrow> fault + fr \<times> fr \<times> fr" where
  "step_check pn = result_fold (op_check pn)"

lemma guard_Inr [simp]: "guard b = Inr u \<longleftrightarrow> b"
  by (simp add: guard_def)

section \<open>Soundness\<close>

text \<open>A selection by an allocated flag is an allocated variable.\<close>

lemma returns_fp_conditionally_select:
  "returns (fp_conditionally_select c a b) (\<lambda>r. \<not> bool_is_constant c \<longrightarrow> \<not> fp_is_constant r)"
proof (cases c)
  case (BoolVar v)
  show ?thesis
    unfolding fp_conditionally_select_def BoolVar boolean.case
    by (cases a; cases b) (simp_all, (intro returns_bind returns_ret, simp)+)
qed (simp add: returns_def bool_is_constant_def)

lemma sound_returns: "sound m R \<Longrightarrow> returns m Q \<Longrightarrow> sound m (\<lambda>w x. R w x \<and> Q x)"
  unfolding sound_def returns_def by blast

lemmas sound_select = sound_returns[OF sound_fp_conditionally_select returns_fp_conditionally_select]

lemma select_bit:
  "is_bit (c::'f::comm_ring_1) \<Longrightarrow> b + c * (a - b) = (if bool_of c then a else b)"
  by (auto simp: is_bit_def)

lemma bits_value_high:
  assumes "bits_value bs = n" "\<forall>b\<in>set (drop k bs). \<not> b"
  shows "n < 2 ^ k"
proof -
  have "bits_value bs = bits_value (take k bs) + 2 ^ length (take k bs) * bits_value (drop k bs)"
    using bits_value_append[of "take k bs" "drop k bs"] by simp
  moreover have "drop k bs = replicate (length (drop k bs)) False"
    using assms(2) by (intro replicate_eqI) auto
  then have "bits_value (drop k bs) = 0" by (metis bits_value_replicate_False)
  moreover have "(2::nat) ^ length (take k bs) \<le> 2 ^ k" by (rule power_increasing) simp_all
  ultimately have "n = bits_value (take k bs)" using assms(1) by simp
  also have "\<dots> < 2 ^ length (take k bs)" by (rule bits_value_bound)
  also have "\<dots> \<le> 2 ^ k" by fact
  finally show ?thesis .
qed

lemma sound_enforce_bit_width:
  "sound (enforce_bit_width fr_field x k) (\<lambda>w _. fr_int (fp_val w x) < 2 ^ k)"
  unfolding enforce_bit_width_def
proof (rule sound_bind[OF prime_field_impl.sound_fp_to_bits_le[OF bn254.prime_field_impl_axioms]])
  fix le
  have "sound (fold_m (\<lambda>b _. bool_enforce_equal b (BoolConstant False)) bs ())
      (\<lambda>w _. \<forall>b\<in>set bs. bool_val w b = (0::fr))" for bs
  proof (induction bs)
    case (Cons b bs)
    show ?case
      unfolding fold_m.simps
      by (rule sound_bind[OF sound_bool_enforce_equal], simp, rule sound_weaken[OF Cons.IH]) simp
  qed (simp add: sound_ret)
  from this[of "drop k le"]
  show "sound (fold_m (\<lambda>b _. bool_enforce_equal b (BoolConstant False)) (drop k le) ())
      (\<lambda>w r. length le = modulus_bit_size fr_field \<and> all_bits w le \<and>
        bits_value (map (bit_val w) le) = int_repr fr_field (fp_val w x) \<longrightarrow> fr_int (fp_val w x) < 2 ^ k)"
  proof (rule sound_weaken, intro impI)
    fix w r assume zero: "\<forall>b\<in>set (drop k le). bool_val w b = (0::fr)"
      and le: "length le = modulus_bit_size fr_field \<and> all_bits w le \<and>
        bits_value (map (bit_val w) le) = int_repr fr_field (fp_val w x)"
    have "\<forall>b\<in>set (drop k (map (bit_val w) le)). \<not> b"
      using zero by (auto simp: drop_map bit_val_def)
    with le have "nat (fr_int (fp_val w x)) < 2 ^ k" by (intro bits_value_high) simp_all
    then show "fr_int (fp_val w x) < 2 ^ k" by (simp add: nat_less_iff fr_int_bounds)
  qed
qed

lemma sound_h4: "sound (gadget_h4 fr_field \<lparr>params = cfg\<rparr> a b c d)
    (\<lambda>w r. native_h4 fr_field \<lparr>config = cfg\<rparr> (fp_val w a) (fp_val w b) (fp_val w c) (fp_val w d) = Inr (fp_val w r))"
  using ledger_hash.gadget_sound[of cfg "[a, b, c, d]"] by (simp add: gadget_arity native_arity)

lemma sound_h2: "sound (gadget_h2 fr_field \<lparr>params = cfg\<rparr> a b)
    (\<lambda>w r. native_h2 fr_field \<lparr>config = cfg\<rparr> (fp_val w a) (fp_val w b) = Inr (fp_val w r))"
  using ledger_hash.gadget_sound[of cfg "[a, b]"] by (simp add: gadget_arity native_arity)

lemma sound_merkle_root:
  "sound (merkle_root_from_leaf fr_field \<lparr>params = cfg\<rparr> lf sibs bits) (\<lambda>w r.
     list_all (\<lambda>b. is_bit (bool_val w b)) bits \<longrightarrow>
     path_root (native_h2 fr_field \<lparr>config = cfg\<rparr>) (zip (map (fp_val w) sibs) (map (\<lambda>b. bool_of (bool_val w b)) bits))
       (fp_val w lf) = Inr (fp_val w r))"
proof -
  have "list_all (\<lambda>s. is_bit (bool_val w (snd s))) (zip sibs bits)"
    if "list_all (\<lambda>b. is_bit (bool_val w b)) bits" for w :: "variable \<Rightarrow> fr"
    using that by (auto simp: list_all_iff dest: set_zip_rightD)
  then show ?thesis
    unfolding merkle_root_from_leaf_def gadget_arity native_arity
    by (intro sound_weaken[OF ledger_hash.path_sound]) (simp add: zip_map1 zip_map2 split_def comp_def)
qed

lemma sound_from_root:
  "sound (from_root fr_field \<lparr>params = cfg\<rparr> op balance n) (\<lambda>w r. op_bits w op \<longrightarrow>
     leaf_root \<lparr>config = cfg\<rparr> (fp_val w (from_key op)) (fp_val w (token_id op)) (fp_val w balance) (fp_val w n)
       (from_siblings (op_val w op)) (from_index_bits (op_val w op)) = Inr (fp_val w r))"
  unfolding from_root_def
  by (rule sound_bind[OF sound_h4], rule sound_weaken[OF sound_merkle_root])
    (simp add: leaf_root_def op_bits_def op_val_def)

lemma sound_to_root:
  "sound (to_root fr_field \<lparr>params = cfg\<rparr> op balance) (\<lambda>w r. op_bits w op \<longrightarrow>
     leaf_root \<lparr>config = cfg\<rparr> (fp_val w (to_key op)) (fp_val w (token_id op)) (fp_val w balance)
       (fp_val w (to_old_nonce op)) (to_siblings (op_val w op)) (to_index_bits (op_val w op)) = Inr (fp_val w r))"
  unfolding to_root_def
  by (rule sound_bind[OF sound_h4], rule sound_weaken[OF sound_merkle_root])
    (simp add: leaf_root_def op_bits_def op_val_def)

text \<open>The parts of the step, given that the operation was allocated.\<close>

abbreviation op_good :: "(variable \<Rightarrow> fr) \<Rightarrow> fr op_witness_var \<Rightarrow> bool" where
  "op_good w op \<equiv> op_bits w op \<and> op_allocated op"

lemma bool_of_nonzero: "is_bit x \<Longrightarrow> bool_of (x::'f::comm_ring_1) \<longleftrightarrow> x \<noteq> 0"
  by (auto simp: is_bit_def)

lemma op_bits_active: "op_bits w op \<Longrightarrow> is_bit (bool_val w (active op))"
  by (simp add: op_bits_def)

lemma sound_debit_from:
  "sound (debit_from fr_field \<lparr>params = cfg\<rparr> (FpConstant 1) op rt) (\<lambda>w r. op_good w op \<and> \<not> fp_is_constant rt \<longrightarrow>
     debit_check \<lparr>config = cfg\<rparr> (op_val w op) (fp_val w rt) = Inr (fp_val w r) \<and> \<not> fp_is_constant r)"
  unfolding debit_from_def
  by (rule sound_bind[OF sound_from_root], rule sound_bind[OF sound_fp_conditional_enforce_equal],
      rule sound_bind[OF sound_enforce_bit_width], rule sound_bind[OF sound_enforce_bit_width],
      rule sound_bind[OF sound_fp_sub], rule sound_bind[OF sound_enforce_bit_width],
      rule sound_bind[OF sound_fp_conditional_enforce_equal], rule sound_bind[OF sound_fp_add],
      rule sound_bind[OF sound_from_root], rule sound_weaken[OF sound_select])
    (clarify, simp add: debit_check_def op_bits_active op_allocated_def both_constant_iff select_bit
      in_range_def bool_of_nonzero guard_def)

lemma sound_credit_to:
  "sound (credit_to fr_field \<lparr>params = cfg\<rparr> op rt) (\<lambda>w r. op_good w op \<and> \<not> fp_is_constant rt \<longrightarrow>
     credit_check \<lparr>config = cfg\<rparr> (op_val w op) (fp_val w rt) = Inr (fp_val w r) \<and> \<not> fp_is_constant r)"
  unfolding credit_to_def
  by (rule sound_bind[OF sound_to_root], rule sound_bind[OF sound_fp_conditional_enforce_equal],
      rule sound_bind[OF sound_fp_add], rule sound_bind[OF sound_enforce_bit_width],
      rule sound_bind[OF sound_to_root], rule sound_weaken[OF sound_select])
    (clarify, simp add: credit_check_def op_bits_active op_allocated_def both_constant_iff select_bit
      in_range_def bool_of_nonzero guard_def)

lemma sound_fold_ops_acc:
  "sound (fold_ops_acc fr_field \<lparr>params = cfg\<rparr> op acc) (\<lambda>w r. op_bits w op \<longrightarrow>
     ops_check \<lparr>config = cfg\<rparr> (op_val w op) (fp_val w acc) = Inr (fp_val w r))"
  unfolding fold_ops_acc_def
  by (rule sound_bind[OF ledger_hash.gadget_sound], rule sound_bind[OF sound_h2],
      rule sound_weaken[OF sound_fp_conditionally_select])
    (simp add: ops_check_def op_bits_active select_bit)

lemma sound_fold_nets_acc:
  "sound (fold_nets_acc fr_field \<lparr>params = cfg\<rparr> (FpConstant c) op acc) (\<lambda>w r. op_bits w op \<and> c = from_u64 withdraw_code_const \<longrightarrow>
     nets_check \<lparr>config = cfg\<rparr> (op_val w op) (fp_val w acc) = Inr (fp_val w r))"
  unfolding fold_nets_acc_def
  by (rule sound_bind[OF sound_fp_is_eq], rule sound_bind[OF sound_bool_and], rule sound_bind[OF sound_h4],
      rule sound_weaken[OF sound_fp_conditionally_select])
    (auto simp: nets_check_def op_bits_def is_bit_def)

lemma sound_process_op:
  "sound (process_op fr_field \<lparr>params = cfg\<rparr> (FpConstant (from_u64 withdraw_code_const)) (FpConstant 1) op (rt, oacc, nacc))
     (\<lambda>w (rt', oacc', nacc'). op_good w op \<and> \<not> fp_is_constant rt \<longrightarrow> \<not> fp_is_constant rt' \<and>
        op_check \<lparr>config = cfg\<rparr> (op_val w op) (fp_val w rt, fp_val w oacc, fp_val w nacc)
          = Inr (fp_val w rt', fp_val w oacc', fp_val w nacc'))"
  unfolding process_op_def prod.case
  by (rule sound_bind[OF sound_debit_from], rule sound_bind[OF sound_credit_to],
      rule sound_bind[OF sound_fold_ops_acc], rule sound_bind[OF sound_fold_nets_acc], rule sound_ret)
    (clarsimp simp: op_check_def)

definition state_val :: "(variable \<Rightarrow> fr) \<Rightarrow> fr fpvar \<times> fr fpvar \<times> fr fpvar \<Rightarrow> fr \<times> fr \<times> fr" where
  "state_val w = (\<lambda>(r, o', n). (fp_val w r, fp_val w o', fp_val w n))"

lemma sound_process_ops:
  "sound (fold_m (process_op fr_field \<lparr>params = cfg\<rparr> (FpConstant (from_u64 withdraw_code_const)) (FpConstant 1)) os z)
     (\<lambda>w z'. list_all (op_good w) os \<and> \<not> fp_is_constant (fst z) \<longrightarrow>
        step_check \<lparr>config = cfg\<rparr> (map (op_val w) os) (state_val w z) = Inr (state_val w z'))"
proof (induction os arbitrary: z)
  case (Cons op os)
  obtain r o' n where z: "z = (r, o', n)" by (cases z)
  show ?case
    unfolding fold_m.simps z
    by (rule sound_bind[OF sound_process_op], rule sound_weaken[OF Cons.IH])
      (clarsimp simp: step_check_def state_val_def split: prod.splits)
qed (simp add: step_check_def sound_ret)

lemma sound_generate_step_constraints:
  "sound (generate_step_constraints fr_field \<lparr>circuit_config = cfg\<rparr> B z inp)
     (\<lambda>w z'. list_all (op_good w) (ops inp) \<and> \<not> fp_is_constant (z ! 0) \<longrightarrow>
        length z = 3 \<and> length (ops inp) = B \<and> (\<exists>r o' n. z' = [r, o', n] \<and>
        step_check \<lparr>config = cfg\<rparr> (map (op_val w) (ops inp)) (fp_val w (z ! 0), fp_val w (z ! 1), fp_val w (z ! 2))
          = Inr (fp_val w r, fp_val w o', fp_val w n)))"
proof -
  have "sound (bind (fold_m (process_op fr_field \<lparr>params = cfg\<rparr> (FpConstant (from_u64 withdraw_code_const)) (FpConstant 1))
        (ops inp) (z ! 0, z ! 1, z ! 2)) (\<lambda>(r, o', n). ret [r, o', n]))
      (\<lambda>w z'. list_all (op_good w) (ops inp) \<and> \<not> fp_is_constant (z ! 0) \<longrightarrow> (\<exists>r o' n. z' = [r, o', n] \<and>
        step_check \<lparr>config = cfg\<rparr> (map (op_val w) (ops inp)) (fp_val w (z ! 0), fp_val w (z ! 1), fp_val w (z ! 2))
          = Inr (fp_val w r, fp_val w o', fp_val w n)))"
    unfolding case_prod_beta
    by (rule sound_bind[OF sound_process_ops], rule sound_ret) (auto simp: state_val_def case_prod_beta)
  then show ?thesis
    unfolding generate_step_constraints_def poseidon_gadget_new_def bind_ret Let_def
    by (auto simp: state_len_const_def intro!: sound_raise elim: sound_weaken)
qed

section \<open>Completeness\<close>

lemma fr_bits_high:
  assumes "fr_int x < 2 ^ k"
  shows "\<forall>b\<in>set (drop k (map (bit (nat (fr_int x))) [0..<n])). \<not> b"
proof -
  have "nat (fr_int x) < 2 ^ k" using assms by (simp add: nat_less_iff fr_int_bounds)
  then have "take_bit k (nat (fr_int x)) = nat (fr_int x)" by (rule take_bit_nat_eq_self)
  then have "\<not> bit (nat (fr_int x)) i" if "k \<le> i" for i
    using that by (metis bit_take_bit_iff not_le)
  then show ?thesis by (auto simp: drop_map)
qed

lemma complete_enforce_bit_width:
  assumes x: "fp_is cs a x" and r: "fr_int x < 2 ^ k"
  shows "complete cs (enforce_bit_width fr_field a k) (\<lambda>_ _. True)"
  unfolding enforce_bit_width_def
proof (rule complete_bind[OF prime_field_impl.complete_fp_to_bits_le[OF bn254.prime_field_impl_axioms x]])
  fix le and cs1 :: "fr cs"
  let ?vs = "map (bit (int_repr fr_field x)) [0..<modulus_bit_size fr_field]"
  assume "list_all2 (bool_is cs1) le ?vs"
  then have low: "list_all2 (bool_is cs1) (drop k le) (drop k ?vs)" by (rule list_all2_dropI)
  have "\<forall>b\<in>set (drop k ?vs). \<not> b" using fr_bits_high[OF r] by simp
  then have "complete cs2 (fold_m (\<lambda>b _. bool_enforce_equal b (BoolConstant False)) bs ()) (\<lambda>_ _. True)"
    if "list_all2 (bool_is cs2) bs vs" "set vs \<subseteq> set (drop k ?vs)" for bs vs and cs2 :: "fr cs"
    using that
  proof (induction bs vs arbitrary: cs2 rule: list_induct2')
    case (4 b bs v vs)
    then have b: "bool_is cs2 b False" by auto
    show ?case
      unfolding fold_m.simps bool_enforce_equal_def
      by (rule complete_bind[OF complete_bool_conditional_enforce_equal[OF b]])
        (use 4 in \<open>auto intro: bools_mono simp: bool_enforce_equal_def\<close>)
  qed (auto intro: complete_ret)
  from this[OF low] show "complete cs1 (fold_m (\<lambda>b _. bool_enforce_equal b (BoolConstant False)) (drop k le) ()) (\<lambda>_ _. True)"
    by simp
qed

text \<open>What the prover knows while an operation is processed: the values of its variables and of
  the intermediate results.\<close>

definition op_env :: "fr op_witness_var \<Rightarrow> fr op_values \<Rightarrow> (fr fpvar \<times> fr) list \<Rightarrow> fr cs \<Rightarrow> bool" where
  "op_env v op xs cs \<longleftrightarrow> op_is cs v op \<and> list_all (\<lambda>(a, x). fp_is cs a x) xs"

lemma op_env_mono: "cs_extends cs cs' \<Longrightarrow> op_env v op xs cs \<Longrightarrow> op_env v op xs cs'"
  by (auto simp: op_env_def list_all_iff intro: op_is_mono fp_is_mono)

lemma env_bind:
  assumes "op_env v op xs cs" "complete cs m (\<lambda>r cs'. fp_is cs' r y)"
    and "\<And>r cs'. op_env v op ((r, y) # xs) cs' \<Longrightarrow> complete cs' (f r) Q"
  shows "complete cs (bind m f) Q"
proof (rule complete_bind[OF assms(2)])
  fix r and cs' :: "fr cs" assume "cs_extends cs cs'" "fp_is cs' r y"
  then have "op_env v op ((r, y) # xs) cs'" using op_env_mono[OF _ assms(1)] by (simp add: op_env_def)
  then show "complete cs' (f r) Q" by (rule assms(3))
qed

lemma env_do:
  assumes "op_env v op xs cs" "complete cs m (\<lambda>_ _. True)"
    and "\<And>r cs'. op_env v op xs cs' \<Longrightarrow> complete cs' (f r) Q"
  shows "complete cs (bind m f) Q"
  by (rule complete_bind[OF assms(2)]) (rule assms(3)[OF op_env_mono[OF _ assms(1)]])

lemma op_envD:
  assumes "op_env v op xs cs"
  shows "bool_is cs (active v) (active op)" "fp_is cs (kind v) (kind op)" "fp_is cs (from_key v) (from_key op)"
    "fp_is cs (to_key v) (to_key op)" "fp_is cs (token_id v) (token_id op)" "fp_is cs (amount v) (amount op)"
    "fp_is cs (nonce v) (nonce op)" "fp_is cs (from_old_balance v) (from_old_balance op)"
    "fp_is cs (from_old_nonce v) (from_old_nonce op)" "fp_is cs (to_old_balance v) (to_old_balance op)"
    "fp_is cs (to_old_nonce v) (to_old_nonce op)"
    "list_all2 (path_is cs) (zip (from_siblings v) (from_index_bits v)) (zip (from_siblings op) (from_index_bits op))"
    "list_all2 (path_is cs) (zip (to_siblings v) (to_index_bits v)) (zip (to_siblings op) (to_index_bits op))"
    "\<And>a x. (a, x) \<in> set xs \<Longrightarrow> fp_is cs a x"
proof -
  have path: "list_all2 (path_is cs) (zip ss bs) (zip xs ys)"
    if "list_all2 (fp_is cs) ss xs" "list_all2 (bool_is cs) bs ys" for ss bs xs ys
    using that by (auto simp: list_all2_conv_all_nth path_is_def)
  then show "list_all2 (path_is cs) (zip (from_siblings v) (from_index_bits v)) (zip (from_siblings op) (from_index_bits op))"
    "list_all2 (path_is cs) (zip (to_siblings v) (to_index_bits v)) (zip (to_siblings op) (to_index_bits op))"
    using assms by (simp_all add: op_env_def op_is_def)
qed (use assms in \<open>auto simp: op_env_def op_is_def list_all_iff\<close>)

lemma complete_hash:
  "list_all2 (fp_is cs) [a, b] [va, vb] \<Longrightarrow> native_h2 fr_field \<lparr>config = cfg\<rparr> va vb = Inr h \<Longrightarrow>
   complete cs (gadget_h2 fr_field \<lparr>params = cfg\<rparr> a b) (\<lambda>r cs'. fp_is cs' r h)"
  "list_all2 (fp_is cs) [a, b, c, d] [va, vb, vc, vd] \<Longrightarrow> native_h4 fr_field \<lparr>config = cfg\<rparr> va vb vc vd = Inr h \<Longrightarrow>
   complete cs (gadget_h4 fr_field \<lparr>params = cfg\<rparr> a b c d) (\<lambda>r cs'. fp_is cs' r h)"
  unfolding gadget_arity native_arity by (rule ledger_hash.gadget_complete, assumption+)+

lemma complete_merkle_root:
  assumes "list_all2 (path_is cs) (zip sibs bits) (zip ss bs)" "fp_is cs lf x"
    and "path_root (native_h2 fr_field \<lparr>config = cfg\<rparr>) (zip ss bs) x = Inr h"
  shows "complete cs (merkle_root_from_leaf fr_field \<lparr>params = cfg\<rparr> lf sibs bits) (\<lambda>r cs'. fp_is cs' r h)"
  using ledger_hash.path_complete[of cs "zip sibs bits" "zip ss bs" lf x cfg h] assms
  by (simp add: merkle_root_from_leaf_def gadget_arity[abs_def] native_arity[abs_def])

lemma complete_from_root:
  assumes e: "op_env v op xs cs" and "fp_is cs b vb" "fp_is cs n vn"
    and run: "leaf_root \<lparr>config = cfg\<rparr> (from_key op) (token_id op) vb vn (from_siblings op) (from_index_bits op) = Inr h"
  shows "complete cs (from_root fr_field \<lparr>params = cfg\<rparr> v b n) (\<lambda>r cs'. fp_is cs' r h)"
proof -
  obtain l where l: "native_h4 fr_field \<lparr>config = cfg\<rparr> (from_key op) (token_id op) vb vn = Inr l"
      "path_root (native_h2 fr_field \<lparr>config = cfg\<rparr>) (zip (from_siblings op) (from_index_bits op)) l = Inr h"
    using run by (auto simp: leaf_root_def result_bind_Inr_iff)
  show ?thesis
    unfolding from_root_def
    by (rule env_bind[OF e complete_hash(2)[OF _ l(1)]], use assms in \<open>simp add: op_envD[OF e]\<close>)
      (rule complete_merkle_root[OF op_envD(12) _ l(2)], assumption, erule op_envD(14), simp)
qed

lemma complete_to_root:
  assumes e: "op_env v op xs cs" and "fp_is cs b vb"
    and run: "leaf_root \<lparr>config = cfg\<rparr> (to_key op) (token_id op) vb (to_old_nonce op) (to_siblings op) (to_index_bits op) = Inr h"
  shows "complete cs (to_root fr_field \<lparr>params = cfg\<rparr> v b) (\<lambda>r cs'. fp_is cs' r h)"
proof -
  obtain l where l: "native_h4 fr_field \<lparr>config = cfg\<rparr> (to_key op) (token_id op) vb (to_old_nonce op) = Inr l"
      "path_root (native_h2 fr_field \<lparr>config = cfg\<rparr>) (zip (to_siblings op) (to_index_bits op)) l = Inr h"
    using run by (auto simp: leaf_root_def result_bind_Inr_iff)
  show ?thesis
    unfolding to_root_def
    by (rule env_bind[OF e complete_hash(2)[OF _ l(1)]], use assms in \<open>simp add: op_envD[OF e]\<close>)
      (rule complete_merkle_root[OF op_envD(13) _ l(2)], assumption, erule op_envD(14), simp)
qed

lemma complete_debit_from:
  assumes e: "op_env v op [(rt, x)] cs" and run: "debit_check \<lparr>config = cfg\<rparr> op x = Inr y"
  shows "complete cs (debit_from fr_field \<lparr>params = cfg\<rparr> (FpConstant 1) v rt) (\<lambda>r cs'. fp_is cs' r y)"
proof -
  obtain old new where 1: "leaf_root \<lparr>config = cfg\<rparr> (from_key op) (token_id op) (from_old_balance op) (from_old_nonce op)
        (from_siblings op) (from_index_bits op) = Inr old"
      and 2: "active op \<longrightarrow> old = x" "fr_int (amount op) < 2 ^ VALUE_BITS" "fr_int (from_old_balance op) < 2 ^ VALUE_BITS"
        "fr_int (from_old_balance op - amount op) < 2 ^ VALUE_BITS" "active op \<longrightarrow> nonce op = from_old_nonce op"
      and 3: "leaf_root \<lparr>config = cfg\<rparr> (from_key op) (token_id op) (from_old_balance op - amount op) (from_old_nonce op + 1)
        (from_siblings op) (from_index_bits op) = Inr new" "y = (if active op then new else x)"
    using run by (auto simp: debit_check_def in_range_def result_bind_Inr_iff)
  show ?thesis
    unfolding debit_from_def 3(2)
    by (rule env_bind[OF e complete_from_root[OF e op_envD(8)[OF e] op_envD(9)[OF e] 1]],
        rule env_do, assumption, rule complete_fp_conditional_enforce_equal[where x = old and y = x and z = "active op"],
        simp add: op_envD, simp add: op_envD, simp add: op_envD, rule 2,
        rule env_do, assumption, rule complete_enforce_bit_width[OF _ 2(2)], erule op_envD,
        rule env_do, assumption, rule complete_enforce_bit_width[OF _ 2(3)], erule op_envD,
        rule env_bind, assumption, rule complete_fp_sub, erule op_envD, erule op_envD,
        rule env_do, assumption, rule complete_enforce_bit_width[OF _ 2(4)], simp add: op_envD,
        rule env_do, assumption, rule complete_fp_conditional_enforce_equal[OF op_envD(7) op_envD(9) op_envD(1) 2(5)],
        assumption, assumption, assumption,
        rule env_bind, assumption, rule complete_fp_add, erule op_envD, simp,
        rule env_bind, assumption, rule complete_from_root[OF _ _ _ 3(1)], assumption, simp add: op_envD, simp add: op_envD,
        rule complete_fp_conditionally_select, erule op_envD, simp add: op_envD, simp add: op_envD)
qed

lemma complete_credit_to:
  assumes e: "op_env v op [(rt, x)] cs" and run: "credit_check \<lparr>config = cfg\<rparr> op x = Inr y"
  shows "complete cs (credit_to fr_field \<lparr>params = cfg\<rparr> v rt) (\<lambda>r cs'. fp_is cs' r y)"
proof -
  obtain old new where 1: "leaf_root \<lparr>config = cfg\<rparr> (to_key op) (token_id op) (to_old_balance op) (to_old_nonce op)
        (to_siblings op) (to_index_bits op) = Inr old"
      and 2: "active op \<longrightarrow> old = x" "fr_int (to_old_balance op + amount op) < 2 ^ VALUE_BITS"
      and 3: "leaf_root \<lparr>config = cfg\<rparr> (to_key op) (token_id op) (to_old_balance op + amount op) (to_old_nonce op)
        (to_siblings op) (to_index_bits op) = Inr new" "y = (if active op then new else x)"
    using run by (auto simp: credit_check_def in_range_def result_bind_Inr_iff)
  show ?thesis
    unfolding credit_to_def 3(2)
    by (rule env_bind[OF e complete_to_root[OF e op_envD(10)[OF e] 1]],
        rule env_do, assumption, rule complete_fp_conditional_enforce_equal[where x = old and y = x and z = "active op"],
        simp add: op_envD, simp add: op_envD, simp add: op_envD, rule 2,
        rule env_bind, assumption, rule complete_fp_add, erule op_envD, erule op_envD,
        rule env_do, assumption, rule complete_enforce_bit_width[OF _ 2(2)], simp add: op_envD,
        rule env_bind, assumption, rule complete_to_root[OF _ _ 3(1)], assumption, simp add: op_envD,
        rule complete_fp_conditionally_select, erule op_envD, simp add: op_envD, simp add: op_envD)
qed

lemma complete_fold_ops_acc:
  assumes e: "op_env v op [(acc, x)] cs" and run: "ops_check \<lparr>config = cfg\<rparr> op x = Inr y"
  shows "complete cs (fold_ops_acc fr_field \<lparr>params = cfg\<rparr> v acc) (\<lambda>r cs'. fp_is cs' r y)"
proof -
  obtain h new where 1: "native_hn fr_field \<lparr>config = cfg\<rparr>
        [kind op, from_key op, to_key op, token_id op, amount op, nonce op] = Inr h"
      "native_h2 fr_field \<lparr>config = cfg\<rparr> x h = Inr new" "y = (if active op then new else x)"
    using run by (auto simp: ops_check_def result_bind_Inr_iff)
  show ?thesis
    unfolding fold_ops_acc_def 1(3)
    by (rule env_bind[OF e ledger_hash.gadget_complete[OF _ 1(1)]], simp add: op_envD[OF e],
        rule env_bind, assumption, rule complete_hash(1)[OF _ 1(2)], simp add: op_envD,
        rule complete_fp_conditionally_select, erule op_envD, simp add: op_envD, simp add: op_envD)
qed

lemma complete_fold_nets_acc:
  assumes e: "op_env v op [(acc, x)] cs" and run: "nets_check \<lparr>config = cfg\<rparr> op x = Inr y"
  shows "complete cs (fold_nets_acc fr_field \<lparr>params = cfg\<rparr> (FpConstant (from_u64 withdraw_code_const)) v acc)
    (\<lambda>r cs'. fp_is cs' r y)"
proof -
  let ?w = "from_u64 withdraw_code_const :: fr"
  obtain new where 1: "native_h4 fr_field \<lparr>config = cfg\<rparr> x (from_key op) (token_id op) (amount op) = Inr new"
      "y = (if active op \<and> kind op = ?w then new else x)"
    using run by (auto simp: nets_check_def result_bind_Inr_iff)
  show ?thesis
    unfolding fold_nets_acc_def 1(2)
  proof (rule complete_bind[OF complete_fp_is_eq[OF op_envD(2)[OF e]]])
    show "fp_is cs (FpConstant ?w) ?w" by simp
    fix isw and cs1 :: "fr cs" assume 2: "cs_extends cs cs1" "bool_is cs1 isw (kind op = ?w)"
    note e1 = op_env_mono[OF 2(1) e]
    show "complete cs1 (bind (bool_and (active v) isw) (\<lambda>do_nets.
        bind (gadget_h4 fr_field \<lparr>params = cfg\<rparr> acc (from_key v) (token_id v) (amount v)) (\<lambda>nets_acc_next.
        fp_conditionally_select do_nets nets_acc_next acc)))
        (\<lambda>r cs'. fp_is cs' r (if active op \<and> kind op = ?w then new else x))"
    proof (rule complete_bind[OF complete_bool_and[OF op_envD(1)[OF e1] 2(2)]])
      fix dn and cs2 :: "fr cs" assume 3: "cs_extends cs1 cs2" "bool_is cs2 dn (active op \<and> kind op = ?w)"
      note e2 = op_env_mono[OF 3(1) e1]
      show "complete cs2 (bind (gadget_h4 fr_field \<lparr>params = cfg\<rparr> acc (from_key v) (token_id v) (amount v)) (\<lambda>nets_acc_next.
          fp_conditionally_select dn nets_acc_next acc))
          (\<lambda>r cs'. fp_is cs' r (if active op \<and> kind op = ?w then new else x))"
        by (rule complete_bind[OF complete_hash(2)[OF _ 1(1)]], simp add: op_envD[OF e2],
            rule complete_fp_conditionally_select[OF bool_is_mono[OF _ 3(2)]], assumption, assumption)
          (rule op_envD(14)[OF op_env_mono[OF _ e2]], assumption, simp)
    qed
  qed
qed

definition state_is :: "fr cs \<Rightarrow> fr fpvar \<times> fr fpvar \<times> fr fpvar \<Rightarrow> fr \<times> fr \<times> fr \<Rightarrow> bool" where
  "state_is cs z s \<longleftrightarrow> fp_is cs (fst z) (fst s) \<and> fp_is cs (fst (snd z)) (fst (snd s))
     \<and> fp_is cs (snd (snd z)) (snd (snd s))"

lemma state_is_mono: "cs_extends cs cs' \<Longrightarrow> state_is cs z s \<Longrightarrow> state_is cs' z s"
  by (simp add: state_is_def fp_is_mono)

lemma complete_process_op:
  assumes op: "op_is cs v op" and z: "state_is cs z s" and run: "op_check \<lparr>config = cfg\<rparr> op s = Inr s'"
  shows "complete cs (process_op fr_field \<lparr>params = cfg\<rparr> (FpConstant (from_u64 withdraw_code_const)) (FpConstant 1) v z)
    (\<lambda>z' cs'. state_is cs' z' s')"
proof -
  obtain rt oacc nacc where zs: "z = (rt, oacc, nacc)" by (cases z)
  obtain x xo xn where ss: "s = (x, xo, xn)" by (cases s)
  have vals: "fp_is cs rt x" "fp_is cs oacc xo" "fp_is cs nacc xn" using z by (simp_all add: state_is_def zs ss)
  obtain y1 y2 y3 y4 where 1: "debit_check \<lparr>config = cfg\<rparr> op x = Inr y1" "credit_check \<lparr>config = cfg\<rparr> op y1 = Inr y2"
      "ops_check \<lparr>config = cfg\<rparr> op xo = Inr y3" "nets_check \<lparr>config = cfg\<rparr> op xn = Inr y4" "s' = (y2, y3, y4)"
    using run by (auto simp: op_check_def ss result_bind_Inr_iff)
  have e: "op_env v op [(oacc, xo), (nacc, xn)] cs" "op_env v op [(rt, x)] cs"
    using op vals by (simp_all add: op_env_def)
  show ?thesis
    unfolding process_op_def zs prod.case 1(5)
    by (rule env_bind[OF e(1) complete_debit_from[OF e(2) 1(1)]],
        rule env_bind, assumption, rule complete_credit_to[OF _ 1(2)], simp add: op_env_def,
        rule env_bind, assumption, rule complete_fold_ops_acc[OF _ 1(3)], simp add: op_env_def,
        rule env_bind, assumption, rule complete_fold_nets_acc[OF _ 1(4)], simp add: op_env_def,
        rule complete_ret) (simp add: state_is_def op_env_def)
qed

lemma complete_process_ops:
  assumes "list_all2 (op_is cs) vs os" "state_is cs z s" "step_check \<lparr>config = cfg\<rparr> os s = Inr s'"
  shows "complete cs (fold_m (process_op fr_field \<lparr>params = cfg\<rparr> (FpConstant (from_u64 withdraw_code_const)) (FpConstant 1)) vs z)
    (\<lambda>z' cs'. state_is cs' z' s')"
proof (rule complete_result_fold[where A = state_is and P = op_is and f' = "op_check \<lparr>config = cfg\<rparr>"])
  show "result_fold (op_check \<lparr>config = cfg\<rparr>) os s = Inr s'" using assms(3) by (simp add: step_check_def)
  show "list_all2 (op_is cs) vs os" "state_is cs z s" by (fact assms)+
qed (rule complete_process_op op_is_mono, assumption+)+

lemma complete_generate_step_constraints:
  assumes z: "list_all2 (fp_is cs) z [r, o', n]" and os: "list_all2 (op_is cs) (ops inp) vs" "length vs = B"
    and run: "step_check \<lparr>config = cfg\<rparr> vs (r, o', n) = Inr (r', o'', n')"
  shows "complete cs (generate_step_constraints fr_field \<lparr>circuit_config = cfg\<rparr> B z inp)
    (\<lambda>z' cs'. list_all2 (fp_is cs') z' [r', o'', n'])"
proof -
  have len: "length z = state_len_const" "length (ops inp) = B"
    using list_all2_lengthD[OF z] list_all2_lengthD[OF os(1)] os(2) by (simp_all add: state_len_const_def)
  have s: "state_is cs (z ! 0, z ! 1, z ! 2) (r, o', n)" using z by (auto simp: state_is_def list_all2_Cons2)
  show ?thesis
    unfolding generate_step_constraints_def poseidon_gadget_new_def bind_ret Let_def ledger_circuit.simps
      if_not_P[OF not_not[THEN iffD2, OF len(1)]] if_not_P[OF not_not[THEN iffD2, OF len(2)]]
    by (rule complete_bind[OF complete_process_ops[OF os(1) s run]])
      (auto intro!: complete_ret simp: state_is_def split: prod.split)
qed

section \<open>Properties of the step\<close>

text \<open>
  The circuit of one step as it is synthesized: the state and the operations are allocated as
  witnesses, then the constraints are generated.
\<close>

definition synthesize_step ::
  "fr ledger_circuit \<Rightarrow> nat \<Rightarrow> nat \<Rightarrow> synthesis_error + fr list \<Rightarrow> synthesis_error + fr op_witness epoch_step_input
   \<Rightarrow> (fr cs, fr fpvar list \<times> fr op_witness_var epoch_step_input \<times> fr fpvar list) comp" where
  "synthesize_step self B D z batch =
     bind (map_m (\<lambda>i. fp_new_variable (case z of Inl e \<Rightarrow> Inl e | Inr zs \<Rightarrow> Inr (zs ! i)) Witness_Mode)
       [0..<state_len self]) (\<lambda>z_var.
     bind (epoch_step_input_new_variable B D batch Witness_Mode) (\<lambda>ext.
     bind (generate_step_constraints fr_field self B z_var ext) (\<lambda>z_next. ret (z_var, ext, z_next))))"

lemma sound_state_vars:
  "sound (map_m (\<lambda>i. fp_new_variable (g i) Witness_Mode) [0..<3])
     (\<lambda>w z. length z = 3 \<and> \<not> fp_is_constant (z ! 0))"
proof (rule sound_weaken[OF sound_map_m[OF sound_fp_new_var]])
  fix w :: "variable \<Rightarrow> 'a" and z
  assume "list_all2 (\<lambda>x y. Witness_Mode = Constant_Mode \<or> \<not> fp_is_constant y) [0..<3] z"
  then show "length z = 3 \<and> \<not> fp_is_constant (z ! 0)"
    by (simp add: list_all2_conv_all_nth)
qed

lemma sound_epoch_step_input:
  "sound (epoch_step_input_new_variable B D f Witness_Mode)
     (\<lambda>w inp. length (ops inp) = B \<and> list_all (op_shape D) (ops inp) \<and> list_all (op_good w) (ops inp))"
proof -
  have "sound (map_m (\<lambda>i. op_new_variable D (g i) Witness_Mode) [0..<B])
      (\<lambda>w os. list_all2 (\<lambda>i op. op_good w op \<and> op_shape D op) [0..<B] os)" for g
    by (rule sound_map_m, rule sound_weaken[OF sound_op_new_variable]) auto
  then show ?thesis
    unfolding epoch_step_input_new_variable_def Let_def
    by (rule sound_bind, intro sound_ret) (auto simp: list_all2_conv_all_nth list_all_length)
qed

text \<open>
  C27. The range proof of 96 bits is a real one: an assignment satisfies \<^verbatim>\<open>enforce_bit_width\<close> only
  if the integer below the modulus that the variable denotes is below \<open>2 ^ k\<close>.
\<close>

theorem bit_width_sound:
  "sound (enforce_bit_width fr_field x k) (\<lambda>w _. fr_int (fp_val w x) < 2 ^ k)"
  by (rule sound_enforce_bit_width)

definition step_accepted ::
  "fr poseidon_config \<Rightarrow> nat \<Rightarrow> nat \<Rightarrow> (variable \<Rightarrow> fr)
   \<Rightarrow> fr fpvar list \<times> fr op_witness_var epoch_step_input \<times> fr fpvar list \<Rightarrow> bool" where
  "step_accepted cfg B D w = (\<lambda>(z, inp, z').
     length (ops inp) = B \<and> list_all (op_shape D) (ops inp) \<and> (\<exists>a b c a' b' c'.
       map (fp_val w) z = [a, b, c] \<and> map (fp_val w) z' = [a', b', c']
       \<and> step_check \<lparr>config = cfg\<rparr> (map (op_val w) (ops inp)) (a, b, c) = Inr (a', b', c')))"

lemma step_is_sound:
  "sound (synthesize_step \<lparr>circuit_config = cfg\<rparr> B D z batch) (step_accepted cfg B D)"
proof -
  have state: "length z = 3 \<Longrightarrow> map (fp_val w) z = [fp_val w (z ! 0), fp_val w (z ! 1), fp_val w (z ! 2)]"
    for w :: "variable \<Rightarrow> fr" and z
    by (auto simp: numeral_3_eq_3 numeral_2_eq_2 length_Suc_conv)
  show ?thesis
    unfolding synthesize_step_def state_len_def state_len_const_def
    by (rule sound_bind[OF sound_state_vars], rule sound_bind[OF sound_epoch_step_input],
        rule sound_bind[OF sound_generate_step_constraints], rule sound_ret)
      (auto simp: step_accepted_def state)
qed

text \<open>
  C1. Soundness of the step.  Whatever values a prover assigns to the allocated state and
  operations, if all constraints of one step are satisfied then the batch has exactly \<open>B\<close>
  operations with paths of length \<open>D\<close>, and the native check accepts the assigned operations on
  the assigned state and leads to the assigned next state.
\<close>

theorem step_sound:
  "sound (synthesize_step \<lparr>circuit_config = cfg\<rparr> B D z batch) (step_accepted cfg B D)"
  by (rule step_is_sound)

lemma ops_mono: "cs_extends cs cs' \<Longrightarrow> list_all2 (op_is cs) vs os \<Longrightarrow> list_all2 (op_is cs') vs os"
  by (erule list_all2_mono) (rule op_is_mono)

lemma step_completes_all:
  assumes "length (ops inp) = B" "list_all (op_shape D) (ops inp)"
    and "step_check \<lparr>config = cfg\<rparr> (map field_op (ops inp)) (a, b, c) = Inr (a', b', c')"
  shows "complete cs (synthesize_step \<lparr>circuit_config = cfg\<rparr> B D (Inr [a, b, c]) (Inr inp))
    (\<lambda>(z, ext, z') cs'. list_all2 (fp_is cs') z [a, b, c] \<and> list_all2 (op_is cs') (ops ext) (map field_op (ops inp))
      \<and> list_all2 (fp_is cs') z' [a', b', c'])"
proof -
  have upt: "[0..<state_len \<lparr>circuit_config = cfg\<rparr>] = [0, 1, 2]"
    by (simp add: state_len_def state_len_const_def upt_rec)
  have news: "complete cs (map_m (\<lambda>i. fp_new_variable (Inr ([a, b, c] ! i)) Witness_Mode) [0, 1, 2])
      (\<lambda>ys cs'. list_all2 (fp_is cs') ys [a, b, c])"
    by (rule complete_map_m_values[where P = "\<lambda>_ i v. v = [a, b, c] ! i"])
      (auto intro: complete_fp_new_variable fp_is_mono)
  have len: "length (map field_op (ops inp)) = B" using assms(1) by simp
  show ?thesis
    unfolding synthesize_step_def upt sum.case
    by (rule complete_bind[OF news], rule complete_bind[OF complete_epoch_step_input[OF assms(1,2)]],
        rule complete_bind[OF complete_generate_step_constraints[OF _ _ len assms(3)]])
      (auto intro: fps_mono ops_mono complete_ret)
qed

lemma step_completes:
  assumes "length (ops inp) = B" "list_all (op_shape D) (ops inp)"
    and "step_check \<lparr>config = cfg\<rparr> (map field_op (ops inp)) (a, b, c) = Inr (a', b', c')"
  shows "complete cs (synthesize_step \<lparr>circuit_config = cfg\<rparr> B D (Inr [a, b, c]) (Inr inp))
    (\<lambda>(z, ext, z') cs'. list_all2 (fp_is cs') z' [a', b', c'])"
  by (rule complete_weaken[OF step_completes_all[OF assms]]) auto

text \<open>
  C6. Completeness of the step.  Whenever the native check accepts a batch, the honest prover can
  synthesize the step on any satisfied system: the synthesis returns, every constraint it adds is
  satisfied, and the output variables carry the next state of the check.
\<close>

theorem step_complete:
  assumes "length (ops inp) = B" "list_all (op_shape D) (ops inp)"
    and "step_check \<lparr>config = cfg\<rparr> (map field_op (ops inp)) (a, b, c) = Inr (a', b', c')"
  shows "complete cs (synthesize_step \<lparr>circuit_config = cfg\<rparr> B D (Inr [a, b, c]) (Inr inp))
    (\<lambda>(z, ext, z') cs'. list_all2 (fp_is cs') z' [a', b', c'])"
  by (rule step_completes[OF assms])

lemma path_root_total:
  assumes "config_wf cfg"
  shows "\<exists>h. path_root (native_h2 fr_field \<lparr>config = cfg\<rparr>) ss x = Inr h"
proof (induction ss arbitrary: x)
  case (Cons s ss)
  obtain a b where s: "s = (a, b)" by fastforce
  have "\<exists>h. native_h2 fr_field \<lparr>config = cfg\<rparr> u v = Inr h" for u v
    using native_h2_total[of "\<lparr>config = cfg\<rparr>"] assms by simp
  then obtain h where "path_step (native_h2 fr_field \<lparr>config = cfg\<rparr>) s x = Inr h"
    by (cases b) (auto simp: s)
  with Cons.IH show ?case by simp
qed simp

lemma leaf_root_total:
  assumes "config_wf cfg"
  shows "\<exists>h. leaf_root \<lparr>config = cfg\<rparr> k t b n sibs bits = Inr h"
  using path_root_total[OF assms] by (simp add: leaf_root_def native_arity native_hn_spec[OF assms])

lemma padding_check:
  assumes "config_wf cfg"
  shows "op_check \<lparr>config = cfg\<rparr> (field_op (padding D)) s = Inr s"
proof -
  have root: "\<exists>h. leaf_root \<lparr>config = cfg\<rparr> k t b n sibs bits = Inr h" for k t b n sibs bits
    using leaf_root_total[OF assms] .
  obtain h1 h2 where
    "leaf_root \<lparr>config = cfg\<rparr> 0 0 0 0 (replicate D 0) (replicate D False) = Inr h1"
    "leaf_root \<lparr>config = cfg\<rparr> 0 0 0 (0 + 1) (replicate D 0) (replicate D False) = Inr h2"
    using root by blast
  moreover have "in_range 0" by (simp add: in_range_def fr_int_simps)
  ultimately show ?thesis
    by (cases s) (simp add: op_check_def debit_check_def credit_check_def ops_check_def nets_check_def
      field_op_def padding_def guard_def native_arity native_hn_spec[OF assms])
qed

lemma default_batch_check:
  assumes "config_wf cfg"
  shows "step_check \<lparr>config = cfg\<rparr> (map field_op (ops (epoch_step_input_default B D))) s = Inr s"
proof -
  have "result_fold (op_check \<lparr>config = cfg\<rparr>) (map (\<lambda>_. field_op (padding D)) xs) s = Inr s" for xs :: "nat list"
    by (induction xs) (simp_all add: padding_check[OF assms])
  then show ?thesis by (simp add: step_check_def epoch_step_input_default_def comp_def)
qed

lemma default_batch_shape:
  "length (ops (epoch_step_input_default B D)) = B" "list_all (op_shape D) (ops (epoch_step_input_default B D))"
  by (simp_all add: epoch_step_input_default_def list_all_iff op_shape_def padding_def)

text \<open>
  C34. A batch of inactive operations is a no-op: from any state whatsoever, the check accepts a
  batch of padding operations and leaves all three components of the state as they are.
\<close>

theorem inactive_batch_noop:
  assumes "config_wf cfg"
  shows "step_check \<lparr>config = cfg\<rparr> (map field_op (ops (epoch_step_input_default B D))) s = Inr s"
  by (rule default_batch_check[OF assms])

theorem step_complete_witness:
  "\<exists>z ext z' cs'. synthesize_step \<lparr>circuit_config = toy_config\<rparr> 4 10 (Inr [123, 456, 789])
       (Inr (epoch_step_input_default 4 10)) cs_new = Inr ((z, ext, z'), cs')
     \<and> is_satisfied cs' = Inr True \<and> list_all2 (fp_is cs') z' [123, 456, 789]"
proof -
  let ?inp = "epoch_step_input_default 4 10 :: fr op_witness epoch_step_input"
  obtain x cs' where 1: "synthesize_step \<lparr>circuit_config = toy_config\<rparr> 4 10 (Inr [123, 456, 789]) (Inr ?inp) cs_new = Inr (x, cs')"
      "honest cs'" "(case x of (z, ext, z') \<Rightarrow> \<lambda>cs'. list_all2 (fp_is cs') z' [123, 456, 789]) cs'"
    by (rule completeE[OF step_complete[OF default_batch_shape default_batch_check[OF toy_config_wf(1)]] honest_new])
  have "is_satisfied cs' = Inr True" using 1(2) by (simp add: is_satisfied_tracked honest_models)
  with 1(1,3) show ?thesis by (cases x) auto
qed

theorem inactive_batch_noop_witness:
  "step_check \<lparr>config = toy_config\<rparr> (map field_op (ops (epoch_step_input_default 4 10))) (123, 456, 789)
     = Inr (123, 456, 789)"
  by (rule inactive_batch_noop[OF toy_config_wf(1)])

end
