(* ===== verification/Ledger_Semantics.thy ===== *)
theory Ledger_Semantics
  imports Ledger_Circuit
begin

text \<open>
  What a step means.  The abstract ledger is a map from slots to accounts; an operation moves an
  amount from one account to another.  A tree \<open>commits\<close> to a ledger when its leaves are the hashes
  of the accounts.  The refinement theorem says that an operation the circuit accepts on the root
  of a tree is a valid transfer of the ledger the tree commits to, unless it exhibits a break of
  the hash, which \<open>follow_op\<close> computes: a collision, or an account that hashes to the empty leaf.
  No property of the hash is assumed.
\<close>

section \<open>The abstract ledger\<close>

record account =
  acc_key :: fr
  acc_token :: fr
  acc_balance :: fr
  acc_nonce :: fr

type_synonym ledger = "64 word \<rightharpoonup> account"

definition slot_of :: "bool list \<Rightarrow> 64 word" where
  "slot_of bits = of_nat (bits_value bits)"

definition debit :: "64 word \<Rightarrow> fr op_values \<Rightarrow> ledger \<Rightarrow> ledger option" where
  "debit i op L = (case L i of None \<Rightarrow> None | Some a \<Rightarrow>
     if acc_key a = from_key op \<and> acc_token a = token_id op \<and> acc_nonce a = nonce op
        \<and> fr_int (amount op) \<le> fr_int (acc_balance a)
     then Some (L(i \<mapsto> a\<lparr>acc_balance := acc_balance a - amount op, acc_nonce := acc_nonce a + 1\<rparr>))
     else None)"

definition credit :: "64 word \<Rightarrow> fr op_values \<Rightarrow> ledger \<Rightarrow> ledger option" where
  "credit i op L = (case L i of None \<Rightarrow> None | Some a \<Rightarrow>
     if acc_key a = to_key op \<and> acc_token a = token_id op
        \<and> fr_int (acc_balance a) + fr_int (amount op) < 2 ^ VALUE_BITS
     then Some (L(i \<mapsto> a\<lparr>acc_balance := acc_balance a + amount op\<rparr>))
     else None)"

definition apply_op :: "fr op_values \<Rightarrow> ledger \<Rightarrow> ledger option" where
  "apply_op op L =
    (if \<not> active op then Some L
     else if \<not> in_range (amount op) then None
     else case debit (slot_of (from_index_bits op)) op L of None \<Rightarrow> None
       | Some L1 \<Rightarrow> credit (slot_of (to_index_bits op)) op L1)"

text \<open>A run of the ledger over a sequence of operations.\<close>

inductive ledger_run :: "ledger \<Rightarrow> fr op_values list \<Rightarrow> ledger \<Rightarrow> bool" where
  ledger_run_Nil: "ledger_run L [] L"
| ledger_run_Cons: "apply_op op L = Some L1 \<Longrightarrow> ledger_run L1 ops' L2 \<Longrightarrow> ledger_run L (op # ops') L2"

inductive_cases ledger_run_ConsE: "ledger_run L (op # ops') L'"
inductive_cases ledger_run_NilE: "ledger_run L [] L'"

text \<open>Every balance fits in the 96 bits of a value.\<close>

definition balances_ok :: "ledger \<Rightarrow> bool" where
  "balances_ok L \<longleftrightarrow> (\<forall>a\<in>ran L. in_range (acc_balance a))"

text \<open>The supply of a token.\<close>

definition holding :: "fr \<Rightarrow> account option \<Rightarrow> int" where
  "holding token x = (case x of None \<Rightarrow> 0 | Some a \<Rightarrow> if acc_token a = token then fr_int (acc_balance a) else 0)"

definition total_supply :: "fr \<Rightarrow> ledger \<Rightarrow> int" where
  "total_supply token L = (\<Sum>i\<in>UNIV. holding token (L i))"

section \<open>Arithmetic within the range\<close>

lemma value_bits_small: "2 ^ VALUE_BITS + 2 ^ VALUE_BITS < int fr_modulus"
  by (simp add: VALUE_BITS_def fr_modulus_def)

lemma fr_int_diff:
  "fr_int y \<le> fr_int x \<Longrightarrow> fr_int (x - y) = fr_int x - fr_int y"
  using fr_int_bounds[of x] fr_int_bounds[of y] by (simp add: fr_int_simps)

lemma fr_int_sum:
  "fr_int x + fr_int y < int fr_modulus \<Longrightarrow> fr_int (x + y) = fr_int x + fr_int y"
  using fr_int_bounds[of x] fr_int_bounds[of y] by (simp add: fr_int_simps)

text \<open>The solvency check: three range checks exclude a wrapped difference.\<close>

lemma solvency:
  assumes "in_range a" "in_range b"
  shows "in_range (b - a) \<longleftrightarrow> fr_int a \<le> fr_int b"
proof
  assume d: "in_range (b - a)"
  show "fr_int a \<le> fr_int b"
  proof (rule ccontr)
    assume neg: "\<not> fr_int a \<le> fr_int b"
    have "fr_int (b - a) = (fr_int b - fr_int a + int fr_modulus) mod int fr_modulus"
      by (simp add: fr_int_simps)
    also have "\<dots> = fr_int b - fr_int a + int fr_modulus"
      using neg fr_int_bounds[of a] fr_int_bounds[of b] by (intro mod_pos_pos_trivial) simp_all
    finally have "fr_int (b - a) = fr_int b - fr_int a + int fr_modulus" .
    with d assms value_bits_small fr_int_bounds[of b] show False by (simp add: in_range_def)
  qed
next
  assume "fr_int a \<le> fr_int b"
  then show "in_range (b - a)" using fr_int_diff[of a b] assms fr_int_bounds[of a] by (simp add: in_range_def)
qed

lemma credit_range:
  assumes "in_range a" "in_range b"
  shows "in_range (b + a) \<longleftrightarrow> fr_int b + fr_int a < 2 ^ VALUE_BITS"
  using assms value_bits_small fr_int_sum[of b a] by (simp add: in_range_def)

text \<open>An operation whose sender can pay, in the 96 bits of a value.\<close>

definition solvent :: "fr op_values \<Rightarrow> bool" where
  "solvent op \<longleftrightarrow> in_range (amount op) \<and> in_range (from_old_balance op) \<and> fr_int (amount op) \<le> fr_int (from_old_balance op)"

lemma step_check_solvent: "step_check pn os s = Inr s' \<Longrightarrow> list_all solvent os"
proof (induction os arbitrary: s)
  case (Cons op os)
  obtain s1 where "op_check pn op s = Inr s1" and rest: "step_check pn os s1 = Inr s'"
    using Cons.prems by (auto simp: step_check_def result_bind_Inr_iff)
  then have "in_range (amount op) \<and> in_range (from_old_balance op) \<and> in_range (from_old_balance op - amount op)"
    by (cases s) (auto simp: op_check_def debit_check_def result_bind_Inr_iff)
  then show ?case using Cons.IH[OF rest] solvency[of "amount op" "from_old_balance op"] by (simp add: solvent_def)
qed simp

section \<open>Conservation\<close>

lemma supply_update:
  "total_supply token (L(i \<mapsto> a)) = total_supply token L - holding token (L i) + holding token (Some a)"
proof -
  have "total_supply token M = holding token (M i) + (\<Sum>j\<in>UNIV - {i}. holding token (M j))" for M
    unfolding total_supply_def by (rule sum.remove) simp_all
  from this[of L] this[of "L(i \<mapsto> a)"] show ?thesis by simp
qed

lemma debit_supply:
  assumes "debit i op L = Some L'"
  shows "total_supply token L' = total_supply token L - (if token = token_id op then fr_int (amount op) else 0)"
  using assms by (auto simp: debit_def supply_update holding_def fr_int_diff split: option.splits if_splits)

lemma credit_supply:
  assumes "credit i op L = Some L'"
  shows "total_supply token L' = total_supply token L + (if token = token_id op then fr_int (amount op) else 0)"
  using assms value_bits_small
  by (auto simp: credit_def supply_update holding_def fr_int_sum split: option.splits if_splits)

lemma apply_op_supply: "apply_op op L = Some L' \<Longrightarrow> total_supply token L' = total_supply token L"
  by (auto simp: apply_op_def split: if_splits option.splits dest!: debit_supply[of _ _ _ _ token] credit_supply[of _ _ _ _ token])

lemma ledger_run_supply: "ledger_run L os L' \<Longrightarrow> total_supply token L' = total_supply token L"
  by (induction rule: ledger_run.induct) (simp_all add: apply_op_supply)

lemma balances_okD: "balances_ok L \<Longrightarrow> L i = Some a \<Longrightarrow> in_range (acc_balance a)"
  by (auto simp: balances_ok_def ran_def)

lemma balances_ok_upd: "balances_ok L \<Longrightarrow> in_range (acc_balance a) \<Longrightarrow> balances_ok (L(i \<mapsto> a))"
  by (auto simp: balances_ok_def ran_def)

lemma debit_balances: "balances_ok L \<Longrightarrow> debit i op L = Some L' \<Longrightarrow> balances_ok L'"
  using fr_int_bounds[of "amount op"]
  by (fastforce simp: debit_def fr_int_diff in_range_def split: option.splits if_splits
      intro!: balances_ok_upd dest: balances_okD)

lemma credit_balances: "balances_ok L \<Longrightarrow> credit i op L = Some L' \<Longrightarrow> balances_ok L'"
  using value_bits_small
  by (fastforce simp: credit_def fr_int_sum in_range_def split: option.splits if_splits
      intro!: balances_ok_upd)

lemma apply_op_balances: "balances_ok L \<Longrightarrow> apply_op op L = Some L' \<Longrightarrow> balances_ok L'"
  by (auto simp: apply_op_def split: if_splits option.splits intro: debit_balances credit_balances)

section \<open>Commitments\<close>

definition account_leaf :: "fr poseidon_native \<Rightarrow> account \<Rightarrow> fault + fr" where
  "account_leaf pn a = native_h4 fr_field pn (acc_key a) (acc_token a) (acc_balance a) (acc_nonce a)"

definition leaf_commits :: "fr poseidon_native \<Rightarrow> account option \<Rightarrow> fr \<Rightarrow> bool" where
  "leaf_commits pn x h \<longleftrightarrow> (case x of None \<Rightarrow> h = 0 | Some a \<Rightarrow> account_leaf pn a = Inr h)"

definition commits :: "fr poseidon_native \<Rightarrow> nat \<Rightarrow> fr merkle_tree \<Rightarrow> ledger \<Rightarrow> bool" where
  "commits pn D t L \<longleftrightarrow> tree_wf fr_field t \<and> poseidon t = pn \<and> depth t = D \<and> D \<le> 64
     \<and> (\<forall>i. leaf_commits pn (L i) (node_val t 0 i))"

text \<open>Writing an account: the leaf of the tree and the entry of the ledger.\<close>

definition write_account ::
  "fr poseidon_native \<Rightarrow> 64 word \<Rightarrow> account \<Rightarrow> fr merkle_tree \<times> ledger \<Rightarrow> fr merkle_tree \<times> ledger" where
  "write_account pn i a = (\<lambda>(t, L).
     case result_bind (account_leaf pn a) (\<lambda>h. set_leaf fr_field i h t) of
       Inl _ \<Rightarrow> (t, L) | Inr t' \<Rightarrow> (t', L(i \<mapsto> a)))"

section \<open>Breaks of the hash\<close>

datatype hash_break =
    Node_Collision "(fr \<times> fr) \<times> (fr \<times> fr)"
  | Leaf_Collision account account
  | Empty_Leaf account

definition is_break :: "fr poseidon_native \<Rightarrow> hash_break \<Rightarrow> bool" where
  "is_break pn b = (case b of
     Node_Collision p \<Rightarrow> is_collision (native_h2 fr_field pn) p
   | Leaf_Collision a a' \<Rightarrow> a \<noteq> a' \<and> (\<exists>h. account_leaf pn a = Inr h \<and> account_leaf pn a' = Inr h)
   | Empty_Leaf a \<Rightarrow> account_leaf pn a = Inr 0)"

text \<open>Whether an opening of account \<open>a\<close> at slot \<open>i\<close> breaks the hash, given the tree and its ledger.\<close>

definition tree_siblings :: "fr merkle_tree \<Rightarrow> 64 word \<Rightarrow> fr list" where
  "tree_siblings t i = map (\<lambda>l. node_val t l (drop_bit l i XOR 1)) [0..<depth t]"

definition opening_break ::
  "fr poseidon_native \<Rightarrow> fr merkle_tree \<times> ledger \<Rightarrow> account \<Rightarrow> fr list \<Rightarrow> bool list \<Rightarrow> hash_break option" where
  "opening_break pn = (\<lambda>(t, L) a sibs bits.
     case account_leaf pn a of Inl _ \<Rightarrow> None
     | Inr h \<Rightarrow>
       (case path_collision (native_h2 fr_field pn) sibs (tree_siblings t (slot_of bits)) bits h
               (node_val t 0 (slot_of bits)) of
          Some p \<Rightarrow> Some (Node_Collision p)
        | None \<Rightarrow> (case L (slot_of bits) of
              None \<Rightarrow> Some (Empty_Leaf a)
            | Some a' \<Rightarrow> if a = a' then None else Some (Leaf_Collision a a'))))"

text \<open>The accounts an operation claims to open.\<close>

definition from_account :: "fr op_values \<Rightarrow> account" where
  "from_account op = \<lparr>acc_key = from_key op, acc_token = token_id op, acc_balance = from_old_balance op,
     acc_nonce = from_old_nonce op\<rparr>"

definition to_account :: "fr op_values \<Rightarrow> account" where
  "to_account op = \<lparr>acc_key = to_key op, acc_token = token_id op, acc_balance = to_old_balance op,
     acc_nonce = to_old_nonce op\<rparr>"

definition debited :: "fr op_values \<Rightarrow> account" where
  "debited op = (from_account op)\<lparr>acc_balance := from_old_balance op - amount op, acc_nonce := from_old_nonce op + 1\<rparr>"

definition credited :: "fr op_values \<Rightarrow> account" where
  "credited op = (to_account op)\<lparr>acc_balance := to_old_balance op + amount op\<rparr>"

text \<open>Follow an operation in the tree and the ledger, until it breaks the hash.\<close>

definition follow_op ::
  "fr poseidon_native \<Rightarrow> fr op_values \<Rightarrow> fr merkle_tree \<times> ledger \<Rightarrow> hash_break + fr merkle_tree \<times> ledger" where
  "follow_op pn op s =
    (if \<not> active op then Inr s
     else case opening_break pn s (from_account op) (from_siblings op) (from_index_bits op) of
       Some b \<Rightarrow> Inl b
     | None \<Rightarrow>
       (let s1 = write_account pn (slot_of (from_index_bits op)) (debited op) s in
        case opening_break pn s1 (to_account op) (to_siblings op) (to_index_bits op) of
          Some b \<Rightarrow> Inl b
        | None \<Rightarrow> Inr (write_account pn (slot_of (to_index_bits op)) (credited op) s1)))"

section \<open>Refinement\<close>

lemma bit_slot_of: "length bits \<le> 64 \<Longrightarrow> bit (slot_of bits) l \<longleftrightarrow> l < length bits \<and> bits ! l"
  by (auto simp: slot_of_def bit_simps bit_horner_sum_bit_iff)

lemma slot_of_range: "length bits \<le> 64 \<Longrightarrow> drop_bit (length bits) (slot_of bits) = 0"
  by (rule bit_word_eqI) (simp add: bit_drop_bit_eq bit_slot_of)

lemma slot_bits: "length bits \<le> 64 \<Longrightarrow> map (bit (slot_of bits)) [0..<length bits] = bits"
  by (rule nth_equalityI) (simp_all add: bit_slot_of)

lemma tree_path:
  assumes "commits pn D t L" "length bits = D"
  shows "path_root (native_h2 fr_field pn) (zip (tree_siblings t (slot_of bits)) bits) (node_val t 0 (slot_of bits))
     = Inr (node_val t D 0)"
proof -
  have c: "tree_wf fr_field t" "poseidon t = pn" "depth t = D" "D \<le> 64" using assms by (simp_all add: commits_def)
  have "zip (tree_siblings t (slot_of bits)) bits = path_of t (slot_of bits)"
    using slot_bits[of bits] assms c by (simp add: tree_siblings_def path_of_def flip: zip_path)
  then show ?thesis
    using path_of_root[OF c(1), of "slot_of bits"] slot_of_range[of bits] c assms by simp
qed

text \<open>An opening of the root opens the account the ledger has, or breaks the hash.\<close>

lemma opening_sound:
  assumes c: "commits pn D t L" and len: "length sibs = D" "length bits = D"
    and leaf: "account_leaf pn a = Inr h"
    and path: "path_root (native_h2 fr_field pn) (zip sibs bits) h = Inr (node_val t D 0)"
  shows "case opening_break pn (t, L) a sibs bits of Some b \<Rightarrow> is_break pn b
    | None \<Rightarrow> L (slot_of bits) = Some a \<and> sibs = tree_siblings t (slot_of bits)"
proof -
  let ?i = "slot_of bits"
  let ?c = "path_collision (native_h2 fr_field pn) sibs (tree_siblings t ?i) bits h (node_val t 0 ?i)"
  show ?thesis
  proof (cases ?c)
    case (Some p)
    then show ?thesis
      using path_collision_is_collision by (simp add: opening_break_def leaf is_break_def)
  next
    case None
    have "length (tree_siblings t ?i) = length bits" using c len by (simp add: tree_siblings_def commits_def)
    then have eq: "h = node_val t 0 ?i" "sibs = tree_siblings t ?i"
      using path_binding[OF _ _ path tree_path[OF c len(2)] None] len by simp_all
    have lc: "leaf_commits pn (L ?i) h" using c eq(1) by (simp add: commits_def)
    show ?thesis
      using None lc leaf eq(2)
      by (auto simp: opening_break_def is_break_def leaf_commits_def split: option.splits)
  qed
qed

text \<open>Writing an account at a slot gives the root the path leads to.\<close>

lemma write_account_commits:
  assumes c: "commits pn D t L" and cfg: "config_wf (config pn)" and len: "length bits = D"
    and w: "write_account pn (slot_of bits) a (t, L) = (t', L')"
  shows "commits pn D t' L' \<and> L' = L(slot_of bits \<mapsto> a)
    \<and> (\<exists>h. account_leaf pn a = Inr h \<and> path_root (native_h2 fr_field pn)
         (zip (tree_siblings t (slot_of bits)) bits) h = Inr (node_val t' D 0))"
proof -
  let ?i = "slot_of bits"
  have c': "tree_wf fr_field t" "poseidon t = pn" "depth t = D" using c by (simp_all add: commits_def)
  obtain h where h: "account_leaf pn a = Inr h"
    using native_hn_spec[OF cfg] by (cases pn) (simp add: account_leaf_def native_arity)
  obtain u where u: "set_leaf fr_field ?i h t = Inr u"
    using set_leaf_total[OF c'(1)] cfg c'(2) by blast
  have tL: "t' = u" "L' = L(?i \<mapsto> a)" using w h u by (simp_all add: write_account_def)
  note s = set_leaf_correct[OF c'(1) u]
  have com: "commits pn D t' L'"
    unfolding commits_def tL
  proof (intro conjI allI)
    show "tree_wf fr_field u" by (rule s(1))
    show "poseidon u = pn" "depth u = D" "D \<le> 64" using s(2) c' c by (simp_all add: same_shape_def commits_def)
    fix j
    show "leaf_commits pn ((L(?i \<mapsto> a)) j) (node_val u 0 j)"
    proof (cases "j = ?i")
      case True
      then show ?thesis using s(3) h by (simp add: leaf_commits_def)
    next
      case False
      then have "node_val u 0 j = node_val t 0 j" using s(4)[of j 0] by simp
      with False c show ?thesis by (simp add: commits_def)
    qed
  qed
  moreover have "tree_siblings u ?i = tree_siblings t ?i"
    using s(2,4) by (simp add: tree_siblings_def same_shape_def)
  ultimately show ?thesis using tree_path[OF com len] h s(3) tL by auto
qed

lemma leaf_root_account:
  "leaf_root pn k tok b n sibs bits = result_bind (account_leaf pn \<lparr>acc_key = k, acc_token = tok, acc_balance = b, acc_nonce = n\<rparr>)
     (path_root (native_h2 fr_field pn) (zip sibs bits))"
  by (simp add: leaf_root_def account_leaf_def)

lemma active_checks:
  assumes "op_check pn op (rt, oacc, nacc) = Inr (rt', oacc', nacc')" "active op"
  obtains inter where
    "result_bind (account_leaf pn (from_account op)) (path_root (native_h2 fr_field pn) (zip (from_siblings op) (from_index_bits op))) = Inr rt"
    "result_bind (account_leaf pn (debited op)) (path_root (native_h2 fr_field pn) (zip (from_siblings op) (from_index_bits op))) = Inr inter"
    "result_bind (account_leaf pn (to_account op)) (path_root (native_h2 fr_field pn) (zip (to_siblings op) (to_index_bits op))) = Inr inter"
    "result_bind (account_leaf pn (credited op)) (path_root (native_h2 fr_field pn) (zip (to_siblings op) (to_index_bits op))) = Inr rt'"
    "in_range (amount op)" "in_range (from_old_balance op)" "in_range (from_old_balance op - amount op)"
    "in_range (to_old_balance op + amount op)" "nonce op = from_old_nonce op"
proof -
  obtain inter where d: "debit_check pn op rt = Inr inter" and c: "credit_check pn op inter = Inr rt'"
    using assms(1) by (auto simp: op_check_def result_bind_Inr_iff)
  have "leaf_root pn (from_key op) (token_id op) (from_old_balance op) (from_old_nonce op) (from_siblings op) (from_index_bits op) = Inr rt"
    "leaf_root pn (from_key op) (token_id op) (from_old_balance op - amount op) (from_old_nonce op + 1)
       (from_siblings op) (from_index_bits op) = Inr inter"
    "in_range (amount op)" "in_range (from_old_balance op)" "in_range (from_old_balance op - amount op)"
    "nonce op = from_old_nonce op"
    using d assms(2) by (auto simp: debit_check_def result_bind_Inr_iff)
  moreover have "leaf_root pn (to_key op) (token_id op) (to_old_balance op) (to_old_nonce op) (to_siblings op) (to_index_bits op) = Inr inter"
    "leaf_root pn (to_key op) (token_id op) (to_old_balance op + amount op) (to_old_nonce op) (to_siblings op) (to_index_bits op) = Inr rt'"
    "in_range (to_old_balance op + amount op)"
    using c assms(2) by (auto simp: credit_check_def result_bind_Inr_iff)
  ultimately show thesis
    by (intro that) (simp_all add: leaf_root_account from_account_def to_account_def debited_def credited_def)
qed

definition follows :: "fr poseidon_native \<Rightarrow> nat \<Rightarrow> fr \<Rightarrow> (ledger \<Rightarrow> bool) \<Rightarrow> hash_break + fr merkle_tree \<times> ledger \<Rightarrow> bool" where
  "follows pn D rt P r \<longleftrightarrow> (case r of Inl b \<Rightarrow> is_break pn b
     | Inr (t, L) \<Rightarrow> commits pn D t L \<and> balances_ok L \<and> node_val t D 0 = rt \<and> P L)"

lemma op_refines_transfer:
  assumes c: "commits pn D t L" and ok: "balances_ok L" and cfg: "config_wf (config pn)" and shape: "op_shape D op"
    and check: "op_check pn op (node_val t D 0, oacc, nacc) = Inr (rt', oacc', nacc')"
  shows "follows pn D rt' (\<lambda>L'. apply_op op L = Some L') (follow_op pn op (t, L))"
proof (cases "active op")
  case False
  then have "rt' = node_val t D 0"
    using check by (auto simp: op_check_def debit_check_def credit_check_def result_bind_Inr_iff)
  with False c ok show ?thesis by (simp add: follow_op_def follows_def apply_op_def)
next
  case True
  let ?fi = "slot_of (from_index_bits op)" and ?ti = "slot_of (to_index_bits op)"
  have len: "length (from_siblings op) = D" "length (from_index_bits op) = D"
    "length (to_siblings op) = D" "length (to_index_bits op) = D" using shape by (simp_all add: op_shape_def)
  from check True obtain inter h1 h2 h3 h4 where
      leafs: "account_leaf pn (from_account op) = Inr h1" "account_leaf pn (debited op) = Inr h2"
        "account_leaf pn (to_account op) = Inr h3" "account_leaf pn (credited op) = Inr h4"
      and paths: "path_root (native_h2 fr_field pn) (zip (from_siblings op) (from_index_bits op)) h1 = Inr (node_val t D 0)"
        "path_root (native_h2 fr_field pn) (zip (from_siblings op) (from_index_bits op)) h2 = Inr inter"
        "path_root (native_h2 fr_field pn) (zip (to_siblings op) (to_index_bits op)) h3 = Inr inter"
        "path_root (native_h2 fr_field pn) (zip (to_siblings op) (to_index_bits op)) h4 = Inr rt'"
      and range: "in_range (amount op)" "in_range (from_old_balance op)" "in_range (from_old_balance op - amount op)"
        "in_range (to_old_balance op + amount op)" "nonce op = from_old_nonce op"
    by (rule active_checks) (auto simp: result_bind_Inr_iff)
  show ?thesis
  proof (cases "opening_break pn (t, L) (from_account op) (from_siblings op) (from_index_bits op)")
    case (Some b)
    then show ?thesis
      using opening_sound[OF c len(1,2) leafs(1) paths(1)] True by (simp add: follow_op_def follows_def)
  next
    case None
    then have from': "L ?fi = Some (from_account op)" "from_siblings op = tree_siblings t ?fi"
      using opening_sound[OF c len(1,2) leafs(1) paths(1)] by simp_all
    obtain t1 L1 where w1: "write_account pn ?fi (debited op) (t, L) = (t1, L1)" by fastforce
    note c1 = write_account_commits[OF c cfg len(2) w1]
    have root1: "node_val t1 D 0 = inter" using c1 leafs(2) paths(2) from'(2) by auto
    have debit: "debit ?fi op L = Some L1"
      using from'(1) range solvency[OF range(1,2)] c1 by (simp add: debit_def from_account_def debited_def)
    show ?thesis
    proof (cases "opening_break pn (t1, L1) (to_account op) (to_siblings op) (to_index_bits op)")
      case (Some b)
      then have "is_break pn b"
        using opening_sound[OF conjunct1[OF c1] len(3,4) leafs(3)] paths(3) root1 by simp
      with Some None w1 True show ?thesis by (simp add: follow_op_def follows_def)
    next
      case None2: None
      then have to': "L1 ?ti = Some (to_account op)" "to_siblings op = tree_siblings t1 ?ti"
        using opening_sound[OF conjunct1[OF c1] len(3,4) leafs(3)] paths(3) root1 by simp_all
      obtain t2 L2 where w2: "write_account pn ?ti (credited op) (t1, L1) = (t2, L2)" by fastforce
      have c2: "commits pn D t2 L2" "node_val t2 D 0 = rt'" and L2: "L2 = L1(?ti \<mapsto> credited op)"
        using write_account_commits[OF conjunct1[OF c1] cfg len(4) w2] leafs(4) paths(4) to'(2) by auto
      have ok1: "balances_ok L1" using debit_balances[OF ok debit] .
      have "in_range (to_old_balance op)" using balances_okD[OF ok1 to'(1)] by (simp add: to_account_def)
      then have credit: "credit ?ti op L1 = Some L2"
        using to'(1) range(1,4) credit_range L2 by (simp add: credit_def to_account_def credited_def)
      with True None None2 w1 w2 c2 credit_balances[OF ok1 credit] debit range(1)
      show ?thesis by (simp add: follow_op_def follows_def apply_op_def)
    qed
  qed
qed

definition follow_ops ::
  "fr poseidon_native \<Rightarrow> fr op_values list \<Rightarrow> fr merkle_tree \<times> ledger \<Rightarrow> hash_break + fr merkle_tree \<times> ledger" where
  "follow_ops pn = result_fold (follow_op pn)"

lemma step_refines_run:
  assumes "commits pn D t L" "balances_ok L" "config_wf (config pn)" "list_all (op_shape D) os"
    and "step_check pn os (node_val t D 0, oacc, nacc) = Inr (rt', oacc', nacc')"
  shows "follows pn D rt' (\<lambda>L'. ledger_run L os L') (follow_ops pn os (t, L))"
  using assms
proof (induction os arbitrary: t L oacc nacc)
  case Nil
  then show ?case by (simp add: step_check_def follow_ops_def follows_def ledger_run_Nil)
next
  case (Cons op os)
  obtain r1 o1 n1 where check: "op_check pn op (node_val t D 0, oacc, nacc) = Inr (r1, o1, n1)"
      and rest: "step_check pn os (r1, o1, n1) = Inr (rt', oacc', nacc')"
    using Cons.prems(5) by (auto simp: step_check_def result_bind_Inr_iff)
  have one: "follows pn D r1 (\<lambda>L'. apply_op op L = Some L') (follow_op pn op (t, L))"
    by (rule op_refines_transfer[OF Cons.prems(1-3) _ check]) (use Cons.prems(4) in simp)
  show ?case
  proof (cases "follow_op pn op (t, L)")
    case (Inl b)
    with one show ?thesis by (simp add: follow_ops_def follows_def)
  next
    case (Inr s)
    obtain t1 L1 where s: "s = (t1, L1)" by fastforce
    with one Inr have 1: "commits pn D t1 L1" "balances_ok L1" "node_val t1 D 0 = r1" "apply_op op L = Some L1"
      by (simp_all add: follows_def)
    have "follows pn D rt' (\<lambda>L'. ledger_run L1 os L') (follow_ops pn os (t1, L1))"
      by (rule Cons.IH[OF 1(1,2) Cons.prems(3)]) (use Cons.prems(4) rest 1(3) in simp_all)
    then show ?thesis
      using Inr s 1(4) by (auto simp: follow_ops_def follows_def split: sum.splits intro: ledger_run_Cons)
  qed
qed

section \<open>Honest operations\<close>

text \<open>An operation whose openings come from the tree is accepted, and leads to the written tree.\<close>

lemma honest_root:
  assumes "commits pn D t L" "L (slot_of bits) = Some a" "length bits = D"
  shows "result_bind (account_leaf pn a) (path_root (native_h2 fr_field pn) (zip (tree_siblings t (slot_of bits)) bits))
     = Inr (node_val t D 0)"
proof -
  have "leaf_commits pn (L (slot_of bits)) (node_val t 0 (slot_of bits))" using assms(1) by (simp add: commits_def)
  then have "account_leaf pn a = Inr (node_val t 0 (slot_of bits))" using assms(2) by (simp add: leaf_commits_def)
  then show ?thesis using tree_path[OF assms(1,3)] by simp
qed

lemma honest_op_accepted:
  fixes op :: "fr op_values"
  defines "fi \<equiv> slot_of (from_index_bits op)" and "ti \<equiv> slot_of (to_index_bits op)"
  assumes c: "commits pn D t L" and cfg: "config_wf (config pn)" and shape: "op_shape D op" and act: "active op"
    and fr: "L fi = Some (from_account op)" "from_siblings op = tree_siblings t fi" "nonce op = from_old_nonce op"
    and w1: "write_account pn fi (debited op) (t, L) = (t1, L1)"
    and to': "L1 ti = Some (to_account op)" "to_siblings op = tree_siblings t1 ti"
    and w2: "write_account pn ti (credited op) (t1, L1) = (t2, L2)"
    and range: "in_range (amount op)" "in_range (from_old_balance op)" "in_range (from_old_balance op - amount op)"
      "in_range (to_old_balance op + amount op)"
    and acc: "ops_check pn op oacc = Inr oacc'" "nets_check pn op nacc = Inr nacc'"
  shows "op_check pn op (node_val t D 0, oacc, nacc) = Inr (node_val t2 D 0, oacc', nacc')"
proof -
  have len: "length (from_index_bits op) = D" "length (to_index_bits op) = D" using shape by (simp_all add: op_shape_def)
  note c1 = write_account_commits[OF c cfg len(1) w1[unfolded fi_def]]
  note c2 = write_account_commits[OF conjunct1[OF c1] cfg len(2) w2[unfolded ti_def]]
  have 1: "result_bind (account_leaf pn (from_account op)) (path_root (native_h2 fr_field pn)
      (zip (from_siblings op) (from_index_bits op))) = Inr (node_val t D 0)"
    using honest_root[OF c fr(1)[unfolded fi_def] len(1)] fr(2) by (simp add: fi_def)
  have 2: "result_bind (account_leaf pn (debited op)) (path_root (native_h2 fr_field pn)
      (zip (from_siblings op) (from_index_bits op))) = Inr (node_val t1 D 0)"
    using c1 fr(2) by (auto simp: fi_def)
  have 3: "result_bind (account_leaf pn (to_account op)) (path_root (native_h2 fr_field pn)
      (zip (to_siblings op) (to_index_bits op))) = Inr (node_val t1 D 0)"
    using honest_root[OF conjunct1[OF c1] to'(1)[unfolded ti_def] len(2)] to'(2) by (simp add: ti_def)
  have 4: "result_bind (account_leaf pn (credited op)) (path_root (native_h2 fr_field pn)
      (zip (to_siblings op) (to_index_bits op))) = Inr (node_val t2 D 0)"
    using c2 to'(2) by (auto simp: ti_def)
  have "debit_check pn op (node_val t D 0) = Inr (node_val t1 D 0)"
    using 1 2 fr(3) range act
    by (simp add: debit_check_def leaf_root_account from_account_def debited_def guard_def)
  moreover have "credit_check pn op (node_val t1 D 0) = Inr (node_val t2 D 0)"
    using 3 4 range act
    by (simp add: credit_check_def leaf_root_account to_account_def credited_def guard_def)
  ultimately show ?thesis using acc by (simp add: op_check_def)
qed

section \<open>Nonces\<close>

definition debits :: "64 word \<Rightarrow> fr op_values list \<Rightarrow> nat" where
  "debits i os = length (filter (\<lambda>op. active op \<and> slot_of (from_index_bits op) = i) os)"

lemma apply_op_nonce:
  assumes "apply_op op L = Some L'" "L i = Some a"
  shows "\<exists>a'. L' i = Some a' \<and> acc_nonce a' = acc_nonce a + of_nat (debits i [op])"
  using assms by (auto simp: apply_op_def debit_def credit_def debits_def split: if_splits option.splits)

lemma ledger_run_nonce:
  "ledger_run L os L' \<Longrightarrow> L i = Some a \<Longrightarrow>
   \<exists>a'. L' i = Some a' \<and> acc_nonce a' = acc_nonce a + of_nat (debits i os)"
proof (induction arbitrary: a rule: ledger_run.induct)
  case (ledger_run_Cons op L L1 os L2)
  obtain a1 where 1: "L1 i = Some a1" "acc_nonce a1 = acc_nonce a + of_nat (debits i [op])"
    using apply_op_nonce[OF ledger_run_Cons(1,4)] by blast
  obtain a2 where "L2 i = Some a2" "acc_nonce a2 = acc_nonce a1 + of_nat (debits i os)"
    using ledger_run_Cons.IH[OF 1(1)] by blast
  then show ?case using 1 by (simp add: debits_def)
qed (simp add: debits_def)

lemma fr_of_nat_neq_0: "0 < n \<Longrightarrow> n < fr_modulus \<Longrightarrow> (of_nat n :: fr) \<noteq> 0"
  by (metis fr_int_of_nat fr_int_simps(1) mod_pos_pos_trivial of_nat_0_eq_iff of_nat_0_le_iff
      of_nat_less_iff less_numeral_extra(3))

section \<open>Properties\<close>

text \<open>
  C28. The solvency check is exact.  In every satisfying assignment of a step, each operation, active or not, has an amount and
  a sender balance of 96 bits, the amount is at most the balance, and the balance the circuit hashes into the new leaf is
  the difference of the integers, although it is computed modulo the prime.  Conversely the debit asks nothing more of
  the amounts: an honest prover can synthesize it for every opening of the state root with the nonce of the account and an
  amount that is at most the balance, and its output is the root over the account with the difference.
\<close>

theorem solvency_exact:
  "sound (synthesize_step \<lparr>circuit_config = cfg\<rparr> B D z batch) (\<lambda>w (z, inp, z'). list_all (\<lambda>op. solvent (op_val w op)
      \<and> fr_int (fp_val w (from_old_balance op) - fp_val w (amount op)) = fr_int (fp_val w (from_old_balance op)) - fr_int (fp_val w (amount op)))
      (ops inp))
   \<and> (config_wf cfg \<and> op_is cs v op \<and> fp_is cs rt x \<and> solvent op \<and> nonce op = from_old_nonce op
      \<and> leaf_root \<lparr>config = cfg\<rparr> (from_key op) (token_id op) (from_old_balance op) (from_old_nonce op)
          (from_siblings op) (from_index_bits op) = Inr x
      \<longrightarrow> (\<exists>b y. fr_int b = fr_int (from_old_balance op) - fr_int (amount op)
        \<and> leaf_root \<lparr>config = cfg\<rparr> (from_key op) (token_id op) b (from_old_nonce op + 1) (from_siblings op) (from_index_bits op) = Inr y
        \<and> complete cs (debit_from fr_field \<lparr>params = cfg\<rparr> (FpConstant 1) v rt) (\<lambda>r cs'. fp_is cs' r (if active op then y else x))))"
proof (intro conjI impI)
  show "sound (synthesize_step \<lparr>circuit_config = cfg\<rparr> B D z batch) (\<lambda>w (z, inp, z'). list_all (\<lambda>op. solvent (op_val w op)
      \<and> fr_int (fp_val w (from_old_balance op) - fp_val w (amount op)) = fr_int (fp_val w (from_old_balance op)) - fr_int (fp_val w (amount op)))
      (ops inp))"
    by (rule sound_weaken[OF step_is_sound])
      (auto simp: step_accepted_def list_all_iff dest!: step_check_solvent intro!: fr_int_diff, auto simp: solvent_def)
next
  assume a: "config_wf cfg \<and> op_is cs v op \<and> fp_is cs rt x \<and> solvent op \<and> nonce op = from_old_nonce op
      \<and> leaf_root \<lparr>config = cfg\<rparr> (from_key op) (token_id op) (from_old_balance op) (from_old_nonce op)
          (from_siblings op) (from_index_bits op) = Inr x"
  let ?b = "from_old_balance op - amount op"
  obtain y where y: "leaf_root \<lparr>config = cfg\<rparr> (from_key op) (token_id op) ?b (from_old_nonce op + 1) (from_siblings op) (from_index_bits op) = Inr y"
    using leaf_root_total a by blast
  have "debit_check \<lparr>config = cfg\<rparr> op x = Inr (if active op then y else x)"
    using a y solvency by (simp add: debit_check_def solvent_def guard_def)
  moreover have "op_env v op [(rt, x)] cs" using a by (simp add: op_env_def)
  moreover have "fr_int ?b = fr_int (from_old_balance op) - fr_int (amount op)" using a by (simp add: solvent_def fr_int_diff)
  ultimately show "\<exists>b y. fr_int b = fr_int (from_old_balance op) - fr_int (amount op)
      \<and> leaf_root \<lparr>config = cfg\<rparr> (from_key op) (token_id op) b (from_old_nonce op + 1) (from_siblings op) (from_index_bits op) = Inr y
      \<and> complete cs (debit_from fr_field \<lparr>params = cfg\<rparr> (FpConstant 1) v rt) (\<lambda>r cs'. fp_is cs' r (if active op then y else x))"
    using y complete_debit_from by blast
qed

text \<open>
  C2. The circuit refines the ledger.  Let a tree commit to a ledger whose balances fit in 96
  bits, and let the check (hence, by soundness, the circuit) accept a batch on its root.  Then
  following the batch either ends in a break of the hash that it computes, or in a tree with the
  accepted new root that commits to the ledger the batch leads to by valid transfers.
\<close>

theorem circuit_refines_ledger:
  assumes "commits pn D t L" "balances_ok L" "config_wf (config pn)" "list_all (op_shape D) os"
    and "root t = Inr rt" "step_check pn os (rt, oacc, nacc) = Inr (rt', oacc', nacc')"
  shows "case follow_ops pn os (t, L) of Inl b \<Rightarrow> is_break pn b
    | Inr (t', L') \<Rightarrow> commits pn D t' L' \<and> balances_ok L' \<and> root t' = Inr rt' \<and> ledger_run L os L'"
proof -
  have c: "tree_wf fr_field t" "depth t = D" using assms(1) by (simp_all add: commits_def)
  then have "rt = node_val t D 0" using assms(5) by (simp add: root_eq)
  then have "follows pn D rt' (\<lambda>L'. ledger_run L os L') (follow_ops pn os (t, L))"
    using step_refines_run[OF assms(1-4)] assms(6) by simp
  then show ?thesis
    by (auto simp: follows_def commits_def root_eq split: sum.splits)
qed

lemmas fr_eval = fr_int_simps fr_int_numeral fr_modulus_def

text \<open>A transfer of 200 from a balance of 500, and variables that carry it.\<close>

definition toy_transfer :: "fr op_values" where
  "toy_transfer = \<lparr>active = True, kind = 1, from_key = 11, to_key = 12, token_id = 1, amount = 200,
     nonce = 0, from_old_balance = 500, from_old_nonce = 0, from_index_bits = [False, False],
     from_siblings = [0, 0], to_old_balance = 20, to_old_nonce = 4, to_index_bits = [True, False],
     to_siblings = [0, 0]\<rparr>"

definition toy_transfer_var :: "fr op_witness_var" where
  "toy_transfer_var = \<lparr>active = BoolConstant True, kind = FpConstant 1, from_key = FpConstant 11, to_key = FpConstant 12,
     token_id = FpConstant 1, amount = FpConstant 200, nonce = FpConstant 0, from_old_balance = FpConstant 500,
     from_old_nonce = FpConstant 0, from_index_bits = [BoolConstant False, BoolConstant False],
     from_siblings = [FpConstant 0, FpConstant 0], to_old_balance = FpConstant 20, to_old_nonce = FpConstant 4,
     to_index_bits = [BoolConstant True, BoolConstant False], to_siblings = [FpConstant 0, FpConstant 0]\<rparr>"

theorem solvency_exact_witness:
  "\<exists>x b y r cs'. fr_int b = 300
     \<and> leaf_root \<lparr>config = toy_config\<rparr> 11 1 500 0 [0, 0] [False, False] = Inr x
     \<and> leaf_root \<lparr>config = toy_config\<rparr> 11 1 b 1 [0, 0] [False, False] = Inr y
     \<and> debit_from fr_field \<lparr>params = toy_config\<rparr> (FpConstant 1) toy_transfer_var (FpConstant x) cs_new = Inr (r, cs')
     \<and> is_satisfied cs' = Inr True \<and> fp_is cs' r y"
proof -
  obtain x where x: "leaf_root \<lparr>config = toy_config\<rparr> 11 1 500 0 [0, 0] [False, False] = Inr x"
    using leaf_root_total[OF toy_config_wf(1)] by blast
  have "op_is cs_new toy_transfer_var toy_transfer" "fp_is cs_new (FpConstant x) x" "solvent toy_transfer"
    by (simp_all add: op_is_def toy_transfer_def toy_transfer_var_def solvent_def in_range_def VALUE_BITS_def fr_eval)
  then obtain b y where b: "fr_int b = fr_int 500 - fr_int 200"
      "leaf_root \<lparr>config = toy_config\<rparr> 11 1 b (0 + 1) [0, 0] [False, False] = Inr y"
      "complete cs_new (debit_from fr_field \<lparr>params = toy_config\<rparr> (FpConstant 1) toy_transfer_var (FpConstant x)) (\<lambda>r cs'. fp_is cs' r y)"
    using solvency_exact[where cfg = toy_config and cs = cs_new and v = toy_transfer_var and rt = "FpConstant x" and x = x and op = toy_transfer, THEN conjunct2] x toy_config_wf(1)
    by (auto simp: toy_transfer_def)
  obtain r cs' where r: "debit_from fr_field \<lparr>params = toy_config\<rparr> (FpConstant 1) toy_transfer_var (FpConstant x) cs_new = Inr (r, cs')"
      "honest cs'" "fp_is cs' r y"
    by (rule completeE[OF b(3) honest_new])
  moreover have "is_satisfied cs' = Inr True" using r(2) by (simp add: is_satisfied_tracked honest_models)
  moreover have "fr_int b = 300" using b(1) by (simp add: fr_eval)
  ultimately show ?thesis using x b(2) by auto
qed

end
