(* ===== verification/Executor.thy ===== *)
theory Executor
  imports Ledger_Semantics
begin

text \<open>
  The native epoch executor (crates/ledger-circuit/src/native.rs): the tree, the maps keyed by the
  bytes of a field element, the accumulators, and the operations that register accounts and emit
  the witnesses of the circuit.  Balances are 128-bit words, nonces and slots 64-bit words; the
  flag \<open>oc\<close> tells whether the build checks overflow.
\<close>

section \<open>State\<close>

definition SINK_TAG :: "64 word" where
  "SINK_TAG = 0x5151515151515151"

record 'f executor =
  tree :: "'f merkle_tree"
  hasher :: "'f poseidon_native"
  slots :: "8 word list \<rightharpoonup> 64 word"
  token_of :: "8 word list \<rightharpoonup> 'f"
  balances :: "8 word list \<rightharpoonup> 128 word"
  nonces :: "8 word list \<rightharpoonup> 64 word"
  next_slot :: "64 word"
  ops_acc :: 'f
  nets_acc :: 'f
  nets :: "('f \<times> 'f \<times> 128 word) list"
  sink_key :: 'f

definition executor_new :: "'f::field prime_field \<Rightarrow> 'f poseidon_config \<Rightarrow> nat \<Rightarrow> fault + 'f executor" where
  "executor_new pf canonical_config D = result_bind (merkle_new pf canonical_config D) (\<lambda>t.
     Inr \<lparr>tree = t, hasher = poseidon_native_new canonical_config, slots = Map.empty, token_of = Map.empty,
       balances = Map.empty, nonces = Map.empty, next_slot = 0, ops_acc = 0, nets_acc = 0, nets = [],
       sink_key = from_u64 SINK_TAG\<rparr>)"

section \<open>Operations\<close>

text \<open>An addition that overflows panics in a checked build and wraps otherwise.\<close>

definition add_checked :: "bool \<Rightarrow> 'a::len word \<Rightarrow> 'a word \<Rightarrow> fault + 'a word" where
  "add_checked oc x y = (if oc \<and> 2 ^ LENGTH('a) \<le> unat x + unat y then Inl Panic else Inr (x + y))"

definition assert :: "bool \<Rightarrow> fault + unit" where
  "assert b = (if b then Inr () else Inl Panic)"

text \<open>\<^verbatim>\<open>map.get(k).expect(..)\<close> and \<^verbatim>\<open>vec.try_into::<[T; D]>().unwrap()\<close>.\<close>

definition expect_some :: "'a option \<Rightarrow> fault + 'a" where
  "expect_some x = (case x of None \<Rightarrow> Inl Panic | Some y \<Rightarrow> Inr y)"

definition to_array :: "nat \<Rightarrow> 'a list \<Rightarrow> fault + 'a list" where
  "to_array D xs = (if length xs = D then Inr xs else Inl Panic)"

definition register ::
  "bool \<Rightarrow> 'f::field prime_field \<Rightarrow> nat \<Rightarrow> 'f \<Rightarrow> 'f \<Rightarrow> 128 word \<Rightarrow> 64 word \<Rightarrow> 'f executor \<Rightarrow> fault + 'f executor" where
  "register oc pf D key token balance n e =
    (let k = repr pf key in
     result_bind
       (if slots e k \<noteq> None then Inr (e\<lparr>token_of := (token_of e)(k \<mapsto> token)\<rparr>)
        else
          let slot = next_slot e in
          result_bind (add_checked oc slot 1) (\<lambda>next.
          result_bind (shift_amount oc D) (\<lambda>d.
          result_bind (assert (slot < push_bit d 1)) (\<lambda>_.
          Inr (e\<lparr>next_slot := next, slots := (slots e)(k \<mapsto> slot), token_of := (token_of e)(k \<mapsto> token)\<rparr>)))))
     (\<lambda>e. let e = e\<lparr>balances := (balances e)(k \<mapsto> balance), nonces := (nonces e)(k \<mapsto> n)\<rparr> in
     result_bind (expect_some (slots e k)) (\<lambda>slot.
     result_bind (native_h4 pf (hasher e) key token (from_u128 balance) (from_u64 n)) (\<lambda>lf.
     result_bind (set_leaf pf slot lf (tree e)) (\<lambda>t. Inr (e\<lparr>tree := t\<rparr>))))))"

definition initial_state :: "'f::field executor \<Rightarrow> fault + 'f list" where
  "initial_state e = result_bind (assert (ops_acc e = 0 \<and> nets_acc e = 0)) (\<lambda>_.
     result_bind (root (tree e)) (\<lambda>r. Inr [r, 0, 0]))"

definition state :: "'f::field executor \<Rightarrow> fault + 'f list" where
  "state e = result_bind (root (tree e)) (\<lambda>r. Inr [r, ops_acc e, nets_acc e])"

text \<open>An absent entry of one of the maps is the result \<open>None\<close>.\<close>

definition exit_witness ::
  "bool \<Rightarrow> 'f::field prime_field \<Rightarrow> 'f \<Rightarrow> 'f executor
   \<Rightarrow> fault + (128 word \<times> 64 word \<times> 'f list \<times> bool list) option" where
  "exit_witness oc pf key e =
    (let k = repr pf key in
     case slots e k of None \<Rightarrow> Inr None | Some slot \<Rightarrow>
     (case balances e k of None \<Rightarrow> Inr None | Some balance \<Rightarrow>
     (case nonces e k of None \<Rightarrow> Inr None | Some n \<Rightarrow>
       result_bind (siblings (tree e) slot) (\<lambda>sibs.
       result_bind (index_bits oc (tree e) slot) (\<lambda>bits. Inr (Some (balance, n, sibs, bits)))))))"

text \<open>The debit: the path against the current root, then the new leaf, balance and nonce.\<close>

definition exec_debit ::
  "bool \<Rightarrow> 'f::field prime_field \<Rightarrow> nat \<Rightarrow> 'f \<Rightarrow> 'f \<Rightarrow> 128 word \<Rightarrow> 128 word \<Rightarrow> 64 word \<Rightarrow> 64 word
   \<Rightarrow> 'f executor \<Rightarrow> fault + bool list \<times> 'f list \<times> 'f executor" where
  "exec_debit oc pf D from' token amt from_bal from_n from_slot e =
     result_bind (result_bind (index_bits oc (tree e) from_slot) (to_array D)) (\<lambda>from_bits.
     result_bind (result_bind (siblings (tree e) from_slot) (to_array D)) (\<lambda>from_sibs.
     let from_new_balance = from_bal - amt in
     result_bind (add_checked oc from_n 1) (\<lambda>from_new_nonce.
     result_bind (native_h4 pf (hasher e) from' token (from_u128 from_new_balance) (from_u64 from_new_nonce))
       (\<lambda>from_new_leaf.
     result_bind (set_leaf pf from_slot from_new_leaf (tree e)) (\<lambda>t.
     Inr (from_bits, from_sibs,
       e\<lparr>tree := t, balances := (balances e)(repr pf from' \<mapsto> from_new_balance),
         nonces := (nonces e)(repr pf from' \<mapsto> from_new_nonce)\<rparr>))))))"

text \<open>The credit: the path against the intermediate root, then the new leaf and balance.\<close>

definition exec_credit ::
  "bool \<Rightarrow> 'f::field prime_field \<Rightarrow> nat \<Rightarrow> 'f \<Rightarrow> 'f \<Rightarrow> 128 word \<Rightarrow> 64 word
   \<Rightarrow> 'f executor \<Rightarrow> fault + 128 word \<times> 64 word \<times> bool list \<times> 'f list \<times> 'f executor" where
  "exec_credit oc pf D to' token amt to_slot e =
     result_bind (expect_some (balances e (repr pf to'))) (\<lambda>to_bal.
     result_bind (expect_some (nonces e (repr pf to'))) (\<lambda>to_n.
     result_bind (result_bind (index_bits oc (tree e) to_slot) (to_array D)) (\<lambda>to_bits.
     result_bind (result_bind (siblings (tree e) to_slot) (to_array D)) (\<lambda>to_sibs.
     result_bind (add_checked oc to_bal amt) (\<lambda>to_new_balance.
     result_bind (native_h4 pf (hasher e) to' token (from_u128 to_new_balance) (from_u64 to_n)) (\<lambda>to_new_leaf.
     result_bind (set_leaf pf to_slot to_new_leaf (tree e)) (\<lambda>t.
     Inr (to_bal, to_n, to_bits, to_sibs,
       e\<lparr>tree := t, balances := (balances e)(repr pf to' \<mapsto> to_new_balance)\<rparr>))))))))"

definition exec_accumulate ::
  "'f::field prime_field \<Rightarrow> op_kind \<Rightarrow> 'f \<Rightarrow> 'f \<Rightarrow> 'f \<Rightarrow> 128 word \<Rightarrow> 64 word \<Rightarrow> 'f executor \<Rightarrow> fault + 'f executor" where
  "exec_accumulate pf knd from' to' token amt from_n e =
     result_bind (native_hn pf (hasher e)
       [from_u64 (code knd), from', to', token, from_u128 amt, from_u64 from_n]) (\<lambda>op_hash.
     result_bind (native_h2 pf (hasher e) (ops_acc e) op_hash) (\<lambda>oacc.
     let e = e\<lparr>ops_acc := oacc\<rparr> in
     if knd = Withdraw then
       result_bind (native_h4 pf (hasher e) (nets_acc e) from' token (from_u128 amt)) (\<lambda>nacc.
       Inr (e\<lparr>nets_acc := nacc, nets := nets e @ [(from', token, amt)]\<rparr>))
     else Inr e))"

definition exec_apply ::
  "bool \<Rightarrow> 'f::field prime_field \<Rightarrow> nat \<Rightarrow> op_kind \<Rightarrow> 'f \<Rightarrow> 'f \<Rightarrow> 'f \<Rightarrow> 128 word \<Rightarrow> 'f executor
   \<Rightarrow> fault + 'f op_witness \<times> 'f executor" where
  "exec_apply oc pf D knd from' to' token amt e =
    (let fk = repr pf from'; tk = repr pf to' in
     result_bind (expect_some (balances e fk)) (\<lambda>from_bal.
     result_bind (expect_some (nonces e fk)) (\<lambda>from_n.
     result_bind (expect_some (slots e fk)) (\<lambda>from_slot.
     result_bind (expect_some (slots e tk)) (\<lambda>to_slot.
     result_bind (assert (amt \<le> from_bal)) (\<lambda>_.
     result_bind (exec_debit oc pf D from' token amt from_bal from_n from_slot e) (\<lambda>(from_bits, from_sibs, e).
     result_bind (exec_credit oc pf D to' token amt to_slot e) (\<lambda>(to_bal, to_n, to_bits, to_sibs, e).
     result_bind (exec_accumulate pf knd from' to' token amt from_n e) (\<lambda>e.
     Inr (\<lparr>active = True, kind = code knd, from_key = from', to_key = to', token_id = token,
            amount = from_u128 amt, nonce = from_u64 from_n, from_old_balance = from_u128 from_bal,
            from_old_nonce = from_u64 from_n, from_index_bits = from_bits, from_siblings = from_sibs,
            to_old_balance = from_u128 to_bal, to_old_nonce = from_u64 to_n,
            to_index_bits = to_bits, to_siblings = to_sibs\<rparr>, e))))))))))"

definition load ::
  "bool \<Rightarrow> 'f::field prime_field \<Rightarrow> nat \<Rightarrow> 'f \<Rightarrow> 'f \<Rightarrow> 'f \<Rightarrow> 128 word \<Rightarrow> 'f executor \<Rightarrow> fault + 'f op_witness \<times> 'f executor" where
  "load oc pf D from' to' token amt e = exec_apply oc pf D Load from' to' token amt e"

definition spend ::
  "bool \<Rightarrow> 'f::field prime_field \<Rightarrow> nat \<Rightarrow> 'f \<Rightarrow> 'f \<Rightarrow> 'f \<Rightarrow> 128 word \<Rightarrow> 'f executor \<Rightarrow> fault + 'f op_witness \<times> 'f executor" where
  "spend oc pf D from' to' token amt e = exec_apply oc pf D Spend from' to' token amt e"

definition withdraw ::
  "bool \<Rightarrow> 'f::field prime_field \<Rightarrow> nat \<Rightarrow> 'f \<Rightarrow> 'f \<Rightarrow> 128 word \<Rightarrow> 'f executor \<Rightarrow> fault + 'f op_witness \<times> 'f executor" where
  "withdraw oc pf D payee token amt e = exec_apply oc pf D Withdraw payee (sink_key e) token amt e"

section \<open>The invariant\<close>

text \<open>
  The maps, the tree and the abstract ledger agree: every registered key has a slot of its own
  below the next one, the account the ledger has there carries the recorded balance and nonce, and
  every account of the ledger is the one of its key.
\<close>

definition account_ok :: "fr executor \<Rightarrow> ledger \<Rightarrow> fr \<Rightarrow> bool" where
  "account_ok e L x \<longleftrightarrow> (case slots e (repr fr_field x) of
     None \<Rightarrow> balances e (repr fr_field x) = None \<and> nonces e (repr fr_field x) = None
   | Some i \<Rightarrow> i < next_slot e \<and> (\<exists>b n tok. balances e (repr fr_field x) = Some b \<and> nonces e (repr fr_field x) = Some n
        \<and> L i = Some \<lparr>acc_key = x, acc_token = tok, acc_balance = from_u128 b, acc_nonce = from_u64 n\<rparr>))"

definition exec_ok :: "nat \<Rightarrow> fr executor \<Rightarrow> ledger \<Rightarrow> bool" where
  "exec_ok D e L \<longleftrightarrow> commits (hasher e) D (tree e) L \<and> config_wf (config (hasher e)) \<and> D < 64
     \<and> unat (next_slot e) \<le> 2 ^ D \<and> (\<forall>i. next_slot e \<le> i \<longrightarrow> L i = None)
     \<and> (\<forall>x y i. slots e (repr fr_field x) = Some i \<and> slots e (repr fr_field y) = Some i \<longrightarrow> x = y)
     \<and> (\<forall>x. account_ok e L x) \<and> (\<forall>i a. L i = Some a \<longrightarrow> slots e (repr fr_field (acc_key a)) = Some i)"

lemma exec_okD:
  assumes "exec_ok D e L"
  shows "commits (hasher e) D (tree e) L" "config_wf (config (hasher e))" "D < 64" "unat (next_slot e) \<le> 2 ^ D"
    "next_slot e \<le> i \<Longrightarrow> L i = None"
    "slots e (repr fr_field x) = Some i \<Longrightarrow> slots e (repr fr_field y) = Some i \<Longrightarrow> x = y"
    "account_ok e L x" "L i = Some a \<Longrightarrow> slots e (repr fr_field (acc_key a)) = Some i"
  using assms unfolding exec_ok_def by blast+

lemma repr_fr_inj [simp]: "repr fr_field x = repr fr_field y \<longleftrightarrow> x = y"
  by (rule prime_field_impl.repr_inj[OF bn254.prime_field_impl_axioms])

lemma slot_of_index_bits:
  assumes "unat (i :: 64 word) < 2 ^ D" "D \<le> 64"
  shows "slot_of (map (bit i) [0..<D]) = i"
proof (rule bit_word_eqI)
  fix l assume "l < LENGTH(64)"
  have "\<not> bit i l" if "D \<le> l"
  proof -
    have "bit i l \<longleftrightarrow> bit (drop_bit D i) (l - D)" using that by (simp add: bit_drop_bit_eq)
    then show ?thesis by (simp add: index_in_range[OF assms(1)])
  qed
  then show "bit (slot_of (map (bit i) [0..<D])) l \<longleftrightarrow> bit i l"
    using assms(2) by (cases "l < D") (auto simp: bit_slot_of)
qed

lemma exec_ok_slot:
  assumes "exec_ok D e L" "slots e (repr fr_field x) = Some i"
  obtains b n tok where "balances e (repr fr_field x) = Some b" "nonces e (repr fr_field x) = Some n"
    "L i = Some \<lparr>acc_key = x, acc_token = tok, acc_balance = from_u128 b, acc_nonce = from_u64 n\<rparr>"
    "unat i < 2 ^ D" "i < next_slot e" "slot_of (map (bit i) [0..<D]) = i"
proof -
  have ok: "account_ok e L x" "unat (next_slot e) \<le> 2 ^ D" "D \<le> 64"
    using exec_okD(3,4,7)[OF assms(1)] by simp_all
  then obtain b n tok where 1: "balances e (repr fr_field x) = Some b" "nonces e (repr fr_field x) = Some n"
      "L i = Some \<lparr>acc_key = x, acc_token = tok, acc_balance = from_u128 b, acc_nonce = from_u64 n\<rparr>" "i < next_slot e"
    using assms(2) by (auto simp: account_ok_def)
  have "unat i < 2 ^ D" using 1(4) ok(2) by (simp add: word_less_nat_alt)
  then show thesis using that 1 slot_of_index_bits[OF _ ok(3)] by blast
qed

text \<open>
  Writing the account of a key that has a slot establishes the invariant, when it holds for the
  other keys.
\<close>

definition exec_ok_but :: "nat \<Rightarrow> fr executor \<Rightarrow> ledger \<Rightarrow> fr \<Rightarrow> bool" where
  "exec_ok_but D e L x \<longleftrightarrow> commits (hasher e) D (tree e) L \<and> config_wf (config (hasher e)) \<and> D < 64
     \<and> unat (next_slot e) \<le> 2 ^ D \<and> (\<forall>i. next_slot e \<le> i \<longrightarrow> L i = None)
     \<and> (\<forall>x y i. slots e (repr fr_field x) = Some i \<and> slots e (repr fr_field y) = Some i \<longrightarrow> x = y)
     \<and> (\<forall>y. y \<noteq> x \<longrightarrow> account_ok e L y)
     \<and> (\<forall>i a. L i = Some a \<longrightarrow> slots e (repr fr_field (acc_key a)) = Some i)"

lemma exec_ok_butD:
  assumes "exec_ok_but D e L x"
  shows "commits (hasher e) D (tree e) L" "config_wf (config (hasher e))" "D < 64" "unat (next_slot e) \<le> 2 ^ D"
    "next_slot e \<le> i \<Longrightarrow> L i = None"
    "slots e (repr fr_field u) = Some i \<Longrightarrow> slots e (repr fr_field v) = Some i \<Longrightarrow> u = v"
    "y \<noteq> x \<Longrightarrow> account_ok e L y" "L i = Some a \<Longrightarrow> slots e (repr fr_field (acc_key a)) = Some i"
  using assms unfolding exec_ok_but_def by blast+

lemma exec_ok_imp_but: "exec_ok D e L \<Longrightarrow> exec_ok_but D e L x"
  unfolding exec_ok_def exec_ok_but_def by blast

lemma exec_ok_write_new:
  assumes ok: "exec_ok_but D e L x" and i: "slots e (repr fr_field x) = Some i" "i < next_slot e"
    and h: "native_h4 fr_field (hasher e) x tok (from_u128 b) (from_u64 n) = Inr h"
    and t: "set_leaf fr_field i h (tree e) = Inr t"
  defines "a \<equiv> \<lparr>acc_key = x, acc_token = tok, acc_balance = from_u128 b, acc_nonce = from_u64 n\<rparr>"
  shows "exec_ok D (e\<lparr>tree := t, balances := (balances e)(repr fr_field x \<mapsto> b),
      nonces := (nonces e)(repr fr_field x \<mapsto> n)\<rparr>) (L(i \<mapsto> a))"
    "write_account (hasher e) i a (tree e, L) = (t, L(i \<mapsto> a))"
proof -
  have "unat i < 2 ^ D" using i(2) exec_ok_butD(4)[OF ok] by (simp add: word_less_nat_alt)
  then have slot: "slot_of (map (bit i) [0..<D]) = i"
    using exec_ok_butD(3)[OF ok] by (intro slot_of_index_bits) simp_all
  show w: "write_account (hasher e) i a (tree e, L) = (t, L(i \<mapsto> a))"
    using h t by (simp add: write_account_def account_leaf_def a_def)
  have com: "commits (hasher e) D t (L(i \<mapsto> a))"
    by (rule conjunct1[OF write_account_commits[OF exec_ok_butD(1,2)[OF ok],
          of "map (bit i) [0..<D]" a, unfolded slot, OF _ w]]) simp
  let ?e = "e\<lparr>tree := t, balances := (balances e)(repr fr_field x \<mapsto> b), nonces := (nonces e)(repr fr_field x \<mapsto> n)\<rparr>"
  have acc: "account_ok ?e (L(i \<mapsto> a)) y" for y
  proof (cases "y = x")
    case True
    then show ?thesis using i by (simp add: account_ok_def a_def)
  next
    case False
    have other: "slots e (repr fr_field y) \<noteq> Some i" using exec_ok_butD(6)[OF ok i(1)] False by blast
    have "account_ok e L y" by (rule exec_ok_butD(7)[OF ok False])
    with other False show ?thesis by (cases "slots e (repr fr_field y)") (auto simp: account_ok_def)
  qed
  show "exec_ok D ?e (L(i \<mapsto> a))"
    unfolding exec_ok_def
  proof (intro conjI allI impI)
    fix j assume "next_slot ?e \<le> j"
    then have "next_slot e \<le> j" by simp
    then show "(L(i \<mapsto> a)) j = None" using exec_ok_butD(5)[OF ok] i(2) by auto
  next
    fix u v j assume "slots ?e (repr fr_field u) = Some j \<and> slots ?e (repr fr_field v) = Some j"
    then show "u = v" using exec_ok_butD(6)[OF ok] by simp
  next
    fix j c assume "(L(i \<mapsto> a)) j = Some c"
    then show "slots ?e (repr fr_field (acc_key c)) = Some j"
      using exec_ok_butD(8)[OF ok, of j c] i(1) by (cases "j = i") (auto simp: a_def)
  qed (use com acc exec_ok_butD(2-4)[OF ok] in simp_all)
qed

lemma exec_ok_write:
  assumes ok: "exec_ok D e L" and i: "slots e (repr fr_field x) = Some i"
    and h: "native_h4 fr_field (hasher e) x tok (from_u128 b) (from_u64 n) = Inr h"
    and t: "set_leaf fr_field i h (tree e) = Inr t"
  defines "a \<equiv> \<lparr>acc_key = x, acc_token = tok, acc_balance = from_u128 b, acc_nonce = from_u64 n\<rparr>"
  shows "exec_ok D (e\<lparr>tree := t, balances := (balances e)(repr fr_field x \<mapsto> b),
      nonces := (nonces e)(repr fr_field x \<mapsto> n)\<rparr>) (L(i \<mapsto> a))"
    "write_account (hasher e) i a (tree e, L) = (t, L(i \<mapsto> a))"
proof -
  have "i < next_slot e" by (rule exec_ok_slot[OF ok i])
  note w = exec_ok_write_new[OF exec_ok_imp_but[OF ok] i this h t, folded a_def]
  show "exec_ok D (e\<lparr>tree := t, balances := (balances e)(repr fr_field x \<mapsto> b),
      nonces := (nonces e)(repr fr_field x \<mapsto> n)\<rparr>) (L(i \<mapsto> a))" by (rule w(1))
  show "write_account (hasher e) i a (tree e, L) = (t, L(i \<mapsto> a))" by (rule w(2))
qed

section \<open>Machine integers as field elements\<close>

lemma fr_int_u128 [simp]: "fr_int (from_u128 b) = int (unat b)"
proof -
  have "unat b < 2 ^ 128" by (rule order_less_le_trans[OF unsigned_less]) simp
  then have "unat b < fr_modulus" by (simp add: fr_modulus_def)
  then have "int (unat b) < int fr_modulus" by (simp only: of_nat_less_iff)
  then show ?thesis by (simp add: from_u128_def fr_int_of_nat del: of_nat_unat)
qed

lemma from_u128_diff: "a \<le> b \<Longrightarrow> from_u128 (b - a) = (from_u128 b - from_u128 a :: 'f::comm_ring_1)"
  unfolding from_u128_def by (simp add: unat_sub word_le_nat_alt of_nat_diff)

lemma from_u128_plus:
  "unat a + unat b < 2 ^ 128 \<Longrightarrow> from_u128 (a + b) = (from_u128 a + from_u128 b :: 'f::comm_ring_1)"
  unfolding from_u128_def by (simp add: unat_word_ariths(1))

lemma from_u64_Suc: "unat n + 1 < 2 ^ 64 \<Longrightarrow> from_u64 (n + 1) = (from_u64 n + 1 :: 'f::comm_ring_1)"
  unfolding from_u64_def by (simp add: unat_word_ariths(1))

lemma add_checked_Inr: "add_checked oc x y = Inr z \<Longrightarrow> z = x + y"
  by (simp add: add_checked_def split: if_splits)

section \<open>The parts of an operation\<close>

lemma expect_some_Inr [simp]: "expect_some x = Inr y \<longleftrightarrow> x = Some y"
  by (auto simp: expect_some_def split: option.splits)

lemma assert_Inr [simp]: "assert b = Inr u \<longleftrightarrow> b"
  by (simp add: assert_def)

lemma to_array_Inr [simp]: "to_array D xs = Inr ys \<longleftrightarrow> length xs = D \<and> ys = xs"
  by (auto simp: to_array_def)

lemma exec_paths:
  assumes "exec_ok D e L"
  shows "index_bits oc (tree e) i = Inr (map (bit i) [0..<D])"
    "siblings (tree e) i = Inr (tree_siblings (tree e) i)"
    "length (tree_siblings (tree e) i) = D"
proof -
  have "depth (tree e) = D" "tree_wf fr_field (tree e)" "D \<le> 64"
    using exec_okD(1)[OF assms] by (simp_all add: commits_def)
  then show "index_bits oc (tree e) i = Inr (map (bit i) [0..<D])"
    "siblings (tree e) i = Inr (tree_siblings (tree e) i)" "length (tree_siblings (tree e) i) = D"
    by (simp_all add: index_bits_eq siblings_eq tree_siblings_def)
qed

definition same_accounts :: "'f executor \<Rightarrow> 'f executor \<Rightarrow> bool" where
  "same_accounts e e' \<longleftrightarrow> hasher e' = hasher e \<and> slots e' = slots e \<and> ops_acc e' = ops_acc e
     \<and> nets_acc e' = nets_acc e \<and> nets e' = nets e \<and> sink_key e' = sink_key e"

lemma exec_debit_ok:
  assumes ok: "exec_ok D e L" and i: "slots e (repr fr_field x) = Some i"
    and run: "exec_debit oc fr_field D x tok amt b n i e = Inr (bits, sibs, e')"
    and amt: "amt \<le> b" and n: "unat n + 1 < 2 ^ 64"
  defines "a \<equiv> \<lparr>acc_key = x, acc_token = tok, acc_balance = from_u128 b - from_u128 amt, acc_nonce = from_u64 n + 1\<rparr>"
  shows "bits = map (bit i) [0..<D]" "sibs = tree_siblings (tree e) i" "same_accounts e e'"
    "exec_ok D e' (L(i \<mapsto> a))" "write_account (hasher e) i a (tree e, L) = (tree e', L(i \<mapsto> a))"
    "balances e' = (balances e)(repr fr_field x \<mapsto> b - amt)"
proof -
  obtain h t where h: "native_h4 fr_field (hasher e) x tok (from_u128 (b - amt)) (from_u64 (n + 1)) = Inr h"
      and t: "set_leaf fr_field i h (tree e) = Inr t"
      and e': "e' = e\<lparr>tree := t, balances := (balances e)(repr fr_field x \<mapsto> b - amt),
        nonces := (nonces e)(repr fr_field x \<mapsto> n + 1)\<rparr>"
      and r: "bits = map (bit i) [0..<D]" "sibs = tree_siblings (tree e) i"
    using run exec_paths[OF ok] by (auto simp: exec_debit_def Let_def result_bind_Inr_iff dest!: add_checked_Inr)
  have a: "a = \<lparr>acc_key = x, acc_token = tok, acc_balance = from_u128 (b - amt), acc_nonce = from_u64 (n + 1)\<rparr>"
    by (simp add: a_def from_u128_diff[OF amt] from_u64_Suc[OF n])
  show "bits = map (bit i) [0..<D]" "sibs = tree_siblings (tree e) i" by (fact r)+
  show "same_accounts e e'" by (simp add: same_accounts_def e')
  show "balances e' = (balances e)(repr fr_field x \<mapsto> b - amt)" by (simp add: e')
  show "exec_ok D e' (L(i \<mapsto> a))" unfolding e' a by (rule exec_ok_write(1)[OF ok i h t])
  show "write_account (hasher e) i a (tree e, L) = (tree e', L(i \<mapsto> a))"
    using exec_ok_write(2)[OF ok i h t] by (simp add: a e')
qed

lemma exec_credit_ok:
  assumes ok: "exec_ok D e L" and j: "slots e (repr fr_field y) = Some j"
    and run: "exec_credit oc fr_field D y tok amt j e = Inr (b, n, bits, sibs, e')"
    and b: "unat b + unat amt < 2 ^ 128"
  defines "a \<equiv> \<lparr>acc_key = y, acc_token = tok, acc_balance = from_u128 b + from_u128 amt, acc_nonce = from_u64 n\<rparr>"
  shows "bits = map (bit j) [0..<D]" "sibs = tree_siblings (tree e) j" "same_accounts e e'"
    "balances e (repr fr_field y) = Some b" "nonces e (repr fr_field y) = Some n"
    "exec_ok D e' (L(j \<mapsto> a))" "write_account (hasher e) j a (tree e, L) = (tree e', L(j \<mapsto> a))"
proof -
  obtain h t where h: "native_h4 fr_field (hasher e) y tok (from_u128 (b + amt)) (from_u64 n) = Inr h"
      and t: "set_leaf fr_field j h (tree e) = Inr t"
      and e': "e' = e\<lparr>tree := t, balances := (balances e)(repr fr_field y \<mapsto> b + amt)\<rparr>"
      and r: "bits = map (bit j) [0..<D]" "sibs = tree_siblings (tree e) j"
        "balances e (repr fr_field y) = Some b" "nonces e (repr fr_field y) = Some n"
    using run exec_paths[OF ok] by (auto simp: exec_credit_def Let_def result_bind_Inr_iff dest!: add_checked_Inr)
  have a: "a = \<lparr>acc_key = y, acc_token = tok, acc_balance = from_u128 (b + amt), acc_nonce = from_u64 n\<rparr>"
    by (simp add: a_def from_u128_plus[OF b])
  have e'': "e' = e\<lparr>tree := t, balances := (balances e)(repr fr_field y \<mapsto> b + amt),
      nonces := (nonces e)(repr fr_field y \<mapsto> n)\<rparr>"
    using r(4) by (simp add: e' fun_upd_idem)
  show "bits = map (bit j) [0..<D]" "sibs = tree_siblings (tree e) j"
    "balances e (repr fr_field y) = Some b" "nonces e (repr fr_field y) = Some n" by (fact r)+
  show "same_accounts e e'" by (simp add: same_accounts_def e')
  show "exec_ok D e' (L(j \<mapsto> a))" unfolding e'' a by (rule exec_ok_write(1)[OF ok j h t])
  show "write_account (hasher e) j a (tree e, L) = (tree e', L(j \<mapsto> a))"
    using exec_ok_write(2)[OF ok j h t] by (simp add: a e')
qed

lemma withdraw_code_iff [simp]:
  "(from_u64 (code knd) :: fr) = from_u64 withdraw_code_const \<longleftrightarrow> knd = Withdraw"
proof -
  have "(2::fr) \<noteq> 0" by (rule bn254.two_neq_0)
  moreover have "(2::fr) \<noteq> 1" by (metis add_cancel_right_left one_add_one zero_neq_one)
  ultimately show ?thesis by (cases knd) (simp_all add: withdraw_code_const_def from_u64_def)
qed

lemma exec_accumulate_ok:
  assumes run: "exec_accumulate fr_field knd x y tok amt n e = Inr e'" and cfg: "config_wf (config (hasher e))"
    and op: "active op" "kind op = from_u64 (code knd)" "from_key op = x" "to_key op = y" "token_id op = tok"
      "amount op = from_u128 amt" "nonce op = from_u64 n"
  shows "ops_check (hasher e) op (ops_acc e) = Inr (ops_acc e')" "nets_check (hasher e) op (nets_acc e) = Inr (nets_acc e')"
    "e' = e\<lparr>ops_acc := ops_acc e', nets_acc := nets_acc e', nets := nets e @ (if knd = Withdraw then [(x, tok, amt)] else [])\<rparr>"
proof -
  obtain h oacc where h: "native_hn fr_field (hasher e) [from_u64 (code knd), x, y, tok, from_u128 amt, from_u64 n] = Inr h"
      "native_h2 fr_field (hasher e) (ops_acc e) h = Inr oacc"
    using run by (auto simp: exec_accumulate_def Let_def result_bind_Inr_iff)
  obtain nacc where n: "native_h4 fr_field (hasher e) (nets_acc e) x tok (from_u128 amt) = Inr nacc"
    using native_hn_spec[OF cfg] by (cases "hasher e") (simp add: native_arity)
  have e': "e' = e\<lparr>ops_acc := oacc, nets_acc := (if knd = Withdraw then nacc else nets_acc e),
      nets := nets e @ (if knd = Withdraw then [(x, tok, amt)] else [])\<rparr>"
    using run h n by (simp add: exec_accumulate_def Let_def split: if_splits)
  show "ops_check (hasher e) op (ops_acc e) = Inr (ops_acc e')" using h op by (simp add: ops_check_def e')
  show "nets_check (hasher e) op (nets_acc e) = Inr (nets_acc e')" using n op by (simp add: nets_check_def e')
  show "e' = e\<lparr>ops_acc := ops_acc e', nets_acc := nets_acc e', nets := nets e @ (if knd = Withdraw then [(x, tok, amt)] else [])\<rparr>"
    by (simp add: e')
qed

section \<open>The executor and the circuit\<close>

text \<open>
  What the executor does not check and the circuit demands: the accounts hold the token of the
  operation, the balances stay within 96 bits, the nonce does not overflow.
\<close>

definition op_fits :: "fr executor \<Rightarrow> ledger \<Rightarrow> fr \<Rightarrow> fr \<Rightarrow> fr \<Rightarrow> 128 word \<Rightarrow> bool" where
  "op_fits e L x y tok amt \<longleftrightarrow>
     (case (slots e (repr fr_field x), slots e (repr fr_field y), balances e (repr fr_field x),
            balances e (repr fr_field y), nonces e (repr fr_field x)) of
        (Some i, Some j, Some b, Some c, Some n) \<Rightarrow>
          map_option acc_token (L i) = Some tok \<and> map_option acc_token (L j) = Some tok
          \<and> unat b < 2 ^ VALUE_BITS \<and> (x \<noteq> y \<longrightarrow> unat c + unat amt < 2 ^ VALUE_BITS) \<and> unat n + 1 < 2 ^ 64
      | _ \<Rightarrow> False)"

lemma in_range_u128: "in_range (from_u128 b) \<longleftrightarrow> unat b < 2 ^ VALUE_BITS"
  by (simp add: in_range_def del: int_nat_eq of_nat_unat)

lemma exec_ok_accumulators:
  "exec_ok D (e\<lparr>ops_acc := a, nets_acc := n, nets := l\<rparr>) L \<longleftrightarrow> exec_ok D e L"
proof -
  have "account_ok (e\<lparr>ops_acc := a, nets_acc := n, nets := l\<rparr>) L x \<longleftrightarrow> account_ok e L x" for x
    by (simp add: account_ok_def split: option.split)
  then show ?thesis by (simp add: exec_ok_def)
qed

lemma exec_apply_accepted:
  assumes ok: "exec_ok D e L" and fits: "op_fits e L x y tok amt"
    and run: "exec_apply oc fr_field D knd x y tok amt e = Inr (w, e')"
  shows "\<exists>L'. exec_ok D e' L' \<and> op_shape D w \<and> hasher e' = hasher e \<and> apply_op (field_op w) L = Some L'
    \<and> op_check (hasher e) (field_op w) (node_val (tree e) D 0, ops_acc e, nets_acc e)
        = Inr (node_val (tree e') D 0, ops_acc e', nets_acc e')"
proof -
  obtain i j b c n where s: "slots e (repr fr_field x) = Some i" "slots e (repr fr_field y) = Some j"
      "balances e (repr fr_field x) = Some b" "balances e (repr fr_field y) = Some c" "nonces e (repr fr_field x) = Some n"
      and f: "map_option acc_token (L i) = Some tok" "map_option acc_token (L j) = Some tok"
        "unat b < 2 ^ VALUE_BITS" "x \<noteq> y \<longrightarrow> unat c + unat amt < 2 ^ VALUE_BITS" "unat n + 1 < 2 ^ 64"
    using fits by (auto simp: op_fits_def split: option.splits)
  obtain bits sibs e1 tb tn tbits tsibs e2 where amt: "amt \<le> b"
      and d: "exec_debit oc fr_field D x tok amt b n i e = Inr (bits, sibs, e1)"
      and cr: "exec_credit oc fr_field D y tok amt j e1 = Inr (tb, tn, tbits, tsibs, e2)"
      and ac: "exec_accumulate fr_field knd x y tok amt n e2 = Inr e'"
      and w: "w = \<lparr>active = True, kind = code knd, from_key = x, to_key = y, token_id = tok,
            amount = from_u128 amt, nonce = from_u64 n, from_old_balance = from_u128 b,
            from_old_nonce = from_u64 n, from_index_bits = bits, from_siblings = sibs,
            to_old_balance = from_u128 tb, to_old_nonce = from_u64 tn,
            to_index_bits = tbits, to_siblings = tsibs\<rparr>"
    using run s by (auto simp: exec_apply_def Let_def result_bind_Inr_iff)
  note D = exec_debit_ok[OF ok s(1) d amt f(5)]
  have sj1: "slots e1 (repr fr_field y) = Some j" using D(3) s(2) by (simp add: same_accounts_def)
  have "balances e1 (repr fr_field y) = Some tb"
    using cr by (auto simp: exec_credit_def Let_def result_bind_Inr_iff)
  then have "tb = (if y = x then b - amt else c)" using D(6) s(4) by (auto split: if_splits)
  then have tb: "unat tb + unat amt < 2 ^ VALUE_BITS"
    using f(3,4) amt by (cases "y = x") (auto simp: unat_sub word_le_nat_alt)
  then have tb128: "unat tb + unat amt < 2 ^ 128" by (simp add: VALUE_BITS_def)
  note C = exec_credit_ok[OF D(4) sj1 cr tb128]
  let ?op = "field_op w"
  let ?a1 = "\<lparr>acc_key = x, acc_token = tok, acc_balance = from_u128 b - from_u128 amt, acc_nonce = from_u64 n + 1\<rparr>"
  let ?a2 = "\<lparr>acc_key = y, acc_token = tok, acc_balance = from_u128 tb + from_u128 amt, acc_nonce = from_u64 tn\<rparr>"
  let ?L1 = "L(i \<mapsto> ?a1)" and ?L2 = "L(i \<mapsto> ?a1, j \<mapsto> ?a2)"
  have op: "active ?op" "kind ?op = from_u64 (code knd)" "from_key ?op = x" "to_key ?op = y" "token_id ?op = tok"
      "amount ?op = from_u128 amt" "nonce ?op = from_u64 n" "from_old_nonce ?op = from_u64 n"
      "from_old_balance ?op = from_u128 b" "to_old_balance ?op = from_u128 tb"
    by (simp_all add: field_op_def w)
  have accts: "from_account ?op = \<lparr>acc_key = x, acc_token = tok, acc_balance = from_u128 b, acc_nonce = from_u64 n\<rparr>"
      "debited ?op = ?a1" "credited ?op = ?a2"
      "to_account ?op = \<lparr>acc_key = y, acc_token = tok, acc_balance = from_u128 tb, acc_nonce = from_u64 tn\<rparr>"
    by (simp_all add: from_account_def to_account_def debited_def credited_def field_op_def w)
  have slot: "slot_of (from_index_bits ?op) = i" "slot_of (to_index_bits ?op) = j"
    using exec_ok_slot[OF ok s(1)] exec_ok_slot[OF D(4) sj1] D(1) C(1) by (auto simp: field_op_def w)
  have Li: "L i = Some (from_account ?op)"
    by (rule exec_ok_slot[OF ok s(1)]) (use s f(1) in \<open>simp add: accts\<close>)
  have Lj: "?L1 j = Some (to_account ?op)"
  proof (rule exec_ok_slot[OF D(4) sj1])
    fix b' n' tok'
    assume "balances e1 (repr fr_field y) = Some b'" "nonces e1 (repr fr_field y) = Some n'"
      and 1: "?L1 j = Some \<lparr>acc_key = y, acc_token = tok', acc_balance = from_u128 b', acc_nonce = from_u64 n'\<rparr>"
    then have "b' = tb" "n' = tn" using C(4,5) by simp_all
    moreover have "tok' = tok" using 1 f(2) by (auto split: if_splits)
    ultimately show ?thesis using 1 by (simp add: accts)
  qed
  have h: "hasher e1 = hasher e" "hasher e2 = hasher e" "ops_acc e2 = ops_acc e" "nets_acc e2 = nets_acc e"
    using D(3) C(3) by (simp_all add: same_accounts_def)
  have cfg: "config_wf (config (hasher e2))" using exec_okD(2)[OF ok] h by simp
  note A = exec_accumulate_ok[OF ac cfg op(1-7)]
  have e': "tree e' = tree e2" "hasher e' = hasher e2" by (subst A(3), simp)+
  have ok2: "exec_ok D e' ?L2"
    using C(6) by (subst A(3)) (simp only: exec_ok_accumulators)
  have shape: "op_shape D ?op"
    using D(1,2) C(1,2) exec_paths(3)[OF ok, of i] exec_paths(3)[OF D(4), of j] by (simp add: op_shape_def field_op_def w)
  have range: "in_range (amount ?op)" "in_range (from_old_balance ?op)"
      "in_range (from_old_balance ?op - amount ?op)" "in_range (to_old_balance ?op + amount ?op)"
    using f(3,4) tb amt from_u128_diff[OF amt, where 'f = fr] from_u128_plus[OF tb128, where 'f = fr]
    by (auto simp: op in_range_u128 word_le_nat_alt unat_sub unat_word_ariths(1) VALUE_BITS_def
        simp flip: from_u128_diff[OF amt] from_u128_plus[OF tb128])
  have "apply_op ?op L = Some ?L2"
  proof -
    have "debit (slot_of (from_index_bits ?op)) ?op L = Some ?L1"
      using Li solvency[OF range(1,2)] range(3) by (simp add: debit_def slot op accts)
    moreover have "credit (slot_of (to_index_bits ?op)) ?op ?L1 = Some ?L2"
    proof -
      have "int (unat tb + unat amt) < int (2 ^ VALUE_BITS)" using tb by (simp only: of_nat_less_iff)
      then have "uint tb + uint amt < 2 ^ VALUE_BITS" by simp
      then show ?thesis using Lj by (simp add: credit_def slot op accts)
    qed
    ultimately show ?thesis using range(1) op(1) by (simp add: apply_op_def)
  qed
  moreover have "op_check (hasher e) ?op (node_val (tree e) D 0, ops_acc e, nets_acc e)
      = Inr (node_val (tree e') D 0, ops_acc e', nets_acc e')"
  proof (rule honest_op_accepted[OF exec_okD(1,2)[OF ok] shape op(1), unfolded slot accts(2,3)])
    show "L i = Some (from_account ?op)" "?L1 j = Some (to_account ?op)" by (fact Li, fact Lj)
    show "from_siblings ?op = tree_siblings (tree e) i" "to_siblings ?op = tree_siblings (tree e1) j"
      using D(2) C(2) by (simp_all add: field_op_def w)
    show "nonce ?op = from_old_nonce ?op" by (simp add: op)
    show "write_account (hasher e) i ?a1 (tree e, L) = (tree e1, ?L1)" by (rule D(5))
    show "write_account (hasher e) j ?a2 (tree e1, ?L1) = (tree e', ?L2)" using C(7) h e' by simp
    show "ops_check (hasher e) ?op (ops_acc e) = Inr (ops_acc e')"
      "nets_check (hasher e) ?op (nets_acc e) = Inr (nets_acc e')" using A(1,2) h by simp_all
  qed (rule range)+
  ultimately show ?thesis using e'(2) h shape ok2 by (auto simp: field_op_def)
qed

section \<open>Genesis\<close>

lemma executor_new_ok:
  assumes new: "executor_new fr_field cfg D = Inr e" and cfg: "config_wf cfg" and D: "D < 64"
  shows "exec_ok D e Map.empty"
proof -
  obtain t where t: "merkle_new fr_field cfg D = Inr t"
      and e: "e = \<lparr>tree = t, hasher = \<lparr>config = cfg\<rparr>, slots = Map.empty, token_of = Map.empty,
       balances = Map.empty, nonces = Map.empty, next_slot = 0, ops_acc = 0, nets_acc = 0, nets = [],
       sink_key = from_u64 SINK_TAG\<rparr>"
    using new by (auto simp: executor_new_def poseidon_native_new_def result_bind_Inr_iff)
  note n = merkle_new_wf[OF t]
  have "commits \<lparr>config = cfg\<rparr> D t Map.empty"
    using n D by (simp add: commits_def leaf_commits_def)
  then show ?thesis using cfg D by (simp add: exec_ok_def account_ok_def e)
qed

lemma executor_new_total: "config_wf cfg \<Longrightarrow> \<exists>e. executor_new fr_field cfg D = Inr e"
  using merkle_new_total[of cfg D] by (auto simp: executor_new_def)

text \<open>Taking the next slot for a new key, before its account is written.\<close>

lemma unat_push_bit: "d < 64 \<Longrightarrow> unat (push_bit d 1 :: 64 word) = 2 ^ d"
proof -
  assume "d < 64"
  then have "(2::nat) ^ d < 2 ^ 64" by (rule power_strict_increasing) simp
  moreover have "unat (push_bit d 1 :: 64 word) = take_bit 64 (push_bit d (1::nat))"
    by (simp only: unsigned_push_bit_eq unsigned_1 len_num0 len_num1 len_bit0 len_bit1) simp
  ultimately show ?thesis by (simp only: push_bit_eq_mult mult_1) (rule take_bit_nat_eq_self)
qed

lemma take_slot_ok:
  assumes ok: "exec_ok D e L" and new: "slots e (repr fr_field x) = None" and room: "unat (next_slot e) < 2 ^ D"
  shows "exec_ok_but D (e\<lparr>next_slot := next_slot e + 1, slots := (slots e)(repr fr_field x \<mapsto> next_slot e),
      token_of := tk\<rparr>) L x" "next_slot e < next_slot e + 1"
proof -
  let ?n = "next_slot e" and ?e = "e\<lparr>next_slot := next_slot e + 1,
      slots := (slots e)(repr fr_field x \<mapsto> next_slot e), token_of := tk\<rparr>"
  have "(2::nat) ^ D < 2 ^ 64" by (rule power_strict_increasing) (use exec_okD(3)[OF ok] in simp_all)
  then have "unat ?n + 1 < 2 ^ 64" using room by linarith
  then have n1: "unat (?n + 1) = unat ?n + 1" by (simp add: unat_word_ariths(1))
  then show lt: "?n < ?n + 1" by (simp add: word_less_nat_alt)
  have below: "i < ?n" if "slots e (repr fr_field y) = Some i" for y i by (rule exec_ok_slot[OF ok that])
  show "exec_ok_but D ?e L x"
    unfolding exec_ok_but_def
  proof (intro conjI allI impI)
    fix i assume "next_slot ?e \<le> i"
    then have "next_slot e \<le> i" using lt by simp
    then show "L i = None" by (rule exec_okD(5)[OF ok])
  next
    fix u v i assume uv: "slots ?e (repr fr_field u) = Some i \<and> slots ?e (repr fr_field v) = Some i"
    then show "u = v"
      using below[of u i] below[of v i] exec_okD(6)[OF ok, of u i v] by (auto split: if_splits)
  next
    fix y assume ne: "y \<noteq> x"
    have "account_ok e L y" by (rule exec_okD(7)[OF ok])
    then show "account_ok ?e L y" using ne lt by (cases "slots e (repr fr_field y)") (auto simp: account_ok_def)
  next
    fix i a assume "L i = Some a"
    then have "slots e (repr fr_field (acc_key a)) = Some i" by (rule exec_okD(8)[OF ok])
    then show "slots ?e (repr fr_field (acc_key a)) = Some i" using new by auto
  qed (use exec_okD(1-4)[OF ok] room n1 in simp_all)
qed

lemma register_ok:
  assumes ok: "exec_ok D e L" and run: "register oc fr_field D x tok b n e = Inr e'"
  shows "\<exists>i. slots e' (repr fr_field x) = Some i
    \<and> exec_ok D e' (L(i \<mapsto> \<lparr>acc_key = x, acc_token = tok, acc_balance = from_u128 b, acc_nonce = from_u64 n\<rparr>))
    \<and> (slots e (repr fr_field x) = None \<longrightarrow> L i = None)"
proof (cases "slots e (repr fr_field x)")
  case (Some i)
  then obtain h t where h: "native_h4 fr_field (hasher e) x tok (from_u128 b) (from_u64 n) = Inr h"
      "set_leaf fr_field i h (tree e) = Inr t"
      and e': "e' = e\<lparr>token_of := (token_of e)(repr fr_field x \<mapsto> tok), balances := (balances e)(repr fr_field x \<mapsto> b),
        nonces := (nonces e)(repr fr_field x \<mapsto> n), tree := t\<rparr>"
    using run by (auto simp: register_def Let_def result_bind_Inr_iff)
  let ?e = "e\<lparr>token_of := (token_of e)(repr fr_field x \<mapsto> tok)\<rparr>"
  have "account_ok ?e L y \<longleftrightarrow> account_ok e L y" for y by (simp add: account_ok_def split: option.split)
  then have "exec_ok D ?e L" using ok by (simp add: exec_ok_def)
  moreover have "e' = ?e\<lparr>tree := t, balances := (balances ?e)(repr fr_field x \<mapsto> b),
      nonces := (nonces ?e)(repr fr_field x \<mapsto> n)\<rparr>"
    by (simp add: e')
  ultimately show ?thesis using exec_ok_write(1)[OF \<open>exec_ok D ?e L\<close>, where x = x and i = i and tok = tok and b = b and n = n
        and h = h and t = t] Some h by simp
next
  case None
  let ?n = "next_slot e"
  have D: "D < 64" by (rule exec_okD(3)[OF ok])
  obtain h t where room: "?n < push_bit D 1"
      and h: "native_h4 fr_field (hasher e) x tok (from_u128 b) (from_u64 n) = Inr h"
      "set_leaf fr_field ?n h (tree e) = Inr t"
      and e': "e' = e\<lparr>next_slot := ?n + 1, slots := (slots e)(repr fr_field x \<mapsto> ?n),
        token_of := (token_of e)(repr fr_field x \<mapsto> tok), balances := (balances e)(repr fr_field x \<mapsto> b),
        nonces := (nonces e)(repr fr_field x \<mapsto> n), tree := t\<rparr>"
    using run None D by (auto simp: register_def Let_def result_bind_Inr_iff dest!: add_checked_Inr)
  have "unat ?n < 2 ^ D" using room unat_push_bit[OF D] by (simp only: word_less_nat_alt)
  note new = take_slot_ok(1)[OF ok None this, of "(token_of e)(repr fr_field x \<mapsto> tok)"] take_slot_ok(2)[OF ok None this]
  let ?e = "e\<lparr>next_slot := ?n + 1, slots := (slots e)(repr fr_field x \<mapsto> ?n),
      token_of := (token_of e)(repr fr_field x \<mapsto> tok)\<rparr>"
  have "e' = ?e\<lparr>tree := t, balances := (balances ?e)(repr fr_field x \<mapsto> b),
      nonces := (nonces ?e)(repr fr_field x \<mapsto> n)\<rparr>"
    by (simp add: e')
  then have "exec_ok D e' (L(?n \<mapsto> \<lparr>acc_key = x, acc_token = tok, acc_balance = from_u128 b, acc_nonce = from_u64 n\<rparr>))"
    using exec_ok_write_new(1)[OF new(1), where i = ?n and tok = tok and b = b and n = n and h = h and t = t]
      new(2) h by simp
  moreover have "L ?n = None" using exec_okD(5)[OF ok] by simp
  ultimately show ?thesis by (auto simp: e')
qed

section \<open>Totality\<close>

lemma native_h4_total: "config_wf (config pn) \<Longrightarrow> \<exists>h. native_h4 fr_field pn a b c d = Inr h"
  using native_hn_spec by (cases pn) (simp add: native_arity)

lemma native_hn_total: "config_wf (config pn) \<Longrightarrow> \<exists>h. native_hn fr_field pn xs = Inr h"
  using native_hn_spec by (cases pn) simp

lemma add_checked_total: "unat x + unat y < 2 ^ LENGTH('a) \<Longrightarrow> add_checked oc x (y :: 'a::len word) = Inr (x + y)"
  by (simp add: add_checked_def)

lemma exec_set_leaf_total: "exec_ok D e L \<Longrightarrow> \<exists>t. set_leaf fr_field i h (tree e) = Inr t"
  by (rule set_leaf_total) (use exec_okD(1,2)[of D e L] in \<open>auto simp: commits_def\<close>)

lemma exec_debit_total:
  assumes ok: "exec_ok D e L" and n: "unat n + 1 < 2 ^ 64"
  shows "\<exists>r. exec_debit oc fr_field D x tok amt b n i e = Inr r"
proof -
  obtain h where h: "native_h4 fr_field (hasher e) x tok (from_u128 (b - amt)) (from_u64 (n + 1)) = Inr h"
    using native_h4_total[OF exec_okD(2)[OF ok]] by blast
  obtain t where "set_leaf fr_field i h (tree e) = Inr t" using exec_set_leaf_total[OF ok] by blast
  moreover have "add_checked oc n 1 = Inr (n + 1)" by (rule add_checked_total) (use n in simp)
  ultimately show ?thesis using h exec_paths[OF ok] by (simp add: exec_debit_def to_array_def)
qed

lemma exec_credit_total:
  assumes ok: "exec_ok D e L" and "balances e (repr fr_field y) = Some b" "nonces e (repr fr_field y) = Some n"
    and b: "unat b + unat amt < 2 ^ 128"
  shows "\<exists>r. exec_credit oc fr_field D y tok amt j e = Inr r"
proof -
  obtain h where h: "native_h4 fr_field (hasher e) y tok (from_u128 (b + amt)) (from_u64 n) = Inr h"
    using native_h4_total[OF exec_okD(2)[OF ok]] by blast
  obtain t where "set_leaf fr_field j h (tree e) = Inr t" using exec_set_leaf_total[OF ok] by blast
  moreover have "add_checked oc b amt = Inr (b + amt)" by (rule add_checked_total) (use b in simp)
  ultimately show ?thesis using h assms(2,3) exec_paths[OF ok] by (simp add: exec_credit_def to_array_def expect_some_def)
qed

lemma exec_accumulate_total:
  assumes "config_wf (config (hasher e))"
  shows "\<exists>r. exec_accumulate fr_field knd x y tok amt n e = Inr r"
proof -
  note h4 = native_h4_total[OF assms] and hn = native_hn_total[OF assms]
  obtain h where h: "native_hn fr_field (hasher e) [from_u64 (code knd), x, y, tok, from_u128 amt, from_u64 n] = Inr h"
    using hn by blast
  obtain a where a: "native_h2 fr_field (hasher e) (ops_acc e) h = Inr a" using hn by (auto simp: native_arity)
  obtain m where "native_h4 fr_field (hasher e) (nets_acc e) x tok (from_u128 amt) = Inr m" using h4 by blast
  then show ?thesis using h a by (simp add: exec_accumulate_def Let_def)
qed

text \<open>What an operation does to the maps, whatever the tree holds.\<close>

lemma exec_debit_maps:
  assumes "exec_debit oc pf D x tok amt b n i e = Inr (bits, sibs, e')"
  shows "slots e' = slots e" "next_slot e' = next_slot e" "sink_key e' = sink_key e" "nets e' = nets e"
    "balances e' = (balances e)(repr pf x \<mapsto> b - amt)" "nonces e' = (nonces e)(repr pf x \<mapsto> n + 1)"
  using assms by (auto simp: exec_debit_def Let_def result_bind_Inr_iff dest!: add_checked_Inr)

lemma exec_credit_maps:
  assumes "exec_credit oc pf D y tok amt j e = Inr (b, n, bits, sibs, e')"
  shows "slots e' = slots e" "next_slot e' = next_slot e" "sink_key e' = sink_key e" "nets e' = nets e"
    "balances e (repr pf y) = Some b" "balances e' = (balances e)(repr pf y \<mapsto> b + amt)" "nonces e' = nonces e"
  using assms by (auto simp: exec_credit_def Let_def result_bind_Inr_iff dest!: add_checked_Inr)

lemma exec_accumulate_maps:
  assumes "exec_accumulate pf knd x y tok amt n e = Inr e'"
  shows "slots e' = slots e" "next_slot e' = next_slot e" "sink_key e' = sink_key e" "balances e' = balances e"
    "nonces e' = nonces e" "nets e' = nets e @ (if knd = Withdraw then [(x, tok, amt)] else [])"
  using assms by (cases "knd = Withdraw"; auto simp: exec_accumulate_def Let_def result_bind_Inr_iff)+

lemma exec_apply_maps:
  assumes "exec_apply oc pf D knd x y tok amt e = Inr (w, e')"
  obtains b n c where "balances e (repr pf x) = Some b" "nonces e (repr pf x) = Some n" "amt \<le> b"
    "((balances e)(repr pf x \<mapsto> b - amt)) (repr pf y) = Some c" "slots e' = slots e" "next_slot e' = next_slot e"
    "balances e' = (balances e)(repr pf x \<mapsto> b - amt, repr pf y \<mapsto> c + amt)"
    "nonces e' = (nonces e)(repr pf x \<mapsto> n + 1)" "sink_key e' = sink_key e"
    "nets e' = nets e @ (if knd = Withdraw then [(x, tok, amt)] else [])"
proof -
  obtain b n i j bits sibs e1 c u v w' e2
    where s: "balances e (repr pf x) = Some b" "nonces e (repr pf x) = Some n" "amt \<le> b"
      and d: "exec_debit oc pf D x tok amt b n i e = Inr (bits, sibs, e1)"
      and c: "exec_credit oc pf D y tok amt j e1 = Inr (c, u, v, w', e2)"
      and a: "exec_accumulate pf knd x y tok amt n e2 = Inr e'"
    using assms by (auto simp: exec_apply_def Let_def result_bind_Inr_iff)
  show thesis
    by (rule that[OF s])
      (use exec_debit_maps[OF d] exec_credit_maps[OF c] exec_accumulate_maps[OF a] in simp_all)
qed

lemma exec_apply_total:
  assumes ok: "exec_ok D e L" and fits: "op_fits e L x y tok amt"
    and amt: "balances e (repr fr_field x) = Some b" "amt \<le> b"
  shows "\<exists>w e'. exec_apply oc fr_field D knd x y tok amt e = Inr (w, e')"
proof -
  obtain i j c n where s: "slots e (repr fr_field x) = Some i" "slots e (repr fr_field y) = Some j"
      "balances e (repr fr_field y) = Some c" "nonces e (repr fr_field x) = Some n"
      and f: "unat b < 2 ^ VALUE_BITS" "x \<noteq> y \<longrightarrow> unat c + unat amt < 2 ^ VALUE_BITS" "unat n + 1 < 2 ^ 64"
    using fits amt(1) by (auto simp: op_fits_def split: option.splits)
  obtain bits sibs e1 where d: "exec_debit oc fr_field D x tok amt b n i e = Inr (bits, sibs, e1)"
    using exec_debit_total[OF ok f(3)] by fastforce
  note D = exec_debit_ok[OF ok s(1) d amt(2) f(3)]
  have "slots e1 (repr fr_field y) = Some j" using D(3) s(2) by (simp add: same_accounts_def)
  then obtain tn where tn: "nonces e1 (repr fr_field y) = Some tn" by (rule exec_ok_slot[OF D(4)])
  let ?c = "if y = x then b - amt else c"
  have tb: "balances e1 (repr fr_field y) = Some ?c" using D(6) s(3) by simp
  have "unat ?c + unat amt < 2 ^ 128"
    using f(1,2) amt(2) by (auto simp: unat_sub word_le_nat_alt VALUE_BITS_def)
  then obtain r where cr: "exec_credit oc fr_field D y tok amt j e1 = Inr r"
    using exec_credit_total[OF D(4) tb tn] by blast
  obtain cb cn bits' sibs' e2 where r: "r = (cb, cn, bits', sibs', e2)" by (cases r) auto
  have "hasher e2 = hasher e1"
    using cr r by (auto simp: exec_credit_def Let_def result_bind_Inr_iff)
  then have "config_wf (config (hasher e2))" using exec_okD(2)[OF D(4)] by simp
  then obtain e3 where "exec_accumulate fr_field knd x y tok amt n e2 = Inr e3" using exec_accumulate_total by blast
  then show ?thesis
    using s amt d cr r by (simp add: exec_apply_def Let_def expect_some_def assert_def)
qed

lemma register_total:
  assumes ok: "exec_ok D e L" and room: "slots e (repr fr_field x) = None \<Longrightarrow> unat (next_slot e) < 2 ^ D"
  shows "\<exists>e'. register oc fr_field D x tok b n e = Inr e'"
proof -
  have D: "D < 64" by (rule exec_okD(3)[OF ok])
  obtain h where h: "native_h4 fr_field (hasher e) x tok (from_u128 b) (from_u64 n) = Inr h"
    using native_h4_total[OF exec_okD(2)[OF ok]] by blast
  obtain t u where t: "set_leaf fr_field (next_slot e) h (tree e) = Inr t"
      "set_leaf fr_field (the (slots e (repr fr_field x))) h (tree e) = Inr u"
    using exec_set_leaf_total[OF ok] by blast
  show ?thesis
  proof (cases "slots e (repr fr_field x)")
    case None
    have "unat (next_slot e) < unat (push_bit D 1 :: 64 word)" using room[OF None] unat_push_bit[OF D] by simp
    then have "next_slot e < push_bit D 1" by (simp only: word_less_nat_alt)
    moreover have "(2::nat) ^ D < 2 ^ 64" by (rule power_strict_increasing) (use D in simp_all)
    then have "add_checked oc (next_slot e) 1 = Inr (next_slot e + 1)"
      by (intro add_checked_total) (use room[OF None] in simp)
    ultimately show ?thesis using None h t D by (simp add: register_def Let_def expect_some_def assert_def)
  next
    case (Some i)
    then show ?thesis using h t by (simp add: register_def Let_def expect_some_def)
  qed
qed

end
