(* ===== verification/Epoch_Run.thy ===== *)
theory Epoch_Run
  imports Executor
begin

text \<open>
  Running an epoch.  The executor is asked for a sequence of operations; the abstract machine it
  implements is a book of accounts with unbounded natural numbers.  Whenever the book allows the
  sequence, the executor returns, its maps stay the abstraction of the book, and the circuit's
  check accepts every witness it emitted, on the states it passed through.
\<close>

section \<open>Sequences of operations\<close>

text \<open>The arguments of one call: kind, sender, recipient, token and amount.\<close>

type_synonym 'f request = "op_kind \<times> 'f \<times> 'f \<times> 'f \<times> 128 word"

fun exec_run ::
  "bool \<Rightarrow> 'f::field prime_field \<Rightarrow> nat \<Rightarrow> 'f request list \<Rightarrow> 'f executor \<Rightarrow> fault + 'f op_witness list \<times> 'f executor" where
  "exec_run oc pf D [] e = Inr ([], e)"
| "exec_run oc pf D ((knd, x, y, tok, amt) # rs) e =
     result_bind (exec_apply oc pf D knd x y tok amt e) (\<lambda>(w, e).
     result_bind (exec_run oc pf D rs e) (\<lambda>(ws, e). Inr (w # ws, e)))"

section \<open>The abstract book\<close>

record entry =
  ent_token :: fr
  ent_balance :: nat
  ent_nonce :: nat

type_synonym book = "fr \<rightharpoonup> entry"

definition book_debit :: "fr \<Rightarrow> fr \<Rightarrow> nat \<Rightarrow> book \<Rightarrow> book option" where
  "book_debit x tok amt B = (case B x of None \<Rightarrow> None | Some a \<Rightarrow>
     if ent_token a = tok \<and> amt \<le> ent_balance a \<and> ent_balance a < 2 ^ VALUE_BITS \<and> ent_nonce a + 1 < 2 ^ 64
     then Some (B(x \<mapsto> a\<lparr>ent_balance := ent_balance a - amt, ent_nonce := ent_nonce a + 1\<rparr>))
     else None)"

definition book_credit :: "fr \<Rightarrow> fr \<Rightarrow> nat \<Rightarrow> book \<Rightarrow> book option" where
  "book_credit y tok amt B = (case B y of None \<Rightarrow> None | Some a \<Rightarrow>
     if ent_token a = tok \<and> ent_balance a + amt < 2 ^ VALUE_BITS
     then Some (B(y \<mapsto> a\<lparr>ent_balance := ent_balance a + amt\<rparr>))
     else None)"

definition book_apply :: "fr request \<Rightarrow> book \<Rightarrow> book option" where
  "book_apply = (\<lambda>(knd, x, y, tok, amt) B.
     Option.bind (book_debit x tok (unat amt) B) (book_credit y tok (unat amt)))"

fun book_run :: "fr request list \<Rightarrow> book \<Rightarrow> book option" where
  "book_run [] B = Some B"
| "book_run (r # rs) B = Option.bind (book_apply r B) (book_run rs)"

text \<open>The book of an executor: its maps, and the tokens of the ledger its tree commits to.\<close>

definition exec_book :: "fr executor \<Rightarrow> ledger \<Rightarrow> book" where
  "exec_book e L x =
    (case (slots e (repr fr_field x), balances e (repr fr_field x), nonces e (repr fr_field x)) of
       (Some i, Some b, Some n) \<Rightarrow>
         map_option (\<lambda>a. \<lparr>ent_token = acc_token a, ent_balance = unat b, ent_nonce = unat n\<rparr>) (L i)
     | _ \<Rightarrow> None)"

lemma exec_book_Some:
  assumes "exec_book e L x = Some a"
  obtains i b n where "slots e (repr fr_field x) = Some i" "balances e (repr fr_field x) = Some b"
    "nonces e (repr fr_field x) = Some n" "map_option acc_token (L i) = Some (ent_token a)"
    "ent_balance a = unat b" "ent_nonce a = unat n"
  using assms by (fastforce simp: exec_book_def split: option.splits)

lemma exec_book_upd:
  assumes "exec_book e L x = Some a" and "slots e' = slots e"
    and "balances e' = (balances e)(repr fr_field x \<mapsto> b)" "nonces e' = (nonces e)(repr fr_field x \<mapsto> n)"
    and tok: "\<And>i. map_option acc_token (L' i) = map_option acc_token (L i)"
  shows "exec_book e' L' = (exec_book e L)(x \<mapsto> a\<lparr>ent_balance := unat b, ent_nonce := unat n\<rparr>)"
proof
  fix z
  have L': "map_option (\<lambda>a. \<lparr>ent_token = acc_token a, ent_balance = u, ent_nonce = v\<rparr>) (L' i)
      = map_option (\<lambda>a. \<lparr>ent_token = acc_token a, ent_balance = u, ent_nonce = v\<rparr>) (L i)" for i u v
    using tok[of i] by (cases "L i"; cases "L' i") auto
  obtain i where "slots e (repr fr_field x) = Some i" "map_option acc_token (L i) = Some (ent_token a)"
    by (rule exec_book_Some[OF assms(1)])
  then show "exec_book e' L' z = ((exec_book e L)(x \<mapsto> a\<lparr>ent_balance := unat b, ent_nonce := unat n\<rparr>)) z"
    using assms(2-4) by (cases "z = x"; cases a) (auto simp: exec_book_def L' split: option.split)
qed

lemma apply_op_token:
  "apply_op op L = Some L' \<Longrightarrow> map_option acc_token (L' i) = map_option acc_token (L i)"
  by (auto simp: apply_op_def debit_def credit_def split: if_splits option.splits)

lemma book_apply_fits:
  assumes B: "book_apply (knd, x, y, tok, amt) (exec_book e L) = Some B'"
  obtains b where "op_fits e L x y tok amt" "balances e (repr fr_field x) = Some b" "amt \<le> b"
proof -
  obtain a c where a: "exec_book e L x = Some a" "ent_token a = tok" "unat amt \<le> ent_balance a"
      "ent_balance a < 2 ^ VALUE_BITS" "ent_nonce a + 1 < 2 ^ 64"
      and c: "exec_book e L y = Some c" "ent_token c = tok" "x \<noteq> y \<longrightarrow> ent_balance c + unat amt < 2 ^ VALUE_BITS"
    using B by (cases "x = y") (auto simp: book_apply_def book_debit_def book_credit_def split: option.splits if_splits)
  obtain i b n where 1: "slots e (repr fr_field x) = Some i" "balances e (repr fr_field x) = Some b"
      "nonces e (repr fr_field x) = Some n" "map_option acc_token (L i) = Some tok"
      "ent_balance a = unat b" "ent_nonce a = unat n"
    by (rule exec_book_Some[OF a(1)]) (use a(2) in auto)
  obtain j d where 2: "slots e (repr fr_field y) = Some j" "balances e (repr fr_field y) = Some d"
      "map_option acc_token (L j) = Some tok" "ent_balance c = unat d"
    by (rule exec_book_Some[OF c(1)]) (use c(2) in auto)
  have "op_fits e L x y tok amt" using 1 2 a c(3) by (simp add: op_fits_def)
  moreover have "amt \<le> b" using a(3) 1(5) by (simp add: word_le_nat_alt)
  ultimately show thesis using that 1(2) by blast
qed

text \<open>One operation: the executor follows the book, and the check accepts the witness.\<close>

definition chain_ok :: "fr poseidon_native \<Rightarrow> nat \<Rightarrow> fr op_witness list \<Rightarrow> fr executor \<Rightarrow> fr executor \<Rightarrow> bool" where
  "chain_ok pn D ws e e' \<longleftrightarrow> hasher e = pn \<and> hasher e' = pn \<and> list_all (op_shape D) ws
     \<and> result_fold (op_check pn) (map field_op ws) (node_val (tree e) D 0, ops_acc e, nets_acc e)
         = Inr (node_val (tree e') D 0, ops_acc e', nets_acc e')"

lemma chain_ok_Nil: "chain_ok (hasher e) D [] e e"
  by (simp add: chain_ok_def)

lemma chain_ok_Cons:
  assumes "op_shape D w" "op_check pn (field_op w) (node_val (tree e) D 0, ops_acc e, nets_acc e)
      = Inr (node_val (tree e1) D 0, ops_acc e1, nets_acc e1)" "hasher e = pn" "hasher e1 = pn"
    and "chain_ok pn D ws e1 e2"
  shows "chain_ok pn D (w # ws) e e2"
  using assms by (simp add: chain_ok_def)

lemma apply_book:
  assumes B: "book_apply (knd, x, y, tok, amt) (exec_book e L) = Some B'"
    and run: "exec_apply oc fr_field D knd x y tok amt e = Inr (w, e')"
    and tok: "\<And>i. map_option acc_token (L' i) = map_option acc_token (L i)"
  shows "exec_book e' L' = B'"
proof -
  obtain b n c where m: "balances e (repr fr_field x) = Some b" "nonces e (repr fr_field x) = Some n" "amt \<le> b"
      "((balances e)(repr fr_field x \<mapsto> b - amt)) (repr fr_field y) = Some c" "slots e' = slots e"
      "balances e' = (balances e)(repr fr_field x \<mapsto> b - amt, repr fr_field y \<mapsto> c + amt)"
      "nonces e' = (nonces e)(repr fr_field x \<mapsto> n + 1)"
    using exec_apply_maps[OF run] by metis
  obtain a where a: "exec_book e L x = Some a" "ent_nonce a + 1 < 2 ^ 64"
      and d: "book_credit y tok (unat amt) ((exec_book e L)(x \<mapsto> a\<lparr>ent_balance := ent_balance a - unat amt,
        ent_nonce := ent_nonce a + 1\<rparr>)) = Some B'"
    using B by (auto simp: book_apply_def book_debit_def split: option.splits if_splits)
  have an: "ent_balance a = unat b" "ent_nonce a = unat n" by (rule exec_book_Some[OF a(1)], use m(1,2) in simp)+
  let ?e = "e\<lparr>balances := (balances e)(repr fr_field x \<mapsto> b - amt), nonces := (nonces e)(repr fr_field x \<mapsto> n + 1)\<rparr>"
  have 1: "exec_book ?e L = (exec_book e L)(x \<mapsto> a\<lparr>ent_balance := unat (b - amt), ent_nonce := unat (n + 1)\<rparr>)"
    by (rule exec_book_upd[OF a(1)]) simp_all
  also have "\<dots> = (exec_book e L)(x \<mapsto> a\<lparr>ent_balance := ent_balance a - unat amt, ent_nonce := ent_nonce a + 1\<rparr>)"
    using m(3) a(2) an by (simp add: unat_sub word_le_nat_alt unat_word_ariths(1))
  finally have "book_credit y tok (unat amt) (exec_book ?e L) = Some B'" using d by simp
  then obtain f where f: "exec_book ?e L y = Some f" "ent_balance f + unat amt < 2 ^ VALUE_BITS"
      and B': "B' = (exec_book ?e L)(y \<mapsto> f\<lparr>ent_balance := ent_balance f + unat amt\<rparr>)"
    by (auto simp: book_credit_def split: option.splits if_splits)
  obtain k where k: "balances ?e (repr fr_field y) = Some c" "nonces ?e (repr fr_field y) = Some k"
      "ent_balance f = unat c" "ent_nonce f = unat k"
    by (rule exec_book_Some[OF f(1)]) (use m(4) in auto)
  have "exec_book e' L' = (exec_book ?e L)(y \<mapsto> f\<lparr>ent_balance := unat (c + amt), ent_nonce := unat k\<rparr>)"
  proof (rule exec_book_upd[OF f(1)])
    show "nonces e' = (nonces ?e)(repr fr_field y \<mapsto> k)" using k(2) m(7) by (simp add: fun_upd_idem)
  qed (use m(5,6) tok in simp_all)
  also have "\<dots> = B'"
    using f(2) k(3,4) by (cases f) (simp add: B' unat_word_ariths(1) VALUE_BITS_def)
  finally show ?thesis .
qed

lemma apply_simulates:
  assumes ok: "exec_ok D e L" and B: "book_apply (knd, x, y, tok, amt) (exec_book e L) = Some B'"
  shows "\<exists>w e' L'. exec_apply oc fr_field D knd x y tok amt e = Inr (w, e') \<and> exec_ok D e' L' \<and> exec_book e' L' = B'
    \<and> apply_op (field_op w) L = Some L' \<and> op_shape D w \<and> hasher e' = hasher e
    \<and> op_check (hasher e) (field_op w) (node_val (tree e) D 0, ops_acc e, nets_acc e)
        = Inr (node_val (tree e') D 0, ops_acc e', nets_acc e')"
proof -
  obtain b where fits: "op_fits e L x y tok amt" "balances e (repr fr_field x) = Some b" "amt \<le> b"
    by (rule book_apply_fits[OF B])
  obtain w e' where run: "exec_apply oc fr_field D knd x y tok amt e = Inr (w, e')"
    using exec_apply_total[OF ok fits] by blast
  obtain L' where L': "exec_ok D e' L'" "op_shape D w" "hasher e' = hasher e" "apply_op (field_op w) L = Some L'"
      "op_check (hasher e) (field_op w) (node_val (tree e) D 0, ops_acc e, nets_acc e)
        = Inr (node_val (tree e') D 0, ops_acc e', nets_acc e')"
    using exec_apply_accepted[OF ok fits(1) run] by blast
  have "exec_book e' L' = B'" by (rule apply_book[OF B run apply_op_token[OF L'(4)]])
  then show ?thesis using run L' by blast
qed

text \<open>A sequence of operations.\<close>

lemma run_simulates:
  assumes "exec_ok D e L" "book_run rs (exec_book e L) = Some B'"
  shows "\<exists>ws e' L'. exec_run oc fr_field D rs e = Inr (ws, e') \<and> exec_ok D e' L' \<and> exec_book e' L' = B'
    \<and> ledger_run L (map field_op ws) L' \<and> chain_ok (hasher e) D ws e e' \<and> length ws = length rs"
  using assms
proof (induction rs arbitrary: e L)
  case Nil
  then show ?case by (fastforce simp: chain_ok_Nil intro: ledger_run_Nil)
next
  case (Cons r rs)
  obtain knd x y tok amt where r: "r = (knd, x, y, tok, amt)" by (cases r) auto
  obtain B1 where B1: "book_apply r (exec_book e L) = Some B1" "book_run rs B1 = Some B'"
    using Cons.prems(2) by (auto simp: bind_eq_Some_conv)
  obtain w e1 L1 where 1: "exec_apply oc fr_field D knd x y tok amt e = Inr (w, e1)" "exec_ok D e1 L1"
      "exec_book e1 L1 = B1" "apply_op (field_op w) L = Some L1" "op_shape D w" "hasher e1 = hasher e"
      "op_check (hasher e) (field_op w) (node_val (tree e) D 0, ops_acc e, nets_acc e)
        = Inr (node_val (tree e1) D 0, ops_acc e1, nets_acc e1)"
    using apply_simulates[OF Cons.prems(1)] B1(1) r by blast
  obtain ws e2 L2 where 2: "exec_run oc fr_field D rs e1 = Inr (ws, e2)" "exec_ok D e2 L2" "exec_book e2 L2 = B'"
      "ledger_run L1 (map field_op ws) L2" "chain_ok (hasher e1) D ws e1 e2" "length ws = length rs"
    using Cons.IH[OF 1(2)] B1(2) 1(3) by blast
  have "chain_ok (hasher e) D (w # ws) e e2"
    by (rule chain_ok_Cons[OF 1(5,7) refl 1(6)]) (use 2(5) 1(6) in simp)
  moreover have "ledger_run L (map field_op (w # ws)) L2" using ledger_run_Cons[OF 1(4) 2(4)] by simp
  ultimately show ?case using 1(1) 2 r by simp blast
qed

lemma exec_state: "exec_ok D e L \<Longrightarrow> state e = Inr [node_val (tree e) D 0, ops_acc e, nets_acc e]"
  using exec_okD(1)[of D e L] by (auto simp: state_def commits_def root_eq)

lemma exec_book_None:
  "exec_ok D e L \<Longrightarrow> exec_book e L x = None \<longleftrightarrow> slots e (repr fr_field x) = None"
  by (cases "slots e (repr fr_field x)") (auto simp: exec_book_def elim: exec_ok_slot)

section \<open>Genesis\<close>

text \<open>Registering the accounts of an epoch, each a key, a token, a balance and a nonce.\<close>

type_synonym 'f registration = "'f \<times> 'f \<times> 128 word \<times> 64 word"

fun register_all ::
  "bool \<Rightarrow> 'f::field prime_field \<Rightarrow> nat \<Rightarrow> 'f registration list \<Rightarrow> 'f executor \<Rightarrow> fault + 'f executor" where
  "register_all oc pf D [] e = Inr e"
| "register_all oc pf D ((key, tok, b, n) # rs) e =
     result_bind (register oc pf D key tok b n e) (register_all oc pf D rs)"

definition book_register :: "fr registration \<Rightarrow> book \<Rightarrow> book" where
  "book_register = (\<lambda>(key, tok, b, n) B. B(key \<mapsto> \<lparr>ent_token = tok, ent_balance = unat b, ent_nonce = unat n\<rparr>))"

lemma register_maps:
  assumes "register oc pf D x tok b n e = Inr e'"
  shows "balances e' = (balances e)(repr pf x \<mapsto> b)" "nonces e' = (nonces e)(repr pf x \<mapsto> n)"
    "sink_key e' = sink_key e" "hasher e' = hasher e" "ops_acc e' = ops_acc e" "nets_acc e' = nets_acc e" "nets e' = nets e"
    "k \<noteq> repr pf x \<Longrightarrow> slots e' k = slots e k"
    "next_slot e' = next_slot e + (if slots e (repr pf x) = None then 1 else 0)"
  using assms by (auto simp: register_def Let_def result_bind_Inr_iff split: if_splits dest!: add_checked_Inr)

lemma register_book:
  assumes ok: "exec_ok D e L" and run: "register oc fr_field D x tok b n e = Inr e'"
  obtains i where "exec_ok D e' (L(i \<mapsto> \<lparr>acc_key = x, acc_token = tok, acc_balance = from_u128 b, acc_nonce = from_u64 n\<rparr>))"
    "exec_book e' (L(i \<mapsto> \<lparr>acc_key = x, acc_token = tok, acc_balance = from_u128 b, acc_nonce = from_u64 n\<rparr>))
       = book_register (x, tok, b, n) (exec_book e L)"
proof -
  let ?a = "\<lparr>acc_key = x, acc_token = tok, acc_balance = from_u128 b, acc_nonce = from_u64 n\<rparr>"
  obtain i where i: "slots e' (repr fr_field x) = Some i" "exec_ok D e' (L(i \<mapsto> ?a))"
    using register_ok[OF ok run] by blast
  note m = register_maps[OF run]
  have "exec_book e' (L(i \<mapsto> ?a)) z = book_register (x, tok, b, n) (exec_book e L) z" for z
  proof (cases "z = x")
    case True
    then show ?thesis using i(1) m by (simp add: exec_book_def book_register_def)
  next
    case False
    then have "slots e' (repr fr_field z) \<noteq> Some i" using exec_okD(6)[OF i(2), of z i x] i(1) by blast
    then show ?thesis
      using False m by (auto simp: exec_book_def book_register_def split: option.split)
  qed
  then show thesis using that i(2) by (simp add: fun_eq_iff)
qed

lemma register_all_simulates:
  assumes "exec_ok D e L" "unat (next_slot e) + length rs \<le> 2 ^ D"
  shows "\<exists>e' L'. register_all oc fr_field D rs e = Inr e' \<and> exec_ok D e' L'
    \<and> exec_book e' L' = fold book_register rs (exec_book e L) \<and> hasher e' = hasher e
    \<and> ops_acc e' = ops_acc e \<and> nets_acc e' = nets_acc e \<and> nets e' = nets e \<and> sink_key e' = sink_key e"
  using assms
proof (induction rs arbitrary: e L)
  case (Cons r rs)
  obtain x tok b n where r: "r = (x, tok, b, n)" by (cases r) auto
  have room: "unat (next_slot e) < 2 ^ D" using Cons.prems(2) by simp
  obtain e1 where e1: "register oc fr_field D x tok b n e = Inr e1"
    using register_total[OF Cons.prems(1)] room by blast
  note m = register_maps[OF e1]
  obtain L1 where L1: "exec_ok D e1 L1" "exec_book e1 L1 = book_register r (exec_book e L)"
    using register_book[OF Cons.prems(1) e1] r by metis
  have "unat (next_slot e1) \<le> unat (next_slot e) + 1"
    using m(9) by (auto simp: unat_word_ariths(1) split: if_splits intro: order_trans[OF mod_less_eq_dividend])
  then have "unat (next_slot e1) + length rs \<le> 2 ^ D" using Cons.prems(2) by simp
  from Cons.IH[OF L1(1) this] show ?case using e1 L1(2) m by (auto simp: r)
qed auto

lemma genesis_simulates:
  assumes cfg: "config_wf cfg" and D: "D < 64" and room: "length accts \<le> 2 ^ D"
  obtains e0 e L where "executor_new fr_field cfg D = Inr e0" "register_all oc fr_field D accts e0 = Inr e"
    "exec_ok D e L" "exec_book e L = fold book_register accts Map.empty" "hasher e = \<lparr>config = cfg\<rparr>"
    "ops_acc e = 0" "nets_acc e = 0" "nets e = []" "sink_key e = from_u64 SINK_TAG"
proof -
  obtain e0 where e0: "executor_new fr_field cfg D = Inr e0" using executor_new_total[OF cfg] by blast
  have ok: "exec_ok D e0 Map.empty" by (rule executor_new_ok[OF e0 cfg D])
  have new: "next_slot e0 = 0" "slots e0 = Map.empty" "hasher e0 = \<lparr>config = cfg\<rparr>" "ops_acc e0 = 0" "nets_acc e0 = 0"
    "nets e0 = []" "sink_key e0 = from_u64 SINK_TAG"
    using e0 by (auto simp: executor_new_def poseidon_native_new_def result_bind_Inr_iff)
  then have "exec_book e0 Map.empty = Map.empty" by (simp add: exec_book_def fun_eq_iff)
  then show thesis using register_all_simulates[OF ok, of accts oc] room new that[OF e0] by auto
qed

section \<open>An epoch\<close>

text \<open>
  From an empty tree: register the accounts, take the initial state, run the operations, take the
  final state.
\<close>

definition exec_epoch ::
  "bool \<Rightarrow> 'f::field prime_field \<Rightarrow> 'f poseidon_config \<Rightarrow> nat \<Rightarrow> 'f registration list \<Rightarrow> 'f request list
   \<Rightarrow> fault + 'f list \<times> 'f op_witness list \<times> 'f list \<times> 'f executor" where
  "exec_epoch oc pf cfg D accts rs =
     result_bind (executor_new pf cfg D) (\<lambda>e.
     result_bind (register_all oc pf D accts e) (\<lambda>e.
     result_bind (initial_state e) (\<lambda>z0.
     result_bind (exec_run oc pf D rs e) (\<lambda>(ws, e).
     result_bind (state e) (\<lambda>zn. Inr (z0, ws, zn, e))))))"

lemma epoch_simulates:
  assumes "config_wf cfg" "D < 64" "length accts \<le> 2 ^ D" "book_run rs (fold book_register accts Map.empty) = Some B'"
  shows "\<exists>r ws r' oacc nacc e L L0 L'. exec_epoch oc fr_field cfg D accts rs = Inr ([r, 0, 0], ws, [r', oacc, nacc], e)
    \<and> exec_ok D e L' \<and> exec_book e L' = B' \<and> hasher e = \<lparr>config = cfg\<rparr>
    \<and> list_all (op_shape D) ws \<and> length ws = length rs
    \<and> step_check \<lparr>config = cfg\<rparr> (map field_op ws) (r, 0, 0) = Inr (r', oacc, nacc)"
proof -
  obtain e0 e L where g: "executor_new fr_field cfg D = Inr e0" "register_all oc fr_field D accts e0 = Inr e"
    "exec_ok D e L" "exec_book e L = fold book_register accts Map.empty" "hasher e = \<lparr>config = cfg\<rparr>"
    "ops_acc e = 0" "nets_acc e = 0"
    by (rule genesis_simulates[OF assms(1-3)])
  obtain ws e' L' where r: "exec_run oc fr_field D rs e = Inr (ws, e')" "exec_ok D e' L'" "exec_book e' L' = B'"
      "chain_ok (hasher e) D ws e e'" "length ws = length rs"
    using run_simulates[OF g(3)] assms(4) g(4) by metis
  have "initial_state e = Inr [node_val (tree e) D 0, 0, 0]"
    using exec_okD(1)[OF g(3)] g(6,7) by (auto simp: initial_state_def assert_def commits_def root_eq)
  then show ?thesis
    using g r exec_state[OF r(2)] by (auto simp: exec_epoch_def chain_ok_def step_check_def)
qed

section \<open>A small executor\<close>

text \<open>Two accounts of token 1 in a tree of depth 2, under the toy parameters.\<close>

definition toy_accounts :: "fr registration list" where
  "toy_accounts = [(11, 1, 500, 0), (12, 1, 20, 4)]"

lemma toy_keys [simp]: "(11::fr) \<noteq> 12" "(12::fr) \<noteq> 11" "(13::fr) \<noteq> 11" "(13::fr) \<noteq> 12"
  by (simp_all add: fr_numeral_eq_iff fr_modulus_def)

lemma toy_book:
  "fold book_register toy_accounts Map.empty 11 = Some \<lparr>ent_token = 1, ent_balance = 500, ent_nonce = 0\<rparr>"
  "fold book_register toy_accounts Map.empty 12 = Some \<lparr>ent_token = 1, ent_balance = 20, ent_nonce = 4\<rparr>"
  "fold book_register toy_accounts Map.empty 13 = None"
  by (simp_all add: toy_accounts_def book_register_def)

lemma toy_executor:
  obtains e0 e L where "executor_new fr_field toy_config 2 = Inr e0" "register_all oc fr_field 2 toy_accounts e0 = Inr e"
    "exec_ok 2 e L" "config (hasher e) = toy_config"
    "exec_book e L 11 = Some \<lparr>ent_token = 1, ent_balance = 500, ent_nonce = 0\<rparr>"
    "exec_book e L 12 = Some \<lparr>ent_token = 1, ent_balance = 20, ent_nonce = 4\<rparr>"
    "exec_book e L 13 = None"
proof (rule genesis_simulates[OF toy_config_wf(1), of 2 toy_accounts oc])
  fix e0 e L
  assume "executor_new fr_field toy_config 2 = Inr e0" "register_all oc fr_field 2 toy_accounts e0 = Inr e"
    "exec_ok 2 e L" "exec_book e L = fold book_register toy_accounts Map.empty" "hasher e = \<lparr>config = toy_config\<rparr>"
  then show thesis using toy_book that by simp
qed (simp_all add: toy_accounts_def)

definition toy_requests :: "fr request list" where
  "toy_requests = [(Load, 11, 12, 1, 200), (Spend, 12, 11, 1, 210), (Withdraw, 12, 11, 1, 10)]"

lemma toy_book_run:
  assumes "B 11 = Some \<lparr>ent_token = 1, ent_balance = 500, ent_nonce = 0\<rparr>"
    "B 12 = Some \<lparr>ent_token = 1, ent_balance = 20, ent_nonce = 4\<rparr>"
  shows "book_run toy_requests B = Some (B(11 \<mapsto> \<lparr>ent_token = 1, ent_balance = 520, ent_nonce = 1\<rparr>,
     12 \<mapsto> \<lparr>ent_token = 1, ent_balance = 0, ent_nonce = 6\<rparr>))"
proof -
  have "(11::fr) \<noteq> 12" by (simp add: fr_numeral_eq_iff fr_modulus_def)
  then show ?thesis
    using assms by (simp add: toy_requests_def book_apply_def book_debit_def book_credit_def VALUE_BITS_def fun_upd_twist)
qed

lemma toy_epoch:
  "\<exists>ws r r' oacc nacc e. exec_epoch oc fr_field toy_config 2 toy_accounts toy_requests = Inr ([r, 0, 0], ws, [r', oacc, nacc], e)
    \<and> length ws = 3 \<and> list_all (op_shape 2) ws
    \<and> step_check \<lparr>config = toy_config\<rparr> (map field_op ws) (r, 0, 0) = Inr (r', oacc, nacc)"
proof -
  have "length toy_accounts \<le> 2 ^ 2" "length toy_requests = 3" by (simp_all add: toy_accounts_def toy_requests_def)
  then show ?thesis
    using epoch_simulates[OF toy_config_wf(1) _ _ toy_book_run[OF toy_book(1,2)], of 2 oc] by fastforce
qed

section \<open>Properties of the executor\<close>

text \<open>
  C19. Registering an account keeps the executor, its tree and the ledger the tree commits to in
  agreement: the key gets a slot of its own, which was empty if the key is new, and the ledger
  changes there only.
\<close>

theorem register_invariant:
  assumes "exec_ok D e L" "register oc fr_field D x tok b n e = Inr e'"
  shows "\<exists>i. slots e' (repr fr_field x) = Some i
    \<and> exec_ok D e' (L(i \<mapsto> \<lparr>acc_key = x, acc_token = tok, acc_balance = from_u128 b, acc_nonce = from_u64 n\<rparr>))
    \<and> (slots e (repr fr_field x) = None \<longrightarrow> L i = None)"
  by (rule register_ok[OF assms])

theorem register_invariant_witness:
  "\<exists>e e' i L. executor_new fr_field toy_config 20 = Inr e \<and> register True fr_field 20 11 1 500 0 e = Inr e'
     \<and> slots e' (repr fr_field 11) = Some i \<and> exec_ok 20 e' L \<and> map_option acc_key (L i) = Some 11"
proof -
  obtain e where e: "executor_new fr_field toy_config 20 = Inr e" using executor_new_total[of toy_config] by auto
  have ok: "exec_ok 20 e Map.empty" by (rule executor_new_ok[OF e]) simp_all
  have "next_slot e = 0" using e by (auto simp: executor_new_def result_bind_Inr_iff)
  then obtain e' where r: "register True fr_field 20 11 1 500 0 e = Inr e'"
    using register_total[OF ok] by fastforce
  from register_invariant[OF ok r] show ?thesis using e r by fastforce
qed

text \<open>
  C7. The executor implements the book.  Whenever the abstract book of natural numbers allows a
  sequence of operations, the executor runs it without a panic in either build mode, its maps
  then abstract to the resulting book, and the check of the circuit accepts all emitted witnesses
  as a batch that leads from the executor's state before to its state after.
\<close>

theorem executor_implements_book:
  assumes "exec_ok D e L" "book_run rs (exec_book e L) = Some B'"
  shows "\<exists>ws e' L' a b c a' b' c'. exec_run oc fr_field D rs e = Inr (ws, e') \<and> length ws = length rs
    \<and> exec_ok D e' L' \<and> exec_book e' L' = B' \<and> ledger_run L (map field_op ws) L'
    \<and> state e = Inr [a, b, c] \<and> state e' = Inr [a', b', c']
    \<and> step_check (hasher e) (map field_op ws) (a, b, c) = Inr (a', b', c')"
proof -
  obtain ws e' L' where r: "exec_run oc fr_field D rs e = Inr (ws, e')" "exec_ok D e' L'" "exec_book e' L' = B'"
      "ledger_run L (map field_op ws) L'" "chain_ok (hasher e) D ws e e'" "length ws = length rs"
    using run_simulates[OF assms] by blast
  have "step_check (hasher e) (map field_op ws) (node_val (tree e) D 0, ops_acc e, nets_acc e)
      = Inr (node_val (tree e') D 0, ops_acc e', nets_acc e')"
    using r(5) by (simp add: chain_ok_def step_check_def)
  then show ?thesis using r exec_state[OF assms(1)] exec_state[OF r(2)] by blast
qed

theorem executor_implements_book_witness:
  "\<exists>e ws e' L'. exec_run True fr_field 2 toy_requests e = Inr (ws, e') \<and> length ws = 3
     \<and> exec_book e' L' 11 = Some \<lparr>ent_token = 1, ent_balance = 520, ent_nonce = 1\<rparr>"
proof -
  obtain e L where e: "exec_ok 2 e L"
      "exec_book e L 11 = Some \<lparr>ent_token = 1, ent_balance = 500, ent_nonce = 0\<rparr>"
      "exec_book e L 12 = Some \<lparr>ent_token = 1, ent_balance = 20, ent_nonce = 4\<rparr>"
    by (rule toy_executor[of True])
  obtain ws e' L' where "exec_run True fr_field 2 toy_requests e = Inr (ws, e')" "length ws = length toy_requests"
      "exec_book e' L' = (exec_book e L)(11 \<mapsto> \<lparr>ent_token = 1, ent_balance = 520, ent_nonce = 1\<rparr>,
         12 \<mapsto> \<lparr>ent_token = 1, ent_balance = 0, ent_nonce = 6\<rparr>)"
    using executor_implements_book[OF e(1) toy_book_run[OF e(2,3)], of True] by blast
  moreover have "(11::fr) \<noteq> 12" by (simp add: fr_numeral_eq_iff fr_modulus_def)
  ultimately have "exec_book e' L' 11 = Some \<lparr>ent_token = 1, ent_balance = 520, ent_nonce = 1\<rparr>" by simp
  moreover have "length ws = 3" using \<open>length ws = _\<close> by (simp add: toy_requests_def)
  ultimately show ?thesis using \<open>exec_run True fr_field 2 toy_requests e = _\<close> by blast
qed

text \<open>
  C8. The witnesses of the executor satisfy the circuit.  For a sequence the book allows, the
  step circuit whose batch size is the length of the sequence, given the emitted witnesses and the
  executor's state before, can be synthesized by an honest prover on any satisfied system, and its
  output variables carry the executor's state after.
\<close>

theorem executor_satisfies_circuit:
  assumes "exec_ok D e L" "book_run rs (exec_book e L) = Some B'"
  shows "\<exists>ws e' zs zs'. exec_run oc fr_field D rs e = Inr (ws, e') \<and> state e = Inr zs \<and> state e' = Inr zs'
    \<and> complete cs (synthesize_step \<lparr>circuit_config = config (hasher e)\<rparr> (length rs) D (Inr zs) (Inr \<lparr>ops = ws\<rparr>))
        (\<lambda>(z, ext, z') cs'. list_all2 (fp_is cs') z' zs')"
proof -
  obtain ws e' L' where r: "exec_run oc fr_field D rs e = Inr (ws, e')" "exec_ok D e' L'"
      "chain_ok (hasher e) D ws e e'" "length ws = length rs"
    using run_simulates[OF assms] by blast
  have "\<lparr>config = config (hasher e)\<rparr> = hasher e" by simp
  then have "step_check \<lparr>config = config (hasher e)\<rparr> (map field_op ws) (node_val (tree e) D 0, ops_acc e, nets_acc e)
      = Inr (node_val (tree e') D 0, ops_acc e', nets_acc e')" "list_all (op_shape D) ws"
    using r(3) by (simp_all only: chain_ok_def step_check_def)
  then show ?thesis
    using step_completes[of "\<lparr>ops = ws\<rparr>" "length rs" D "config (hasher e)"] r exec_state[OF assms(1)] exec_state[OF r(2)]
    by fastforce
qed

theorem executor_satisfies_circuit_witness:
  "\<exists>e ws e' zs x cs'. exec_run True fr_field 2 toy_requests e = Inr (ws, e') \<and> state e = Inr zs
     \<and> synthesize_step \<lparr>circuit_config = toy_config\<rparr> 3 2 (Inr zs) (Inr \<lparr>ops = ws\<rparr>) cs_new = Inr (x, cs')
     \<and> is_satisfied cs' = Inr True"
proof -
  obtain e L where e: "exec_ok 2 e L" "config (hasher e) = toy_config"
      "exec_book e L 11 = Some \<lparr>ent_token = 1, ent_balance = 500, ent_nonce = 0\<rparr>"
      "exec_book e L 12 = Some \<lparr>ent_token = 1, ent_balance = 20, ent_nonce = 4\<rparr>"
    by (rule toy_executor[of True])
  have n: "length toy_requests = 3" by (simp add: toy_requests_def)
  obtain ws e' zs zs' where r: "exec_run True fr_field 2 toy_requests e = Inr (ws, e')" "state e = Inr zs"
      and c: "complete cs_new (synthesize_step \<lparr>circuit_config = toy_config\<rparr> 3 2 (Inr zs) (Inr \<lparr>ops = ws\<rparr>))
        (\<lambda>(z, ext, z') cs'. list_all2 (fp_is cs') z' zs')"
    using executor_satisfies_circuit[OF e(1) toy_book_run[OF e(3,4)], of True cs_new] e(2) n by auto
  obtain x cs' where "synthesize_step \<lparr>circuit_config = toy_config\<rparr> 3 2 (Inr zs) (Inr \<lparr>ops = ws\<rparr>) cs_new = Inr (x, cs')"
      "honest cs'"
    by (rule completeE[OF c honest_new])
  then show ?thesis using r by (metis honest_models is_satisfied_tracked)
qed

text \<open>
  C30. The executor refuses an operation whose sender or recipient is not registered, and one whose
  amount exceeds the sender's balance: it panics, in either build mode.
\<close>

theorem unfunded_operation_panics:
  assumes "exec_ok D e L" "case exec_book e L x of None \<Rightarrow> True | Some a \<Rightarrow> exec_book e L y = None \<or> ent_balance a < unat amt"
  shows "exec_apply oc fr_field D knd x y tok amt e = Inl Panic"
proof (cases "exec_book e L x")
  case None
  then have "slots e (repr fr_field x) = None" using exec_book_None[OF assms(1)] by blast
  then have "balances e (repr fr_field x) = None"
    using exec_okD(7)[OF assms(1), of x] by (simp add: account_ok_def)
  then show ?thesis by (simp add: exec_apply_def Let_def expect_some_def)
next
  case (Some a)
  then obtain i b n where a: "slots e (repr fr_field x) = Some i" "balances e (repr fr_field x) = Some b"
      "nonces e (repr fr_field x) = Some n" "ent_balance a = unat b"
    using exec_book_Some by blast
  show ?thesis
  proof (cases "slots e (repr fr_field y)")
    case None
    then show ?thesis using a by (simp add: exec_apply_def Let_def expect_some_def)
  next
    case (Some j)
    then have "exec_book e L y \<noteq> None" using exec_book_None[OF assms(1)] by simp
    then have "unat b < unat amt" using assms(2) \<open>exec_book e L x = Some a\<close> a(4) by auto
    then have "\<not> amt \<le> b" by (simp add: word_le_nat_alt)
    then show ?thesis using a Some by (simp add: exec_apply_def Let_def expect_some_def assert_def)
  qed
qed

theorem unfunded_operation_panics_witness:
  "\<exists>e. exec_apply True fr_field 2 Spend 12 11 1 21 e = Inl Panic \<and> exec_apply False fr_field 2 Load 11 13 1 1 e = Inl Panic"
proof -
  obtain e L where e: "exec_ok 2 e L" "exec_book e L 12 = Some \<lparr>ent_token = 1, ent_balance = 20, ent_nonce = 4\<rparr>"
      "exec_book e L 11 = Some \<lparr>ent_token = 1, ent_balance = 500, ent_nonce = 0\<rparr>" "exec_book e L 13 = None"
    by (rule toy_executor[of True])
  then show ?thesis
    using unfunded_operation_panics[OF e(1), where x = 12 and y = 11 and amt = 21]
      unfunded_operation_panics[OF e(1), where x = 11 and y = 13 and amt = 1] e(2,3) by (intro exI[of _ e]) simp
qed

end
