(* ===== verification/Settlement.thy ===== *)
theory Settlement
  imports Epoch_Run
begin

text \<open>
  What the epoch's final state settles.  The accumulator of nets commits to the ordered list of
  withdrawals: the executor's list folds to its accumulator, the check of the circuit folds the
  withdrawals of the batch, and two lists with one accumulator are equal or yield a break of the
  hash.  The state root commits to every balance: the exit witness of an account opens it, and
  no other opening of the key is accepted unless it breaks the hash.
\<close>

section \<open>The fold of the nets\<close>

definition fold_nets :: "'f::field prime_field \<Rightarrow> 'f poseidon_native \<Rightarrow> ('f \<times> 'f \<times> 'f) list \<Rightarrow> 'f \<Rightarrow> fault + 'f" where
  "fold_nets pf pn = result_fold (\<lambda>(key, tok, amt) acc. native_h4 pf pn acc key tok amt)"

definition net_values :: "('f::comm_ring_1 \<times> 'f \<times> 128 word) list \<Rightarrow> ('f \<times> 'f \<times> 'f) list" where
  "net_values = map (\<lambda>(key, tok, amt). (key, tok, from_u128 amt))"

lemma fold_nets_append:
  "fold_nets pf pn (xs @ ys) acc = result_bind (fold_nets pf pn xs acc) (fold_nets pf pn ys)"
  by (simp add: fold_nets_def result_fold_append)

lemma fold_nets_simps [simp]:
  "fold_nets pf pn [] acc = Inr acc"
  "fold_nets pf pn ((k, t, a) # xs) acc = result_bind (native_h4 pf pn acc k t a) (fold_nets pf pn xs)"
  by (simp_all add: fold_nets_def)

text \<open>The list of the executor folds to its accumulator.\<close>

definition nets_ok :: "'f::field prime_field \<Rightarrow> 'f executor \<Rightarrow> bool" where
  "nets_ok pf e \<longleftrightarrow> fold_nets pf (hasher e) (net_values (nets e)) 0 = Inr (nets_acc e)"

lemma nets_ok_new: "executor_new pf cfg D = Inr e \<Longrightarrow> nets_ok pf e"
  by (auto simp: executor_new_def result_bind_Inr_iff nets_ok_def net_values_def)

lemma nets_ok_register: "register oc pf D x tok b n e = Inr e' \<Longrightarrow> nets_ok pf e' \<longleftrightarrow> nets_ok pf e"
  by (auto simp: register_def Let_def result_bind_Inr_iff nets_ok_def split: if_splits)

lemma nets_ok_register_all: "register_all oc pf D rs e = Inr e' \<Longrightarrow> nets_ok pf e \<Longrightarrow> nets_ok pf e'"
  by (induction oc pf D rs e rule: register_all.induct) (auto simp: result_bind_Inr_iff nets_ok_register)

lemma exec_accumulate_nets:
  assumes "exec_accumulate pf knd x y tok amt n e = Inr e'" "nets_ok pf e"
  shows "nets_ok pf e'"
  using assms
  by (cases "knd = Withdraw";
      auto simp: exec_accumulate_def Let_def result_bind_Inr_iff nets_ok_def net_values_def fold_nets_append)

lemma exec_apply_nets:
  assumes run: "exec_apply oc pf D knd x y tok amt e = Inr (w, e')" and ok: "nets_ok pf e"
  shows "nets_ok pf e'"
proof -
  obtain b n i j bits sibs e1 c u v w' e2
    where d: "exec_debit oc pf D x tok amt b n i e = Inr (bits, sibs, e1)"
      and c: "exec_credit oc pf D y tok amt j e1 = Inr (c, u, v, w', e2)"
      and a: "exec_accumulate pf knd x y tok amt n e2 = Inr e'"
    using run by (auto simp: exec_apply_def Let_def result_bind_Inr_iff)
  have "nets_ok pf e1" using d ok by (auto simp: exec_debit_def Let_def result_bind_Inr_iff nets_ok_def)
  then have "nets_ok pf e2" using c by (auto simp: exec_credit_def Let_def result_bind_Inr_iff nets_ok_def)
  then show ?thesis by (rule exec_accumulate_nets[OF a])
qed

lemma exec_run_nets: "exec_run oc pf D rs e = Inr (ws, e') \<Longrightarrow> nets_ok pf e \<Longrightarrow> nets_ok pf e'"
proof (induction rs arbitrary: e ws)
  case (Cons r rs)
  obtain knd x y tok amt where r: "r = (knd, x, y, tok, amt)" by (cases r) auto
  obtain w us e1 where 1: "exec_apply oc pf D knd x y tok amt e = Inr (w, e1)" "exec_run oc pf D rs e1 = Inr (us, e')"
    using Cons.prems(1) by (auto simp: r result_bind_Inr_iff)
  show ?case by (rule Cons.IH[OF 1(2) exec_apply_nets[OF 1(1) Cons.prems(2)]])
qed simp

text \<open>The withdrawals of a batch, as the circuit sees them.\<close>

definition batch_nets :: "fr op_values list \<Rightarrow> (fr \<times> fr \<times> fr) list" where
  "batch_nets os = map (\<lambda>op. (from_key op, token_id op, amount op))
     (filter (\<lambda>op. active op \<and> kind op = from_u64 withdraw_code_const) os)"

lemma nets_check_fold:
  "nets_check pn op nacc = Inr nacc' \<Longrightarrow> fold_nets fr_field pn (batch_nets [op]) nacc = Inr nacc'"
  by (auto simp: nets_check_def batch_nets_def result_bind_Inr_iff split: if_splits)

lemma step_check_nets:
  "step_check pn os (rt, oacc, nacc) = Inr (rt', oacc', nacc') \<Longrightarrow> fold_nets fr_field pn (batch_nets os) nacc = Inr nacc'"
proof (induction os arbitrary: rt oacc nacc)
  case (Cons op os)
  obtain r1 o1 n1 where 1: "op_check pn op (rt, oacc, nacc) = Inr (r1, o1, n1)"
      and rest: "step_check pn os (r1, o1, n1) = Inr (rt', oacc', nacc')"
    using Cons.prems by (auto simp: step_check_def result_bind_Inr_iff)
  have "nets_check pn op nacc = Inr n1" using 1 by (auto simp: op_check_def result_bind_Inr_iff)
  then have "fold_nets fr_field pn (batch_nets [op]) nacc = Inr n1" by (rule nets_check_fold)
  moreover have "batch_nets (op # os) = batch_nets [op] @ batch_nets os" by (simp add: batch_nets_def)
  ultimately show ?case using Cons.IH[OF rest] by (simp add: fold_nets_append)
qed (simp add: step_check_def batch_nets_def)

section \<open>Binding of the fold\<close>

text \<open>A break of the hash of four: two preimages of one value, or a preimage of the empty accumulator.\<close>

datatype nets_break =
    Nets_Collision "fr \<times> fr \<times> fr \<times> fr" "fr \<times> fr \<times> fr \<times> fr"
  | Nets_Zero "fr \<times> fr \<times> fr \<times> fr"

definition h4_of :: "fr poseidon_native \<Rightarrow> fr \<times> fr \<times> fr \<times> fr \<Rightarrow> fault + fr" where
  "h4_of pn = (\<lambda>(a, b, c, d). native_h4 fr_field pn a b c d)"

definition is_nets_break :: "fr poseidon_native \<Rightarrow> nets_break \<Rightarrow> bool" where
  "is_nets_break pn b = (case b of
     Nets_Collision p q \<Rightarrow> p \<noteq> q \<and> (\<exists>h. h4_of pn p = Inr h \<and> h4_of pn q = Inr h)
   | Nets_Zero p \<Rightarrow> h4_of pn p = Inr 0)"

text \<open>The last call of the fold over a list given in reverse.\<close>

definition last_call :: "fr poseidon_native \<Rightarrow> fr \<times> fr \<times> fr \<Rightarrow> (fr \<times> fr \<times> fr) list \<Rightarrow> fr \<times> fr \<times> fr \<times> fr" where
  "last_call pn x xs = (case fold_nets fr_field pn (rev xs) 0 of Inl _ \<Rightarrow> (0, x) | Inr acc \<Rightarrow> (acc, x))"

fun nets_break_of :: "fr poseidon_native \<Rightarrow> (fr \<times> fr \<times> fr) list \<Rightarrow> (fr \<times> fr \<times> fr) list \<Rightarrow> nets_break option" where
  "nets_break_of pn [] [] = None"
| "nets_break_of pn (x # xs) [] = Some (Nets_Zero (last_call pn x xs))"
| "nets_break_of pn [] (y # ys) = Some (Nets_Zero (last_call pn y ys))"
| "nets_break_of pn (x # xs) (y # ys) =
     (if last_call pn x xs = last_call pn y ys then nets_break_of pn xs ys
      else Some (Nets_Collision (last_call pn x xs) (last_call pn y ys)))"

lemma last_call_result:
  assumes "fold_nets fr_field pn (rev (x # xs)) 0 = Inr acc"
  shows "h4_of pn (last_call pn x xs) = Inr acc"
    "\<exists>a. fold_nets fr_field pn (rev xs) 0 = Inr a \<and> last_call pn x xs = (a, x)"
  using assms by (cases x; auto simp: fold_nets_append last_call_def h4_of_def result_bind_Inr_iff)+

lemma nets_break_sound:
  assumes "fold_nets fr_field pn (rev xs) 0 = Inr acc" "fold_nets fr_field pn (rev ys) 0 = Inr acc"
  shows "case nets_break_of pn xs ys of None \<Rightarrow> xs = ys | Some b \<Rightarrow> is_nets_break pn b"
  using assms
proof (induction pn xs ys arbitrary: acc rule: nets_break_of.induct)
  case (2 pn x xs)
  have "h4_of pn (last_call pn x xs) = Inr 0" using last_call_result(1)[OF "2.prems"(1)] "2.prems"(2) by simp
  then show ?case by (simp add: is_nets_break_def)
next
  case (3 pn y ys)
  have "h4_of pn (last_call pn y ys) = Inr 0" using last_call_result(1)[OF "3.prems"(2)] "3.prems"(1) by simp
  then show ?case by (simp add: is_nets_break_def)
next
  case (4 pn x xs y ys)
  obtain a where a: "fold_nets fr_field pn (rev xs) 0 = Inr a" "last_call pn x xs = (a, x)"
    using last_call_result(2)[OF "4.prems"(1)] by blast
  obtain b where b: "fold_nets fr_field pn (rev ys) 0 = Inr b" "last_call pn y ys = (b, y)"
    using last_call_result(2)[OF "4.prems"(2)] by blast
  show ?case
  proof (cases "last_call pn x xs = last_call pn y ys")
    case True
    then have "a = b" "x = y" using a(2) b(2) by simp_all
    then show ?thesis using "4.IH"[OF True a(1)] b(1) True by (auto split: option.split)
  next
    case False
    then show ?thesis
      using last_call_result(1)[OF "4.prems"(1)] last_call_result(1)[OF "4.prems"(2)]
      by (simp add: is_nets_break_def)
  qed
qed simp

section \<open>Exits\<close>

text \<open>The path of a leaf recomputed from an account and an exit witness.\<close>

definition exit_root :: "fr poseidon_native \<Rightarrow> account \<Rightarrow> fr list \<Rightarrow> bool list \<Rightarrow> fault + fr" where
  "exit_root pn a sibs bits = result_bind (account_leaf pn a) (path_root (native_h2 fr_field pn) (zip sibs bits))"

lemma exec_book_account:
  assumes ok: "exec_ok D e L" and x: "exec_book e L x = Some a"
  obtains i b n where "slots e (repr fr_field x) = Some i" "balances e (repr fr_field x) = Some b"
    "nonces e (repr fr_field x) = Some n" "ent_balance a = unat b" "ent_nonce a = unat n"
    "L i = Some \<lparr>acc_key = x, acc_token = ent_token a, acc_balance = from_u128 b, acc_nonce = from_u64 n\<rparr>"
    "slot_of (map (bit i) [0..<D]) = i"
proof -
  obtain i b n where 1: "slots e (repr fr_field x) = Some i" "balances e (repr fr_field x) = Some b"
    "nonces e (repr fr_field x) = Some n" "ent_balance a = unat b" "ent_nonce a = unat n"
    "map_option acc_token (L i) = Some (ent_token a)"
    by (rule exec_book_Some[OF x])
  show thesis
    by (rule exec_ok_slot[OF ok 1(1)]) (rule that[OF 1(1-5)], use 1 in auto)
qed

lemma exec_book_of_slot:
  assumes ok: "exec_ok D e L" and i: "L i = Some c"
  obtains a where "exec_book e L (acc_key c) = Some a" "ent_token a = acc_token c"
    "of_nat (ent_balance a) = acc_balance c" "of_nat (ent_nonce a) = acc_nonce c"
proof -
  have s: "slots e (repr fr_field (acc_key c)) = Some i" by (rule exec_okD(8)[OF ok i])
  obtain b n tok where "balances e (repr fr_field (acc_key c)) = Some b" "nonces e (repr fr_field (acc_key c)) = Some n"
    "L i = Some \<lparr>acc_key = acc_key c, acc_token = tok, acc_balance = from_u128 b, acc_nonce = from_u64 n\<rparr>"
    by (rule exec_ok_slot[OF ok s])
  then show thesis
    using that[of "\<lparr>ent_token = acc_token c, ent_balance = unat b, ent_nonce = unat n\<rparr>"] s i
    by (cases c) (simp add: exec_book_def from_u128_def from_u64_def)
qed

lemma exit_witness_opens:
  assumes "exec_ok D e L" "exec_book e L x = Some a"
  shows "\<exists>b n sibs bits rt. exit_witness oc fr_field x e = Inr (Some (b, n, sibs, bits))
    \<and> unat b = ent_balance a \<and> unat n = ent_nonce a \<and> length sibs = D \<and> length bits = D
    \<and> root (tree e) = Inr rt
    \<and> exit_root (hasher e) \<lparr>acc_key = x, acc_token = ent_token a, acc_balance = from_u128 b, acc_nonce = from_u64 n\<rparr>
        sibs bits = Inr rt"
proof -
  obtain i b n where 1: "slots e (repr fr_field x) = Some i" "balances e (repr fr_field x) = Some b"
    "nonces e (repr fr_field x) = Some n" "ent_balance a = unat b" "ent_nonce a = unat n"
    "L i = Some \<lparr>acc_key = x, acc_token = ent_token a, acc_balance = from_u128 b, acc_nonce = from_u64 n\<rparr>"
    "slot_of (map (bit i) [0..<D]) = i"
    by (rule exec_book_account[OF assms])
  have c: "commits (hasher e) D (tree e) L" by (rule exec_okD(1)[OF assms(1)])
  have "root (tree e) = Inr (node_val (tree e) D 0)" using c by (auto simp: commits_def root_eq)
  moreover have "exit_root (hasher e) \<lparr>acc_key = x, acc_token = ent_token a, acc_balance = from_u128 b,
      acc_nonce = from_u64 n\<rparr> (tree_siblings (tree e) i) (map (bit i) [0..<D]) = Inr (node_val (tree e) D 0)"
    using honest_root[OF c, of "map (bit i) [0..<D]"] 1(6,7) by (simp add: exit_root_def)
  moreover have "exit_witness oc fr_field x e = Inr (Some (b, n, tree_siblings (tree e) i, map (bit i) [0..<D]))"
    using 1(1-3) exec_paths[OF assms(1)] by (simp add: exit_witness_def Let_def)
  ultimately show ?thesis using 1(4,5) exec_paths(3)[OF assms(1)] by auto
qed

section \<open>Properties\<close>

text \<open>
  C24. The recorded list of net effects folds, in its order and from zero, to the accumulator of
  nets, after any sequence of operations.
\<close>

theorem executor_nets_fold:
  assumes "exec_epoch oc pf cfg D accts rs = Inr (z0, ws, zn, e)"
  shows "fold_nets pf (hasher e) (net_values (nets e)) 0 = Inr (nets_acc e) \<and> zn ! 2 = nets_acc e"
proof -
  obtain e0 e1 where r: "executor_new pf cfg D = Inr e0" "register_all oc pf D accts e0 = Inr e1"
      "exec_run oc pf D rs e1 = Inr (ws, e)" "state e = Inr zn"
    using assms by (auto simp: exec_epoch_def result_bind_Inr_iff)
  have "nets_ok pf e" by (rule exec_run_nets[OF r(3) nets_ok_register_all[OF r(2) nets_ok_new[OF r(1)]]])
  moreover have "zn ! 2 = nets_acc e" using r(4) by (auto simp: state_def result_bind_Inr_iff)
  ultimately show ?thesis by (simp add: nets_ok_def)
qed

theorem executor_nets_fold_witness:
  "\<exists>z0 ws zn e. exec_epoch True fr_field toy_config 2 toy_accounts toy_requests = Inr (z0, ws, zn, e)
     \<and> length ws = 3 \<and> fold_nets fr_field (hasher e) (net_values (nets e)) 0 = Inr (zn ! 2)"
proof -
  obtain z0 ws zn e where r: "exec_epoch True fr_field toy_config 2 toy_accounts toy_requests = Inr (z0, ws, zn, e)"
      "length ws = 3"
    using toy_epoch[of True] by blast
  from executor_nets_fold[OF r(1)] r show ?thesis by auto
qed

text \<open>
  C29. Every account can exit: for an account of the book the exit witness exists, carries its
  balance and nonce, and opens the current state root.
\<close>

theorem exit_opens_root:
  assumes "exec_ok D e L" "exec_book e L x = Some a"
  shows "\<exists>b n sibs bits rt. exit_witness oc fr_field x e = Inr (Some (b, n, sibs, bits))
    \<and> unat b = ent_balance a \<and> unat n = ent_nonce a \<and> length sibs = D \<and> length bits = D
    \<and> root (tree e) = Inr rt
    \<and> exit_root (hasher e) \<lparr>acc_key = x, acc_token = ent_token a, acc_balance = from_u128 b, acc_nonce = from_u64 n\<rparr>
        sibs bits = Inr rt"
  by (rule exit_witness_opens[OF assms])

theorem exit_opens_root_witness:
  "\<exists>e n sibs bits rt. exit_witness True fr_field 11 e = Inr (Some (500, n, sibs, bits)) \<and> root (tree e) = Inr rt
     \<and> exit_root (hasher e) \<lparr>acc_key = 11, acc_token = 1, acc_balance = from_u128 500, acc_nonce = from_u64 n\<rparr> sibs bits = Inr rt"
proof -
  obtain e L where e: "exec_ok 2 e L" "exec_book e L 11 = Some \<lparr>ent_token = 1, ent_balance = 500, ent_nonce = 0\<rparr>"
    by (rule toy_executor[of True])
  obtain b n sibs bits rt where x: "exit_witness True fr_field 11 e = Inr (Some (b, n, sibs, bits))" "unat b = 500"
      "root (tree e) = Inr rt" "exit_root (hasher e) \<lparr>acc_key = 11, acc_token = 1, acc_balance = from_u128 b,
        acc_nonce = from_u64 n\<rparr> sibs bits = Inr rt"
    using exit_opens_root[OF e, of True] by auto
  have "b = 500" by (rule iffD2[OF word_unat_eq_iff]) (simp add: x(2))
  then show ?thesis using x(1,3,4) by blast
qed

text \<open>
  C10. Nobody exits with another amount: an opening of the state root, of the tree's depth and for
  any claimed key, token, balance and nonce, claims what the book has for that key, or computes a
  break of the hash.
\<close>

theorem exit_binding:
  assumes "exec_ok D e L" "root (tree e) = Inr rt" "length sibs = D" "length bits = D"
    and "exit_root (hasher e) claim sibs bits = Inr rt"
  shows "case opening_break (hasher e) (tree e, L) claim sibs bits of
    Some b \<Rightarrow> is_break (hasher e) b
  | None \<Rightarrow> \<exists>a. exec_book e L (acc_key claim) = Some a \<and> ent_token a = acc_token claim
      \<and> of_nat (ent_balance a) = acc_balance claim \<and> of_nat (ent_nonce a) = acc_nonce claim"
proof -
  have c: "commits (hasher e) D (tree e) L" by (rule exec_okD(1)[OF assms(1)])
  then have "rt = node_val (tree e) D 0" using assms(2) by (auto simp: commits_def root_eq)
  then obtain h where "account_leaf (hasher e) claim = Inr h"
      "path_root (native_h2 fr_field (hasher e)) (zip sibs bits) h = Inr (node_val (tree e) D 0)"
    using assms(5) by (auto simp: exit_root_def result_bind_Inr_iff)
  from opening_sound[OF c assms(3,4) this]
  have o: "case opening_break (hasher e) (tree e, L) claim sibs bits of Some b \<Rightarrow> is_break (hasher e) b
    | None \<Rightarrow> L (slot_of bits) = Some claim \<and> sibs = tree_siblings (tree e) (slot_of bits)" .
  show ?thesis
  proof (cases "opening_break (hasher e) (tree e, L) claim sibs bits")
    case None
    with o have "L (slot_of bits) = Some claim" by simp
    from exec_book_of_slot[OF assms(1) this] None show ?thesis by auto
  qed (use o in simp)
qed

theorem exit_binding_witness:
  "\<exists>e L claim sibs bits. exec_ok 2 e L \<and> exit_root (hasher e) claim sibs bits = root (tree e) \<and> acc_key claim = 12
     \<and> (case opening_break (hasher e) (tree e, L) claim sibs bits of Some b \<Rightarrow> is_break (hasher e) b
        | None \<Rightarrow> \<exists>a. exec_book e L (acc_key claim) = Some a \<and> ent_token a = acc_token claim
            \<and> of_nat (ent_balance a) = acc_balance claim \<and> of_nat (ent_nonce a) = acc_nonce claim)"
proof -
  obtain e L where e: "exec_ok 2 e L" "exec_book e L 12 = Some \<lparr>ent_token = 1, ent_balance = 20, ent_nonce = 4\<rparr>"
    by (rule toy_executor[of True])
  obtain i b n where 1: "L i = Some \<lparr>acc_key = 12, acc_token = 1, acc_balance = from_u128 b, acc_nonce = from_u64 n\<rparr>"
      "slot_of (map (bit i) [0..<2]) = i"
    using exec_book_account[OF e] by (metis entry.select_convs(1))
  let ?c = "\<lparr>acc_key = 12, acc_token = 1, acc_balance = from_u128 b, acc_nonce = from_u64 n\<rparr>"
  have c: "commits (hasher e) 2 (tree e) L" by (rule exec_okD(1)[OF e(1)])
  have rt: "root (tree e) = Inr (node_val (tree e) 2 0)" using c by (auto simp: commits_def root_eq)
  have x: "exit_root (hasher e) ?c (tree_siblings (tree e) i) (map (bit i) [0..<2]) = Inr (node_val (tree e) 2 0)"
    using honest_root[OF c, of "map (bit i) [0..<2]"] 1 by (simp add: exit_root_def)
  show ?thesis
  proof (intro exI conjI)
    show "exec_ok 2 e L" by (rule e(1))
    show "exit_root (hasher e) ?c (tree_siblings (tree e) i) (map (bit i) [0..<2]) = root (tree e)" using x rt by simp
    show "acc_key ?c = 12" by simp
    show "case opening_break (hasher e) (tree e, L) ?c (tree_siblings (tree e) i) (map (bit i) [0..<2]) of
      Some b \<Rightarrow> is_break (hasher e) b
    | None \<Rightarrow> \<exists>a. exec_book e L (acc_key ?c) = Some a \<and> ent_token a = acc_token ?c
      \<and> of_nat (ent_balance a) = acc_balance ?c \<and> of_nat (ent_nonce a) = acc_nonce ?c"
      by (rule exit_binding[OF e(1) rt _ _ x]) (use exec_paths(3)[OF e(1)] in simp_all)
  qed
qed

text \<open>
  C33. A withdrawal need not leave the sender: nothing ties the recipient of a withdrawal to the
  sink.  For an account with enough balance, the operation that withdraws an amount from the account
  to itself yields a witness the check of the circuit accepts, which adds the amount to the nets to
  be paid out, while the balance of the account, and of every other one, stays as it was.
\<close>

theorem withdraw_to_self_accepted:
  assumes "exec_ok D e L" "exec_book e L x = Some a"
    and "unat amt \<le> ent_balance a" "ent_balance a < 2 ^ VALUE_BITS" "ent_nonce a + 1 < 2 ^ 64"
  shows "\<exists>w e' L' s s'. exec_apply oc fr_field D Withdraw x x (ent_token a) amt e = Inr (w, e')
    \<and> op_check (hasher e) (field_op w) s = Inr s' \<and> root (tree e) = Inr (fst s) \<and> root (tree e') = Inr (fst s')
    \<and> exec_ok D e' L' \<and> exec_book e' L' = (exec_book e L)(x \<mapsto> a\<lparr>ent_nonce := ent_nonce a + 1\<rparr>)
    \<and> nets e' = nets e @ [(x, ent_token a, amt)]"
proof -
  have "book_apply (Withdraw, x, x, ent_token a, amt) (exec_book e L)
      = Some ((exec_book e L)(x \<mapsto> a\<lparr>ent_nonce := ent_nonce a + 1\<rparr>))"
    using assms(2-5) by (simp add: book_apply_def book_debit_def book_credit_def)
  from apply_simulates[OF assms(1) this, of oc]
  obtain w e' L' where 1: "exec_apply oc fr_field D Withdraw x x (ent_token a) amt e = Inr (w, e')" "exec_ok D e' L'"
      "exec_book e' L' = (exec_book e L)(x \<mapsto> a\<lparr>ent_nonce := ent_nonce a + 1\<rparr>)"
      "op_check (hasher e) (field_op w) (node_val (tree e) D 0, ops_acc e, nets_acc e)
        = Inr (node_val (tree e') D 0, ops_acc e', nets_acc e')"
    by blast
  have "root (tree e) = Inr (node_val (tree e) D 0)" "root (tree e') = Inr (node_val (tree e') D 0)"
    using exec_okD(1)[OF assms(1)] exec_okD(1)[OF 1(2)] by (auto simp: commits_def root_eq)
  moreover have "nets e' = nets e @ [(x, ent_token a, amt)]" by (rule exec_apply_maps[OF 1(1)]) simp
  ultimately show ?thesis
    using 1 by (intro exI[of _ w] exI[of _ e'] exI[of _ L'] exI[of _ "(node_val (tree e) D 0, ops_acc e, nets_acc e)"]
      exI[of _ "(node_val (tree e') D 0, ops_acc e', nets_acc e')"]) simp
qed

theorem withdraw_to_self_accepted_witness:
  "\<exists>e L w e' L'. exec_book e L 11 = Some \<lparr>ent_token = 1, ent_balance = 500, ent_nonce = 0\<rparr>
     \<and> exec_apply True fr_field 2 Withdraw 11 11 1 500 e = Inr (w, e')
     \<and> exec_book e' L' = (exec_book e L)(11 \<mapsto> \<lparr>ent_token = 1, ent_balance = 500, ent_nonce = 1\<rparr>)
     \<and> nets e' = nets e @ [(11, 1, 500)]"
proof -
  obtain e L where e: "exec_ok 2 e L" "exec_book e L 11 = Some \<lparr>ent_token = 1, ent_balance = 500, ent_nonce = 0\<rparr>"
    by (rule toy_executor[of True])
  have "unat (500 :: 128 word) \<le> 500" "500 < (2::nat) ^ VALUE_BITS" "0 + 1 < (2::nat) ^ 64"
    by (simp_all add: VALUE_BITS_def)
  then obtain w e' L' where "exec_apply True fr_field 2 Withdraw 11 11 1 500 e = Inr (w, e')"
      "exec_book e' L' = (exec_book e L)(11 \<mapsto> \<lparr>ent_token = 1, ent_balance = 500, ent_nonce = 1\<rparr>)"
      "nets e' = nets e @ [(11, 1, 500)]"
    using withdraw_to_self_accepted[OF e, of 500 True] by auto
  then show ?thesis using e(2) by blast
qed

section \<open>A run of the refinement\<close>

lemma exec_balances_ok:
  assumes ok: "exec_ok D e L" and B: "\<And>x a. exec_book e L x = Some a \<Longrightarrow> ent_balance a < 2 ^ VALUE_BITS"
  shows "balances_ok L"
  unfolding balances_ok_def
proof
  fix c assume "c \<in> ran L"
  then obtain i where i: "L i = Some c" by (auto simp: ran_def)
  obtain b n tok where b: "balances e (repr fr_field (acc_key c)) = Some b" "nonces e (repr fr_field (acc_key c)) = Some n"
    and c: "L i = Some \<lparr>acc_key = acc_key c, acc_token = tok, acc_balance = from_u128 b, acc_nonce = from_u64 n\<rparr>"
    by (rule exec_ok_slot[OF ok exec_okD(8)[OF ok i]])
  have "exec_book e L (acc_key c) = Some \<lparr>ent_token = tok, ent_balance = unat b, ent_nonce = unat n\<rparr>"
    using exec_okD(8)[OF ok i] b c by (simp add: exec_book_def)
  from B[OF this] have "in_range (from_u128 b)" by (simp add: in_range_u128)
  moreover have "acc_balance c = from_u128 b" using c i by (cases c) simp
  ultimately show "in_range (acc_balance c)" by simp
qed

theorem circuit_refines_ledger_witness:
  "\<exists>e L os rt s. exec_ok 2 e L \<and> length os = 3 \<and> root (tree e) = Inr rt
     \<and> step_check \<lparr>config = toy_config\<rparr> os (rt, 0, 0) = Inr s
     \<and> (case follow_ops \<lparr>config = toy_config\<rparr> os (tree e, L) of Inl b \<Rightarrow> is_break \<lparr>config = toy_config\<rparr> b
        | Inr (t', L') \<Rightarrow> commits \<lparr>config = toy_config\<rparr> 2 t' L' \<and> balances_ok L' \<and> root t' = Inr (fst s)
            \<and> ledger_run L os L')"
proof (rule genesis_simulates[OF toy_config_wf(1), of 2 toy_accounts True])
  fix e0 e L
  assume e: "exec_ok 2 e L" "exec_book e L = fold book_register toy_accounts Map.empty" "hasher e = \<lparr>config = toy_config\<rparr>"
    "ops_acc e = 0" "nets_acc e = 0"
  have bal: "balances_ok L"
    by (rule exec_balances_ok[OF e(1)])
      (auto simp: e(2) toy_accounts_def book_register_def VALUE_BITS_def split: if_splits)
  obtain ws e' where r: "chain_ok (hasher e) 2 ws e e'" "length ws = length toy_requests"
    using run_simulates[OF e(1), of toy_requests] toy_book_run[OF toy_book(1,2)] e(2) by metis
  have c: "commits \<lparr>config = toy_config\<rparr> 2 (tree e) L" using exec_okD(1)[OF e(1)] e(3) by simp
  have shape: "list_all (op_shape 2) (map field_op ws)"
    using r(1) by (simp add: chain_ok_def list_all_iff field_op_def)
  have rt: "root (tree e) = Inr (node_val (tree e) 2 0)" using c by (auto simp: commits_def root_eq)
  have s: "step_check \<lparr>config = toy_config\<rparr> (map field_op ws) (node_val (tree e) 2 0, 0, 0)
      = Inr (node_val (tree e') 2 0, ops_acc e', nets_acc e')"
    using r(1) e(3-5) by (simp add: chain_ok_def step_check_def)
  note R = circuit_refines_ledger[OF c bal _ shape rt s, simplified]
  show ?thesis
    using e(1) rt s R r(2) by (intro exI[of _ e] exI[of _ L] exI[of _ "map field_op ws"]) (auto simp: toy_requests_def split: sum.splits)
qed (simp_all add: toy_accounts_def)

end
