(* ===== verification/Epoch_Batches.thy ===== *)
theory Epoch_Batches
  imports Ledger_Circuit
begin

text \<open>
  Cutting an epoch into steps (\<^verbatim>\<open>chunk_into_batches\<close> of crates/prover/src/lib.rs): the stream of
  operations becomes batches of exactly \<open>BATCH\<close>, the last one filled up with padding.  The check of
  the epoch, a fold of the steps over the batches, is the check of the stream.
\<close>

section \<open>Batches\<close>

text \<open>
  The inner loop draws \<open>n\<close> operations from the iterator, a padding operation when it is
  exhausted; it returns them with the rest of the iterator.
\<close>

fun draw :: "nat \<Rightarrow> 'f::zero op_witness list \<Rightarrow> 'f op_witness list \<times> 'f op_witness list" where
  "draw 0 it = ([], it)"
| "draw (Suc n) it =
    (let (op, it) = (case it of [] \<Rightarrow> (padding DEPTH, []) | op # it \<Rightarrow> (op, it));
         (arr, it) = draw n it in (op # arr, it))"

lemma draw_eq: "draw n it = (take n it @ replicate (n - length it) (padding DEPTH), drop n it)"
proof (induction n arbitrary: it)
  case (Suc n)
  then show ?case by (cases it) simp_all
qed simp

function chunk_into_batches :: "'f::zero op_witness list \<Rightarrow> 'f op_witness epoch_step_input list" where
  "chunk_into_batches it =
    (if it = [] then []
     else let (arr, it') = draw BATCH it in \<lparr>ops = arr\<rparr> # chunk_into_batches it')"
  by pat_completeness auto

termination
  by (relation "measure length") (auto simp: draw_eq BATCH_def)

declare chunk_into_batches.simps [simp del]

lemma chunk_Nil [simp]: "chunk_into_batches [] = []"
  by (simp add: chunk_into_batches.simps)

lemma chunk_step:
  "it \<noteq> [] \<Longrightarrow> chunk_into_batches it =
     \<lparr>ops = take BATCH it @ replicate (BATCH - length it) (padding DEPTH)\<rparr> # chunk_into_batches (drop BATCH it)"
  by (subst chunk_into_batches.simps) (simp add: draw_eq)

lemma chunk_induct [case_names Nil step]:
  assumes "P []" "\<And>it. it \<noteq> [] \<Longrightarrow> P (drop BATCH it) \<Longrightarrow> P it"
  shows "P it"
proof (induction "length it" arbitrary: it rule: less_induct)
  case less
  then show ?case
    using assms by (cases "it = []") (auto simp: BATCH_def)
qed

lemma length_chunk: "length (chunk_into_batches it) = (length it + BATCH - 1) div BATCH"
proof (induction it rule: chunk_induct)
  case (step it)
  show ?case
  proof (cases "length it \<le> BATCH")
    case True
    then show ?thesis using step.hyps
      by (cases it) (simp_all add: chunk_step BATCH_def)
  next
    case False
    then obtain n where n: "length it = BATCH + n" by (metis le_iff_add linorder_not_le order_less_imp_le)
    show ?thesis using step by (simp add: chunk_step n BATCH_def)
  qed
qed (simp add: BATCH_def)

lemma chunk_lengths: "b \<in> set (chunk_into_batches it) \<Longrightarrow> length (ops b) = BATCH"
  by (induction it rule: chunk_induct) (auto simp: chunk_step)

lemma chunk_shape:
  "list_all (op_shape DEPTH) it \<Longrightarrow> b \<in> set (chunk_into_batches it) \<Longrightarrow> list_all (op_shape DEPTH) (ops b)"
proof (induction it rule: chunk_induct)
  case (step it)
  have "op_shape DEPTH (padding DEPTH :: 'a op_witness)" by (simp add: op_shape_def padding_def)
  then have "list_all (op_shape DEPTH) (take BATCH it @ replicate (BATCH - length it) (padding DEPTH))"
    using set_take_subset[of BATCH it] step.prems(1) by (auto simp: list_all_iff)
  moreover have "list_all (op_shape DEPTH) (drop BATCH it)"
    using set_drop_subset[of BATCH it] step.prems(1) by (auto simp: list_all_iff)
  ultimately show ?case using step.IH step.prems(2) by (auto simp: chunk_step[OF step.hyps])
qed simp

lemma chunk_concat:
  "concat (map ops (chunk_into_batches it))
    = it @ replicate (length (chunk_into_batches it) * BATCH - length it) (padding DEPTH)"
proof (induction it rule: chunk_induct)
  case (step it)
  show ?case
  proof (cases "length it \<le> BATCH")
    case True
    then show ?thesis using step.hyps by (simp add: chunk_step)
  next
    case False
    have "length (chunk_into_batches it) * BATCH - length it
        = length (chunk_into_batches (drop BATCH it)) * BATCH - length (drop BATCH it)"
      using False by (simp add: chunk_step[OF step.hyps])
    moreover have "concat (map ops (chunk_into_batches it)) = take BATCH it @ concat (map ops (chunk_into_batches (drop BATCH it)))"
      using False by (simp add: chunk_step[OF step.hyps])
    ultimately show ?thesis by (simp add: step.IH flip: append_assoc)
  qed
qed simp

section \<open>The check of an epoch\<close>

definition epoch_check ::
  "fr poseidon_native \<Rightarrow> fr op_witness epoch_step_input list \<Rightarrow> fr \<times> fr \<times> fr \<Rightarrow> fault + fr \<times> fr \<times> fr" where
  "epoch_check pn = result_fold (\<lambda>b. step_check pn (map field_op (ops b)))"

lemma step_check_append:
  "step_check pn (xs @ ys) s = result_bind (step_check pn xs s) (step_check pn ys)"
  by (simp add: step_check_def result_fold_append)

lemma epoch_check_concat:
  "epoch_check pn bs s = step_check pn (map field_op (concat (map ops bs))) s"
proof (induction bs arbitrary: s)
  case (Cons b bs)
  then show ?case by (cases "step_check pn (map field_op (ops b)) s") (simp_all add: epoch_check_def step_check_append)
qed (simp add: epoch_check_def step_check_def)

lemma padding_steps:
  assumes "config_wf cfg"
  shows "step_check \<lparr>config = cfg\<rparr> (replicate k (field_op (padding D))) s = Inr s"
  by (induction k) (simp_all add: step_check_def padding_check[OF assms])

lemma epoch_check_chunk:
  assumes "config_wf cfg"
  shows "epoch_check \<lparr>config = cfg\<rparr> (chunk_into_batches os) s = step_check \<lparr>config = cfg\<rparr> (map field_op os) s"
  using padding_steps[OF assms]
  by (cases "step_check \<lparr>config = cfg\<rparr> (map field_op os) s")
    (simp_all add: epoch_check_concat chunk_concat step_check_append)

lemma epoch_check_append:
  "epoch_check pn (xs @ ys) s = result_bind (epoch_check pn xs s) (epoch_check pn ys)"
  by (simp add: epoch_check_def result_fold_append)

lemma epoch_check_default:
  assumes "config_wf cfg"
  shows "epoch_check \<lparr>config = cfg\<rparr> (replicate k (epoch_step_input_default B D)) s = Inr s"
proof -
  have "map field_op (ops (epoch_step_input_default B D)) = replicate B (field_op (padding D) :: fr op_values)"
    by (rule nth_equalityI) (simp_all add: epoch_step_input_default_def)
  then have "step_check \<lparr>config = cfg\<rparr> (map field_op (ops (epoch_step_input_default B D))) s = Inr s"
    using padding_steps[OF assms] by simp
  then show ?thesis by (induction k) (simp_all add: epoch_check_def)
qed

section \<open>Properties\<close>

text \<open>
  C26. Batching is lossless: the batches have exactly \<open>BATCH\<close> operations each, there are just enough
  of them, and in order they hold the stream, followed by fewer than \<open>BATCH\<close> padding operations.
\<close>

theorem chunk_lossless:
  "list_all (\<lambda>b. length (ops b) = BATCH) (chunk_into_batches os)
   \<and> length (chunk_into_batches os) = (length os + BATCH - 1) div BATCH
   \<and> (\<exists>k<BATCH. concat (map ops (chunk_into_batches os)) = os @ replicate k (padding DEPTH))"
proof -
  have "(length os + BATCH - 1) div BATCH * BATCH - length os < BATCH"
    by (simp add: BATCH_def)
  then show ?thesis
    using chunk_lengths length_chunk[of os] chunk_concat[of os] by (auto simp: list_all_iff)
qed

text \<open>
  C25. Batching and padding do not change the epoch: checking the batches of a stream, followed by
  any number of all-inactive steps, is checking the stream.
\<close>

theorem batching_transparent:
  assumes "config_wf cfg"
  shows "epoch_check \<lparr>config = cfg\<rparr> (chunk_into_batches os @ replicate k (epoch_step_input_default BATCH DEPTH)) s
    = step_check \<lparr>config = cfg\<rparr> (map field_op os) s"
  by (cases "step_check \<lparr>config = cfg\<rparr> (map field_op os) s")
    (simp_all add: epoch_check_append epoch_check_chunk[OF assms] epoch_check_default[OF assms])

theorem batching_transparent_witness:
  "epoch_check \<lparr>config = toy_config\<rparr> (chunk_into_batches [padding 3] @ replicate 2 (epoch_step_input_default BATCH DEPTH)) (5, 6, 7)
     = Inr (5, 6, 7)"
  using batching_transparent[OF toy_config_wf(1), of "[padding 3]" 2 "(5, 6, 7)"]
    padding_steps[OF toy_config_wf(1), of 1 3 "(5, 6, 7)"] by simp

end
