(* ===== verification/Poseidon_Codegen.thy ===== *)
theory Poseidon_Codegen
  imports Poseidon_Hash
begin

text \<open>
  The generator of \<^verbatim>\<open>PoseidonT5.sol\<close> (crates/prover/src/poseidon_codegen.rs): the constants it dumps,
  and the library its template spells out, as a program on 256-bit words.  The library computes
  the native hash of the circuit, for every configuration the generator accepts whose exponent is
  the five the template is written for.
\<close>

section \<open>The generated library\<close>

text \<open>
  The values the template is filled with.  The two constant tables are sequences of assignments
  \<^verbatim>\<open>ark[i] = v;\<close> to a zeroed array; a decimal literal is its value.
\<close>

record solidity_lib =
  sol_f :: nat
  sol_rounds :: nat
  sol_full_half :: nat
  sol_partial_end :: nat
  sol_t :: nat
  sol_ark_len :: nat
  sol_mds_len :: nat
  sol_ark_assigns :: "(nat \<times> nat) list"
  sol_mds_assigns :: "(nat \<times> nat) list"

definition BN254_FR_MODULUS :: nat where
  "BN254_FR_MODULUS = 21888242871839275222246405745257275088548364400416034343698204186575808495617"

definition fr_dec :: "fr \<Rightarrow> nat" where
  "fr_dec x = nat (fr_int x)"

definition table_assigns :: "nat \<Rightarrow> fr list list \<Rightarrow> (nat \<times> nat) list" where
  "table_assigns t rows = concat (map (\<lambda>(r, row). map (\<lambda>(j, v). (r * t + j, fr_dec v)) (enumerate 0 row))
     (enumerate 0 rows))"

definition generate_solidity :: "fr poseidon_config \<Rightarrow> fault + solidity_lib" where
  "generate_solidity cfg =
    (let t = rate cfg + capacity cfg; rounds = full_rounds cfg + partial_rounds cfg;
         full_half = full_rounds cfg div 2; partial_end = full_half + partial_rounds cfg in
     if t = 5 \<and> length (ark cfg) = rounds \<and> length (mds cfg) = t then
       Inr \<lparr>sol_f = BN254_FR_MODULUS, sol_rounds = rounds, sol_full_half = full_half,
         sol_partial_end = partial_end, sol_t = t, sol_ark_len = rounds * t, sol_mds_len = t * t,
         sol_ark_assigns = table_assigns t (ark cfg), sol_mds_assigns = table_assigns t (mds cfg)\<rparr>
     else Inl Panic)"

section \<open>What the library computes\<close>

text \<open>
  Words of the EVM: \<^verbatim>\<open>addmod\<close> and \<^verbatim>\<open>mulmod\<close> do not wrap before the reduction, and a modulus of zero
  gives zero.  The arrays have fixed sizes and every loop stays inside them.
\<close>

type_synonym uint256 = "256 word"

definition addmod :: "uint256 \<Rightarrow> uint256 \<Rightarrow> uint256 \<Rightarrow> uint256" where
  "addmod x y m = (if m = 0 then 0 else of_nat ((unat x + unat y) mod unat m))"

definition mulmod :: "uint256 \<Rightarrow> uint256 \<Rightarrow> uint256 \<Rightarrow> uint256" where
  "mulmod x y m = (if m = 0 then 0 else of_nat (unat x * unat y mod unat m))"

definition sol_mod :: "solidity_lib \<Rightarrow> uint256" where
  "sol_mod lib = of_nat (sol_f lib)"

definition sol_table :: "nat \<Rightarrow> (nat \<times> nat) list \<Rightarrow> uint256 list" where
  "sol_table n assigns = fold (\<lambda>(i, v) a. a[i := of_nat v]) assigns (replicate n 0)"

definition pow5 :: "solidity_lib \<Rightarrow> uint256 \<Rightarrow> uint256" where
  "pow5 lib x =
    (let x2 = mulmod x x (sol_mod lib); x4 = mulmod x2 x2 (sol_mod lib) in mulmod x4 x (sol_mod lib))"

definition sol_round :: "solidity_lib \<Rightarrow> uint256 list \<Rightarrow> uint256 list \<Rightarrow> nat \<Rightarrow> uint256 list \<Rightarrow> uint256 list" where
  "sol_round lib ark_tab mds_tab r s =
    (let s = fold (\<lambda>j s. s[j := addmod (s ! j) (ark_tab ! (r * sol_t lib + j)) (sol_mod lib)]) [0..<sol_t lib] s;
         s = (if r < sol_full_half lib \<or> sol_partial_end lib \<le> r
              then fold (\<lambda>j s. s[j := pow5 lib (s ! j)]) [0..<sol_t lib] s
              else s[0 := pow5 lib (s ! 0)])
     in fold (\<lambda>i out. out[i := fold (\<lambda>j acc.
            addmod acc (mulmod (mds_tab ! (i * sol_t lib + j)) (s ! j) (sol_mod lib)) (sol_mod lib)) [0..<sol_t lib] 0])
          [0..<sol_t lib] (replicate (sol_t lib) 0))"

definition sol_permute :: "solidity_lib \<Rightarrow> uint256 list \<Rightarrow> uint256 list" where
  "sol_permute lib s =
    (let ark_tab = sol_table (sol_ark_len lib) (sol_ark_assigns lib);
         mds_tab = sol_table (sol_mds_len lib) (sol_mds_assigns lib) in
     fold (sol_round lib ark_tab mds_tab) [0..<sol_rounds lib] s)"

definition hash4 :: "solidity_lib \<Rightarrow> uint256 \<Rightarrow> uint256 \<Rightarrow> uint256 \<Rightarrow> uint256 \<Rightarrow> uint256" where
  "hash4 lib a b c d =
    (let F = sol_mod lib;
         s = (replicate (sol_t lib) 0)[1 := a mod F, 2 := b mod F, 3 := c mod F, 4 := d mod F]
     in sol_permute lib s ! 1)"

definition hash2 :: "solidity_lib \<Rightarrow> uint256 \<Rightarrow> uint256 \<Rightarrow> uint256" where
  "hash2 lib a b =
    (let F = sol_mod lib; s = (replicate (sol_t lib) 0)[1 := a mod F, 2 := b mod F] in sol_permute lib s ! 1)"

definition foldNet :: "solidity_lib \<Rightarrow> uint256 \<Rightarrow> uint256 \<Rightarrow> uint256 \<Rightarrow> uint256 \<Rightarrow> uint256" where
  "foldNet lib acc payeeKey tokenId amt = hash4 lib acc payeeKey tokenId amt"

section \<open>Words and field elements\<close>

definition fr_word :: "fr \<Rightarrow> uint256" where
  "fr_word x = of_nat (fr_dec x)"

definition word_fr :: "uint256 \<Rightarrow> fr" where
  "word_fr w = of_nat (unat w)"

lemma fr_dec_bound: "fr_dec x < fr_modulus"
  using fr_int_bounds[of x] by (simp add: fr_dec_def nat_less_iff)

lemma modulus_eq: "BN254_FR_MODULUS = fr_modulus"
  by (simp add: BN254_FR_MODULUS_def fr_modulus_def)

lemma unat_fr_word [simp]: "unat (fr_word x) = fr_dec x"
proof -
  have "fr_dec x < 2 ^ 256" using fr_dec_bound[of x] fr_modulus_256 by simp
  then show ?thesis by (simp add: fr_word_def unat_of_nat)
qed

lemma word_fr_fr_word [simp]: "word_fr (fr_word x) = x"
  unfolding word_fr_def unat_fr_word
  using fr_int_bounds[of x] by (intro fr_eqI) (simp add: fr_dec_def fr_int_of_int_ring)

lemma fr_dec_of_nat: "fr_dec (of_nat n) = n mod fr_modulus"
  by (simp add: fr_dec_def fr_int_of_nat nat_mod_distrib)

lemma of_nat_fr_dec [simp]: "of_nat (fr_dec x) = x"
  using word_fr_fr_word[of x] by (simp add: word_fr_def)

lemma reduce_fr: "of_nat (n mod fr_modulus) = fr_word (of_nat n)"
  by (simp add: fr_word_def fr_dec_of_nat)

lemma unat_modulus [simp]: "unat (of_nat fr_modulus :: uint256) = fr_modulus"
  using fr_modulus_256 by (simp add: unat_of_nat)

lemma modulus_word_neq_0 [simp]: "(of_nat fr_modulus :: uint256) \<noteq> 0"
proof
  assume "(of_nat fr_modulus :: uint256) = 0"
  then have "unat (of_nat fr_modulus :: uint256) = 0" by simp
  then show False using fr_modulus_gt_1 by simp
qed

lemma addmod_fr: "addmod (fr_word x) (fr_word y) (of_nat fr_modulus) = fr_word (x + y)"
  using reduce_fr[of "fr_dec x + fr_dec y"] by (simp add: addmod_def)

lemma mulmod_fr: "mulmod (fr_word x) (fr_word y) (of_nat fr_modulus) = fr_word (x * y)"
  using reduce_fr[of "fr_dec x * fr_dec y"] by (simp add: mulmod_def)

lemma mod_fr: "w mod of_nat fr_modulus = fr_word (word_fr w)"
proof -
  have "unat w mod fr_modulus < fr_modulus" using fr_modulus_gt_1 by simp
  then have "unat w mod fr_modulus < 2 ^ 256" using fr_modulus_256 by linarith
  then have "unat (of_nat (unat w mod fr_modulus) :: uint256) = unat w mod fr_modulus" by (simp add: unat_of_nat)
  then have "w mod of_nat fr_modulus = of_nat (unat w mod fr_modulus)"
    by (intro iffD2[OF word_unat_eq_iff]) (simp add: unat_mod)
  then show ?thesis by (simp add: reduce_fr word_fr_def)
qed

section \<open>Loops\<close>

lemma update_loop_prefix:
  assumes "k \<le> length s"
  shows "fold (\<lambda>j s. s[j := g j (s ! j)]) [0..<k] s = map (\<lambda>j. if j < k then g j (s ! j) else s ! j) [0..<length s]"
  using assms
proof (induction k)
  case 0
  then show ?case by (simp add: map_nth)
next
  case (Suc k)
  then show ?case by (intro nth_equalityI) (auto simp: nth_list_update)
qed

lemma update_loop:
  "length s = n \<Longrightarrow> fold (\<lambda>j s. s[j := g j (s ! j)]) [0..<n] s = map (\<lambda>j. g j (s ! j)) [0..<n]"
  by (simp add: update_loop_prefix)

lemma fill_loop: "fold (\<lambda>i out. out[i := h i]) [0..<n] (replicate n z) = map h [0..<n]"
  using update_loop[of "replicate n z" n "\<lambda>i _. h i"] by simp

text \<open>The tables hold the constants, row by row.\<close>

lemma assigns_length: "length (fold (\<lambda>(i, v) a. a[i := f v]) ps a) = length a"
  by (induction ps arbitrary: a) auto

lemma assigns_other: "\<forall>p\<in>set ps. fst p \<noteq> k \<Longrightarrow> fold (\<lambda>(i, v) a. a[i := f v]) ps a ! k = a ! k"
  by (induction ps arbitrary: a) auto

lemma assigns_nth:
  assumes "distinct (map fst ps)" "(k, v) \<in> set ps" "k < length a"
  shows "fold (\<lambda>(i, v) a. a[i := f v]) ps a ! k = f v"
  using assms
proof (induction ps arbitrary: a)
  case (Cons p ps)
  obtain i u where p: "p = (i, u)" by fastforce
  show ?case
  proof (cases "(k, v) \<in> set ps")
    case True
    then show ?thesis using Cons p by simp
  next
    case False
    then have eq: "i = k" "u = v" using Cons.prems(2) p by auto
    have "\<forall>q\<in>set ps. fst q \<noteq> k" using Cons.prems(1) p eq by (force simp: image_iff)
    then show ?thesis using eq Cons.prems(3) by (simp add: p assigns_other)
  qed
qed simp

lemma table_assigns_fst:
  assumes "\<forall>row\<in>set rows. length row = t"
  shows "map fst (table_assigns t rows) = [0..<length rows * t]"
proof -
  have rows: "map fst (concat (map (\<lambda>(r, row). map (\<lambda>(j, v). (r * t + j, fr_dec v)) (enumerate 0 row)) (enumerate n rs)))
      = [n * t..<(n + length rs) * t]" if "\<forall>row\<in>set rs. length row = t" for n rs
    using that
  proof (induction rs arbitrary: n)
    case (Cons row rs)
    have "map fst (map (\<lambda>(j, v). (n * t + j, fr_dec v)) (enumerate 0 row)) = map ((+) (n * t)) (map fst (enumerate 0 row))"
      by (simp add: enumerate_eq_map)
    also have "\<dots> = [n * t..<n * t + t]" using Cons.prems by (intro nth_equalityI) simp_all
    finally have "map fst (map (\<lambda>(j, v). (n * t + j, fr_dec v)) (enumerate 0 row)) = [n * t..<n * t + t]" .
    moreover have "[n * t..<n * t + t] @ [Suc n * t..<(Suc n + length rs) * t] = [n * t..<(n + length (row # rs)) * t]"
      using upt_add_eq_append[of "n * t" "n * t + t" "length rs * t"] by (simp add: algebra_simps)
    ultimately show ?case using Cons.IH[of "Suc n"] Cons.prems by simp
  qed simp
  show ?thesis using rows[OF assms, of 0] by (simp add: table_assigns_def)
qed

lemma sol_table_nth:
  assumes rows: "\<forall>row\<in>set rows. length row = t" and r: "r < length rows" and j: "j < t"
  shows "sol_table (length rows * t) (table_assigns t rows) ! (r * t + j) = fr_word (rows ! r ! j)"
proof -
  have len: "length (rows ! r) = t" using rows r by simp
  have "(r, rows ! r) \<in> set (enumerate 0 rows)" using r by (simp add: in_set_enumerate_eq)
  moreover have "(j, rows ! r ! j) \<in> set (enumerate 0 (rows ! r))" using j len by (simp add: in_set_enumerate_eq)
  ultimately have "(r * t + j, fr_dec (rows ! r ! j)) \<in> set (table_assigns t rows)"
    unfolding table_assigns_def by fastforce
  moreover have "distinct (map fst (table_assigns t rows))" by (simp add: table_assigns_fst[OF rows])
  moreover have "r * t + j < length rows * t"
  proof -
    have "r * t + j < Suc r * t" using j by simp
    also have "\<dots> \<le> length rows * t" using r by (intro mult_le_mono1) simp
    finally show ?thesis .
  qed
  ultimately show ?thesis by (simp add: sol_table_def assigns_nth fr_word_def)
qed

section \<open>The library computes the permutation\<close>

lemma generate_solidity_fields:
  assumes "generate_solidity cfg = Inr lib"
  shows "sol_mod lib = of_nat fr_modulus" "sol_t lib = 5" "sol_rounds lib = full_rounds cfg + partial_rounds cfg"
    "sol_full_half lib = full_rounds cfg div 2" "sol_partial_end lib = full_rounds cfg div 2 + partial_rounds cfg"
    "sol_table (sol_ark_len lib) (sol_ark_assigns lib) = sol_table (length (ark cfg) * 5) (table_assigns 5 (ark cfg))"
    "sol_table (sol_mds_len lib) (sol_mds_assigns lib) = sol_table (length (mds cfg) * 5) (table_assigns 5 (mds cfg))"
    "rate cfg + capacity cfg = 5"
  using assms by (auto simp: generate_solidity_def Let_def modulus_eq sol_mod_def split: if_splits)

lemma pow5_fr: "sol_mod lib = of_nat fr_modulus \<Longrightarrow> pow5 lib (fr_word x) = fr_word (x ^ 5)"
  by (simp add: pow5_def Let_def mulmod_fr eval_nat_numeral mult.assoc)

lemma mds_loop:
  assumes F: "sol_mod lib = of_nat fr_modulus" and len: "length zs = n" "length row = n"
    and tab: "\<And>j. j < n \<Longrightarrow> tab j = fr_word (row ! j)"
  shows "fold (\<lambda>j acc. addmod acc (mulmod (tab j) (map fr_word zs ! j) (sol_mod lib)) (sol_mod lib)) [0..<n] 0
    = fr_word (\<Sum>(z, m)\<leftarrow>zip zs row. z * m)"
proof -
  have "fold (\<lambda>j acc. addmod acc (mulmod (tab j) (map fr_word zs ! j) (sol_mod lib)) (sol_mod lib)) [0..<k] 0
      = fr_word (\<Sum>j\<leftarrow>[0..<k]. zs ! j * row ! j)" if "k \<le> n" for k
    using that
  proof (induction k)
    case 0
    then show ?case by (simp add: fr_word_def fr_dec_def fr_int_simps)
  next
    case (Suc k)
    then show ?case using tab[of k] len by (simp add: F mulmod_fr addmod_fr mult.commute)
  qed
  moreover have "zip zs row = map (\<lambda>j. (zs ! j, row ! j)) [0..<n]"
    using len by (intro nth_equalityI) simp_all
  ultimately show ?thesis by (simp add: comp_def)
qed

lemma sol_round_eq:
  assumes gen: "generate_solidity cfg = Inr lib" and wf: "config_wf cfg" and al: "alpha cfg = 5"
    and len: "length xs = 5" and r: "r < length (ark cfg)"
  shows "sol_round lib (sol_table (sol_ark_len lib) (sol_ark_assigns lib)) (sol_table (sol_mds_len lib) (sol_mds_assigns lib))
      r (map fr_word xs) = map fr_word (round_spec cfg (full_round_at cfg r) r xs)"
proof -
  note f = generate_solidity_fields[OF gen]
  let ?ark = "sol_table (sol_ark_len lib) (sol_ark_assigns lib)" and ?mds = "sol_table (sol_mds_len lib) (sol_mds_assigns lib)"
  have rows: "\<forall>k\<in>set (ark cfg). length k = 5" "\<forall>k\<in>set (mds cfg). length k = 5" "length (mds cfg) = 5"
    using wf f(8) by (simp_all add: config_wf_def)
  have ark: "?ark ! (r * 5 + j) = fr_word (ark cfg ! r ! j)" if "j < 5" for j
    using sol_table_nth[OF rows(1) r that] f(6) by simp
  have mds: "?mds ! (i * 5 + j) = fr_word (mds cfg ! i ! j)" if "i < 5" "j < 5" for i j
    using sol_table_nth[OF rows(2) _ that(2), of i] that(1) rows(3) f(7) by simp
  define ys where "ys = map2 (+) xs (ark cfg ! r)"
  define zs where "zs = (if full_round_at cfg r then map (\<lambda>y. y ^ 5) ys else (hd ys ^ 5) # tl ys)"
  have alen: "length (ark cfg ! r) = 5" using rows(1) r by simp
  have lys: "length ys = 5" using len alen by (simp add: ys_def)
  then have lzs: "length zs = 5" by (auto simp: zs_def)
  have 1: "fold (\<lambda>j s. s[j := addmod (s ! j) (?ark ! (r * sol_t lib + j)) (sol_mod lib)]) [0..<sol_t lib] (map fr_word xs)
      = map fr_word ys"
    unfolding f(2) using len alen ark
    by (subst update_loop[where g = "\<lambda>j x. addmod x (?ark ! (r * 5 + j)) (sol_mod lib)"])
      (auto simp: ys_def f(1) addmod_fr intro!: nth_equalityI)
  have 2: "(if r < sol_full_half lib \<or> sol_partial_end lib \<le> r
      then fold (\<lambda>j s. s[j := pow5 lib (s ! j)]) [0..<sol_t lib] (map fr_word ys)
      else (map fr_word ys)[0 := pow5 lib (map fr_word ys ! 0)]) = map fr_word zs"
  proof (cases "full_round_at cfg r")
    case True
    have "fold (\<lambda>j s. s[j := pow5 lib (s ! j)]) [0..<5] (map fr_word ys) = map fr_word (map (\<lambda>y. y ^ 5) ys)"
      using lys by (subst update_loop[where g = "\<lambda>_ x. pow5 lib x"]) (auto simp: pow5_fr[OF f(1)] intro!: nth_equalityI)
    then show ?thesis using True by (simp add: zs_def full_round_at_def f(2,4,5))
  next
    case False
    then show ?thesis using lys by (cases ys) (auto simp: zs_def full_round_at_def f(2,4,5) pow5_fr[OF f(1)])
  qed
  have row: "fold (\<lambda>j acc. addmod acc (mulmod (?mds ! (i * 5 + j)) (map fr_word zs ! j) (sol_mod lib)) (sol_mod lib)) [0..<5] 0
      = fr_word (\<Sum>(z, m)\<leftarrow>zip zs (mds cfg ! i). z * m)" if i: "i < 5" for i
  proof (rule mds_loop[OF f(1) lzs])
    show "length (mds cfg ! i) = 5" using rows(2,3) i by simp
    fix j :: nat assume "j < 5"
    then show "?mds ! (i * 5 + j) = fr_word (mds cfg ! i ! j)" by (rule mds[OF i])
  qed
  have "sol_round lib ?ark ?mds r (map fr_word xs) = map (\<lambda>i. fold (\<lambda>j acc.
      addmod acc (mulmod (?mds ! (i * 5 + j)) (map fr_word zs ! j) (sol_mod lib)) (sol_mod lib)) [0..<5] 0) [0..<5]"
    unfolding sol_round_def Let_def 1 2 unfolding f(2) by (rule fill_loop)
  also have "\<dots> = map fr_word (map (\<lambda>row. \<Sum>(z, m)\<leftarrow>zip zs row. z * m) (mds cfg))"
    using row rows(3) by (intro nth_equalityI) simp_all
  also have "\<dots> = map fr_word (round_spec cfg (full_round_at cfg r) r xs)"
    using al by (simp add: round_spec_def Let_def ys_def zs_def)
  finally show ?thesis .
qed

lemma sol_permute_eq:
  assumes gen: "generate_solidity cfg = Inr lib" and wf: "config_wf cfg" and al: "alpha cfg = 5" and len: "length xs = 5"
  shows "sol_permute lib (map fr_word xs) = map fr_word (permutation cfg xs)"
proof -
  note f = generate_solidity_fields[OF gen]
  let ?ark = "sol_table (sol_ark_len lib) (sol_ark_assigns lib)" and ?mds = "sol_table (sol_mds_len lib) (sol_mds_assigns lib)"
  let ?step = "\<lambda>r. round_spec cfg (full_round_at cfg r) r"
  have n: "length (ark cfg) = sol_rounds lib" using wf f(3) by (simp add: config_wf_def)
  have "fold (sol_round lib ?ark ?mds) [0..<k] (map fr_word xs) = map fr_word (fold ?step [0..<k] xs)
      \<and> length (fold ?step [0..<k] xs) = 5" if "k \<le> sol_rounds lib" for k
    using that
  proof (induction k)
    case (Suc k)
    then have IH: "fold (sol_round lib ?ark ?mds) [0..<k] (map fr_word xs) = map fr_word (fold ?step [0..<k] xs)"
        "length (fold ?step [0..<k] xs) = 5" by simp_all
    have "k < length (ark cfg)" using Suc.prems n by simp
    from sol_round_eq[OF gen wf al IH(2) this] show ?case
      using IH(1) f(8) wf by simp
  qed (use len in simp)
  then show ?thesis using f(3) by (simp add: sol_permute_def Let_def permutation_def)
qed

lemma hash4_spec:
  assumes gen: "generate_solidity cfg = Inr lib" and wf: "config_wf cfg" "alpha cfg = 5" "capacity cfg = 1"
  shows "hash4 lib a b c d = fr_word (crh_spec cfg [word_fr a, word_fr b, word_fr c, word_fr d])"
    "hash2 lib a b = fr_word (crh_spec cfg [word_fr a, word_fr b])"
proof -
  note f = generate_solidity_fields[OF gen]
  have rate: "rate cfg = 4" using f(8) wf(3) by simp
  have z: "(0 :: uint256) = fr_word 0" by (simp add: fr_word_def fr_dec_def fr_int_simps)
  have s4: "(replicate (sol_t lib) 0)[1 := a mod sol_mod lib, 2 := b mod sol_mod lib, 3 := c mod sol_mod lib, 4 := d mod sol_mod lib]
      = map fr_word [0, word_fr a, word_fr b, word_fr c, word_fr d]"
    by (simp add: f(1,2) mod_fr z eval_nat_numeral)
  have s2: "(replicate (sol_t lib) 0)[1 := a mod sol_mod lib, 2 := b mod sol_mod lib] = map fr_word [0, word_fr a, word_fr b, 0, 0]"
    by (simp add: f(1,2) mod_fr z eval_nat_numeral)
  have len: "length (permutation cfg [0, w, x, y, u]) = 5" for w x y u
    using wf(1) f(8) by simp
  show "hash4 lib a b c d = fr_word (crh_spec cfg [word_fr a, word_fr b, word_fr c, word_fr d])"
    unfolding hash4_def Let_def s4
    using sol_permute_eq[OF gen wf(1,2), of "[0, word_fr a, word_fr b, word_fr c, word_fr d]"] len
    by (simp add: crh_spec_def absorb_spec.simps[of cfg] rate wf(3) add_block_def eval_nat_numeral)
  show "hash2 lib a b = fr_word (crh_spec cfg [word_fr a, word_fr b])"
    unfolding hash2_def Let_def s2
    using sol_permute_eq[OF gen wf(1,2), of "[0, word_fr a, word_fr b, 0, 0]"] len
    by (simp add: crh_spec_def absorb_spec.simps[of cfg] rate wf(3) add_block_def eval_nat_numeral)
qed

section \<open>Properties\<close>

text \<open>
  C22. The generated library computes the circuit's hash.  For a configuration the generator accepts,
  of the right shape, with the exponent five and one capacity element, \<^verbatim>\<open>hash4\<close> and \<^verbatim>\<open>hash2\<close> of any
  words are the canonical words of the native hash of the field elements the words reduce to.
\<close>

theorem solidity_hash_agrees:
  assumes "generate_solidity cfg = Inr lib" "config_wf cfg" "alpha cfg = 5" "capacity cfg = 1"
  shows "(\<exists>h. native_h4 fr_field \<lparr>config = cfg\<rparr> (word_fr a) (word_fr b) (word_fr c) (word_fr d) = Inr h
      \<and> hash4 lib a b c d = fr_word h)
    \<and> (\<exists>h. native_h2 fr_field \<lparr>config = cfg\<rparr> (word_fr a) (word_fr b) = Inr h \<and> hash2 lib a b = fr_word h)"
  using hash4_spec[OF assms] native_hn_spec[OF assms(2)] by (simp add: native_arity)

theorem solidity_hash_agrees_witness:
  "\<exists>lib h. generate_solidity toy_config = Inr lib
     \<and> native_h4 fr_field \<lparr>config = toy_config\<rparr> (word_fr 1) (word_fr 2) (word_fr 3) (word_fr 4) = Inr h
     \<and> hash4 lib 1 2 3 4 = fr_word h"
proof -
  obtain lib where lib: "generate_solidity toy_config = Inr lib"
    by (simp add: generate_solidity_def toy_config_def)
  have "alpha toy_config = 5" "capacity toy_config = 1" by (simp_all add: toy_config_def)
  from solidity_hash_agrees[OF lib toy_config_wf(1) this, of 1 2 3 4] lib show ?thesis by blast
qed

end
