(* ===== verification/Prover_Encoding.thy ===== *)
theory Prover_Encoding
  imports Poseidon_Codegen Ledger_Ops
begin

text \<open>
  How the prover encodes field elements for the contracts: the key of an account from its address
  and token (\<^verbatim>\<open>field_key\<close>), the hexadecimal form (\<^verbatim>\<open>fr_to_hex\<close>) of crates/prover/src/lib.rs, and the
  fixture of crates/prover/src/poseidon_codegen.rs.  The digest Keccak-256 (crate \<^verbatim>\<open>sha3\<close>) and
  \<^verbatim>\<open>hex::encode\<close> are parameters; a value of \<^verbatim>\<open>serde_json\<close> is the datatype \<open>json\<close>.
\<close>

section \<open>Encodings\<close>

type_synonym digest = "8 word list \<Rightarrow> 8 word list"
type_synonym hex_encode = "8 word list \<Rightarrow> string"

definition u32_to_be_bytes :: "32 word \<Rightarrow> 8 word list" where
  "u32_to_be_bytes n = map (\<lambda>i. ucast (drop_bit (8 * i) n)) (rev [0..<4])"

definition from_be_bytes_mod_order :: "'f::field prime_field \<Rightarrow> 8 word list \<Rightarrow> 'f" where
  "from_be_bytes_mod_order pf bytes = from_le_bytes_mod_order pf (rev bytes)"

definition field_key :: "digest \<Rightarrow> 8 word list \<Rightarrow> 32 word \<Rightarrow> fr" where
  "field_key keccak addr token = from_be_bytes_mod_order fr_field (keccak (addr @ u32_to_be_bytes token))"

definition to_bytes_be :: "limbs \<Rightarrow> 8 word list" where
  "to_bytes_be e = rev (to_bytes_le e)"

definition fr_to_hex :: "hex_encode \<Rightarrow> fr \<Rightarrow> string" where
  "fr_to_hex hex x =
    (let bytes = to_bytes_be (into_bigint fr_field x);
         bytes = (if length bytes < 32 then replicate (32 - length bytes) 0 @ bytes else bytes)
     in ''0x'' @ hex bytes)"

text \<open>The decimal form of an unsigned integer.\<close>

fun to_string :: "nat \<Rightarrow> string" where
  "to_string n = (if n < 10 then [char_of (48 + n)] else to_string (n div 10) @ [char_of (48 + n mod 10)])"

declare to_string.simps [simp del]

datatype json =
    Jnull
  | Jbool bool
  | Jnum nat
  | Jstr string
  | Jarr "json list"
  | Jobj "(string \<times> json) list"

section \<open>The fixture\<close>

definition fixture4 :: "(64 word \<times> 64 word \<times> 64 word \<times> 64 word) list" where
  "fixture4 = [(1, 2, 3, 4), (0, 0, 0, 0), (42, 7, 1, 99), (1000000, 2, 1, 500)]"

definition fixture2 :: "(64 word \<times> 64 word) list" where
  "fixture2 = [(1, 2), (3, 4), (0, 0), (123456, 789)]"

definition fixture_case :: "64 word list \<Rightarrow> string \<Rightarrow> json" where
  "fixture_case inputs out =
     Jobj [(''inputs'', Jarr (map (\<lambda>x. Jstr (to_string (unat x))) inputs)), (''output'', Jstr out)]"

definition fixture_json :: "json list \<Rightarrow> json list \<Rightarrow> json" where
  "fixture_json h4s h2s = Jobj [(''hash4Count'', Jnum (length h4s)), (''hash2Count'', Jnum (length h2s)),
     (''hash4'', Jarr h4s), (''hash2'', Jarr h2s)]"

definition generate_fixture :: "hex_encode \<Rightarrow> fr poseidon_config \<Rightarrow> fault + json" where
  "generate_fixture hex cfg =
    (let native = poseidon_native_new cfg in
     result_bind (result_map (\<lambda>(a, b, c, d).
         result_bind (native_h4 fr_field native (from_u64 a) (from_u64 b) (from_u64 c) (from_u64 d)) (\<lambda>out.
         Inr (fixture_case [a, b, c, d] (fr_to_hex hex out)))) fixture4) (\<lambda>h4s.
     result_bind (result_map (\<lambda>(a, b).
         result_bind (native_h2 fr_field native (from_u64 a) (from_u64 b)) (\<lambda>out.
         Inr (fixture_case [a, b] (fr_to_hex hex out)))) fixture2) (\<lambda>h2s.
     Inr (fixture_json h4s h2s))))"

section \<open>Bytes and words\<close>

lemma unat_byte: "unat (b :: 8 word) < 256"
  by (rule order_less_le_trans[OF unsigned_less]) simp

lemma bytes_value_inj: "length xs = length ys \<Longrightarrow> bytes_value xs = bytes_value ys \<Longrightarrow> xs = ys"
proof (induction xs ys rule: list_induct2)
  case (Cons x xs y ys)
  have b: "unat x < 256" "unat y < 256" by (rule unat_byte)+
  have e: "unat x + 256 * bytes_value xs = unat y + 256 * bytes_value ys" using Cons.prems by simp
  have "(unat x + 256 * bytes_value xs) mod 256 = unat x" "(unat y + 256 * bytes_value ys) mod 256 = unat y"
    using b by simp_all
  then have "unat x = unat y" using e by simp
  moreover from this have "bytes_value xs = bytes_value ys" using e by simp
  ultimately show ?case using Cons.IH by (simp add: word_unat_eq_iff)
qed simp

text \<open>The big-endian bytes of a word of the EVM.\<close>

definition word_to_le_bytes :: "uint256 \<Rightarrow> 8 word list" where
  "word_to_le_bytes w = map (\<lambda>i. ucast (drop_bit (8 * i) w)) [0..<32]"

lemma word_to_le_bytes_value: "bytes_value (word_to_le_bytes w) = unat w"
proof -
  have bound: "unat w < 2 ^ 256" by (rule order_less_le_trans[OF unsigned_less]) simp
  have "unat (ucast (drop_bit (8 * i) w) :: 8 word) = unat w div 256 ^ i mod 256" for i
  proof -
    have "unat (ucast (drop_bit (8 * i) w) :: 8 word) = take_bit 8 (drop_bit (8 * i) (unat w))"
      using bound by (simp add: unsigned_ucast_eq unsigned_drop_bit_eq take_bit_nat_eq_self)
    then show ?thesis by (simp add: take_bit_eq_mod drop_bit_eq_div power_mult)
  qed
  then have "bytes_value (word_to_le_bytes w) = horner_sum (\<lambda>i. unat w div 256 ^ i mod 256) 256 [0..<32]"
    by (simp add: word_to_le_bytes_def horner_sum_eq_sum_funpow)
  also have "\<dots> = unat w"
    unfolding digits_value using bound by simp
  finally show ?thesis .
qed

lemma length_fr_bytes [simp]: "length (to_bytes_le (into_bigint fr_field x)) = 32"
proof -
  have "length (to_bytes_le e) = 8 * length e" for e
    by (induction e) (simp_all add: to_bytes_le_def limb_to_le_bytes_def)
  then show ?thesis by simp
qed

lemma fr_bytes_word: "to_bytes_le (into_bigint fr_field x) = word_to_le_bytes (fr_word x)"
  by (rule bytes_value_inj) (simp_all add: word_to_le_bytes_value to_bytes_le_value fr_dec_def, simp add: word_to_le_bytes_def)

lemma fr_to_hex_eq: "fr_to_hex hex x = ''0x'' @ hex (rev (word_to_le_bytes (fr_word x)))"
  by (simp add: fr_to_hex_def to_bytes_be_def fr_bytes_word word_to_le_bytes_def)

lemma from_be_bytes_eq: "from_be_bytes_mod_order pf bytes = of_nat (bytes_value (rev bytes))"
  by (simp add: from_be_bytes_mod_order_def from_le_bytes_mod_order_eq)

lemma word_fr_u64: "word_fr (ucast (x :: 64 word)) = from_u64 x"
proof -
  have "unat x < 2 ^ 256" by (rule order_less_trans[OF unat_64_bound]) simp
  then show ?thesis by (simp add: word_fr_def from_u64_def unsigned_ucast_eq take_bit_nat_eq_self del: of_nat_unat)
qed

section \<open>Properties\<close>

definition contract_field_key :: "digest \<Rightarrow> 8 word list \<Rightarrow> 32 word \<Rightarrow> nat" where
  "contract_field_key keccak addr token = bytes_value (rev (keccak (addr @ u32_to_be_bytes token))) mod fr_modulus"

text \<open>
  The key of an account is the one the contract derives: the Keccak digest of the packed address
  and token, read as a big-endian integer, modulo the BN254 scalar field.
\<close>

theorem field_key_matches_contract:
  "fr_dec (field_key keccak addr token) = contract_field_key keccak addr token"
  by (simp add: field_key_def contract_field_key_def from_be_bytes_eq fr_dec_of_nat)

text \<open>
  The hexadecimal form loses nothing: when \<^verbatim>\<open>hex\<close> has a decoder, decoding what follows the prefix
  and reading it as a big-endian integer gives the field element back; the bytes encoded are always
  the 32 of a word of the EVM.
\<close>

theorem fr_to_hex_roundtrip:
  assumes "\<And>bs. unhex (hex bs) = bs"
  shows "from_be_bytes_mod_order fr_field (unhex (drop 2 (fr_to_hex hex x))) = x
    \<and> length (unhex (drop 2 (fr_to_hex hex x))) = 32 \<and> take 2 (fr_to_hex hex x) = ''0x''"
  by (simp add: fr_to_hex_eq assms from_be_bytes_eq word_to_le_bytes_value) (simp add: word_to_le_bytes_def)

text \<open>An encoder of the two digits of each byte, and its decoder, to run the definitions on.\<close>

definition hex_digit :: "nat \<Rightarrow> char" where
  "hex_digit n = (if n < 10 then char_of (48 + n) else char_of (87 + n))"

definition digit_value :: "char \<Rightarrow> nat" where
  "digit_value c = (if (of_char c :: nat) < 58 then of_char c - 48 else of_char c - 87)"

definition toy_hex :: hex_encode where
  "toy_hex = concat \<circ> map (\<lambda>b. [hex_digit (unat b div 16), hex_digit (unat b mod 16)])"

fun toy_unhex :: "string \<Rightarrow> 8 word list" where
  "toy_unhex (a # b # s) = of_nat (16 * digit_value a + digit_value b) # toy_unhex s"
| "toy_unhex s = []"

lemma digit_value_hex_digit: "n < 16 \<Longrightarrow> digit_value (hex_digit n) = n"
  by (simp add: digit_value_def hex_digit_def)

lemma toy_unhex_hex: "toy_unhex (toy_hex bs) = bs"
proof (induction bs)
  case (Cons b bs)
  then show ?case using unat_byte[of b] by (simp add: toy_hex_def digit_value_hex_digit)
qed (simp add: toy_hex_def)

theorem fr_to_hex_roundtrip_witness:
  "from_be_bytes_mod_order fr_field (toy_unhex (drop 2 (fr_to_hex toy_hex 12345))) = 12345"
  using fr_to_hex_roundtrip[where unhex = toy_unhex and hex = toy_hex and x = 12345] by (simp add: toy_unhex_hex)

definition library_fixture :: "hex_encode \<Rightarrow> solidity_lib \<Rightarrow> json" where
  "library_fixture hex lib = fixture_json
     (map (\<lambda>(a, b, c, d). fixture_case [a, b, c, d]
        (''0x'' @ hex (rev (word_to_le_bytes (hash4 lib (ucast a) (ucast b) (ucast c) (ucast d)))))) fixture4)
     (map (\<lambda>(a, b). fixture_case [a, b] (''0x'' @ hex (rev (word_to_le_bytes (hash2 lib (ucast a) (ucast b)))))) fixture2)"

text \<open>
  The fixture pins the generated library: every output it lists, for the listed inputs, is the
  hexadecimal form of what the library's \<^verbatim>\<open>hash4\<close> and \<^verbatim>\<open>hash2\<close> return on them.
\<close>

theorem fixture_pins_library:
  assumes "generate_solidity cfg = Inr lib" "config_wf cfg" "alpha cfg = 5" "capacity cfg = 1"
  shows "generate_fixture hex cfg = Inr (library_fixture hex lib)"
proof -
  have 4: "result_map (\<lambda>(a, b, c, d).
      result_bind (native_h4 fr_field (poseidon_native_new cfg) (from_u64 a) (from_u64 b) (from_u64 c) (from_u64 d)) (\<lambda>out.
      Inr (fixture_case [a, b, c, d] (fr_to_hex hex out)))) xs
    = Inr (map (\<lambda>(a, b, c, d). fixture_case [a, b, c, d]
        (''0x'' @ hex (rev (word_to_le_bytes (hash4 lib (ucast a) (ucast b) (ucast c) (ucast d)))))) xs)" for xs
    by (rule result_map_Inr)
      (auto simp: poseidon_native_new_def native_arity native_hn_spec[OF assms(2)] hash4_spec[OF assms] word_fr_u64 fr_to_hex_eq)
  have 2: "result_map (\<lambda>(a, b).
      result_bind (native_h2 fr_field (poseidon_native_new cfg) (from_u64 a) (from_u64 b)) (\<lambda>out.
      Inr (fixture_case [a, b] (fr_to_hex hex out)))) xs
    = Inr (map (\<lambda>(a, b). fixture_case [a, b] (''0x'' @ hex (rev (word_to_le_bytes (hash2 lib (ucast a) (ucast b)))))) xs)" for xs
    by (rule result_map_Inr)
      (auto simp: poseidon_native_new_def native_arity native_hn_spec[OF assms(2)] hash4_spec[OF assms] word_fr_u64 fr_to_hex_eq)
  show ?thesis by (simp add: generate_fixture_def library_fixture_def Let_def 4 2)
qed

theorem fixture_pins_library_witness:
  "\<exists>lib. generate_solidity toy_config = Inr lib \<and> generate_fixture toy_hex toy_config = Inr (library_fixture toy_hex lib)"
proof -
  obtain lib where lib: "generate_solidity toy_config = Inr lib"
    by (simp add: generate_solidity_def toy_config_def)
  have "alpha toy_config = 5" "capacity toy_config = 1" by (simp_all add: toy_config_def)
  from fixture_pins_library[OF lib toy_config_wf(1) this] lib show ?thesis by blast
qed

end
