(* ===== verification/Workload.thy ===== *)
theory Workload
  imports Settlement Epoch_Batches Prover_Encoding
begin

text \<open>
  The synthetic workload (crates/prover/src/workload.rs): its shapes, the stream of operations and
  the assembly of an epoch.  Counters are \<^verbatim>\<open>usize\<close> values; the properties assume they are below
  \<open>2 ^ 64\<close>.  Keccak-256 is a parameter.
\<close>

section \<open>Shapes\<close>

record workload_spec =
  n_accounts :: nat
  n_payees :: nat
  loads :: nat
  spends :: nat
  pad_to_steps :: "nat option"

definition spec_small :: workload_spec where
  "spec_small = \<lparr>n_accounts = 8, n_payees = 3, loads = 120, spends = 60, pad_to_steps = None\<rparr>"

definition large_daily :: workload_spec where
  "large_daily = \<lparr>n_accounts = 9328, n_payees = 42, loads = 18240, spends = 24423, pad_to_steps = None\<rparr>"

definition total_ops :: "workload_spec \<Rightarrow> nat" where
  "total_ops spec = loads spec + spends spec + n_payees spec"

definition with_pad_to_steps :: "nat option \<Rightarrow> workload_spec \<Rightarrow> workload_spec" where
  "with_pad_to_steps steps spec = spec\<lparr>pad_to_steps := steps\<rparr>"

section \<open>Results\<close>

record net_entry =
  net_addr :: "8 word list"
  net_key :: fr
  net_amount :: "128 word"

record exit_entry =
  exit_owner :: "8 word list"
  exit_token :: "32 word"
  exit_key :: fr
  exit_balance :: "128 word"
  exit_nonce :: "64 word"
  exit_siblings :: "fr list"
  exit_is_right :: "bool list"

record workload =
  wl_token :: "32 word"
  wl_z0 :: "fr list"
  wl_native_zn :: "fr list"
  wl_batches :: "fr op_witness epoch_step_input list"
  wl_nets :: "net_entry list"
  wl_transfers_root :: "8 word list"
  wl_op_count :: nat
  wl_exit :: exit_entry

section \<open>Building an epoch\<close>

unbundle bit_operations_syntax

definition account_addr :: "nat \<Rightarrow> 8 word list" where
  "account_addr i = (replicate 20 0)[0 := 0xAC, 19 := of_nat (i AND 0xff), 18 := of_nat (drop_bit 8 i AND 0xff)]"

definition payee_addr :: "nat \<Rightarrow> 8 word list" where
  "payee_addr r = (replicate 20 0)[19 := of_nat r + 1, 18 := of_nat (drop_bit 8 r)]"

definition u64_to_be_bytes :: "64 word \<Rightarrow> 8 word list" where
  "u64_to_be_bytes n = map (\<lambda>i. ucast (drop_bit (8 * i) n)) (rev [0..<8])"

definition transfers_root_for :: "digest \<Rightarrow> 64 word \<Rightarrow> 8 word list" where
  "transfers_root_for keccak epoch = keccak (map (\<lambda>c. of_nat (of_char c)) ''transfersRoot'' @ u64_to_be_bytes epoch)"

definition load_request :: "nat \<Rightarrow> fr \<Rightarrow> fr list \<Rightarrow> fr \<Rightarrow> nat \<Rightarrow> fault + fr request" where
  "load_request n pool accounts token i =
     result_bind (index accounts (i mod max n 1)) (\<lambda>b. Inr (Load, pool, b, token, 1000))"

definition spend_request :: "nat \<Rightarrow> nat \<Rightarrow> fr list \<Rightarrow> fr list \<Rightarrow> fr \<Rightarrow> nat \<Rightarrow> fault + fr request" where
  "spend_request n m accounts payee_keys token i =
     result_bind (index accounts (i mod max n 1)) (\<lambda>b.
     result_bind (index payee_keys (i mod max m 1)) (\<lambda>p. Inr (Spend, b, p, token, 1)))"

definition count_net :: "bool \<Rightarrow> nat \<Rightarrow> nat \<Rightarrow> 128 word list \<Rightarrow> fault + 128 word list" where
  "count_net oc m i amts =
     result_bind (index amts (i mod max m 1)) (\<lambda>a.
     result_bind (add_checked oc a 1) (\<lambda>a. Inr (amts[i mod max m 1 := a])))"

definition withdraw_requests :: "fr \<Rightarrow> fr list \<Rightarrow> fr \<Rightarrow> 128 word list \<Rightarrow> nat \<Rightarrow> fault + fr request list" where
  "withdraw_requests sink payee_keys token amts r =
     result_bind (index amts r) (\<lambda>a.
     if 0 < a then result_bind (index payee_keys r) (\<lambda>p. Inr [(Withdraw, p, sink, token, a)]) else Inr [])"

text \<open>The stream: loads, spends, then one withdrawal for each payee with a net.\<close>

definition workload_requests ::
  "bool \<Rightarrow> workload_spec \<Rightarrow> fr \<Rightarrow> fr \<Rightarrow> fr list \<Rightarrow> fr list \<Rightarrow> fr \<Rightarrow> fault + fr request list" where
  "workload_requests oc spec sink pool accounts payee_keys token =
     result_bind (result_map (load_request (n_accounts spec) pool accounts token) [0..<loads spec]) (\<lambda>ls.
     result_bind (result_map (spend_request (n_accounts spec) (n_payees spec) accounts payee_keys token) [0..<spends spec]) (\<lambda>ss.
     result_bind (result_fold (count_net oc (n_payees spec)) [0..<spends spec] (replicate (n_payees spec) 0)) (\<lambda>net_amounts.
     result_bind (result_map (withdraw_requests sink payee_keys token net_amounts) [0..<n_payees spec]) (\<lambda>ws.
     Inr (ls @ ss @ concat ws)))))"

fun position :: "'a \<Rightarrow> 'a list \<Rightarrow> nat option" where
  "position k [] = None"
| "position k (x # xs) = (if x = k then Some 0 else map_option Suc (position k xs))"

definition settled_nets :: "fr list \<Rightarrow> 8 word list list \<Rightarrow> (fr \<times> fr \<times> 128 word) list \<Rightarrow> fault + net_entry list" where
  "settled_nets payee_keys payee_addrs = result_map (\<lambda>(key, tok, amt).
     result_bind (expect_some (position key payee_keys)) (\<lambda>idx.
     result_bind (index payee_addrs idx) (\<lambda>addr. Inr \<lparr>net_addr = addr, net_key = key, net_amount = amt\<rparr>)))"

text \<open>Padding to a constant number of steps.\<close>

function push_default :: "nat \<Rightarrow> 'f::zero op_witness epoch_step_input list \<Rightarrow> 'f op_witness epoch_step_input list" where
  "push_default target batches =
    (if length batches < target then push_default target (batches @ [epoch_step_input_default BATCH DEPTH]) else batches)"
  by pat_completeness auto

termination
  by (relation "measure (\<lambda>(target, batches). target - length batches)") auto

declare push_default.simps [simp del]

definition pad_batches ::
  "nat option \<Rightarrow> 'f::zero op_witness epoch_step_input list \<Rightarrow> fault + 'f op_witness epoch_step_input list" where
  "pad_batches pad batches = (case pad of None \<Rightarrow> Inr batches | Some target \<Rightarrow>
     result_bind (assert (length batches \<le> target)) (\<lambda>_. Inr (push_default target batches)))"

definition exit_for ::
  "bool \<Rightarrow> 8 word list list \<Rightarrow> fr list \<Rightarrow> 32 word \<Rightarrow> fr executor \<Rightarrow> fault + exit_entry" where
  "exit_for oc account_addrs accounts token e =
     result_bind (index accounts 0) (\<lambda>key.
     result_bind (result_bind (exit_witness oc fr_field key e) expect_some) (\<lambda>(balance, n, sibs, is_right).
     result_bind (index account_addrs 0) (\<lambda>owner.
     Inr \<lparr>exit_owner = owner, exit_token = token, exit_key = key, exit_balance = balance, exit_nonce = n,
       exit_siblings = sibs, exit_is_right = is_right\<rparr>)))"

definition genesis :: "workload_spec \<Rightarrow> fr \<Rightarrow> fr \<Rightarrow> fr list \<Rightarrow> fr list \<Rightarrow> fr \<Rightarrow> fr registration list" where
  "genesis spec sink pool accounts payee_keys token =
     (sink, token, 0, 0) # (pool, token, (of_nat (loads spec) + 1) * 1000, 0)
       # map (\<lambda>key. (key, token, 0, 0)) (accounts @ payee_keys)"

definition build :: "bool \<Rightarrow> digest \<Rightarrow> fr poseidon_config \<Rightarrow> workload_spec \<Rightarrow> 64 word \<Rightarrow> fault + workload" where
  "build oc keccak cfg spec epoch =
    (let id = 1 :: 32 word; token = from_u64 (ucast id);
         account_addrs = map account_addr [0..<n_accounts spec];
         accounts = map (\<lambda>a. field_key keccak a id) account_addrs;
         payee_addrs = map payee_addr [0..<n_payees spec];
         payee_keys = map (\<lambda>a. field_key keccak a id) payee_addrs;
         pool = from_u64 7 in
     result_bind (executor_new fr_field cfg DEPTH) (\<lambda>e.
     let sink = sink_key e in
     result_bind (register_all oc fr_field DEPTH (genesis spec sink pool accounts payee_keys token) e) (\<lambda>e.
     result_bind (initial_state e) (\<lambda>z0.
     result_bind (workload_requests oc spec sink pool accounts payee_keys token) (\<lambda>rs.
     result_bind (exec_run oc fr_field DEPTH rs e) (\<lambda>(os, e).
     result_bind (state e) (\<lambda>native_zn.
     result_bind (exit_for oc account_addrs accounts id e) (\<lambda>exit.
     result_bind (settled_nets payee_keys payee_addrs (nets e)) (\<lambda>nets.
     result_bind (pad_batches (pad_to_steps spec) (chunk_into_batches os)) (\<lambda>batches.
     Inr \<lparr>wl_token = id, wl_z0 = z0, wl_native_zn = native_zn, wl_batches = batches, wl_nets = nets,
       wl_transfers_root = transfers_root_for keccak epoch, wl_op_count = length os, wl_exit = exit\<rparr>))))))))))"

end
