(* ===== verification/Workload_Run.thy ===== *)
theory Workload_Run
  imports Workload
begin

text \<open>
  The synthetic workload runs.  Round-robin counting gives the balance and nonce of every account
  after any number of operations, so the book allows the whole stream; by the simulation the
  executor runs it, and the check of the circuit accepts the batches.
\<close>

section \<open>Round robin\<close>

text \<open>How many of the first \<open>k\<close> turns go to index \<open>a\<close> of \<open>n\<close>.\<close>

definition visits :: "nat \<Rightarrow> nat \<Rightarrow> nat \<Rightarrow> nat" where
  "visits k n a = length (filter (\<lambda>i. i mod n = a) [0..<k])"

lemma visits_0 [simp]: "visits 0 n a = 0"
  by (simp add: visits_def)

lemma visits_Suc: "visits (Suc k) n a = visits k n a + (if k mod n = a then 1 else 0)"
  by (simp add: visits_def)

lemma visits_le: "visits k n a \<le> k"
  by (induction k) (simp_all add: visits_Suc)

lemma visits_mono: "k \<le> k' \<Longrightarrow> visits k n a \<le> visits k' n a"
  by (induction rule: dec_induct) (simp_all add: visits_Suc)

lemma sum_visits:
  assumes "0 < n"
  shows "(\<Sum>a<n. visits k n a) = k"
proof (induction k)
  case (Suc k)
  have "(\<Sum>a<n. if k mod n = a then 1 else 0) = (1::nat)" using assms by (simp add: sum.delta)
  then show ?case using Suc by (simp add: visits_Suc sum.distrib)
qed simp

text \<open>Every index gets a turn once there have been as many turns as indices, and no index gets two in a row.\<close>

lemma visits_pos: "a < n \<Longrightarrow> n \<le> k \<Longrightarrow> 0 < visits k n a"
  using visits_mono[of "Suc a" k n a] by (simp add: visits_Suc)

lemma visits_block: "0 < n \<Longrightarrow> visits (n * j) n a \<le> j"
proof (induction j)
  case (Suc j)
  have "visits (n * j + i) n a \<le> visits (n * j) n a + (if a < i then 1 else 0)" if "i \<le> n" for i
    using that
  proof (induction i)
    case (Suc i)
    then have "(n * j + i) mod n = i" by simp
    then show ?case using Suc by (auto simp: visits_Suc)
  qed simp
  from this[of n] Suc show ?case by (simp add: algebra_simps split: if_splits)
qed simp

lemma visits_bound: "0 < n \<Longrightarrow> k \<le> n * j \<Longrightarrow> visits k n a \<le> j"
  using visits_mono[of k "n * j" n a] visits_block[of n j a] by linarith

section \<open>The book of a workload\<close>

text \<open>The sink, the pool, the accounts and the payees, with pairwise distinct keys.\<close>

record wl_keys =
  k_sink :: fr
  k_pool :: fr
  k_accounts :: "fr list"
  k_payees :: "fr list"
  k_token :: fr

definition keys_ok :: "wl_keys \<Rightarrow> bool" where
  "keys_ok K \<longleftrightarrow> distinct (k_sink K # k_pool K # k_accounts K @ k_payees K)"

definition wl_book ::
  "wl_keys \<Rightarrow> book \<Rightarrow> nat \<Rightarrow> nat \<Rightarrow> (nat \<Rightarrow> nat) \<Rightarrow> (nat \<Rightarrow> nat) \<Rightarrow> (nat \<Rightarrow> nat) \<Rightarrow> (nat \<Rightarrow> nat) \<Rightarrow> nat \<Rightarrow> bool" where
  "wl_book K B pb pn ab an rb rn sb \<longleftrightarrow>
     B (k_pool K) = Some \<lparr>ent_token = k_token K, ent_balance = pb, ent_nonce = pn\<rparr>
     \<and> (\<forall>a<length (k_accounts K). B (k_accounts K ! a) = Some \<lparr>ent_token = k_token K, ent_balance = ab a, ent_nonce = an a\<rparr>)
     \<and> (\<forall>r<length (k_payees K). B (k_payees K ! r) = Some \<lparr>ent_token = k_token K, ent_balance = rb r, ent_nonce = rn r\<rparr>)
     \<and> B (k_sink K) = Some \<lparr>ent_token = k_token K, ent_balance = sb, ent_nonce = 0\<rparr>"

lemma keys_okD:
  assumes "keys_ok K"
  shows "k_pool K \<noteq> k_sink K" "k_sink K \<noteq> k_pool K"
    "a < length (k_accounts K) \<Longrightarrow> k_accounts K ! a \<noteq> k_pool K" "a < length (k_accounts K) \<Longrightarrow> k_pool K \<noteq> k_accounts K ! a"
    "a < length (k_accounts K) \<Longrightarrow> k_accounts K ! a \<noteq> k_sink K" "a < length (k_accounts K) \<Longrightarrow> k_sink K \<noteq> k_accounts K ! a"
    "r < length (k_payees K) \<Longrightarrow> k_payees K ! r \<noteq> k_pool K" "r < length (k_payees K) \<Longrightarrow> k_pool K \<noteq> k_payees K ! r"
    "r < length (k_payees K) \<Longrightarrow> k_payees K ! r \<noteq> k_sink K" "r < length (k_payees K) \<Longrightarrow> k_sink K \<noteq> k_payees K ! r"
    "a < length (k_accounts K) \<Longrightarrow> r < length (k_payees K) \<Longrightarrow> k_accounts K ! a \<noteq> k_payees K ! r"
    "a < length (k_accounts K) \<Longrightarrow> r < length (k_payees K) \<Longrightarrow> k_payees K ! r \<noteq> k_accounts K ! a"
    "a < length (k_accounts K) \<Longrightarrow> b < length (k_accounts K) \<Longrightarrow> k_accounts K ! a = k_accounts K ! b \<longleftrightarrow> a = b"
    "q < length (k_payees K) \<Longrightarrow> r < length (k_payees K) \<Longrightarrow> k_payees K ! q = k_payees K ! r \<longleftrightarrow> q = r"
  using assms unfolding keys_ok_def
  by (auto simp: nth_eq_iff_index_eq dest: nth_mem) (metis disjoint_iff nth_mem)+

lemma load_step:
  assumes "keys_ok K" "wl_book K B pb pn ab an rb rn sb" "a < length (k_accounts K)" "1000 \<le> pb" "pb < 2 ^ VALUE_BITS"
    and "pn + 1 < 2 ^ 64" "ab a + 1000 < 2 ^ VALUE_BITS"
  shows "\<exists>B'. book_apply (Load, k_pool K, k_accounts K ! a, k_token K, 1000) B = Some B'
    \<and> wl_book K B' (pb - 1000) (pn + 1) (ab(a := ab a + 1000)) an rb rn sb"
  using assms keys_okD[OF assms(1)] by (simp add: wl_book_def book_apply_def book_debit_def book_credit_def)

lemma spend_step:
  assumes "keys_ok K" "wl_book K B pb pn ab an rb rn sb" "a < length (k_accounts K)" "r < length (k_payees K)" "1 \<le> ab a"
    and "ab a < 2 ^ VALUE_BITS" "an a + 1 < 2 ^ 64" "rb r + 1 < 2 ^ VALUE_BITS"
  shows "\<exists>B'. book_apply (Spend, k_accounts K ! a, k_payees K ! r, k_token K, 1) B = Some B'
    \<and> wl_book K B' pb pn (ab(a := ab a - 1)) (an(a := an a + 1)) (rb(r := rb r + 1)) rn sb"
  using assms keys_okD[OF assms(1)] by (simp add: wl_book_def book_apply_def book_debit_def book_credit_def)

lemma withdraw_step:
  assumes "keys_ok K" "wl_book K B pb pn ab an rb rn sb" "r < length (k_payees K)" "unat amt = rb r" "rb r < 2 ^ VALUE_BITS"
    and "rn r + 1 < 2 ^ 64" "sb + rb r < 2 ^ VALUE_BITS"
  shows "\<exists>B'. book_apply (Withdraw, k_payees K ! r, k_sink K, k_token K, amt) B = Some B'
    \<and> wl_book K B' pb pn ab an (rb(r := 0)) (rn(r := rn r + 1)) (sb + rb r)"
  using assms keys_okD[OF assms(1)] by (simp add: wl_book_def book_apply_def book_debit_def book_credit_def)

lemma book_run_append: "book_run (xs @ ys) B = Option.bind (book_run xs B) (book_run ys)"
  by (induction xs arbitrary: B) (simp_all split: Option.bind_split)

text \<open>The three phases of the stream.\<close>

definition load_requests :: "wl_keys \<Rightarrow> nat \<Rightarrow> fr request list" where
  "load_requests K k = map (\<lambda>i. (Load, k_pool K, k_accounts K ! (i mod length (k_accounts K)), k_token K, 1000)) [0..<k]"

definition spend_requests :: "wl_keys \<Rightarrow> nat \<Rightarrow> fr request list" where
  "spend_requests K k = map (\<lambda>i. (Spend, k_accounts K ! (i mod length (k_accounts K)),
     k_payees K ! (i mod length (k_payees K)), k_token K, 1)) [0..<k]"

definition settle_requests :: "wl_keys \<Rightarrow> (nat \<Rightarrow> nat) \<Rightarrow> nat \<Rightarrow> fr request list" where
  "settle_requests K net k =
     concat (map (\<lambda>r. if 0 < net r then [(Withdraw, k_payees K ! r, k_sink K, k_token K, of_nat (net r))] else []) [0..<k])"

lemma loads_run:
  assumes K: "keys_ok K" and n: "0 < length (k_accounts K)" and l: "l < 2 ^ 64" and k: "k \<le> l"
    and B: "wl_book K B (1000 * (l + 1)) 0 (\<lambda>_. 0) (\<lambda>_. 0) (\<lambda>_. 0) (\<lambda>_. 0) 0"
  shows "\<exists>B'. book_run (load_requests K k) B = Some B'
    \<and> wl_book K B' (1000 * (l + 1) - 1000 * k) k (\<lambda>a. 1000 * visits k (length (k_accounts K)) a) (\<lambda>_. 0) (\<lambda>_. 0) (\<lambda>_. 0) 0"
  using k
proof (induction k)
  case 0
  then show ?case using B by (simp add: load_requests_def)
next
  case (Suc k)
  let ?n = "length (k_accounts K)"
  obtain B1 where 1: "book_run (load_requests K k) B = Some B1"
      "wl_book K B1 (1000 * (l + 1) - 1000 * k) k (\<lambda>a. 1000 * visits k ?n a) (\<lambda>_. 0) (\<lambda>_. 0) (\<lambda>_. 0) 0"
    using Suc by auto
  have b: "1000 * visits k ?n (k mod ?n) + 1000 < 2 ^ VALUE_BITS"
    using visits_le[of k ?n "k mod ?n"] Suc.prems l by (simp add: VALUE_BITS_def)
  have c: "1000 \<le> 1000 * (l + 1) - 1000 * k" "1000 * (l + 1) - 1000 * k < 2 ^ VALUE_BITS" "k + 1 < 2 ^ 64" "k mod ?n < ?n"
    using Suc.prems l n by (simp_all add: VALUE_BITS_def)
  obtain B2 where "book_apply (Load, k_pool K, k_accounts K ! (k mod ?n), k_token K, 1000) B1 = Some B2"
      "wl_book K B2 (1000 * (l + 1) - 1000 * k - 1000) (k + 1) ((\<lambda>a. 1000 * visits k ?n a)(k mod ?n := 1000 * visits k ?n (k mod ?n) + 1000))
        (\<lambda>_. 0) (\<lambda>_. 0) (\<lambda>_. 0) 0"
    using load_step[OF K 1(2) c(4,1,2,3) b] by blast
  moreover have "(\<lambda>a. 1000 * visits k ?n a)(k mod ?n := 1000 * visits k ?n (k mod ?n) + 1000) = (\<lambda>a. 1000 * visits (Suc k) ?n a)"
    by (simp add: visits_Suc fun_eq_iff)
  ultimately show ?case using 1(1) by (simp add: load_requests_def book_run_append diff_diff_left)
qed

lemma spends_run:
  fixes lv :: "nat \<Rightarrow> nat"
  assumes K: "keys_ok K" and n: "0 < length (k_accounts K)" "0 < length (k_payees K)" and s: "s < 2 ^ 64" and k: "k \<le> s"
    and funds: "\<And>a. a < length (k_accounts K) \<Longrightarrow> visits s (length (k_accounts K)) a \<le> lv a \<and> lv a < 2 ^ VALUE_BITS"
    and B: "wl_book K B pb pn lv (\<lambda>_. 0) (\<lambda>_. 0) (\<lambda>_. 0) 0"
  shows "\<exists>B'. book_run (spend_requests K k) B = Some B'
    \<and> wl_book K B' pb pn (\<lambda>a. lv a - visits k (length (k_accounts K)) a) (visits k (length (k_accounts K)))
        (visits k (length (k_payees K))) (\<lambda>_. 0) 0"
  using k
proof (induction k)
  case 0
  have "visits 0 m = (\<lambda>_. 0)" for m by (simp add: fun_eq_iff)
  then show ?case using B by (simp add: spend_requests_def)
next
  case (Suc k)
  let ?n = "length (k_accounts K)" and ?m = "length (k_payees K)"
  let ?a = "k mod ?n" and ?r = "k mod ?m"
  obtain B1 where 1: "book_run (spend_requests K k) B = Some B1"
      "wl_book K B1 pb pn (\<lambda>a. lv a - visits k ?n a) (visits k ?n) (visits k ?m) (\<lambda>_. 0) 0"
    using Suc by auto
  have a: "?a < ?n" "?r < ?m" using n by simp_all
  have "visits k ?n ?a + 1 \<le> visits s ?n ?a" using visits_mono[OF Suc.prems, of ?n ?a] by (simp add: visits_Suc)
  then have f: "1 \<le> lv ?a - visits k ?n ?a" "lv ?a - visits k ?n ?a < 2 ^ VALUE_BITS" using funds[OF a(1)] by linarith+
  have b: "visits k ?n ?a + 1 < 2 ^ 64" "visits k ?m ?r + 1 < 2 ^ VALUE_BITS"
    using visits_le[of k ?n ?a] visits_le[of k ?m ?r] Suc.prems s by (simp_all add: VALUE_BITS_def)
  obtain B2 where 2: "book_apply (Spend, k_accounts K ! ?a, k_payees K ! ?r, k_token K, 1) B1 = Some B2"
      "wl_book K B2 pb pn ((\<lambda>a. lv a - visits k ?n a)(?a := lv ?a - visits k ?n ?a - 1))
        ((visits k ?n)(?a := visits k ?n ?a + 1)) ((visits k ?m)(?r := visits k ?m ?r + 1)) (\<lambda>_. 0) 0"
    using spend_step[OF K 1(2) a f b] by blast
  have "(\<lambda>a. lv a - visits k ?n a)(?a := lv ?a - visits k ?n ?a - 1) = (\<lambda>a. lv a - visits (Suc k) ?n a)"
    by (simp add: visits_Suc fun_eq_iff)
  moreover have "(visits k ?n)(?a := visits k ?n ?a + 1) = visits (Suc k) ?n"
    "(visits k ?m)(?r := visits k ?m ?r + 1) = visits (Suc k) ?m"
    by (simp_all add: visits_Suc fun_eq_iff)
  ultimately show ?case using 1(1) 2 by (simp add: spend_requests_def book_run_append)
qed

lemma settle_run:
  assumes K: "keys_ok K" and k: "k \<le> length (k_payees K)" and net: "(\<Sum>r<length (k_payees K). net r) < 2 ^ 64"
    and B: "wl_book K B pb pn ab an net (\<lambda>_. 0) 0"
  shows "\<exists>B'. book_run (settle_requests K net k) B = Some B'
    \<and> wl_book K B' pb pn ab an (\<lambda>r. if r < k then 0 else net r) (\<lambda>r. if r < k \<and> 0 < net r then 1 else 0) (\<Sum>r<k. net r)"
  using k
proof (induction k)
  case 0
  then show ?case using B by (simp add: settle_requests_def)
next
  case (Suc k)
  obtain B1 where 1: "book_run (settle_requests K net k) B = Some B1"
      "wl_book K B1 pb pn ab an (\<lambda>r. if r < k then 0 else net r) (\<lambda>r. if r < k \<and> 0 < net r then 1 else 0) (\<Sum>r<k. net r)"
    using Suc by auto
  have "(\<Sum>r<k. net r) + net k \<le> (\<Sum>r<length (k_payees K). net r)"
    using sum_mono2[of "{..<length (k_payees K)}" "{..<Suc k}" net] Suc.prems by simp
  then have b: "(\<Sum>r<k. net r) + net k < 2 ^ 64" using net by linarith
  show ?case
  proof (cases "net k = 0")
    case True
    have "(\<lambda>r. if r < Suc k then 0 else net r) = (\<lambda>r. if r < k then 0 else net r)"
      "(\<lambda>r. if r < Suc k \<and> 0 < net r then 1 else 0) = (\<lambda>r. if r < k \<and> 0 < net r then 1 else (0::nat))"
      using True by (auto simp: fun_eq_iff less_Suc_eq)
    then show ?thesis using 1 True by (simp add: settle_requests_def book_run_append)
  next
    case False
    have "net k < 2 ^ 128" using b by simp
    then have u: "unat (of_nat (net k) :: 128 word) = net k" by (simp add: unat_of_nat)
    obtain B2 where 2: "book_apply (Withdraw, k_payees K ! k, k_sink K, k_token K, of_nat (net k)) B1 = Some B2"
        "wl_book K B2 pb pn ab an ((\<lambda>r. if r < k then 0 else net r)(k := 0))
          ((\<lambda>r. if r < k \<and> 0 < net r then 1 else 0)(k := 1)) ((\<Sum>r<k. net r) + net k)"
      using withdraw_step[OF K 1(2), of k "of_nat (net k)"] Suc.prems b u by (auto simp: VALUE_BITS_def)
    have "(\<lambda>r. if r < k then 0 else net r)(k := 0) = (\<lambda>r. if r < Suc k then 0 else net r)"
      "(\<lambda>r. if r < k \<and> 0 < net r then 1 else 0)(k := 1) = (\<lambda>r. if r < Suc k \<and> 0 < net r then 1 else (0::nat))"
      using False by (auto simp: fun_eq_iff less_Suc_eq)
    then show ?thesis using 1(1) 2 False by (simp add: settle_requests_def book_run_append)
  qed
qed

text \<open>The whole stream.\<close>

definition stream :: "wl_keys \<Rightarrow> nat \<Rightarrow> nat \<Rightarrow> fr request list" where
  "stream K l s = load_requests K l @ spend_requests K s
     @ settle_requests K (visits s (length (k_payees K))) (length (k_payees K))"

definition funded :: "workload_spec \<Rightarrow> bool" where
  "funded spec \<longleftrightarrow> 0 < n_accounts spec \<and> 0 < n_payees spec \<and> n_accounts spec + n_payees spec + 2 \<le> 2 ^ DEPTH
     \<and> loads spec < 2 ^ 64 \<and> spends spec < 2 ^ 64
     \<and> (\<forall>a<n_accounts spec. visits (spends spec) (n_accounts spec) a \<le> 1000 * visits (loads spec) (n_accounts spec) a)"

lemma stream_run:
  assumes K: "keys_ok K" and spec: "funded spec" and len: "length (k_accounts K) = n_accounts spec" "length (k_payees K) = n_payees spec"
    and B: "wl_book K B (1000 * (loads spec + 1)) 0 (\<lambda>_. 0) (\<lambda>_. 0) (\<lambda>_. 0) (\<lambda>_. 0) 0"
  shows "\<exists>B'. book_run (stream K (loads spec) (spends spec)) B = Some B'
    \<and> B' (k_pool K) = Some \<lparr>ent_token = k_token K, ent_balance = 1000, ent_nonce = loads spec\<rparr>
    \<and> B' (k_sink K) = Some \<lparr>ent_token = k_token K, ent_balance = spends spec, ent_nonce = 0\<rparr>
    \<and> (\<forall>a<n_accounts spec. B' (k_accounts K ! a) = Some \<lparr>ent_token = k_token K,
         ent_balance = 1000 * visits (loads spec) (n_accounts spec) a - visits (spends spec) (n_accounts spec) a,
         ent_nonce = visits (spends spec) (n_accounts spec) a\<rparr>)"
proof -
  have s: "0 < length (k_accounts K)" "0 < length (k_payees K)" "loads spec < 2 ^ 64" "spends spec < 2 ^ 64"
    using spec len by (auto simp: funded_def)
  obtain B1 where 1: "book_run (load_requests K (loads spec)) B = Some B1"
      "wl_book K B1 1000 (loads spec) (\<lambda>a. 1000 * visits (loads spec) (n_accounts spec) a) (\<lambda>_. 0) (\<lambda>_. 0) (\<lambda>_. 0) 0"
    using loads_run[OF K s(1,3) order_refl B] len by auto
  have funds: "visits (spends spec) (length (k_accounts K)) a \<le> 1000 * visits (loads spec) (n_accounts spec) a
      \<and> 1000 * visits (loads spec) (n_accounts spec) a < 2 ^ VALUE_BITS" if "a < length (k_accounts K)" for a
    using spec that len visits_le[of "loads spec" "n_accounts spec" a] by (auto simp: funded_def VALUE_BITS_def)
  obtain B2 where 2: "book_run (spend_requests K (spends spec)) B1 = Some B2"
      "wl_book K B2 1000 (loads spec)
         (\<lambda>a. 1000 * visits (loads spec) (n_accounts spec) a - visits (spends spec) (n_accounts spec) a)
         (visits (spends spec) (n_accounts spec)) (visits (spends spec) (n_payees spec)) (\<lambda>_. 0) 0"
    using spends_run[OF K s(1,2,4) order_refl funds 1(2)] len by auto
  have sum: "(\<Sum>r<n_payees spec. visits (spends spec) (n_payees spec) r) = spends spec"
    using s(2) len by (intro sum_visits) simp
  obtain B3 where 3: "book_run (settle_requests K (visits (spends spec) (n_payees spec)) (n_payees spec)) B2 = Some B3"
      "\<exists>rb rn. wl_book K B3 1000 (loads spec)
         (\<lambda>a. 1000 * visits (loads spec) (n_accounts spec) a - visits (spends spec) (n_accounts spec) a)
         (visits (spends spec) (n_accounts spec)) rb rn (spends spec)"
    using settle_run[OF K order_refl _ 2(2)] sum s(4) len by auto
  then show ?thesis using 1(1) 2(1) len by (auto simp: stream_def book_run_append wl_book_def)
qed

section \<open>The stream of the source\<close>

lemma count_nets:
  assumes m: "0 < m" and s: "s < 2 ^ 64"
  shows "result_fold (count_net oc m) [0..<s] (replicate m 0) = Inr (map (\<lambda>r. of_nat (visits s m r)) [0..<m])"
  using s
proof (induction s)
  case 0
  then show ?case by (simp add: map_replicate_const)
next
  case (Suc s)
  have v: "visits s m (s mod m) + 1 < 2 ^ 128" using visits_le[of s m "s mod m"] Suc.prems by simp
  then have "unat (of_nat (visits s m (s mod m)) :: 128 word) = visits s m (s mod m)" by (simp add: unat_of_nat)
  then have "add_checked oc (of_nat (visits s m (s mod m)) :: 128 word) 1 = Inr (of_nat (visits s m (s mod m)) + 1)"
    using v by (intro add_checked_total) simp
  moreover have "(map (\<lambda>r. of_nat (visits s m r)) [0..<m])[s mod m := of_nat (visits s m (s mod m)) + 1]
      = map (\<lambda>r. of_nat (visits (Suc s) m r) :: 128 word) [0..<m]"
    using m by (intro nth_equalityI) (auto simp: visits_Suc nth_list_update)
  moreover have "max m 1 = m" using m by simp
  ultimately show ?case using Suc m by (simp add: result_fold_append count_net_def index_def)
qed

lemma workload_requests_eq:
  assumes K: "length (k_accounts K) = n_accounts spec" "length (k_payees K) = n_payees spec" and spec: "funded spec"
  shows "workload_requests oc spec (k_sink K) (k_pool K) (k_accounts K) (k_payees K) (k_token K)
    = Inr (stream K (loads spec) (spends spec))"
proof -
  let ?n = "n_accounts spec" and ?m = "n_payees spec"
  have nm: "0 < ?n" "0 < ?m" "spends spec < 2 ^ 64" using spec by (auto simp: funded_def)
  have mx: "max ?n (Suc 0) = ?n" "max ?m (Suc 0) = ?m" using nm by simp_all
  have 1: "result_map (load_request ?n (k_pool K) (k_accounts K) (k_token K)) [0..<loads spec] = Inr (load_requests K (loads spec))"
    unfolding load_requests_def by (rule result_map_Inr) (use nm K mx in \<open>simp add: load_request_def index_def\<close>)
  have 2: "result_map (spend_request ?n ?m (k_accounts K) (k_payees K) (k_token K)) [0..<spends spec]
      = Inr (spend_requests K (spends spec))"
    unfolding spend_requests_def by (rule result_map_Inr) (use nm K mx in \<open>simp add: spend_request_def index_def\<close>)
  have pos: "0 < (of_nat (visits (spends spec) ?m r) :: 128 word) \<longleftrightarrow> 0 < visits (spends spec) ?m r" for r
  proof -
    have "visits (spends spec) ?m r < 2 ^ 128" using visits_le[of "spends spec" ?m r] nm(3) by simp
    then have "unat (of_nat (visits (spends spec) ?m r) :: 128 word) = visits (spends spec) ?m r" by (simp add: unat_of_nat)
    then show ?thesis by (simp add: word_less_nat_alt)
  qed
  have 3: "result_map (withdraw_requests (k_sink K) (k_payees K) (k_token K) (map (\<lambda>r. of_nat (visits (spends spec) ?m r)) [0..<?m])) [0..<?m]
      = Inr (map (\<lambda>r. if 0 < visits (spends spec) ?m r
          then [(Withdraw, k_payees K ! r, k_sink K, k_token K, of_nat (visits (spends spec) ?m r))] else []) [0..<?m])"
    by (rule result_map_Inr) (use K in \<open>simp add: withdraw_requests_def index_def pos\<close>)
  show ?thesis
    using 1 2 3 count_nets[OF nm(2,3)] K by (simp add: workload_requests_def stream_def settle_requests_def)
qed

section \<open>The genesis book\<close>

definition keys_of :: "digest \<Rightarrow> workload_spec \<Rightarrow> wl_keys" where
  "keys_of keccak spec = \<lparr>k_sink = from_u64 SINK_TAG, k_pool = from_u64 7,
     k_accounts = map (\<lambda>a. field_key keccak a 1) (map account_addr [0..<n_accounts spec]),
     k_payees = map (\<lambda>a. field_key keccak a 1) (map payee_addr [0..<n_payees spec]), k_token = from_u64 1\<rparr>"

lemma fold_register_other: "k \<notin> fst ` set rs \<Longrightarrow> fold book_register rs B k = B k"
  by (induction rs arbitrary: B) (auto simp: book_register_def)

lemma fold_register:
  "distinct (map fst rs) \<Longrightarrow> (k, tok, b, n) \<in> set rs \<Longrightarrow>
   fold book_register rs B k = Some \<lparr>ent_token = tok, ent_balance = unat b, ent_nonce = unat n\<rparr>"
proof (induction rs arbitrary: B)
  case (Cons r rs)
  show ?case
  proof (cases "(k, tok, b, n) \<in> set rs")
    case False
    then have "r = (k, tok, b, n)" using Cons.prems(2) by simp
    then show ?thesis using Cons.prems(1) by (simp add: fold_register_other) (simp add: book_register_def)
  qed (use Cons in simp)
qed simp

lemma genesis_book:
  assumes K: "keys_ok K" and l: "loads spec < 2 ^ 64"
  shows "wl_book K (fold book_register (genesis spec (k_sink K) (k_pool K) (k_accounts K) (k_payees K) (k_token K)) Map.empty)
    (1000 * (loads spec + 1)) 0 (\<lambda>_. 0) (\<lambda>_. 0) (\<lambda>_. 0) (\<lambda>_. 0) 0"
proof -
  let ?g = "genesis spec (k_sink K) (k_pool K) (k_accounts K) (k_payees K) (k_token K)"
  have "map fst ?g = k_sink K # k_pool K # k_accounts K @ k_payees K" by (simp add: genesis_def comp_def)
  then have d: "distinct (map fst ?g)" using K by (simp add: keys_ok_def)
  have m: "(k_sink K, k_token K, 0, 0) \<in> set ?g" "(k_pool K, k_token K, (of_nat (loads spec) + 1) * 1000, 0) \<in> set ?g"
    "k \<in> set (k_accounts K) \<Longrightarrow> (k, k_token K, 0, 0) \<in> set ?g" "k \<in> set (k_payees K) \<Longrightarrow> (k, k_token K, 0, 0) \<in> set ?g" for k
    by (auto simp: genesis_def)
  have "unat ((of_nat (loads spec) + 1) * 1000 :: 128 word) = unat (of_nat (1000 * (loads spec + 1)) :: 128 word)"
    by (simp add: algebra_simps)
  also have "\<dots> = 1000 * (loads spec + 1)" using l by (subst unat_of_nat) simp
  finally show ?thesis
    using fold_register[OF d m(1)] fold_register[OF d m(2)] fold_register[OF d m(3)] fold_register[OF d m(4)]
    by (simp add: wl_book_def)
qed

section \<open>The results\<close>

definition request_nets :: "fr request list \<Rightarrow> (fr \<times> fr \<times> 128 word) list" where
  "request_nets rs = concat (map (\<lambda>(knd, x, y, tok, amt). if knd = Withdraw then [(x, tok, amt)] else []) rs)"

lemma exec_run_nets_list:
  "exec_run oc fr_field D rs e = Inr (ws, e') \<Longrightarrow> nets e' = nets e @ request_nets rs"
proof (induction rs arbitrary: e ws)
  case (Cons r rs)
  obtain knd x y tok amt where r: "r = (knd, x, y, tok, amt)" by (cases r) auto
  obtain w us e1 where 1: "exec_apply oc fr_field D knd x y tok amt e = Inr (w, e1)" "exec_run oc fr_field D rs e1 = Inr (us, e')"
    using Cons.prems(1) by (auto simp: r result_bind_Inr_iff)
  have "nets e1 = nets e @ (if knd = Withdraw then [(x, tok, amt)] else [])" by (rule exec_apply_maps[OF 1(1)])
  then show ?case using Cons.IH[OF 1(2)] by (simp add: request_nets_def r)
qed (simp add: request_nets_def)

lemma concat_if: "concat (map (\<lambda>r. if P r then [f r] else []) xs) = map f (filter P xs)"
  by (induction xs) simp_all

definition net_payees :: "nat \<Rightarrow> nat \<Rightarrow> nat list" where
  "net_payees s m = filter (\<lambda>r. 0 < visits s m r) [0..<m]"

lemma request_nets_simps: "request_nets (xs @ ys) = request_nets xs @ request_nets ys"
  by (simp add: request_nets_def)

lemma stream_nets:
  "request_nets (stream K l s) = map (\<lambda>r. (k_payees K ! r, k_token K, of_nat (visits s (length (k_payees K)) r)))
     (net_payees s (length (k_payees K)))"
proof -
  have "request_nets (load_requests K l) = []" "request_nets (spend_requests K s) = []"
    by (simp_all add: request_nets_def load_requests_def spend_requests_def comp_def concat_eq_Nil_conv)
  moreover have "request_nets (settle_requests K net m)
      = map (\<lambda>r. (k_payees K ! r, k_token K, of_nat (net r))) (filter (\<lambda>r. 0 < net r) [0..<m])" for net m
    by (simp add: settle_requests_def concat_if request_nets_def comp_def)
  ultimately show ?thesis by (simp add: stream_def request_nets_simps net_payees_def)
qed

lemma position_nth: "distinct xs \<Longrightarrow> i < length xs \<Longrightarrow> position (xs ! i) xs = Some i"
proof (induction xs arbitrary: i)
  case (Cons x xs)
  then show ?case by (cases i) auto
qed simp

lemma settled_nets_eq:
  assumes K: "keys_ok K" and len: "length addrs = length (k_payees K)"
  shows "settled_nets (k_payees K) addrs (request_nets (stream K l s))
    = Inr (map (\<lambda>r. \<lparr>net_addr = addrs ! r, net_key = k_payees K ! r, net_amount = of_nat (visits s (length (k_payees K)) r)\<rparr>)
        (net_payees s (length (k_payees K))))"
proof -
  have "distinct (k_payees K)" using K by (simp add: keys_ok_def)
  have gen: "result_map F (map f xs) = Inr (map g xs)" if "\<And>x. x \<in> set xs \<Longrightarrow> F (f x) = Inr (g x)"
    for F :: "fr \<times> fr \<times> 128 word \<Rightarrow> fault + net_entry" and f g and xs :: "nat list"
    using that by (induction xs) simp_all
  show ?thesis
    unfolding stream_nets settled_nets_def
    by (rule gen)
      (use position_nth[OF \<open>distinct (k_payees K)\<close>] len in \<open>simp add: index_def expect_some_def net_payees_def\<close>)
qed

lemma push_default_eq: "push_default t bs = bs @ replicate (t - length bs) (epoch_step_input_default BATCH DEPTH)"
proof (induction t bs rule: push_default.induct)
  case (1 t bs)
  show ?case
  proof (cases "length bs < t")
    case True
    then obtain k where "t - length bs = Suc k" "t - length (bs @ [epoch_step_input_default BATCH DEPTH :: 'a op_witness epoch_step_input]) = k"
      by (metis Suc_diff_Suc length_append_singleton)
    then show ?thesis using 1 True by (subst push_default.simps) simp
  qed (subst push_default.simps, simp)
qed

lemma length_stream: "length (stream K l s) \<le> l + s + length (k_payees K)"
proof -
  have "length (settle_requests K net m) \<le> m" for net m
    by (induction m) (simp_all add: settle_requests_def)
  then show ?thesis by (simp add: stream_def load_requests_def spend_requests_def)
qed

text \<open>The padding target is large enough.\<close>

definition pad_fits :: "workload_spec \<Rightarrow> bool" where
  "pad_fits spec \<longleftrightarrow> (case pad_to_steps spec of None \<Rightarrow> True | Some t \<Rightarrow> (total_ops spec + BATCH - 1) div BATCH \<le> t)"

lemma pad_batches_total:
  assumes "pad_fits spec" "length os \<le> total_ops spec"
  shows "\<exists>k. pad_batches (pad_to_steps spec) (chunk_into_batches os)
      = Inr (chunk_into_batches os @ replicate k (epoch_step_input_default BATCH DEPTH))
    \<and> pad_to_steps spec \<in> {None, Some (length (chunk_into_batches os) + k)}"
proof -
  have len: "length (chunk_into_batches os) \<le> (total_ops spec + BATCH - 1) div BATCH"
    unfolding length_chunk by (rule div_le_mono) (use assms(2) in simp)
  show ?thesis
  proof (cases "pad_to_steps spec")
    case None
    then show ?thesis by (intro exI[of _ 0]) (simp add: pad_batches_def)
  next
    case (Some t)
    then have "length (chunk_into_batches os) \<le> t" using assms(1) len by (simp add: pad_fits_def)
    then show ?thesis
      using Some by (intro exI[of _ "t - length (chunk_into_batches os)"])
        (simp add: pad_batches_def assert_def push_default_eq)
  qed
qed

section \<open>Building\<close>

text \<open>What a built workload satisfies.\<close>

definition workload_ok :: "fr poseidon_config \<Rightarrow> workload_spec \<Rightarrow> workload \<Rightarrow> bool" where
  "workload_ok cfg spec w \<longleftrightarrow> (\<exists>r r' oacc nacc. wl_z0 w = [r, 0, 0] \<and> wl_native_zn w = [r', oacc, nacc]
     \<and> epoch_check \<lparr>config = cfg\<rparr> (wl_batches w) (r, 0, 0) = Inr (r', oacc, nacc)
     \<and> list_all (\<lambda>b. length (ops b) = BATCH \<and> list_all (op_shape DEPTH) (ops b)) (wl_batches w)
     \<and> fold_nets fr_field \<lparr>config = cfg\<rparr> (map (\<lambda>n. (net_key n, from_u64 1, from_u128 (net_amount n))) (wl_nets w)) 0 = Inr nacc
     \<and> exit_root \<lparr>config = cfg\<rparr> \<lparr>acc_key = exit_key (wl_exit w), acc_token = from_u64 1,
          acc_balance = from_u128 (exit_balance (wl_exit w)), acc_nonce = from_u64 (exit_nonce (wl_exit w))\<rparr>
          (exit_siblings (wl_exit w)) (exit_is_right (wl_exit w)) = Inr r'
     \<and> length (exit_siblings (wl_exit w)) = DEPTH \<and> length (exit_is_right (wl_exit w)) = DEPTH)
     \<and> pad_to_steps spec \<in> {None, Some (length (wl_batches w))}"

definition payouts_ok :: "digest \<Rightarrow> workload_spec \<Rightarrow> workload \<Rightarrow> bool" where
  "payouts_ok keccak spec w \<longleftrightarrow>
     wl_nets w = map (\<lambda>r. \<lparr>net_addr = payee_addr r, net_key = field_key keccak (payee_addr r) 1,
       net_amount = of_nat (visits (spends spec) (n_payees spec) r)\<rparr>) (net_payees (spends spec) (n_payees spec))
     \<and> exit_owner (wl_exit w) = account_addr 0 \<and> exit_key (wl_exit w) = field_key keccak (account_addr 0) 1
     \<and> unat (exit_balance (wl_exit w))
         = 1000 * visits (loads spec) (n_accounts spec) 0 - visits (spends spec) (n_accounts spec) 0"

lemma build_result:
  assumes cfg: "config_wf cfg" and spec: "funded spec" and K: "keys_ok (keys_of keccak spec)" and pad: "pad_fits spec"
  shows "\<exists>w. build oc keccak cfg spec epoch = Inr w \<and> workload_ok cfg spec w \<and> payouts_ok keccak spec w"
proof -
  let ?K = "keys_of keccak spec"
  let ?n = "n_accounts spec" and ?m = "n_payees spec"
  have len: "length (k_accounts ?K) = ?n" "length (k_payees ?K) = ?m" by (simp_all add: keys_of_def)
  let ?g = "genesis spec (k_sink ?K) (k_pool ?K) (k_accounts ?K) (k_payees ?K) (k_token ?K)"
  have D: "DEPTH < 64" "length ?g \<le> 2 ^ DEPTH" using spec len by (simp_all add: DEPTH_def genesis_def funded_def)
  obtain e0 e L where g: "executor_new fr_field cfg DEPTH = Inr e0" "register_all oc fr_field DEPTH ?g e0 = Inr e"
    "exec_ok DEPTH e L" "exec_book e L = fold book_register ?g Map.empty" "hasher e = \<lparr>config = cfg\<rparr>"
    "ops_acc e = 0" "nets_acc e = 0" "nets e = []"
    by (rule genesis_simulates[OF cfg D])
  have sink: "sink_key e0 = k_sink ?K"
    using g(1) by (auto simp: executor_new_def result_bind_Inr_iff keys_of_def)
  have l: "loads spec < 2 ^ 64" using spec by (simp add: funded_def)
  obtain B' where B': "book_run (stream ?K (loads spec) (spends spec)) (exec_book e L) = Some B'"
      "B' (k_accounts ?K ! 0) = Some \<lparr>ent_token = k_token ?K,
         ent_balance = 1000 * visits (loads spec) ?n 0 - visits (spends spec) ?n 0, ent_nonce = visits (spends spec) ?n 0\<rparr>"
    using stream_run[OF K spec len genesis_book[OF K l]] g(4) spec by (auto simp: funded_def)
  obtain ws e' L' where r: "exec_run oc fr_field DEPTH (stream ?K (loads spec) (spends spec)) e = Inr (ws, e')"
      "exec_ok DEPTH e' L'" "exec_book e' L' = B'" "chain_ok (hasher e) DEPTH ws e e'"
      "length ws = length (stream ?K (loads spec) (spends spec))"
    using run_simulates[OF g(3) B'(1)] by blast
  let ?z = "(node_val (tree e) DEPTH 0, 0, 0)" and ?z' = "(node_val (tree e') DEPTH 0, ops_acc e', nets_acc e')"
  have h': "hasher e' = \<lparr>config = cfg\<rparr>" using r(4) g(5) by (simp add: chain_ok_def)
  have z0: "initial_state e = Inr [node_val (tree e) DEPTH 0, 0, 0]"
    using exec_okD(1)[OF g(3)] g(6,7) by (auto simp: initial_state_def assert_def commits_def root_eq)
  have zn: "state e' = Inr [node_val (tree e') DEPTH 0, ops_acc e', nets_acc e']" by (rule exec_state[OF r(2)])
  have nets: "nets e' = request_nets (stream ?K (loads spec) (spends spec))"
    using exec_run_nets_list[OF r(1)] g(8) by simp
  have "nets_ok fr_field e'"
    by (rule exec_run_nets[OF r(1) nets_ok_register_all[OF g(2) nets_ok_new[OF g(1)]]])
  then have fold: "fold_nets fr_field \<lparr>config = cfg\<rparr> (net_values (nets e')) 0 = Inr (nets_acc e')"
    by (simp add: nets_ok_def h')
  let ?net = "\<lambda>r. \<lparr>net_addr = payee_addr r, net_key = field_key keccak (payee_addr r) 1,
       net_amount = of_nat (visits (spends spec) ?m r)\<rparr>"
  let ?ns = "map ?net (net_payees (spends spec) ?m)"
  have settled: "settled_nets (k_payees ?K) (map payee_addr [0..<?m]) (nets e') = Inr ?ns"
    using settled_nets_eq[OF K, of "map payee_addr [0..<?m]" "loads spec" "spends spec"] len nets
    by (simp add: keys_of_def net_payees_def)
  have values': "net_values (nets e') = map (\<lambda>n. (net_key n, from_u64 1, from_u128 (net_amount n))) ?ns"
    using len by (simp add: nets stream_nets net_values_def keys_of_def net_payees_def)
  obtain b n sibs bits where x: "exit_witness oc fr_field (k_accounts ?K ! 0) e' = Inr (Some (b, n, sibs, bits))"
      "unat b = 1000 * visits (loads spec) ?n 0 - visits (spends spec) ?n 0"
      and opens: "length sibs = DEPTH" "length bits = DEPTH"
        "exit_root (hasher e') \<lparr>acc_key = k_accounts ?K ! 0, acc_token = k_token ?K, acc_balance = from_u128 b, acc_nonce = from_u64 n\<rparr>
          sibs bits = root (tree e')"
    using exit_witness_opens[OF r(2), of "k_accounts ?K ! 0"] r(3) B'(2) by (metis entry.select_convs(1,2))
  have key0: "k_accounts ?K ! 0 = field_key keccak (account_addr 0) 1" using spec by (simp add: keys_of_def funded_def)
  have rt: "root (tree e') = Inr (node_val (tree e') DEPTH 0)" using exec_okD(1)[OF r(2)] by (auto simp: commits_def root_eq)
  have opened: "exit_root \<lparr>config = cfg\<rparr> \<lparr>acc_key = field_key keccak (account_addr 0) 1, acc_token = from_u64 1, acc_balance = from_u128 b,
      acc_nonce = from_u64 n\<rparr> sibs bits = Inr (node_val (tree e') DEPTH 0)"
    using opens(3) rt key0 by (simp add: h' keys_of_def)
  have n0: "0 < ?n" using spec by (simp add: funded_def)
  then have exit: "exit_for oc (map account_addr [0..<?n]) (k_accounts ?K) 1 e' = Inr \<lparr>exit_owner = account_addr 0, exit_token = 1,
      exit_key = field_key keccak (account_addr 0) 1, exit_balance = b, exit_nonce = n, exit_siblings = sibs, exit_is_right = bits\<rparr>"
    using x(1) len by (simp add: exit_for_def index_def expect_some_def) (simp add: keys_of_def)
  have "length ws \<le> total_ops spec"
    using r(5) length_stream[of ?K "loads spec" "spends spec"] len by (simp add: total_ops_def)
  then obtain k where p: "pad_batches (pad_to_steps spec) (chunk_into_batches ws)
      = Inr (chunk_into_batches ws @ replicate k (epoch_step_input_default BATCH DEPTH))"
      "pad_to_steps spec \<in> {None, Some (length (chunk_into_batches ws) + k)}"
    using pad_batches_total[OF pad] by blast
  let ?bs = "chunk_into_batches ws @ replicate k (epoch_step_input_default BATCH DEPTH)"
  have "step_check \<lparr>config = cfg\<rparr> (map field_op ws) ?z = Inr ?z'" "list_all (op_shape DEPTH) ws"
    using r(4) g(5-7) by (simp_all add: chain_ok_def step_check_def)
  note st = this
  have check: "epoch_check \<lparr>config = cfg\<rparr> ?bs ?z = Inr ?z'"
    by (simp only: epoch_check_append epoch_check_chunk[OF cfg] st(1) result_bind_simps epoch_check_default[OF cfg])
  have "list_all (\<lambda>b. length (ops b) = BATCH \<and> list_all (op_shape DEPTH) (ops b)) (chunk_into_batches ws)"
    using chunk_lengths chunk_shape[OF st(2)] by (auto simp: list_all_iff)
  moreover have "length (ops d) = BATCH \<and> list_all (op_shape DEPTH) (ops d)"
    if "d = epoch_step_input_default BATCH DEPTH" for d :: "fr op_witness epoch_step_input"
    by (simp add: that epoch_step_input_default_def op_shape_def padding_def list_all_iff)
  ultimately have shapes: "list_all (\<lambda>b. length (ops b) = BATCH \<and> list_all (op_shape DEPTH) (ops b)) ?bs"
    by (auto simp: list_all_iff)
  let ?w = "\<lparr>wl_token = 1, wl_z0 = [node_val (tree e) DEPTH 0, 0, 0],
      wl_native_zn = [node_val (tree e') DEPTH 0, ops_acc e', nets_acc e'], wl_batches = ?bs, wl_nets = ?ns,
      wl_transfers_root = transfers_root_for keccak epoch, wl_op_count = length ws,
      wl_exit = \<lparr>exit_owner = account_addr 0, exit_token = 1, exit_key = field_key keccak (account_addr 0) 1,
        exit_balance = b, exit_nonce = n, exit_siblings = sibs, exit_is_right = bits\<rparr>\<rparr>"
  have keys: "k_accounts ?K = map (\<lambda>a. field_key keccak a 1) (map account_addr [0..<?n])"
      "k_payees ?K = map (\<lambda>a. field_key keccak a 1) (map payee_addr [0..<?m])"
      "k_pool ?K = from_u64 7" "k_token ?K = from_u64 (ucast (1 :: 32 word))"
    by (simp_all add: keys_of_def)
  have "build oc keccak cfg spec epoch = Inr ?w"
    unfolding build_def Let_def keys[symmetric]
    using g(1,2) z0 zn r(1) settled exit p(1) workload_requests_eq[OF len spec] sink by simp
  moreover have "workload_ok cfg spec ?w"
    using check shapes fold values' p(2) opened opens(1,2) by (simp add: workload_ok_def)
  moreover have "payouts_ok keccak spec ?w" using x(2) by (simp add: payouts_ok_def)
  ultimately show ?thesis by blast
qed

lemma net_sum:
  assumes m: "0 < m" and s: "s < 2 ^ 64"
  shows "(\<Sum>r\<leftarrow>net_payees s m. unat (of_nat (visits s m r) :: 128 word)) = s"
proof -
  have u: "unat (of_nat (visits s m r) :: 128 word) = visits s m r" for r
    using visits_le[of s m r] s by (subst unat_of_nat) simp
  have "(\<Sum>r\<leftarrow>filter (\<lambda>r. 0 < f r) xs. f r) = (\<Sum>r\<leftarrow>xs. f r)" for f :: "nat \<Rightarrow> nat" and xs
    by (induction xs) auto
  then have "(\<Sum>r\<leftarrow>net_payees s m. visits s m r) = (\<Sum>r\<leftarrow>[0..<m]. visits s m r)" by (simp add: net_payees_def)
  also have "\<dots> = s" using sum_visits[OF m, of s] by (simp add: interv_sum_list_conv_sum_set_nat atLeast0LessThan)
  finally show ?thesis by (simp only: u)
qed

lemma fundedI:
  assumes "0 < n_accounts spec" "0 < n_payees spec" "n_accounts spec + n_payees spec + 2 \<le> 2 ^ DEPTH"
    and "loads spec < 2 ^ 64" "spends spec < 2 ^ 64" "n_accounts spec \<le> loads spec" "spends spec \<le> n_accounts spec * 1000"
  shows "funded spec"
proof -
  have "visits (spends spec) (n_accounts spec) a \<le> 1000 * visits (loads spec) (n_accounts spec) a" if "a < n_accounts spec" for a
    using visits_bound[OF assms(1,7), of a] visits_pos[OF that assms(6)] by linarith
  then show ?thesis using assms by (simp add: funded_def)
qed

lemma small_funded: "funded spec_small" "funded large_daily"
  by (rule fundedI; simp add: spec_small_def large_daily_def DEPTH_def)+

section \<open>Properties\<close>

text \<open>
  C18. The workload builds.  When the keys it derives are distinct, every account can pay its
  spends from its loads, and the padding target is large enough, building an epoch returns, in either build
  mode; its batches are of the shape of the circuit, the circuit's check accepts them from the
  initial state and leads to the native final state, the nets fold to its accumulator, the exit
  entry opens its root, and a padded epoch has exactly the target number of steps.
\<close>

theorem workload_builds:
  assumes "config_wf cfg" "funded spec" "keys_ok (keys_of keccak spec)" "pad_fits spec"
  shows "\<exists>w. build oc keccak cfg spec epoch = Inr w \<and> workload_ok cfg spec w"
  using build_result[OF assms] by blast

text \<open>Keys from a stand-in digest, to run the definitions on.\<close>

definition toy_digest :: digest where
  "toy_digest bs = bs"

lemma bytes_value_bound: "bytes_value bs < 256 ^ length bs"
proof (induction bs)
  case (Cons b bs)
  then show ?case using unat_byte[of b] by simp
qed simp

lemma toy_key_value:
  assumes "length addr = 20"
  shows "fr_dec (field_key toy_digest addr 1) = 1 + 2 ^ 32 * bytes_value (rev addr)"
proof -
  have "bytes_value (rev (u32_to_be_bytes 1)) = 1" by (simp add: u32_to_be_bytes_def upt_rec)
  then have v: "bytes_value (rev (addr @ u32_to_be_bytes 1)) = 1 + 2 ^ 32 * bytes_value (rev addr)"
    by (simp add: horner_sum_append u32_to_be_bytes_def)
  have "bytes_value (rev addr) < 256 ^ 20" using bytes_value_bound[of "rev addr"] assms by simp
  then have "1 + 2 ^ 32 * bytes_value (rev addr) < fr_modulus" by (simp add: fr_modulus_def)
  then show ?thesis unfolding field_key_def toy_digest_def from_be_bytes_eq fr_dec_of_nat v by (rule mod_less)
qed

lemma addr_length: "length (account_addr i) = 20" "length (payee_addr i) = 20"
  by (simp_all add: account_addr_def payee_addr_def)

lemma toy_key_inj:
  assumes "length a = 20" "length b = 20"
  shows "field_key toy_digest a 1 = field_key toy_digest b 1 \<longleftrightarrow> a = b"
proof
  assume "field_key toy_digest a 1 = field_key toy_digest b 1"
  then have "bytes_value (rev a) = bytes_value (rev b)" using toy_key_value[OF assms(1)] toy_key_value[OF assms(2)] by simp
  then show "a = b" using bytes_value_inj[of "rev a" "rev b"] assms by simp
qed simp

lemma byte_of_nat_eq: "(of_nat i :: 8 word) = of_nat j \<longleftrightarrow> i mod 256 = j mod 256"
  by (simp add: word_unat_eq_iff unat_of_nat)

lemma and_255: "i AND 255 = i mod (256 :: nat)"
  using take_bit_eq_mask[of 8 i] by (simp add: take_bit_eq_mod mask_eq_exp_minus_1)

lemma two_digits: "i < 65536 \<Longrightarrow> j < 65536 \<Longrightarrow> i mod 256 = j mod 256 \<Longrightarrow> i div 256 mod 256 = j div 256 mod 256 \<Longrightarrow> i = (j::nat)"
proof -
  assume a: "i < 65536" "j < 65536" "i mod 256 = j mod 256" "i div 256 mod 256 = j div 256 mod 256"
  have "i div 256 < 256" by (rule less_mult_imp_div_less) (use a(1) in simp)
  moreover have "j div 256 < 256" by (rule less_mult_imp_div_less) (use a(2) in simp)
  ultimately have "i div 256 = j div 256" using a(4) by (simp only: mod_less)
  then have "i div 256 * 256 + i mod 256 = j div 256 * 256 + j mod 256" by (simp only: a(3))
  then show "i = j" by (simp only: div_mult_mod_eq)
qed

lemma addr_distinct:
  assumes "i < 65536" "j < 65536"
  shows "account_addr i = account_addr j \<longleftrightarrow> i = j" "payee_addr i = payee_addr j \<longleftrightarrow> i = j" "account_addr i \<noteq> payee_addr j"
proof -
  have 1: "account_addr i ! 0 = 0xAC" "account_addr i ! 19 = of_nat (i mod 256)" "account_addr i ! 18 = of_nat (i div 256 mod 256)" for i
    by (simp_all add: account_addr_def and_255 drop_bit_eq_div nth_list_update)
  have 2: "payee_addr i ! 0 = 0" "payee_addr i ! 19 = of_nat i + 1" "payee_addr i ! 18 = of_nat (i div 256)" for i
    by (simp_all add: payee_addr_def drop_bit_eq_div nth_list_update)
  show "account_addr i = account_addr j \<longleftrightarrow> i = j"
  proof
    assume e: "account_addr i = account_addr j"
    have "(of_nat (i mod 256) :: 8 word) = of_nat (j mod 256)" "(of_nat (i div 256 mod 256) :: 8 word) = of_nat (j div 256 mod 256)"
      using 1[of i] 1[of j] e by metis+
    then have "i mod 256 = j mod 256" "i div 256 mod 256 = j div 256 mod 256" unfolding byte_of_nat_eq by simp_all
    then show "i = j" by (rule two_digits[OF assms])
  qed simp
  show "payee_addr i = payee_addr j \<longleftrightarrow> i = j"
  proof
    assume e: "payee_addr i = payee_addr j"
    have "(of_nat i :: 8 word) + 1 = of_nat j + 1" "(of_nat (i div 256) :: 8 word) = of_nat (j div 256)"
      using 2[of i] 2[of j] e by metis+
    then have "i mod 256 = j mod 256" "i div 256 mod 256 = j div 256 mod 256" unfolding add_right_cancel byte_of_nat_eq by simp_all
    then show "i = j" by (rule two_digits[OF assms])
  qed simp
  show "account_addr i \<noteq> payee_addr j"
  proof
    assume "account_addr i = payee_addr j"
    then have "(0xAC :: 8 word) = 0" using 1(1)[of i] 2(1)[of j] by metis
    then show False by simp
  qed
qed

lemma toy_keys_ok:
  assumes "n_accounts spec \<le> 65536" "n_payees spec \<le> 65536"
  shows "keys_ok (keys_of toy_digest spec)"
proof -
  let ?f = "\<lambda>a. field_key toy_digest a 1"
  have other: "?f a \<noteq> from_u64 SINK_TAG" "?f a \<noteq> from_u64 7" if "length a = 20" for a
  proof -
    have d: "fr_dec (from_u64 SINK_TAG) = 0x5151515151515151" "fr_dec (from_u64 7) = 7"
      by (simp_all add: SINK_TAG_def from_u64_def fr_dec_def fr_int_numeral fr_modulus_def)
    have "fr_dec (?f a) mod 2 ^ 32 = 1" by (simp add: toy_key_value[OF that])
    then show "?f a \<noteq> from_u64 SINK_TAG" "?f a \<noteq> from_u64 7" using d by auto
  qed
  have no: "from_u64 SINK_TAG \<noteq> ?f (account_addr i)" "from_u64 SINK_TAG \<noteq> ?f (payee_addr i)"
      "from_u64 7 \<noteq> ?f (account_addr i)" "from_u64 7 \<noteq> ?f (payee_addr i)" for i
    using other[OF addr_length(1)[of i]] other[OF addr_length(2)[of i]] by metis+
  have "(from_u64 SINK_TAG :: fr) \<noteq> from_u64 7"
    by (simp add: SINK_TAG_def from_u64_def fr_numeral_eq_iff fr_modulus_def)
  moreover have "distinct (map ?f (map account_addr [0..<n_accounts spec]))" "distinct (map ?f (map payee_addr [0..<n_payees spec]))"
    using assms by (auto simp: distinct_map inj_on_def toy_key_inj addr_length addr_distinct)
  moreover have "set (map ?f (map account_addr [0..<n_accounts spec])) \<inter> set (map ?f (map payee_addr [0..<n_payees spec])) = {}"
    using assms by (auto simp: toy_key_inj addr_length addr_distinct)
  ultimately show ?thesis
    by (simp add: keys_ok_def keys_of_def image_iff no)
qed

theorem workload_builds_witness:
  "\<exists>w. build True toy_digest toy_config (with_pad_to_steps (Some 12) spec_small) 1 = Inr w
     \<and> workload_ok toy_config (with_pad_to_steps (Some 12) spec_small) w"
proof -
  let ?s = "with_pad_to_steps (Some 12) spec_small"
  have 1: "keys_ok (keys_of toy_digest ?s)"
    by (rule toy_keys_ok) (simp_all add: with_pad_to_steps_def spec_small_def)
  have 2: "funded ?s" "pad_fits ?s"
    using small_funded(1)
    by (simp_all add: funded_def pad_fits_def total_ops_def with_pad_to_steps_def spec_small_def BATCH_def)
  show ?thesis by (rule workload_builds[OF toy_config_wf(1) 2(1) 1 2(2)])
qed

text \<open>
  The payouts of the workload: one entry for each payee that received a spend, under its
  address and key, with as much as it received; the amounts add up to the number of spends, and the exit
  entry claims what is left to the first account.
\<close>

theorem workload_payouts:
  assumes "config_wf cfg" "funded spec" "keys_ok (keys_of keccak spec)" "pad_fits spec"
    and "build oc keccak cfg spec epoch = Inr w"
  shows "payouts_ok keccak spec w \<and> (\<Sum>n\<leftarrow>wl_nets w. unat (net_amount n)) = spends spec"
proof -
  have p: "payouts_ok keccak spec w" using build_result[OF assms(1-4), of oc epoch] assms(5) by auto
  have s: "0 < n_payees spec" "spends spec < 2 ^ 64" using assms(2) by (auto simp: funded_def)
  have "(\<Sum>n\<leftarrow>wl_nets w. unat (net_amount n)) = spends spec"
    using p net_sum[OF s] by (simp add: payouts_ok_def comp_def)
  with p show ?thesis by blast
qed

theorem workload_payouts_witness:
  "\<exists>w. build False toy_digest toy_config spec_small 1 = Inr w \<and> payouts_ok toy_digest spec_small w
     \<and> (\<Sum>n\<leftarrow>wl_nets w. unat (net_amount n)) = 60"
proof -
  have pad: "pad_fits spec_small" by (simp add: pad_fits_def spec_small_def)
  have keys: "keys_ok (keys_of toy_digest spec_small)" by (rule toy_keys_ok) (simp_all add: spec_small_def)
  obtain w where w: "build False toy_digest toy_config spec_small 1 = Inr w"
    using build_result[OF toy_config_wf(1) small_funded(1) keys pad] by blast
  show ?thesis
    using workload_payouts[OF toy_config_wf(1) small_funded(1) keys pad w] w
    by (auto simp: spec_small_def)
qed

text \<open>
  The two shapes the binary offers are within bounds: every account can pay its spends, the
  accounts fit in the tree of depth 22, and the large one is 42705 operations in 2670 steps.
\<close>

theorem shipped_shapes:
  "funded spec_small \<and> funded large_daily \<and> total_ops large_daily = 42705
   \<and> (total_ops large_daily + BATCH - 1) div BATCH = 2670 \<and> total_ops spec_small = 183"
  using small_funded by (simp add: total_ops_def large_daily_def spec_small_def BATCH_def)

end
