(* ===== verification/Prove_Epoch.thy ===== *)
theory Prove_Epoch
  imports Workload_Run
begin

text \<open>
  Proving an epoch: \<^verbatim>\<open>prove_epoch\<close> of crates/prover/src/lib.rs, the binary
  crates/prover/src/bin/prove_epoch.rs and the measurement of bench/src/main.rs.  The folding scheme,
  the decider, the calldata encoder and the EVM are the pinned \<^verbatim>\<open>sonobe\<close> crates, which are not part of the
  repository: they are three records of functions, arguments of the definitions.  What the host provides (the draws of
  \<^verbatim>\<open>OsRng\<close>, the clock, the exit status of \<^verbatim>\<open>solc --version\<close>) is a fourth.
\<close>

section \<open>The external crates\<close>

text \<open>An error of \<^verbatim>\<open>anyhow\<close> carries its message; an external error is its debug text.\<close>

datatype prover_error = Anyhow string | Crash fault

record ('r, 'np, 'nova, 'ci, 'com) folding_api =
  nova_preprocess :: "'r \<Rightarrow> fr poseidon_config \<times> fr ledger_circuit \<Rightarrow> string + 'np"
  nova_init :: "'np \<Rightarrow> fr ledger_circuit \<Rightarrow> fr list \<Rightarrow> string + 'nova"
  nova_prove_step :: "'r \<Rightarrow> fr op_witness epoch_step_input \<Rightarrow> 'nova \<Rightarrow> string + 'nova"
  nova_i :: "'nova \<Rightarrow> fr"
  nova_z_0 :: "'nova \<Rightarrow> fr list"
  nova_z_i :: "'nova \<Rightarrow> fr list"
  nova_U :: "'nova \<Rightarrow> 'ci"
  nova_u :: "'nova \<Rightarrow> 'ci"
  get_commitments :: "'ci \<Rightarrow> 'com"

record ('r, 'np, 'nova, 'ci, 'com, 'dp, 'dv, 'prf, 'vk) decider_api =
  decider_preprocess :: "'r \<Rightarrow> 'np \<times> nat \<Rightarrow> string + 'dp \<times> 'dv"
  decider_prove :: "'r \<Rightarrow> 'dp \<Rightarrow> 'nova \<Rightarrow> string + 'prf"
  decider_verify :: "'dv \<Rightarrow> fr \<Rightarrow> fr list \<Rightarrow> fr list \<Rightarrow> 'com \<Rightarrow> 'com \<Rightarrow> 'prf \<Rightarrow> string + bool"
  prepare_calldata :: "fr \<Rightarrow> fr list \<Rightarrow> fr list \<Rightarrow> 'ci \<Rightarrow> 'ci \<Rightarrow> 'prf \<Rightarrow> string + 8 word list"
  verifier_key :: "'dv \<times> nat \<Rightarrow> 'vk"
  decider_template :: "'vk \<Rightarrow> string"
  get_formatted_calldata :: "8 word list \<Rightarrow> string list"

record ('evm, 'addr) evm_api =
  compile_solidity :: "string \<Rightarrow> string \<Rightarrow> fault + 8 word list"
  evm_default :: 'evm
  evm_create :: "8 word list \<Rightarrow> 'evm \<Rightarrow> fault + 'addr \<times> 'evm"
  evm_call :: "'addr \<Rightarrow> 8 word list \<Rightarrow> 'evm \<Rightarrow> fault + (64 word \<times> 8 word list) \<times> 'evm"

record 'r host =
  entropy :: "nat \<Rightarrow> 'r"
  step_ms :: "nat \<Rightarrow> nat"
  prove_ms :: nat
  solc_status :: "bool option"

text \<open>\<^verbatim>\<open>map_err(|e| anyhow!("context: {e:?}"))?\<close>, \<^verbatim>\<open>ensure!\<close> and a call that may panic.\<close>

definition map_err :: "string \<Rightarrow> string + 'a \<Rightarrow> prover_error + 'a" where
  "map_err ctx r = (case r of Inl e \<Rightarrow> Inl (Anyhow (ctx @ '': '' @ e)) | Inr x \<Rightarrow> Inr x)"

definition ensure :: "bool \<Rightarrow> string \<Rightarrow> prover_error + unit" where
  "ensure b msg = (if b then Inr () else Inl (Anyhow msg))"

definition crash :: "fault + 'a \<Rightarrow> prover_error + 'a" where
  "crash r = (case r of Inl f \<Rightarrow> Inl (Crash f) | Inr x \<Rightarrow> Inr x)"

lemma map_err_Inr [simp]: "map_err ctx r = Inr x \<longleftrightarrow> r = Inr x" "map_err ctx (Inr x) = Inr x"
  by (simp_all add: map_err_def split: sum.splits)

lemma crash_Inr [simp]: "crash r = Inr x \<longleftrightarrow> r = Inr x" "crash (Inr x) = Inr x"
  by (simp_all add: crash_def split: sum.splits)

lemma ensure_Inr [simp]: "ensure b msg = Inr u \<longleftrightarrow> b" "ensure True msg = Inr ()"
  by (simp_all add: ensure_def)

section \<open>Proving\<close>

record epoch_artifacts =
  art_epoch :: "64 word"
  art_token :: "32 word"
  art_steps :: nat
  art_z0 :: "fr list"
  art_zn :: "fr list"
  art_proof_words :: "string list"
  art_calldata :: "8 word list"
  art_nets :: "net_entry list"
  art_transfers_root :: "8 word list"
  art_decider_sol :: string
  art_fold_ms :: "nat list"
  art_prove_ms :: nat
  art_gas :: "64 word"
  art_calldata_bytes :: nat

definition solc_available :: "'r host \<Rightarrow> bool" where
  "solc_available h = (case solc_status h of None \<Rightarrow> False | Some success \<Rightarrow> success)"

text \<open>The loop over the batches; draws 0 and 1 went to the two preprocessings.\<close>

fun prove_steps ::
  "('r, 'np, 'nova, 'ci, 'com) folding_api \<Rightarrow> 'r host \<Rightarrow> nat \<Rightarrow> fr op_witness epoch_step_input list
   \<Rightarrow> 'nova \<times> nat list \<Rightarrow> prover_error + 'nova \<times> nat list" where
  "prove_steps F h i [] (nova, ms) = Inr (nova, ms)"
| "prove_steps F h i (batch # batches) (nova, ms) =
     result_bind (map_err (''prove_step '' @ to_string i) (nova_prove_step F (entropy h (i + 2)) batch nova)) (\<lambda>nova.
     prove_steps F h (Suc i) batches (nova, ms @ [step_ms h i]))"

text \<open>The optional check in the EVM.\<close>

definition evm_verify ::
  "('evm, 'addr) evm_api \<Rightarrow> 'r host \<Rightarrow> string \<Rightarrow> 8 word list \<Rightarrow> prover_error + 64 word" where
  "evm_verify E h decider_sol calldata =
    (if solc_available h then
       result_bind (crash (compile_solidity E decider_sol ''NovaDecider'')) (\<lambda>bytecode.
       result_bind (crash (evm_create E bytecode (evm_default E))) (\<lambda>(addr, evm).
       result_bind (crash (evm_call E addr calldata evm)) (\<lambda>((gas, output), evm).
       result_bind (ensure (output \<noteq> [] \<and> last output = 1) ''revm NovaDecider.verifyNovaProof returned false'') (\<lambda>_.
       Inr gas))))
     else Inr 0)"

definition prove_epoch ::
  "('r, 'np, 'nova, 'ci, 'com) folding_api \<Rightarrow> ('r, 'np, 'nova, 'ci, 'com, 'dp, 'dv, 'prf, 'vk) decider_api
   \<Rightarrow> ('evm, 'addr) evm_api \<Rightarrow> 'r host \<Rightarrow> fr poseidon_config \<Rightarrow> 64 word \<Rightarrow> 32 word \<Rightarrow> fr list
   \<Rightarrow> fr op_witness epoch_step_input list \<Rightarrow> net_entry list \<Rightarrow> 8 word list \<Rightarrow> prover_error + epoch_artifacts" where
  "prove_epoch F D E h cfg epoch token z0 batches net_entries transfers =
    (let f_circuit = ledger_circuit_new cfg in
     result_bind (map_err ''nova preprocess'' (nova_preprocess F (entropy h 0) (cfg, f_circuit))) (\<lambda>nova_params.
     result_bind (map_err ''decider preprocess''
         (decider_preprocess D (entropy h 1) (nova_params, state_len f_circuit))) (\<lambda>(decider_pp, decider_vp).
     result_bind (map_err ''nova init'' (nova_init F nova_params f_circuit z0)) (\<lambda>nova.
     result_bind (prove_steps F h 0 batches (nova, [])) (\<lambda>(nova, ms).
     let steps = length ms; zn = nova_z_i F nova in
     result_bind (map_err ''decider prove'' (decider_prove D (entropy h (length batches + 2)) decider_pp nova)) (\<lambda>prf.
     result_bind (map_err ''decider verify'' (decider_verify D decider_vp (nova_i F nova) (nova_z_0 F nova) (nova_z_i F nova)
         (get_commitments F (nova_U F nova)) (get_commitments F (nova_u F nova)) prf)) (\<lambda>verified.
     result_bind (ensure verified ''decider proof did not verify natively'') (\<lambda>_.
     result_bind (map_err ''prepare_calldata'' (prepare_calldata D (nova_i F nova) (nova_z_0 F nova) (nova_z_i F nova)
         (nova_U F nova) (nova_u F nova) prf)) (\<lambda>calldata.
     let decider_sol = decider_template D (verifier_key D (decider_vp, state_len f_circuit)) in
     result_bind (evm_verify E h decider_sol calldata) (\<lambda>gas.
     let formatted = get_formatted_calldata D calldata in
     result_bind (ensure (length formatted = 32) (''unexpected calldata word count: '' @ to_string (length formatted))) (\<lambda>_.
     result_bind (crash (slice formatted 7 25)) (\<lambda>proof_words.
     Inr \<lparr>art_epoch = epoch, art_token = token, art_steps = steps, art_z0 = nova_z_0 F nova, art_zn = zn,
       art_proof_words = proof_words, art_calldata = calldata, art_nets = net_entries, art_transfers_root = transfers,
       art_decider_sol = decider_sol, art_fold_ms = ms, art_prove_ms = prove_ms h, art_gas = gas,
       art_calldata_bytes = length calldata\<rparr>))))))))))))"

section \<open>The binary\<close>

record prove_args =
  arg_scale :: string
  arg_epoch :: "64 word"
  arg_pad_steps :: "nat option"
  arg_out :: "string option"

definition scale_spec :: "string \<Rightarrow> nat option \<Rightarrow> prover_error + workload_spec" where
  "scale_spec scale pad =
     result_bind (if scale = ''small'' then Inr spec_small
       else if scale = ''large'' then Inr large_daily
       else Inl (Anyhow (''unknown scale '' @ [char_of (39::nat)] @ scale @ [char_of (39::nat)]
         @ '' (use '' @ [char_of (39::nat)] @ ''small'' @ [char_of (39::nat)] @ '' or '' @ [char_of (39::nat)] @ ''large''
         @ [char_of (39::nat)] @ '')'')))
       (\<lambda>spec. Inr (with_pad_to_steps pad spec))"

definition hex0x :: "hex_encode \<Rightarrow> 8 word list \<Rightarrow> string" where
  "hex0x hex bytes = ''0x'' @ hex bytes"

definition nets_json :: "hex_encode \<Rightarrow> net_entry list \<Rightarrow> json" where
  "nets_json hex ns = Jarr (map (\<lambda>n. Jobj [(''addr'', Jstr (hex0x hex (net_addr n))),
     (''key'', Jstr (fr_to_hex hex (net_key n))), (''amount'', Jstr (to_string (unat (net_amount n))))]) ns)"

definition exit_json :: "hex_encode \<Rightarrow> exit_entry \<Rightarrow> json" where
  "exit_json hex ex = Jobj [
     (''owner'', Jstr (hex0x hex (exit_owner ex))),
     (''tokenId'', Jnum (unat (exit_token ex))),
     (''balance'', Jstr (to_string (unat (exit_balance ex)))),
     (''nonce'', Jnum (unat (exit_nonce ex))),
     (''key'', Jstr (fr_to_hex hex (exit_key ex))),
     (''siblings'', Jarr (map (\<lambda>s. Jstr (to_string (fr_dec s))) (exit_siblings ex))),
     (''isRight'', Jarr (map Jbool (exit_is_right ex)))]"

definition proof_json :: "hex_encode \<Rightarrow> epoch_artifacts \<Rightarrow> exit_entry \<Rightarrow> fault + json" where
  "proof_json hex art ex =
     result_bind (index (art_z0 art) 0) (\<lambda>prev_root.
     result_bind (index (art_zn art) 0) (\<lambda>new_root.
     result_bind (index (art_zn art) 1) (\<lambda>opsacc.
     result_bind (index (art_zn art) 2) (\<lambda>netsacc.
     Inr (Jobj [
       (''epoch'', Jnum (unat (art_epoch art))),
       (''tokenId'', Jnum (unat (art_token art))),
       (''steps'', Jnum (art_steps art)),
       (''prevStateRoot'', Jstr (fr_to_hex hex prev_root)),
       (''newStateRoot'', Jstr (fr_to_hex hex new_root)),
       (''opsAcc'', Jstr (fr_to_hex hex opsacc)),
       (''netsAcc'', Jstr (fr_to_hex hex netsacc)),
       (''transfersRoot'', Jstr (hex0x hex (art_transfers_root art))),
       (''proof'', Jarr (map Jstr (art_proof_words art))),
       (''netAddrs'', Jarr (map (\<lambda>n. Jstr (hex0x hex (net_addr n))) (art_nets art))),
       (''netAmounts'', Jarr (map (\<lambda>n. Jstr (to_string (unat (net_amount n)))) (art_nets art))),
       (''nets'', nets_json hex (art_nets art)),
       (''exit'', exit_json hex ex),
       (''calldataBytes'', Jnum (art_calldata_bytes art)),
       (''evmVerifyGasRevm'', Jnum (unat (art_gas art)))])))))"

text \<open>
  What both binaries do first: build the workload, prove it, and compare the final state of the
  folding with the native one.
\<close>

definition prove_checked ::
  "('r, 'np, 'nova, 'ci, 'com) folding_api \<Rightarrow> ('r, 'np, 'nova, 'ci, 'com, 'dp, 'dv, 'prf, 'vk) decider_api
   \<Rightarrow> ('evm, 'addr) evm_api \<Rightarrow> 'r host \<Rightarrow> fr poseidon_config \<Rightarrow> bool \<Rightarrow> digest \<Rightarrow> string \<Rightarrow> workload_spec \<Rightarrow> 64 word
   \<Rightarrow> prover_error + workload \<times> epoch_artifacts" where
  "prove_checked F D E h cfg oc keccak mismatch spec epoch =
     result_bind (crash (build oc keccak cfg spec epoch)) (\<lambda>wl.
     result_bind (prove_epoch F D E h cfg epoch (wl_token wl) (wl_z0 wl) (wl_batches wl) (wl_nets wl) (wl_transfers_root wl)) (\<lambda>art.
     result_bind (ensure (art_zn art = wl_native_zn wl) mismatch) (\<lambda>_. Inr (wl, art))))"

text \<open>
  The file system: finding the root of the repository can panic, creating a directory or writing a file
  can fail with an error.  A run returns its result and the files written before it ended.
\<close>

record io =
  repo_root :: "fault + string"
  dir_error :: "string \<Rightarrow> string option"
  write_error :: "string \<Rightarrow> string option"

type_synonym files = "(string \<times> string) list"

definition io_result :: "string option \<Rightarrow> prover_error + unit" where
  "io_result e = (case e of None \<Rightarrow> Inr () | Some e \<Rightarrow> Inl (Anyhow e))"

definition join_path :: "string \<Rightarrow> string \<Rightarrow> string" where
  "join_path dir name = dir @ ''/'' @ name"

definition out_dir :: "io \<Rightarrow> prove_args \<Rightarrow> prover_error + string" where
  "out_dir fs args = (case arg_out args of Some dir \<Rightarrow> Inr dir
     | None \<Rightarrow> result_bind (crash (repo_root fs)) (\<lambda>root. Inr (join_path root ''contracts/generated'')))"

fun write_all :: "io \<Rightarrow> (string \<times> (prover_error + string)) list \<Rightarrow> files \<Rightarrow> (prover_error + unit) \<times> files" where
  "write_all fs [] written = (Inr (), written)"
| "write_all fs ((name, content) # rest) written =
    (case result_bind content (\<lambda>text. result_bind (io_result (write_error fs name)) (\<lambda>_. Inr text)) of
       Inl e \<Rightarrow> (Inl e, written)
     | Inr text \<Rightarrow> write_all fs rest (written @ [(name, text)]))"

text \<open>\<^verbatim>\<open>to_string_pretty(&v)?\<close>\<close>

definition pretty_print :: "(json \<Rightarrow> string + string) \<Rightarrow> fault + json \<Rightarrow> prover_error + string" where
  "pretty_print to_string_pretty v = result_bind (crash v) (\<lambda>v.
     case to_string_pretty v of Inl e \<Rightarrow> Inl (Anyhow e) | Inr text \<Rightarrow> Inr text)"

definition prove_main ::
  "('r, 'np, 'nova, 'ci, 'com) folding_api \<Rightarrow> ('r, 'np, 'nova, 'ci, 'com, 'dp, 'dv, 'prf, 'vk) decider_api
   \<Rightarrow> ('evm, 'addr) evm_api \<Rightarrow> 'r host \<Rightarrow> fr poseidon_config \<Rightarrow> bool \<Rightarrow> digest \<Rightarrow> hex_encode \<Rightarrow> (json \<Rightarrow> string + string)
   \<Rightarrow> io \<Rightarrow> prove_args \<Rightarrow> (prover_error + unit) \<times> files" where
  "prove_main F D E h cfg oc keccak hex to_string_pretty fs args =
    (case result_bind (scale_spec (arg_scale args) (arg_pad_steps args)) (\<lambda>spec.
          result_bind (out_dir fs args) (\<lambda>dir.
          result_bind (io_result (dir_error fs dir)) (\<lambda>_.
          result_bind (prove_checked F D E h cfg oc keccak ''Nova z_n != native z_n (circuit/native mismatch)'' spec (arg_epoch args))
            (\<lambda>(wl, art). Inr (dir, wl, art))))) of
       Inl e \<Rightarrow> (Inl e, [])
     | Inr (dir, wl, art) \<Rightarrow> write_all fs
         [(join_path dir ''NovaDecider.sol'', Inr (art_decider_sol art)),
          (join_path dir ''proof.json'', pretty_print to_string_pretty (proof_json hex art (wl_exit wl))),
          (join_path dir ''calldata_explicit.hex'', Inr (hex0x hex (art_calldata art)))] [])"

section \<open>The measurement\<close>

record bench_args =
  bench_scale :: "string option"
  bench_epoch :: "64 word"
  bench_pad_steps :: "nat option"
  rss_kb :: "64 word option"

record build_flags =
  full_bench :: bool
  light_test :: bool
  macos :: bool
  platform :: string

definition bench_spec :: "string \<Rightarrow> nat option \<Rightarrow> prover_error + workload_spec" where
  "bench_spec scale pad =
     result_bind (if scale = ''small'' then Inr spec_small
       else if scale = ''large'' then Inr large_daily
       else Inl (Anyhow (''unknown scale '' @ [char_of (39::nat)] @ scale @ [char_of (39::nat)])))
       (\<lambda>spec. Inr (with_pad_to_steps pad spec))"

definition saturating_mul :: "64 word \<Rightarrow> 64 word \<Rightarrow> 64 word" where
  "saturating_mul a b = (if unat a * unat b < 2 ^ 64 then a * b else - 1)"

definition mul_checked :: "bool \<Rightarrow> 64 word \<Rightarrow> 64 word \<Rightarrow> fault + 64 word" where
  "mul_checked oc a b = (if oc \<and> 2 ^ 64 \<le> unat a * unat b then Inl Panic else Inr (a * b))"

text \<open>The resident set the kernel reports, in bytes on macOS and in kilobytes on Linux.\<close>

definition peak_rss_bytes :: "build_flags \<Rightarrow> 64 word \<Rightarrow> 64 word" where
  "peak_rss_bytes flags ru_maxrss = (if macos flags then ru_maxrss else saturating_mul ru_maxrss 1024)"

text \<open>A \<^verbatim>\<open>u128\<close> in a JSON value must fit in 64 bits.\<close>

definition json_u128 :: "nat \<Rightarrow> fault + json" where
  "json_u128 n = (if n < 2 ^ 64 then Inr (Jnum n) else Inl Panic)"

definition fold_average :: "nat \<Rightarrow> nat \<Rightarrow> nat" where
  "fold_average fold_total n_steps = (if 0 < n_steps then fold_total div n_steps else 0)"

definition bench_json ::
  "build_flags \<Rightarrow> string \<Rightarrow> workload_spec \<Rightarrow> nat \<Rightarrow> 64 word \<Rightarrow> epoch_artifacts \<Rightarrow> fault + json" where
  "bench_json flags scale spec n_steps peak_rss art =
    (let fold_total = sum_list (art_fold_ms art); fold_avg = fold_average fold_total n_steps in
     result_bind (json_u128 fold_total) (\<lambda>total.
     result_bind (json_u128 fold_avg) (\<lambda>avg.
     result_bind (result_map json_u128 (art_fold_ms art)) (\<lambda>per_step.
     result_bind (json_u128 (art_prove_ms art)) (\<lambda>decider.
     Inr (Jobj [
       (''scale'', Jstr scale),
       (''op_count'', Jnum (total_ops spec)),
       (''steps'', Jnum (art_steps art)),
       (''batch_size'', Jnum BATCH),
       (''tree_depth'', Jnum DEPTH),
       (''z_len'', Jnum state_len_const),
       (''fold_ms_total'', total),
       (''fold_ms_per_step_avg'', avg),
       (''fold_ms_per_step'', Jarr per_step),
       (''decider_prove_ms'', decider),
       (''peak_rss_bytes'', Jnum (unat peak_rss)),
       (''calldata_bytes'', Jnum (art_calldata_bytes art)),
       (''verify_gas_revm'', Jnum (unat (art_gas art))),
       (''light_test'', Jbool (light_test flags)),
       (''platform'', Jstr (platform flags))]))))))"

definition bench_main ::
  "('r, 'np, 'nova, 'ci, 'com) folding_api \<Rightarrow> ('r, 'np, 'nova, 'ci, 'com, 'dp, 'dv, 'prf, 'vk) decider_api
   \<Rightarrow> ('evm, 'addr) evm_api \<Rightarrow> 'r host \<Rightarrow> fr poseidon_config \<Rightarrow> bool \<Rightarrow> digest \<Rightarrow> (json \<Rightarrow> string + string)
   \<Rightarrow> io \<Rightarrow> build_flags \<Rightarrow> 64 word \<Rightarrow> bench_args \<Rightarrow> (prover_error + unit) \<times> files" where
  "bench_main F D E h cfg oc keccak to_string_pretty fs flags ru_maxrss args =
    (let scale = (case bench_scale args of Some s \<Rightarrow> s | None \<Rightarrow> if full_bench flags then ''large'' else ''small'') in
     case result_bind (bench_spec scale (bench_pad_steps args)) (\<lambda>spec.
          result_bind (prove_checked F D E h cfg oc keccak ''Nova z_n != native z_n'' spec (bench_epoch args)) (\<lambda>(wl, art).
          result_bind (crash (case rss_kb args of Some kb \<Rightarrow> mul_checked oc kb 1024 | None \<Rightarrow> Inr (peak_rss_bytes flags ru_maxrss))) (\<lambda>peak_rss.
          result_bind (crash (bench_json flags scale spec (length (wl_batches wl)) peak_rss art)) (\<lambda>out.
          result_bind (crash (repo_root fs)) (\<lambda>root.
          let dir = join_path root ''results'' in
          result_bind (io_result (dir_error fs dir)) (\<lambda>_. Inr (dir, out))))))) of
       Inl e \<Rightarrow> (Inl e, [])
     | Inr (dir, out) \<Rightarrow> write_all fs [(join_path dir ''prover.json'', pretty_print to_string_pretty (Inr out))] [])"

end
