(* ===== verification/Epoch_Proof.thy ===== *)
theory Epoch_Proof
  imports Prove_Epoch
begin

text \<open>
  What the prover needs of the external crates, and what follows: with a complete folding scheme
  and decider the binary writes the artifacts of every workload; it writes none that was not verified; and an epoch
  that a knowledge-sound decider accepts is a run of the ledger whose payouts are its withdrawals.
\<close>

section \<open>Completeness of the external crates\<close>

text \<open>The instances that folding the circuit can lead to.\<close>

inductive folded ::
  "('r, 'np, 'nova, 'ci, 'com) folding_api \<Rightarrow> fr ledger_circuit \<Rightarrow> 'np \<Rightarrow> 'nova \<Rightarrow> bool"
  for F :: "('r, 'np, 'nova, 'ci, 'com) folding_api" and f_circuit :: "fr ledger_circuit" and np :: 'np where
  initial: "nova_init F np f_circuit z = Inr n \<Longrightarrow> folded F f_circuit np n"
| fold_step: "folded F f_circuit np n \<Longrightarrow> nova_prove_step F r batch n = Inr n' \<Longrightarrow> folded F f_circuit np n'"

text \<open>
  Completeness of folding: preprocessing and initialising return, and when an honest prover can
  synthesize the step circuit on the current state and a batch, with some values as outputs, \<^verbatim>\<open>prove_step\<close>
  returns and its state is these values.
\<close>

definition folding_complete ::
  "('r, 'np, 'nova, 'ci, 'com) folding_api \<Rightarrow> fr poseidon_config \<Rightarrow> bool" where
  "folding_complete F cfg \<longleftrightarrow> (let f_circuit = ledger_circuit_new cfg in
     (\<forall>r. \<exists>np. nova_preprocess F r (cfg, f_circuit) = Inr np)
     \<and> (\<forall>np z. length z = state_len f_circuit \<longrightarrow>
          (\<exists>n. nova_init F np f_circuit z = Inr n \<and> nova_z_0 F n = z \<and> nova_z_i F n = z))
     \<and> (\<forall>np n r batch v. folded F f_circuit np n \<and>
          (\<forall>cs. complete cs (synthesize_step f_circuit BATCH DEPTH (Inr (nova_z_i F n)) (Inr batch))
             (\<lambda>(z, ext, z') cs'. list_all2 (fp_is cs') z' v))
          \<longrightarrow> (\<exists>n'. nova_prove_step F r batch n = Inr n' \<and> nova_z_0 F n' = nova_z_0 F n \<and> nova_z_i F n' = v)))"

text \<open>
  Completeness of the decider: it proves every folded instance, the proof verifies, and for states of three
  words the calldata has the 1 + 3 + 3 + 25 words of its layout.
\<close>

definition verifies ::
  "('r, 'np, 'nova, 'ci, 'com) folding_api \<Rightarrow> ('r, 'np, 'nova, 'ci, 'com, 'dp, 'dv, 'prf, 'vk) decider_api
   \<Rightarrow> 'dv \<Rightarrow> 'nova \<Rightarrow> 'prf \<Rightarrow> bool" where
  "verifies F D dv n prf \<longleftrightarrow> decider_verify D dv (nova_i F n) (nova_z_0 F n) (nova_z_i F n)
     (get_commitments F (nova_U F n)) (get_commitments F (nova_u F n)) prf = Inr True"

definition calldata_of ::
  "('r, 'np, 'nova, 'ci, 'com) folding_api \<Rightarrow> ('r, 'np, 'nova, 'ci, 'com, 'dp, 'dv, 'prf, 'vk) decider_api
   \<Rightarrow> 'nova \<Rightarrow> 'prf \<Rightarrow> string + 8 word list" where
  "calldata_of F D n prf = prepare_calldata D (nova_i F n) (nova_z_0 F n) (nova_z_i F n) (nova_U F n) (nova_u F n) prf"

definition decider_complete ::
  "('r, 'np, 'nova, 'ci, 'com) folding_api \<Rightarrow> ('r, 'np, 'nova, 'ci, 'com, 'dp, 'dv, 'prf, 'vk) decider_api
   \<Rightarrow> fr poseidon_config \<Rightarrow> bool" where
  "decider_complete F D cfg \<longleftrightarrow> (let f_circuit = ledger_circuit_new cfg in
     (\<forall>r np. \<exists>dp dv. decider_preprocess D r (np, state_len f_circuit) = Inr (dp, dv))
     \<and> (\<forall>r r' np dp dv n. decider_preprocess D r (np, state_len f_circuit) = Inr (dp, dv) \<and> folded F f_circuit np n
          \<longrightarrow> (\<exists>prf. decider_prove D r' dp n = Inr prf \<and> verifies F D dv n prf))
     \<and> (\<forall>n prf. length (nova_z_0 F n) = 3 \<and> length (nova_z_i F n) = 3
          \<longrightarrow> (\<exists>c. calldata_of F D n prf = Inr c \<and> length (get_formatted_calldata D c) = 1 + 3 + 3 + 25)))"

text \<open>The compiled verifier accepts the calldata of what the decider accepts.\<close>

definition evm_agrees ::
  "('r, 'np, 'nova, 'ci, 'com) folding_api \<Rightarrow> ('r, 'np, 'nova, 'ci, 'com, 'dp, 'dv, 'prf, 'vk) decider_api
   \<Rightarrow> ('evm, 'addr) evm_api \<Rightarrow> fr poseidon_config \<Rightarrow> bool" where
  "evm_agrees F D E cfg \<longleftrightarrow> (\<forall>dv n prf c. verifies F D dv n prf \<and> calldata_of F D n prf = Inr c \<longrightarrow>
     (\<exists>bytecode addr evm gas output evm'.
        compile_solidity E (decider_template D (verifier_key D (dv, state_len (ledger_circuit_new cfg)))) ''NovaDecider'' = Inr bytecode
        \<and> evm_create E bytecode (evm_default E) = Inr (addr, evm)
        \<and> evm_call E addr c evm = Inr ((gas, output), evm') \<and> output \<noteq> [] \<and> last output = 1))"

section \<open>Proving succeeds\<close>

lemma prove_steps_runs:
  assumes F: "folding_complete F cfg"
    and "folded F (ledger_circuit_new cfg) np n" "nova_z_i F n = [a, b, c]"
    and "epoch_check \<lparr>config = cfg\<rparr> batches (a, b, c) = Inr (a', b', c')"
    and "list_all (\<lambda>b. length (ops b) = BATCH \<and> list_all (op_shape DEPTH) (ops b)) batches"
  shows "\<exists>n' ms'. prove_steps F h i batches (n, ms) = Inr (n', ms') \<and> folded F (ledger_circuit_new cfg) np n'
    \<and> nova_z_0 F n' = nova_z_0 F n \<and> nova_z_i F n' = [a', b', c'] \<and> length ms' = length ms + length batches"
  using assms(2-)
proof (induction batches arbitrary: i n ms a b c)
  case Nil
  then show ?case by (simp add: epoch_check_def)
next
  case (Cons x xs)
  obtain a1 b1 c1 where x: "step_check \<lparr>config = cfg\<rparr> (map field_op (ops x)) (a, b, c) = Inr (a1, b1, c1)"
      and xs: "epoch_check \<lparr>config = cfg\<rparr> xs (a1, b1, c1) = Inr (a', b', c')"
    using Cons.prems(3) by (auto simp: epoch_check_def result_bind_Inr_iff)
  have shape: "length (ops x) = BATCH" "list_all (op_shape DEPTH) (ops x)" using Cons.prems(4) by simp_all
  have "complete cs (synthesize_step (ledger_circuit_new cfg) BATCH DEPTH (Inr (nova_z_i F n)) (Inr x))
      (\<lambda>(z, ext, z') cs'. list_all2 (fp_is cs') z' [a1, b1, c1])" for cs
    unfolding Cons.prems(2) ledger_circuit_new_def by (rule step_completes[OF shape x])
  then obtain n1 where n1: "nova_prove_step F (entropy h (i + 2)) x n = Inr n1" "nova_z_0 F n1 = nova_z_0 F n"
      "nova_z_i F n1 = [a1, b1, c1]"
    using F Cons.prems(1) unfolding folding_complete_def Let_def by blast
  have "folded F (ledger_circuit_new cfg) np n1" by (rule folded.fold_step[OF Cons.prems(1) n1(1)])
  from Cons.IH[OF this n1(3) xs, of "Suc i" "ms @ [step_ms h i]"] Cons.prems(4) n1
  show ?case by auto
qed

lemma prove_epoch_total:
  assumes F: "folding_complete F cfg" and D: "decider_complete F D cfg" and E: "evm_agrees F D E cfg"
    and run: "epoch_check \<lparr>config = cfg\<rparr> batches (a, b, c) = Inr (a', b', c')"
    and shape: "list_all (\<lambda>b. length (ops b) = BATCH \<and> list_all (op_shape DEPTH) (ops b)) batches"
  shows "\<exists>art. prove_epoch F D E h cfg epoch token [a, b, c] batches ns tr = Inr art \<and> art_z0 art = [a, b, c]
    \<and> art_zn art = [a', b', c'] \<and> art_steps art = length batches \<and> length (art_proof_words art) = 25
    \<and> art_nets art = ns \<and> art_transfers_root art = tr"
proof -
  let ?C = "ledger_circuit_new cfg"
  have len: "length [a, b, c] = state_len ?C" by (simp add: state_len_def state_len_const_def)
  obtain np where np: "nova_preprocess F (entropy h 0) (cfg, ?C) = Inr np"
    using F unfolding folding_complete_def Let_def by blast
  obtain dp dv where d: "decider_preprocess D (entropy h 1) (np, state_len ?C) = Inr (dp, dv)"
    using D unfolding decider_complete_def Let_def by blast
  obtain n0 where n0: "nova_init F np ?C [a, b, c] = Inr n0" "nova_z_0 F n0 = [a, b, c]" "nova_z_i F n0 = [a, b, c]"
    using F len unfolding folding_complete_def Let_def by blast
  obtain n ms where n: "prove_steps F h 0 batches (n0, []) = Inr (n, ms)" "folded F ?C np n"
      "nova_z_0 F n = [a, b, c]" "nova_z_i F n = [a', b', c']" "length ms = length batches"
    using prove_steps_runs[OF F folded.initial[OF n0(1)] n0(3) run shape, of h 0 "[]"] n0(2) by auto
  obtain pf where pf: "decider_prove D (entropy h (length batches + 2)) dp n = Inr pf" "verifies F D dv n pf"
    using D d n(2) unfolding decider_complete_def Let_def by blast
  have "length (nova_z_0 F n) = 3" "length (nova_z_i F n) = 3" using n(3,4) by simp_all
  then have "\<exists>cd. calldata_of F D n pf = Inr cd \<and> length (get_formatted_calldata D cd) = 1 + 3 + 3 + 25"
    using D unfolding decider_complete_def Let_def by blast
  then obtain cd where cd: "calldata_of F D n pf = Inr cd" "length (get_formatted_calldata D cd) = 32" by auto
  obtain gas where gas: "evm_verify E h (decider_template D (verifier_key D (dv, state_len ?C))) cd = Inr gas"
  proof (cases "solc_available h")
    case True
    then show ?thesis
      using E pf(2) cd(1) that unfolding evm_agrees_def evm_verify_def by fastforce
  next
    case False
    then show ?thesis using that by (simp add: evm_verify_def)
  qed
  show ?thesis
    unfolding prove_epoch_def Let_def
    using np d n0 n pf cd gas by (simp add: verifies_def calldata_of_def slice_def)
qed

section \<open>Soundness of the decider\<close>

text \<open>A run of the step circuit: steps whose constraints are satisfied, each from the state the last one left.\<close>

inductive circuit_run :: "fr poseidon_config \<Rightarrow> nat \<Rightarrow> fr list \<Rightarrow> fr list \<Rightarrow> bool" for cfg :: "fr poseidon_config" where
  no_step: "circuit_run cfg 0 z z"
| one_step: "circuit_run cfg n z0 z \<Longrightarrow> cs_wf cs
    \<Longrightarrow> synthesize_step (ledger_circuit_new cfg) BATCH DEPTH zs batch cs = Inr ((vs, ext, vs'), cs')
    \<Longrightarrow> models w cs' \<Longrightarrow> map (fp_val w) vs = z \<Longrightarrow> map (fp_val w) vs' = z' \<Longrightarrow> circuit_run cfg (Suc n) z0 z'"

text \<open>Knowledge soundness, in its ideal form: what the decider accepts has a run of the circuit.\<close>

definition ivc_sound ::
  "('r, 'np, 'nova, 'ci, 'com, 'dp, 'dv, 'prf, 'vk) decider_api \<Rightarrow> fr poseidon_config \<Rightarrow> bool" where
  "ivc_sound D cfg \<longleftrightarrow> (\<forall>r np dp dv i z0 zi U u pf.
     decider_preprocess D r (np, state_len (ledger_circuit_new cfg)) = Inr (dp, dv)
     \<and> decider_verify D dv i z0 zi U u pf = Inr True \<longrightarrow> (\<exists>n. i = of_nat n \<and> circuit_run cfg n z0 zi))"

lemma circuit_run_check:
  assumes "circuit_run cfg n z0 z" "z0 = [a, b, c]"
  shows "\<exists>os a' b' c'. z = [a', b', c'] \<and> length os = n * BATCH \<and> list_all (op_shape DEPTH) os
    \<and> step_check \<lparr>config = cfg\<rparr> os (a, b, c) = Inr (a', b', c')"
  using assms
proof (induction rule: circuit_run.induct)
  case (no_step z)
  then show ?case by (intro exI[of _ "[]"]) (simp add: step_check_def)
next
  case (one_step n z0 z cs zs batch vs ext vs' cs' w z')
  obtain os a1 b1 c1 where os: "z = [a1, b1, c1]" "length os = n * BATCH" "list_all (op_shape DEPTH) os"
      "step_check \<lparr>config = cfg\<rparr> os (a, b, c) = Inr (a1, b1, c1)"
    using one_step.IH one_step.prems by auto
  have "step_accepted cfg BATCH DEPTH w (vs, ext, vs')"
    using step_is_sound[of cfg BATCH DEPTH zs batch] one_step.hyps(2-4)
    unfolding sound_def ledger_circuit_new_def by blast
  then obtain a2 b2 c2 where s: "length (ops ext) = BATCH" "list_all (op_shape DEPTH) (ops ext)" "z' = [a2, b2, c2]"
      "step_check \<lparr>config = cfg\<rparr> (map (op_val w) (ops ext)) (a1, b1, c1) = Inr (a2, b2, c2)"
    using one_step.hyps(5,6) os(1) by (auto simp: step_accepted_def)
  have "list_all (op_shape DEPTH) (map (op_val w) (ops ext))"
    using s(2) by (simp add: list_all_iff op_val_def)
  then show ?case
    using os s by (intro exI[of _ "os @ map (op_val w) (ops ext)"]) (simp add: step_check_append)
qed

section \<open>What a returned proof went through\<close>

lemma result_bind_InrE:
  assumes "result_bind r f = Inr y"
  obtains x where "r = Inr x" "f x = Inr y"
  using assms by (auto simp: result_bind_Inr_iff)

lemma prove_steps_count: "prove_steps F h i batches (n, ms) = Inr (n', ms') \<Longrightarrow> length ms' = length ms + length batches"
proof (induction batches arbitrary: i n ms)
  case (Cons b bs)
  then show ?case by (auto simp: result_bind_Inr_iff dest!: Cons.IH)
qed simp

text \<open>The verifier contract ran in the EVM and returned true.\<close>

definition evm_accepted :: "('evm, 'addr) evm_api \<Rightarrow> string \<Rightarrow> 8 word list \<Rightarrow> 64 word \<Rightarrow> bool" where
  "evm_accepted E sol calldata gas \<longleftrightarrow> (\<exists>bytecode addr evm output evm'.
     compile_solidity E sol ''NovaDecider'' = Inr bytecode \<and> evm_create E bytecode (evm_default E) = Inr (addr, evm)
     \<and> evm_call E addr calldata evm = Inr ((gas, output), evm') \<and> output \<noteq> [] \<and> last output = 1)"

definition checked_artifacts ::
  "('r, 'np, 'nova, 'ci, 'com) folding_api \<Rightarrow> ('r, 'np, 'nova, 'ci, 'com, 'dp, 'dv, 'prf, 'vk) decider_api
   \<Rightarrow> ('evm, 'addr) evm_api \<Rightarrow> 'r host \<Rightarrow> fr poseidon_config \<Rightarrow> epoch_artifacts \<Rightarrow> bool" where
  "checked_artifacts F D E h cfg art \<longleftrightarrow> (\<exists>np dp dv n pf.
     decider_preprocess D (entropy h 1) (np, state_len (ledger_circuit_new cfg)) = Inr (dp, dv)
     \<and> verifies F D dv n pf \<and> nova_z_0 F n = art_z0 art \<and> nova_z_i F n = art_zn art
     \<and> calldata_of F D n pf = Inr (art_calldata art) \<and> art_calldata_bytes art = length (art_calldata art)
     \<and> art_decider_sol art = decider_template D (verifier_key D (dv, state_len (ledger_circuit_new cfg)))
     \<and> length (get_formatted_calldata D (art_calldata art)) = 32
     \<and> art_proof_words art = drop 7 (get_formatted_calldata D (art_calldata art))
     \<and> (solc_available h \<longrightarrow> evm_accepted E (art_decider_sol art) (art_calldata art) (art_gas art))
     \<and> length (art_fold_ms art) = art_steps art)"

lemma evm_verify_accepted:
  "evm_verify E h sol cd = Inr gas \<Longrightarrow> solc_available h \<Longrightarrow> evm_accepted E sol cd gas"
  by (auto simp: evm_verify_def evm_accepted_def result_bind_Inr_iff)

lemma prove_epoch_checked:
  assumes "prove_epoch F D E h cfg epoch token z0 batches ns tr = Inr art"
  shows "checked_artifacts F D E h cfg art \<and> art_steps art = length batches \<and> art_nets art = ns
    \<and> art_transfers_root art = tr \<and> art_epoch art = epoch \<and> art_token art = token"
proof -
  let ?C = "ledger_circuit_new cfg"
  obtain np dp dv n0 n ms pf cd gas words where
    d: "decider_preprocess D (entropy h 1) (np, state_len ?C) = Inr (dp, dv)"
    and n: "prove_steps F h 0 batches (n0, []) = Inr (n, ms)"
    and v: "verifies F D dv n pf" and cd: "calldata_of F D n pf = Inr cd"
    and gas: "evm_verify E h (decider_template D (verifier_key D (dv, state_len ?C))) cd = Inr gas"
    and words: "length (get_formatted_calldata D cd) = 32" "slice (get_formatted_calldata D cd) 7 25 = Inr words"
    and art: "art = \<lparr>art_epoch = epoch, art_token = token, art_steps = length ms, art_z0 = nova_z_0 F n, art_zn = nova_z_i F n,
       art_proof_words = words, art_calldata = cd, art_nets = ns, art_transfers_root = tr,
       art_decider_sol = decider_template D (verifier_key D (dv, state_len ?C)), art_fold_ms = ms, art_prove_ms = prove_ms h,
       art_gas = gas, art_calldata_bytes = length cd\<rparr>"
    using assms unfolding prove_epoch_def Let_def
    by (auto simp: verifies_def calldata_of_def elim!: result_bind_InrE)
  have "words = drop 7 (get_formatted_calldata D cd)"
    using words by (simp add: slice_def)
  moreover have "length ms = length batches" using prove_steps_count[OF n] by simp
  ultimately show ?thesis
    unfolding checked_artifacts_def art epoch_artifacts.simps
    using d v cd words(1) evm_verify_accepted[OF gas] by blast
qed

lemma prove_checked_checked:
  assumes "prove_checked F D E h cfg oc keccak msg spec epoch = Inr (wl, art)"
  shows "build oc keccak cfg spec epoch = Inr wl \<and> checked_artifacts F D E h cfg art \<and> art_zn art = wl_native_zn wl
    \<and> art_steps art = length (wl_batches wl) \<and> art_nets art = wl_nets wl"
  using assms prove_epoch_checked unfolding prove_checked_def
  by (fastforce elim!: result_bind_InrE)

lemma prove_checked_total:
  assumes "config_wf cfg" "funded spec" "keys_ok (keys_of keccak spec)" "pad_fits spec"
    and "folding_complete F cfg" "decider_complete F D cfg" "evm_agrees F D E cfg"
  shows "\<exists>wl art. prove_checked F D E h cfg oc keccak msg spec epoch = Inr (wl, art)
    \<and> art_z0 art = wl_z0 wl \<and> length (art_z0 art) = 3 \<and> length (art_zn art) = 3
    \<and> pad_to_steps spec \<in> {None, Some (art_steps art)}"
proof -
  obtain wl where wl: "build oc keccak cfg spec epoch = Inr wl" "workload_ok cfg spec wl"
    using build_result[OF assms(1-4)] by blast
  obtain r r' oacc nacc where z: "wl_z0 wl = [r, 0, 0]" "wl_native_zn wl = [r', oacc, nacc]"
      "epoch_check \<lparr>config = cfg\<rparr> (wl_batches wl) (r, 0, 0) = Inr (r', oacc, nacc)"
      "list_all (\<lambda>b. length (ops b) = BATCH \<and> list_all (op_shape DEPTH) (ops b)) (wl_batches wl)"
    using wl(2) by (auto simp: workload_ok_def)
  obtain art where "prove_epoch F D E h cfg epoch (wl_token wl) [r, 0, 0] (wl_batches wl) (wl_nets wl) (wl_transfers_root wl) = Inr art"
      "art_z0 art = [r, 0, 0]" "art_zn art = [r', oacc, nacc]" "art_steps art = length (wl_batches wl)"
    using prove_epoch_total[OF assms(5-7) z(3,4)] by blast
  then show ?thesis
    using wl z(1,2) by (intro exI[of _ wl] exI[of _ art]) (auto simp: prove_checked_def workload_ok_def)
qed

lemma funded_pad: "funded (with_pad_to_steps pad spec) = funded spec"
  by (simp add: funded_def with_pad_to_steps_def)

lemma scale_spec_funded: "scale_spec scale pad = Inr spec \<Longrightarrow> funded spec \<and> pad_to_steps spec = pad"
  using small_funded by (auto simp: scale_spec_def funded_pad split: if_splits) (auto simp: with_pad_to_steps_def)

lemma proof_json_total:
  "length (art_z0 art) = 3 \<Longrightarrow> length (art_zn art) = 3 \<Longrightarrow> \<exists>v. proof_json hex art ex = Inr v"
  by (simp add: proof_json_def index_def)

section \<open>Properties\<close>

text \<open>
  C14. The prover succeeds.  With a complete folding scheme and decider, distinct keys, a
  padding target that is large enough and a file system without errors, the binary returns and writes its three
  files; the artifacts start from the initial state of the workload, end in the native final state, and when padding
  was asked for, the public number of steps is the target, whatever the operations were.
\<close>

theorem prove_main_succeeds:
  assumes "config_wf cfg" "scale_spec (arg_scale args) (arg_pad_steps args) = Inr spec"
    and "keys_ok (keys_of keccak spec)" "pad_fits spec"
    and "folding_complete F cfg" "decider_complete F D cfg" "evm_agrees F D E cfg"
    and "out_dir fs args = Inr dir" "dir_error fs dir = None" "\<And>f. write_error fs f = None" "\<And>v. \<exists>text. to_string_pretty v = Inr text"
  shows "\<exists>wl art v text. build oc keccak cfg spec (arg_epoch args) = Inr wl
    \<and> prove_main F D E h cfg oc keccak hex to_string_pretty fs args = (Inr (),
        [(join_path dir ''NovaDecider.sol'', art_decider_sol art), (join_path dir ''proof.json'', text),
         (join_path dir ''calldata_explicit.hex'', hex0x hex (art_calldata art))])
    \<and> proof_json hex art (wl_exit wl) = Inr v \<and> to_string_pretty v = Inr text
    \<and> art_z0 art = wl_z0 wl \<and> art_zn art = wl_native_zn wl \<and> arg_pad_steps args \<in> {None, Some (art_steps art)}"
proof -
  have spec: "funded spec" "pad_to_steps spec = arg_pad_steps args" using scale_spec_funded[OF assms(2)] by simp_all
  obtain wl art where p: "prove_checked F D E h cfg oc keccak ''Nova z_n != native z_n (circuit/native mismatch)''
        spec (arg_epoch args) = Inr (wl, art)"
      "art_z0 art = wl_z0 wl" "length (art_z0 art) = 3" "length (art_zn art) = 3"
      "pad_to_steps spec \<in> {None, Some (art_steps art)}"
    using prove_checked_total[OF assms(1) spec(1) assms(3-7)] by blast
  note c = prove_checked_checked[OF p(1)]
  obtain v where v: "proof_json hex art (wl_exit wl) = Inr v" using proof_json_total[OF p(3,4)] by blast
  obtain js where t: "to_string_pretty v = Inr js" using assms(11) by blast
  have "prove_main F D E h cfg oc keccak hex to_string_pretty fs args = (Inr (),
        [(join_path dir ''NovaDecider.sol'', art_decider_sol art), (join_path dir ''proof.json'', js),
         (join_path dir ''calldata_explicit.hex'', hex0x hex (art_calldata art))])"
    by (simp add: prove_main_def assms(2,8-10) io_result_def p(1) v t pretty_print_def)
  then show ?thesis using c v t p(2,5) spec(2) by auto
qed

text \<open>
  C15. No artifact without a proof.  For any external crates whatsoever: if the binary wrote a
  file, then the workload was built, the decider verified a proof of exactly the states in the artifacts, the
  calldata had 32 words of which the last 25 are the proof, the EVM accepted it when a compiler was
  there, and the final state is the native one.
\<close>

theorem artifacts_verified:
  assumes "prove_main F D E h cfg oc keccak hex to_string_pretty fs args = (r, files)" "files \<noteq> []"
  shows "\<exists>spec wl art. scale_spec (arg_scale args) (arg_pad_steps args) = Inr spec
    \<and> build oc keccak cfg spec (arg_epoch args) = Inr wl \<and> checked_artifacts F D E h cfg art
    \<and> art_zn art = wl_native_zn wl \<and> art_steps art = length (wl_batches wl) \<and> art_nets art = wl_nets wl
    \<and> snd (hd files) = art_decider_sol art"
proof -
  let ?run = "result_bind (scale_spec (arg_scale args) (arg_pad_steps args)) (\<lambda>spec.
      result_bind (out_dir fs args) (\<lambda>dir. result_bind (io_result (dir_error fs dir)) (\<lambda>_.
      result_bind (prove_checked F D E h cfg oc keccak ''Nova z_n != native z_n (circuit/native mismatch)'' spec (arg_epoch args))
        (\<lambda>(wl, art). Inr (dir, wl, art)))))"
  obtain dir wl art where run: "?run = Inr (dir, wl, art)"
    using assms by (cases ?run) (auto simp: prove_main_def)
  then obtain spec where s: "scale_spec (arg_scale args) (arg_pad_steps args) = Inr spec"
      "prove_checked F D E h cfg oc keccak ''Nova z_n != native z_n (circuit/native mismatch)'' spec (arg_epoch args) = Inr (wl, art)"
    by (auto elim!: result_bind_InrE)
  have "snd (hd files) = art_decider_sol art"
    using assms run by (auto simp: prove_main_def result_bind_Inr_iff split: sum.splits)
  then show ?thesis using s(1) prove_checked_checked[OF s(2)] by blast
qed

section \<open>Crates to run the definitions on\<close>

text \<open>A folding scheme that keeps the states and runs the circuit, and a decider with empty proofs.\<close>

definition toy_next :: "fr poseidon_config \<Rightarrow> fr list \<Rightarrow> fr op_witness epoch_step_input \<Rightarrow> string + fr list" where
  "toy_next cfg z batch = (case synthesize_step (ledger_circuit_new cfg) BATCH DEPTH (Inr z) (Inr batch) cs_new of
     Inl _ \<Rightarrow> Inl ''synthesis''
   | Inr ((_, _, z'), _) \<Rightarrow> (case result_map fpvar_value z' of Inl _ \<Rightarrow> Inl ''value'' | Inr v \<Rightarrow> Inr v))"

definition toy_folding :: "fr poseidon_config \<Rightarrow> (unit, unit, nat \<times> fr list \<times> fr list, unit, unit) folding_api" where
  "toy_folding cfg = \<lparr>nova_preprocess = (\<lambda>_ _. Inr ()), nova_init = (\<lambda>_ _ z. Inr (0, z, z)),
     nova_prove_step = (\<lambda>_ batch (i, z0, z). result_bind (toy_next cfg z batch) (\<lambda>z. Inr (Suc i, z0, z))),
     nova_i = (\<lambda>(i, _). of_nat i), nova_z_0 = (\<lambda>(_, z0, _). z0), nova_z_i = (\<lambda>(_, _, z). z),
     nova_U = (\<lambda>_. ()), nova_u = (\<lambda>_. ()), get_commitments = (\<lambda>_. ())\<rparr>"

definition toy_decider :: "(unit, unit, nat \<times> fr list \<times> fr list, unit, unit, unit, unit, unit, unit) decider_api" where
  "toy_decider = \<lparr>decider_preprocess = (\<lambda>_ _. Inr ((), ())), decider_prove = (\<lambda>_ _ _. Inr ()),
     decider_verify = (\<lambda>_ _ _ _ _ _ _. Inr True), prepare_calldata = (\<lambda>_ _ _ _ _ _. Inr (replicate 1024 0)),
     verifier_key = (\<lambda>_. ()), decider_template = (\<lambda>_. ''contract NovaDecider''),
     get_formatted_calldata = (\<lambda>bs. replicate (length bs div 32) ''0'')\<rparr>"

definition toy_evm :: "(unit, unit) evm_api" where
  "toy_evm = \<lparr>compile_solidity = (\<lambda>_ _. Inr []), evm_default = (), evm_create = (\<lambda>_ _. Inr ((), ())),
     evm_call = (\<lambda>_ _ _. Inr ((700000, [1]), ()))\<rparr>"

definition toy_host :: "unit host" where
  "toy_host = \<lparr>entropy = (\<lambda>_. ()), step_ms = (\<lambda>i. 500), prove_ms = 90000, solc_status = Some True\<rparr>"

definition toy_io :: io where
  "toy_io = \<lparr>repo_root = Inr ''repo'', dir_error = (\<lambda>_. None), write_error = (\<lambda>_. None)\<rparr>"

lemma result_map_values: "list_all2 (fp_is cs) ys vs \<Longrightarrow> result_map fpvar_value ys = Inr vs"
  by (induction ys vs rule: list_all2_induct) (simp_all add: fp_isD)

lemma toy_folding_complete: "folding_complete (toy_folding cfg) cfg"
proof -
  have n: "toy_next cfg z batch = Inr v"
    if c: "\<forall>cs. complete cs (synthesize_step (ledger_circuit_new cfg) BATCH DEPTH (Inr z) (Inr batch))
        (\<lambda>(z, ext, z') cs'. list_all2 (fp_is cs') z' v)" for z batch v
  proof -
    obtain x cs' where r: "synthesize_step (ledger_circuit_new cfg) BATCH DEPTH (Inr z) (Inr batch) cs_new = Inr (x, cs')"
        "(case x of (z, ext, z') \<Rightarrow> \<lambda>cs'. list_all2 (fp_is cs') z' v) cs'"
      by (rule completeE[OF c[rule_format] honest_new])
    then show ?thesis by (cases x) (auto simp: toy_next_def dest: result_map_values)
  qed
  show ?thesis
    unfolding folding_complete_def Let_def by (auto simp: toy_folding_def dest!: n)
qed

lemma toy_decider_complete: "decider_complete (toy_folding cfg) toy_decider cfg"
  by (simp add: decider_complete_def verifies_def calldata_of_def toy_decider_def)

lemma toy_evm_agrees: "evm_agrees (toy_folding cfg) toy_decider toy_evm cfg"
  by (simp add: evm_agrees_def toy_evm_def)

definition toy_args :: prove_args where
  "toy_args = \<lparr>arg_scale = ''small'', arg_epoch = 1, arg_pad_steps = Some 12, arg_out = Some ''out''\<rparr>"

lemma toy_spec:
  "scale_spec (arg_scale toy_args) (arg_pad_steps toy_args) = Inr (with_pad_to_steps (Some 12) spec_small)"
  "keys_ok (keys_of toy_digest (with_pad_to_steps (Some 12) spec_small))" "pad_fits (with_pad_to_steps (Some 12) spec_small)"
proof -
  show "keys_ok (keys_of toy_digest (with_pad_to_steps (Some 12) spec_small))"
    by (rule toy_keys_ok) (simp_all add: with_pad_to_steps_def spec_small_def)
qed (simp_all add: scale_spec_def toy_args_def pad_fits_def total_ops_def with_pad_to_steps_def spec_small_def BATCH_def)

theorem prove_main_succeeds_witness:
  "\<exists>(art :: epoch_artifacts) files. prove_main (toy_folding toy_config) toy_decider toy_evm toy_host toy_config True toy_digest toy_hex
       (\<lambda>_. Inr ''json'') toy_io toy_args = (Inr (), files)
     \<and> files = [(''out/NovaDecider.sol'', art_decider_sol art), (''out/proof.json'', ''json''),
         (''out/calldata_explicit.hex'', hex0x toy_hex (art_calldata art))] \<and> art_steps art = 12"
proof -
  have io: "out_dir toy_io toy_args = Inr ''out''" "dir_error toy_io ''out'' = None" "\<And>f. write_error toy_io f = None"
    by (simp_all add: toy_io_def toy_args_def out_dir_def)
  have pad: "arg_pad_steps toy_args = Some 12" by (simp add: toy_args_def)
  obtain art :: epoch_artifacts where "prove_main (toy_folding toy_config) toy_decider toy_evm toy_host toy_config True toy_digest toy_hex
       (\<lambda>_. Inr ''json'') toy_io toy_args = (Inr (), [(''out/NovaDecider.sol'', art_decider_sol art), (''out/proof.json'', ''json''),
         (''out/calldata_explicit.hex'', hex0x toy_hex (art_calldata art))])" "art_steps art = 12"
    using prove_main_succeeds[OF toy_config_wf(1) toy_spec toy_folding_complete toy_decider_complete toy_evm_agrees io,
        where to_string_pretty = "\<lambda>_. Inr ''json''" and h = toy_host and oc = True and hex = toy_hex, OF exI, OF refl]
    by (auto simp: pad join_path_def)
  then show ?thesis by blast
qed

lemma toy_run:
  "\<exists>files. prove_main (toy_folding toy_config) toy_decider toy_evm toy_host toy_config True toy_digest toy_hex
     (\<lambda>_. Inr ''json'') toy_io toy_args = (Inr (), files) \<and> files \<noteq> []"
proof -
  obtain wl art where p: "prove_checked (toy_folding toy_config) toy_decider toy_evm toy_host toy_config True toy_digest
        ''Nova z_n != native z_n (circuit/native mismatch)'' (with_pad_to_steps (Some 12) spec_small) (arg_epoch toy_args) = Inr (wl, art)"
      "length (art_z0 art) = 3" "length (art_zn art) = 3"
    using prove_checked_total[OF toy_config_wf(1) _ toy_spec(2,3) toy_folding_complete toy_decider_complete toy_evm_agrees]
      scale_spec_funded[OF toy_spec(1)] by blast
  obtain v where v: "proof_json toy_hex art (wl_exit wl) = Inr v" using proof_json_total[OF p(2,3)] by blast
  have out: "out_dir toy_io toy_args = Inr ''out''" "dir_error toy_io ''out'' = None" "write_error toy_io f = None" for f
    by (simp_all add: out_dir_def toy_args_def toy_io_def)
  show ?thesis unfolding prove_main_def toy_spec(1) by (simp add: p(1) v io_result_def pretty_print_def out)
qed

theorem artifacts_verified_witness:
  "\<exists>wl art. build True toy_digest toy_config (with_pad_to_steps (Some 12) spec_small) 1 = Inr wl
     \<and> checked_artifacts (toy_folding toy_config) toy_decider toy_evm toy_host toy_config art \<and> art_zn art = wl_native_zn wl"
proof -
  obtain files where "prove_main (toy_folding toy_config) toy_decider toy_evm toy_host toy_config True toy_digest toy_hex
     (\<lambda>_. Inr ''json'') toy_io toy_args = (Inr (), files)" "files \<noteq> []"
    using toy_run by blast
  from artifacts_verified[OF this] show ?thesis by (auto simp: toy_spec(1)) (auto simp: toy_args_def)
qed

section \<open>The measurement\<close>

lemma prove_steps_ms:
  "prove_steps F h i batches (n, ms) = Inr (n', ms') \<Longrightarrow> ms' = ms @ map (step_ms h) [i..<i + length batches]"
proof (induction batches arbitrary: i n ms)
  case (Cons b bs)
  have "[i..<i + length (b # bs)] = i # [Suc i..<Suc i + length bs]" by (simp add: upt_conv_Cons del: upt_Suc)
  then show ?case using Cons.prems by (auto simp: result_bind_Inr_iff simp del: upt_Suc dest!: Cons.IH)
qed simp

lemma prove_epoch_ms:
  "prove_epoch F D E h cfg epoch token z0 batches ns tr = Inr art
   \<Longrightarrow> art_fold_ms art = map (step_ms h) [0..<length batches] \<and> art_prove_ms art = prove_ms h"
  unfolding prove_epoch_def Let_def by (auto elim!: result_bind_InrE dest: prove_steps_ms)

lemma json_u128_small: "n < 2 ^ 64 \<Longrightarrow> json_u128 n = Inr (Jnum n)"
  by (simp add: json_u128_def)

lemma result_map_u128: "\<forall>m\<in>set ms. m < 2 ^ 64 \<Longrightarrow> result_map json_u128 ms = Inr (map Jnum ms)"
  by (rule result_map_Inr) (auto simp: json_u128_small)

lemma fold_average_bounds:
  "0 < n \<Longrightarrow> n * fold_average t n \<le> t \<and> t < n * fold_average t n + n"
  using dividend_less_times_div[of n t] by (simp add: fold_average_def add.commute)

lemma bench_json_total:
  assumes "sum_list (art_fold_ms art) < 2 ^ 64" "art_prove_ms art < 2 ^ 64"
  shows "\<exists>v. bench_json flags scale spec n peak art = Inr v"
proof -
  have "\<forall>m\<in>set (art_fold_ms art). m < 2 ^ 64"
    using assms(1) member_le_sum_list[where xs = "art_fold_ms art"] by fastforce
  moreover have "fold_average (sum_list (art_fold_ms art)) n < 2 ^ 64"
    using le_less_trans[OF div_le_dividend assms(1), of n] by (simp add: fold_average_def)
  ultimately show ?thesis
    using assms by (simp add: bench_json_def Let_def json_u128_small result_map_u128)
qed

lemma bench_spec_funded: "bench_spec scale pad = Inr spec \<Longrightarrow> funded spec \<and> pad_to_steps spec = pad"
  using small_funded by (auto simp: bench_spec_def funded_pad split: if_splits) (auto simp: with_pad_to_steps_def)

text \<open>
  The measurement.  With complete external crates, a file system without errors and times
  that fit in 64 bits, the benchmark writes its report; the average it reports, times the number of steps, misses the
  total by less than one millisecond for each step.  But a resident set of \<open>2 ^ 54\<close> kilobytes or more, given as an
  argument, makes a build with overflow checks panic after the proof was made, and nothing is written.
\<close>

theorem bench_reports:
  assumes "config_wf cfg" "bench_spec (the (bench_scale args)) (bench_pad_steps args) = Inr spec" "bench_scale args \<noteq> None"
    and "keys_ok (keys_of keccak spec)" "pad_fits spec"
    and "folding_complete F cfg" "decider_complete F D cfg" "evm_agrees F D E cfg"
    and "repo_root fs = Inr rootdir" "dir_error fs (join_path rootdir ''results'') = None" "\<And>f. write_error fs f = None" "\<And>v. \<exists>text. to_string_pretty v = Inr text"
    and "build oc keccak cfg spec (bench_epoch args) = Inr wl" "n = length (wl_batches wl)"
    and "(\<Sum>i<n. step_ms h i) < 2 ^ 64" "prove_ms h < 2 ^ 64"
  shows "\<exists>art. art_steps art = n \<and> art_fold_ms art = map (step_ms h) [0..<n]
    \<and> (0 < n \<longrightarrow> n * fold_average (\<Sum>i<n. step_ms h i) n \<le> (\<Sum>i<n. step_ms h i)
        \<and> (\<Sum>i<n. step_ms h i) < n * fold_average (\<Sum>i<n. step_ms h i) n + n)
    \<and> (case rss_kb args of
         Some kb \<Rightarrow> if oc \<and> 2 ^ 54 \<le> unat kb
           then bench_main F D E h cfg oc keccak to_string_pretty fs flags ru args = (Inl (Crash Panic), [])
           else \<exists>v text. bench_json flags (the (bench_scale args)) spec n (kb * 1024) art = Inr v
             \<and> bench_main F D E h cfg oc keccak to_string_pretty fs flags ru args = (Inr (), [(join_path rootdir ''results/prover.json'', text)])
       | None \<Rightarrow> \<exists>v text. bench_json flags (the (bench_scale args)) spec n (peak_rss_bytes flags ru) art = Inr v
             \<and> bench_main F D E h cfg oc keccak to_string_pretty fs flags ru args = (Inr (), [(join_path rootdir ''results/prover.json'', text)]))"
proof -
  obtain scale where scale: "bench_scale args = Some scale" using assms(3) by blast
  have spec: "bench_spec scale (bench_pad_steps args) = Inr spec" "funded spec"
    using assms(2) scale bench_spec_funded by simp_all
  obtain wl' art where p: "prove_checked F D E h cfg oc keccak ''Nova z_n != native z_n'' spec (bench_epoch args) = Inr (wl', art)"
    using prove_checked_total[OF assms(1) spec(2) assms(4-8)] by blast
  note c = prove_checked_checked[OF p]
  have "wl' = wl" using c assms(13) by simp
  then have n: "art_steps art = n" "length (wl_batches wl') = n" using c assms(14) by simp_all
  have ms: "art_fold_ms art = map (step_ms h) [0..<n]" "art_prove_ms art = prove_ms h"
    using p n(2) prove_epoch_ms by (fastforce simp: prove_checked_def elim!: result_bind_InrE)+
  then have sum: "sum_list (art_fold_ms art) = (\<Sum>i<n. step_ms h i)"
    by (simp add: interv_sum_list_conv_sum_set_nat atLeast0LessThan)
  have "\<exists>v. bench_json flags scale spec n peak art = Inr v" for peak
    by (rule bench_json_total) (use assms(15,16) in \<open>simp_all add: sum ms(2)\<close>)
  then obtain v where v: "\<And>peak. bench_json flags scale spec n peak art = Inr (v peak)" by metis
  obtain js where js: "\<And>v. to_string_pretty v = Inr (js v)" using assms(12) by metis
  define R where "R = bench_main F D E h cfg oc keccak to_string_pretty fs flags ru args"
  have main: "R = (case crash (case rss_kb args of Some kb \<Rightarrow> mul_checked oc kb 1024 | None \<Rightarrow> Inr (peak_rss_bytes flags ru)) of
           Inl e \<Rightarrow> (Inl e, []) | Inr peak \<Rightarrow> (Inr (), [(join_path rootdir ''results/prover.json'', js (v peak))]))"
    by (simp add: R_def bench_main_def scale spec(1) p v n(2) io_result_def assms(9,11) assms(10)[unfolded join_path_def, simplified] Let_def join_path_def pretty_print_def js split: sum.splits)
  have kb: "2 ^ 64 \<le> unat kb * unat (1024 :: 64 word) \<longleftrightarrow> 2 ^ 54 \<le> unat kb" for kb :: "64 word" by simp
  show ?thesis
    unfolding R_def[symmetric] using fold_average_bounds[of n "\<Sum>i<n. step_ms h i"]
    by (intro exI[of _ art]) (cases "rss_kb args"; simp add: main mul_checked_def crash_def kb n(1) ms(1) scale v)
qed

theorem bench_reports_witness:
  "bench_main (toy_folding toy_config) toy_decider toy_evm toy_host toy_config True toy_digest (\<lambda>_. Inr ''json'')
      toy_io \<lparr>full_bench = False, light_test = True, macos = False, platform = ''linux''\<rparr> 4096
      \<lparr>bench_scale = Some ''small'', bench_epoch = 1, bench_pad_steps = Some 12, rss_kb = Some (2 ^ 60)\<rparr> = (Inl (Crash Panic), [])"
proof -
  let ?a = "\<lparr>bench_scale = Some ''small'', bench_epoch = 1, bench_pad_steps = Some 12, rss_kb = Some (2 ^ 60)\<rparr>"
  let ?s = "with_pad_to_steps (Some 12) spec_small"
  have spec: "bench_spec (the (bench_scale ?a)) (bench_pad_steps ?a) = Inr ?s" "bench_scale ?a \<noteq> None"
    by (simp_all add: bench_spec_def)
  have io: "repo_root toy_io = Inr ''repo''" "dir_error toy_io (join_path ''repo'' ''results'') = None" "\<And>f. write_error toy_io f = None"
    by (simp_all add: toy_io_def)
  have f: "funded ?s" using scale_spec_funded[OF toy_spec(1)] by blast
  obtain wl where wl: "build True toy_digest toy_config ?s (bench_epoch ?a) = Inr wl" "workload_ok toy_config ?s wl"
    using build_result[OF toy_config_wf(1) f toy_spec(2,3)] by blast
  have "length (wl_batches wl) = 12" using wl(2) by (simp add: workload_ok_def with_pad_to_steps_def)
  then have n: "12 = length (wl_batches wl)" ..
  have ms: "(\<Sum>i<12. step_ms toy_host i) < 2 ^ 64" "prove_ms toy_host < 2 ^ 64" by (simp_all add: toy_host_def)
  have kb: "2 ^ 54 \<le> unat (2 ^ 60 :: 64 word)" by simp
  show ?thesis
    using bench_reports[OF toy_config_wf(1) spec toy_spec(2,3) toy_folding_complete toy_decider_complete toy_evm_agrees io _ wl(1) n ms,
        where to_string_pretty = "\<lambda>_. Inr ''json''", OF exI, OF refl] kb by auto
qed

section \<open>A verified epoch\<close>

text \<open>What a run of the circuit does to a ledger.\<close>

lemma circuit_run_ledger:
  fixes L :: ledger
  assumes "config_wf cfg" "circuit_run cfg n [rt, 0, 0] z"
    and "commits \<lparr>config = cfg\<rparr> DEPTH t L" "balances_ok L" "root t = Inr rt"
    and "fold_nets fr_field \<lparr>config = cfg\<rparr> payouts 0 = Inr (z ! 2)"
  shows "\<exists>os. length z = 3 \<and> length os = n * BATCH
    \<and> (case follow_ops \<lparr>config = cfg\<rparr> os (t, L) of Inl b \<Rightarrow> is_break \<lparr>config = cfg\<rparr> b
        | Inr (t', L') \<Rightarrow> commits \<lparr>config = cfg\<rparr> DEPTH t' L' \<and> balances_ok L' \<and> root t' = Inr (z ! 0)
            \<and> ledger_run L os L' \<and> (\<forall>token. total_supply token L' = total_supply token L))
    \<and> (case nets_break_of \<lparr>config = cfg\<rparr> (rev payouts) (rev (batch_nets os)) of
          None \<Rightarrow> payouts = batch_nets os | Some b \<Rightarrow> is_nets_break \<lparr>config = cfg\<rparr> b)"
proof -
  obtain os a b c where os: "z = [a, b, c]" "length os = n * BATCH" "list_all (op_shape DEPTH) os"
      and s: "step_check \<lparr>config = cfg\<rparr> os (rt, 0, 0) = Inr (a, b, c)"
    using circuit_run_check[OF assms(2) refl] by blast
  have t: "tree_wf fr_field t" "depth t = DEPTH" using assms(3) by (simp_all add: commits_def)
  have rt: "rt = node_val t DEPTH 0" using assms(5) t by (simp add: root_eq)
  have "follows \<lparr>config = cfg\<rparr> DEPTH a (\<lambda>L'. ledger_run L os L') (follow_ops \<lparr>config = cfg\<rparr> os (t, L))"
    by (rule step_refines_run[OF assms(3,4) _ os(3)]) (use assms(1) s rt in simp_all)
  then have "case follow_ops \<lparr>config = cfg\<rparr> os (t, L) of Inl b \<Rightarrow> is_break \<lparr>config = cfg\<rparr> b
      | Inr (t', L') \<Rightarrow> commits \<lparr>config = cfg\<rparr> DEPTH t' L' \<and> balances_ok L' \<and> root t' = Inr (z ! 0)
          \<and> ledger_run L os L' \<and> (\<forall>token. total_supply token L' = total_supply token L)"
    using ledger_run_supply by (auto simp: follows_def commits_def root_eq os(1) split: sum.splits)
  moreover have "fold_nets fr_field \<lparr>config = cfg\<rparr> payouts 0 = Inr c" using assms(6) os(1) by simp
  then have "case nets_break_of \<lparr>config = cfg\<rparr> (rev payouts) (rev (batch_nets os)) of
      None \<Rightarrow> payouts = batch_nets os | Some b \<Rightarrow> is_nets_break \<lparr>config = cfg\<rparr> b"
    using nets_break_sound[of "\<lparr>config = cfg\<rparr>" "rev payouts" c "rev (batch_nets os)"] step_check_nets[OF s]
    by (auto split: option.splits)
  ultimately show ?thesis using os(1,2) by (intro exI[of _ os]) simp
qed

text \<open>
  C3. A verified epoch is a run of the ledger.  Let a knowledge-sound decider accept an epoch that
  starts from the root of a tree committing to a ledger, with empty accumulators, and let payouts fold
  to the accumulator it ends in.  Then there are operations, a batch for each of the \<open>n\<close> steps, such that following them
  either computes a break of the hash or ends in a tree with the accepted root, committing to the ledger they
  lead to by valid transfers, with every token's supply as before; and either comparing the payouts with their withdrawals
  computes a break, or they are the same, in order.
\<close>

theorem verified_epoch_is_ledger_run:
  fixes L :: ledger
  assumes "config_wf cfg" "ivc_sound D cfg"
    and "decider_preprocess D r (np, state_len (ledger_circuit_new cfg)) = Inr (dp, dv)"
    and "decider_verify D dv i [rt, 0, 0] z U u pf = Inr True"
    and "commits \<lparr>config = cfg\<rparr> DEPTH t L" "balances_ok L" "root t = Inr rt"
    and "fold_nets fr_field \<lparr>config = cfg\<rparr> payouts 0 = Inr (z ! 2)"
  shows "\<exists>n os. i = of_nat n \<and> length os = n * BATCH
    \<and> (case follow_ops \<lparr>config = cfg\<rparr> os (t, L) of Inl b \<Rightarrow> is_break \<lparr>config = cfg\<rparr> b
        | Inr (t', L') \<Rightarrow> commits \<lparr>config = cfg\<rparr> DEPTH t' L' \<and> balances_ok L' \<and> root t' = Inr (z ! 0)
            \<and> ledger_run L os L' \<and> (\<forall>token. total_supply token L' = total_supply token L))
    \<and> (case nets_break_of \<lparr>config = cfg\<rparr> (rev payouts) (rev (batch_nets os)) of
          None \<Rightarrow> payouts = batch_nets os | Some b \<Rightarrow> is_nets_break \<lparr>config = cfg\<rparr> b)"
proof -
  obtain n where n: "i = of_nat n" "circuit_run cfg n [rt, 0, 0] z"
    using assms(2-4) unfolding ivc_sound_def by blast
  show ?thesis using circuit_run_ledger[OF assms(1) n(2) assms(5-8)] n(1) by blast
qed

text \<open>A decider whose proofs are the batches themselves and whose verification checks them all.\<close>

definition replay_accepts :: "fr poseidon_config \<Rightarrow> fr op_witness epoch_step_input list \<Rightarrow> fr list \<Rightarrow> fr list \<Rightarrow> bool" where
  "replay_accepts cfg batches z0 z \<longleftrightarrow> length z0 = 3
     \<and> list_all (\<lambda>b. length (ops b) = BATCH \<and> list_all (op_shape DEPTH) (ops b)) batches
     \<and> epoch_check \<lparr>config = cfg\<rparr> batches (z0 ! 0, z0 ! 1, z0 ! 2) = Inr (z ! 0, z ! 1, z ! 2) \<and> length z = 3"

definition replay_decider ::
  "fr poseidon_config \<Rightarrow> (unit, unit, nat \<times> fr list \<times> fr list, unit, unit, unit, unit, fr op_witness epoch_step_input list, unit) decider_api" where
  "replay_decider cfg = \<lparr>decider_preprocess = (\<lambda>_ _. Inr ((), ())), decider_prove = (\<lambda>_ _ _. Inl ''not a prover''),
     decider_verify = (\<lambda>_ i z0 z _ _ batches. Inr (i = of_nat (length batches) \<and> replay_accepts cfg batches z0 z)),
     prepare_calldata = (\<lambda>_ _ _ _ _ _. Inr []), verifier_key = (\<lambda>_. ()), decider_template = (\<lambda>_. []),
     get_formatted_calldata = (\<lambda>_. [])\<rparr>"

lemma circuit_run_batches:
  assumes "epoch_check \<lparr>config = cfg\<rparr> batches (a, b, c) = Inr (a', b', c')"
    and "list_all (\<lambda>b. length (ops b) = BATCH \<and> list_all (op_shape DEPTH) (ops b)) batches"
  shows "circuit_run cfg (length batches) [a, b, c] [a', b', c']"
  using assms
proof (induction batches arbitrary: a' b' c' rule: rev_induct)
  case Nil
  then show ?case using circuit_run.no_step by (simp add: epoch_check_def)
next
  case (snoc x xs)
  obtain a1 b1 c1 where xs: "epoch_check \<lparr>config = cfg\<rparr> xs (a, b, c) = Inr (a1, b1, c1)"
      and x: "step_check \<lparr>config = cfg\<rparr> (map field_op (ops x)) (a1, b1, c1) = Inr (a', b', c')"
    using snoc.prems(1) by (auto simp: epoch_check_append result_bind_Inr_iff) (auto simp: epoch_check_def result_bind_Inr_iff)
  have shape: "length (ops x) = BATCH" "list_all (op_shape DEPTH) (ops x)" using snoc.prems(2) by simp_all
  obtain y cs' where r: "synthesize_step (ledger_circuit_new cfg) BATCH DEPTH (Inr [a1, b1, c1]) (Inr x) cs_new = Inr (y, cs')"
      "honest cs'" "(case y of (z, ext, z') \<Rightarrow> \<lambda>cs'. list_all2 (fp_is cs') z [a1, b1, c1] \<and> list_all2 (op_is cs') (ops ext) (map field_op (ops x))
        \<and> list_all2 (fp_is cs') z' [a', b', c']) cs'"
    unfolding ledger_circuit_new_def by (rule completeE[OF step_completes_all[OF shape x] honest_new])
  obtain vs ext vs' where y: "y = (vs, ext, vs')" by (cases y)
  have vals: "list_all2 (fp_is cs') ys v \<Longrightarrow> map (fp_val (assign cs')) ys = v" for ys :: "fr fpvar list" and v
    by (induction ys v rule: list_all2_induct) (simp_all add: fp_isD)
  have "circuit_run cfg (length xs) [a, b, c] [a1, b1, c1]" using snoc.IH[OF xs] snoc.prems(2) by simp
  then have "circuit_run cfg (Suc (length xs)) [a, b, c] [a', b', c']"
    by (rule circuit_run.one_step[OF _ cs_wf_new r(1)[unfolded y]])
      (use r(2,3) y vals in \<open>auto simp: honest_models\<close>)
  then show ?case by simp
qed

lemma three_list: "length z = 3 \<Longrightarrow> z = [z ! 0, z ! 1, z ! 2]"
  by (auto simp: numeral_3_eq_3 numeral_2_eq_2 length_Suc_conv)

lemma replay_run:
  assumes "replay_accepts cfg batches z0 z"
  shows "circuit_run cfg (length batches) z0 z"
proof -
  have "circuit_run cfg (length batches) [z0 ! 0, z0 ! 1, z0 ! 2] [z ! 0, z ! 1, z ! 2]"
    by (rule circuit_run_batches) (use assms in \<open>simp_all add: replay_accepts_def\<close>)
  then show ?thesis using assms three_list[of z0] three_list[of z] by (simp add: replay_accepts_def)
qed

lemma replay_sound: "ivc_sound (replay_decider cfg) cfg"
  using replay_run by (auto simp: ivc_sound_def replay_decider_def)

theorem verified_epoch_is_ledger_run_witness:
  "\<exists>t L rt batches z payouts. commits \<lparr>config = toy_config\<rparr> DEPTH t L \<and> root t = Inr rt \<and> length batches = 1
     \<and> decider_verify (replay_decider toy_config) () 1 [rt, 0, 0] z () () batches = Inr True
     \<and> (\<exists>n os. (1::fr) = of_nat n \<and> length os = n * BATCH
        \<and> (case follow_ops \<lparr>config = toy_config\<rparr> os (t, L) of Inl b \<Rightarrow> is_break \<lparr>config = toy_config\<rparr> b
            | Inr (t', L') \<Rightarrow> commits \<lparr>config = toy_config\<rparr> DEPTH t' L' \<and> balances_ok L' \<and> root t' = Inr (z ! 0)
                \<and> ledger_run L os L' \<and> (\<forall>token. total_supply token L' = total_supply token L))
        \<and> (case nets_break_of \<lparr>config = toy_config\<rparr> (rev payouts) (rev (batch_nets os)) of
              None \<Rightarrow> payouts = batch_nets os | Some b \<Rightarrow> is_nets_break \<lparr>config = toy_config\<rparr> b))"
proof (rule genesis_simulates[OF toy_config_wf(1), of DEPTH toy_accounts True])
  fix e0 e L
  assume e: "exec_ok DEPTH e L" "exec_book e L = fold book_register toy_accounts Map.empty" "hasher e = \<lparr>config = toy_config\<rparr>"
    "ops_acc e = 0" "nets_acc e = 0"
  have bal: "balances_ok L"
    by (rule exec_balances_ok[OF e(1)])
      (auto simp: e(2) toy_accounts_def book_register_def VALUE_BITS_def split: if_splits)
  obtain ws e' where r: "chain_ok (hasher e) DEPTH ws e e'" "length ws = length toy_requests"
    using run_simulates[OF e(1), of toy_requests] toy_book_run[OF toy_book(1,2)] e(2) by metis
  have n: "length ws = 3" using r(2) by (simp add: toy_requests_def)
  have c: "commits \<lparr>config = toy_config\<rparr> DEPTH (tree e) L" using exec_okD(1)[OF e(1)] e(3) by simp
  let ?rt = "node_val (tree e) DEPTH 0" and ?bs = "chunk_into_batches ws"
  have rt: "root (tree e) = Inr ?rt" using c by (auto simp: commits_def root_eq)
  have ws: "list_all (op_shape DEPTH) ws" "step_check \<lparr>config = toy_config\<rparr> (map field_op ws) (?rt, 0, 0)
      = Inr (node_val (tree e') DEPTH 0, ops_acc e', nets_acc e')"
    using r(1) e(3-5) by (simp_all add: chain_ok_def step_check_def)
  let ?z = "[node_val (tree e') DEPTH 0, ops_acc e', nets_acc e']"
  have bs: "length ?bs = 1" by (simp add: length_chunk n BATCH_def)
  have "replay_accepts toy_config ?bs [?rt, 0, 0] ?z"
    using ws(2) chunk_lengths chunk_shape[OF ws(1)] epoch_check_chunk[OF toy_config_wf(1)]
    by (auto simp: replay_accepts_def list_all_iff)
  then have v: "decider_verify (replay_decider toy_config) () 1 [?rt, 0, 0] ?z () () ?bs = Inr True"
    using bs by (simp add: replay_decider_def)
  have p: "decider_preprocess (replay_decider toy_config) () ((), state_len (ledger_circuit_new toy_config)) = Inr ((), ())"
    by (simp add: replay_decider_def)
  have f: "fold_nets fr_field \<lparr>config = toy_config\<rparr> (batch_nets (map field_op ws)) 0 = Inr (?z ! 2)"
    using step_check_nets[OF ws(2)] by simp
  note R = verified_epoch_is_ledger_run[OF toy_config_wf(1) replay_sound p v c bal rt f]
  show ?thesis
    by (rule exI[of _ "tree e"], rule exI[of _ L], rule exI[of _ ?rt], rule exI[of _ ?bs], rule exI[of _ ?z],
        rule exI[of _ "batch_nets (map field_op ws)"]) (intro conjI c rt bs v R)
qed (simp_all add: toy_accounts_def DEPTH_def)

end
