(* ===== verification/Checkpoint.thy ===== *)
theory Checkpoint
  imports Epoch_Proof
begin

text \<open>
  The settlement contract (contracts/src/ProvenCheckpoint.sol): its storage, one function for each
  external function, and transactions.  A function returns the storage after it, or the error it reverts with, which
  leaves the storage as it was.  Unwritten storage is zero; arithmetic is checked, as in Solidity 0.8.
  The Poseidon library is the one the generator emits; Keccak-256, \<^verbatim>\<open>ecrecover\<close> and the verifier contract are
  arguments.  Events are not modelled.
\<close>

section \<open>Storage\<close>

type_synonym address = "160 word"

datatype epoch_status = NONE | PROVEN | UNPROVEN

datatype sol_error =
    BadAuth | BadNonce | Exists | NotGovernance | DeciderUnset | AlreadyInitialized | NoPendingUpgrade
  | TimelockNotElapsed | NetsAccMismatch | ProofRejected | TimeoutNotElapsed | CatchupExceeded | LengthMismatch
  | AlreadyProven | Frozen | AlreadyExited | InclusionFailed
  | Arithmetic
  | Malformed

record checkpoint =
  transfersRoot :: "uint256 \<Rightarrow> uint256"
  orgOf :: "uint256 \<Rightarrow> address"
  orgNonce :: "uint256 \<Rightarrow> uint256"
  balanceOf :: "uint256 \<Rightarrow> address \<Rightarrow> uint256"
  stateRoot :: "uint256 \<Rightarrow> uint256"
  epochStatus :: "uint256 \<Rightarrow> epoch_status"
  epochClosedAt :: "uint256 \<Rightarrow> uint256"
  novaDecider :: address
  ppHash :: uint256
  governance :: address
  pendingDecider :: address
  pendingPpHash :: uint256
  deciderEta :: uint256
  lastProvenRoot :: uint256
  lastProvenEpoch :: uint256
  unprovenStreak :: uint256
  verifierFrozen :: bool
  exited :: "uint256 \<Rightarrow> bool"
  exitDataRequestedAt :: "uint256 \<Rightarrow> uint256"
  exitDataServed :: "uint256 \<Rightarrow> bool"

text \<open>The block and message a transaction runs in, and the external code the contract calls.\<close>

record call_env =
  msg_sender :: address
  block_timestamp :: uint256
  chain_id :: uint256
  this_address :: address

record chain =
  keccak256 :: digest
  ecrecover :: "uint256 \<Rightarrow> 8 word \<Rightarrow> uint256 \<Rightarrow> uint256 \<Rightarrow> address"
  verify_opaque :: "address \<Rightarrow> uint256 \<Rightarrow> uint256 list \<Rightarrow> uint256 list \<Rightarrow> uint256 list \<Rightarrow> bool option"

definition require :: "bool \<Rightarrow> sol_error \<Rightarrow> sol_error + unit" where
  "require b e = (if b then Inr () else Inl e)"

definition sol_add :: "'a::len word \<Rightarrow> 'a word \<Rightarrow> sol_error + 'a word" where
  "sol_add a b = (if unat a + unat b < 2 ^ LENGTH('a) then Inr (a + b) else Inl Arithmetic)"

text \<open>Bytes: the big-endian form of a word, a word from its bytes, and packed arrays, whose elements take 32 bytes.\<close>

definition be_bytes :: "nat \<Rightarrow> 'a::len word \<Rightarrow> 8 word list" where
  "be_bytes n w = map (\<lambda>i. ucast (drop_bit (8 * i) w)) (rev [0..<n])"

definition be_word :: "8 word list \<Rightarrow> uint256" where
  "be_word bytes = of_nat (bytes_value (rev bytes))"

definition packed_array :: "'a::len word list \<Rightarrow> 8 word list" where
  "packed_array xs = concat (map (\<lambda>x. be_bytes 32 (ucast x :: uint256)) xs)"

section \<open>Constants and construction\<close>

definition TAG_SETTLE_V :: "8 word" where
  "TAG_SETTLE_V = 40"

definition TAG_SETTLE :: "8 word" where
  "TAG_SETTLE = 30"

definition PROVER_TIMEOUT :: uint256 where
  "PROVER_TIMEOUT = 6 * 3600"

definition CATCHUP_EPOCHS :: uint256 where
  "CATCHUP_EPOCHS = 3"

definition DECIDER_TIMELOCK :: uint256 where
  "DECIDER_TIMELOCK = 2 * 86400"

definition EXIT_DATA_WINDOW :: uint256 where
  "EXIT_DATA_WINDOW = 86400"

definition construct :: "address \<Rightarrow> uint256 \<Rightarrow> checkpoint" where
  "construct gov genesisRoot = \<lparr>transfersRoot = (\<lambda>_. 0), orgOf = (\<lambda>_. 0), orgNonce = (\<lambda>_. 0), balanceOf = (\<lambda>_ _. 0),
     stateRoot = (\<lambda>_. 0)(0 := genesisRoot), epochStatus = (\<lambda>_. NONE)(0 := PROVEN), epochClosedAt = (\<lambda>_. 0),
     novaDecider = 0, ppHash = 0, governance = gov, pendingDecider = 0, pendingPpHash = 0, deciderEta = 0,
     lastProvenRoot = genesisRoot, lastProvenEpoch = 0, unprovenStreak = 0, verifierFrozen = False,
     exited = (\<lambda>_. False), exitDataRequestedAt = (\<lambda>_. 0), exitDataServed = (\<lambda>_. False)\<rparr>"

section \<open>Governance\<close>

definition createToken :: "uint256 \<Rightarrow> address \<Rightarrow> checkpoint \<Rightarrow> sol_error + checkpoint" where
  "createToken tokenId org st =
     result_bind (require (orgOf st tokenId = 0) Exists) (\<lambda>_. Inr (st\<lparr>orgOf := (orgOf st)(tokenId := org)\<rparr>))"

definition onlyGovernance :: "call_env \<Rightarrow> checkpoint \<Rightarrow> sol_error + unit" where
  "onlyGovernance env st = require (msg_sender env = governance st) NotGovernance"

definition initializeDecider :: "call_env \<Rightarrow> address \<Rightarrow> uint256 \<Rightarrow> checkpoint \<Rightarrow> sol_error + checkpoint" where
  "initializeDecider env decider pp st =
     result_bind (onlyGovernance env st) (\<lambda>_.
     result_bind (require (novaDecider st = 0) AlreadyInitialized) (\<lambda>_.
     Inr (st\<lparr>novaDecider := decider, ppHash := pp\<rparr>)))"

definition proposeDeciderUpgrade :: "call_env \<Rightarrow> address \<Rightarrow> uint256 \<Rightarrow> checkpoint \<Rightarrow> sol_error + checkpoint" where
  "proposeDeciderUpgrade env decider pp st =
     result_bind (onlyGovernance env st) (\<lambda>_.
     result_bind (require (\<not> verifierFrozen st) Frozen) (\<lambda>_.
     result_bind (sol_add (block_timestamp env) DECIDER_TIMELOCK) (\<lambda>eta.
     Inr (st\<lparr>pendingDecider := decider, pendingPpHash := pp, deciderEta := eta\<rparr>))))"

definition executeDeciderUpgrade :: "call_env \<Rightarrow> checkpoint \<Rightarrow> sol_error + checkpoint" where
  "executeDeciderUpgrade env st =
     result_bind (onlyGovernance env st) (\<lambda>_.
     result_bind (require (\<not> verifierFrozen st) Frozen) (\<lambda>_.
     result_bind (require (deciderEta st \<noteq> 0) NoPendingUpgrade) (\<lambda>_.
     result_bind (require (deciderEta st \<le> block_timestamp env) TimelockNotElapsed) (\<lambda>_.
     Inr (st\<lparr>novaDecider := pendingDecider st, ppHash := pendingPpHash st, pendingDecider := 0, pendingPpHash := 0,
       deciderEta := 0\<rparr>)))))"

definition freezeVerifier :: "call_env \<Rightarrow> checkpoint \<Rightarrow> sol_error + checkpoint" where
  "freezeVerifier env st = result_bind (onlyGovernance env st) (\<lambda>_. Inr (st\<lparr>verifierFrozen := True\<rparr>))"

definition markEpochClosed :: "call_env \<Rightarrow> uint256 \<Rightarrow> checkpoint \<Rightarrow> sol_error + checkpoint" where
  "markEpochClosed env epoch st = Inr (if epochClosedAt st epoch = 0
     then st\<lparr>epochClosedAt := (epochClosedAt st)(epoch := block_timestamp env)\<rparr> else st)"

section \<open>Helpers\<close>

text \<open>
  The signature is \<^verbatim>\<open>r\<close>, \<^verbatim>\<open>s\<close> and \<^verbatim>\<open>v\<close>; slicing or indexing a shorter one reverts.  The next nonce is
  computed in 32 bits.
\<close>

definition auth :: "chain \<Rightarrow> uint256 \<Rightarrow> 32 word \<Rightarrow> 8 word list \<Rightarrow> 8 word list \<Rightarrow> checkpoint \<Rightarrow> sol_error + checkpoint" where
  "auth X tokenId n message sig st =
     result_bind (require (ucast n = orgNonce st tokenId) BadNonce) (\<lambda>_.
     result_bind (sol_add n 1) (\<lambda>next.
     let st = st\<lparr>orgNonce := (orgNonce st)(tokenId := ucast next)\<rparr> in
     result_bind (require (64 < length sig) Malformed) (\<lambda>_.
     let r = be_word (take 32 sig); s = be_word (take 32 (drop 32 sig)) in
     result_bind (require (ecrecover X (be_word (keccak256 X message)) (sig ! 64) r s = orgOf st tokenId) BadAuth) (\<lambda>_.
     Inr st))))"

definition fieldKey :: "chain \<Rightarrow> address \<Rightarrow> uint256 \<Rightarrow> uint256" where
  "fieldKey X a tokenId = of_nat (contract_field_key (keccak256 X) (be_bytes 20 a) (ucast tokenId))"

text \<open>The credits of a settlement: \<^verbatim>\<open>bal[tos[i]] += amounts[i]\<close>.\<close>

fun credit_all :: "uint256 \<Rightarrow> (address \<times> 96 word) list \<Rightarrow> checkpoint \<Rightarrow> sol_error + checkpoint" where
  "credit_all tokenId [] st = Inr st"
| "credit_all tokenId ((to, amt) # rest) st =
     result_bind (sol_add (balanceOf st tokenId to) (ucast amt)) (\<lambda>b.
     credit_all tokenId rest (st\<lparr>balanceOf := (balanceOf st)(tokenId := (balanceOf st tokenId)(to := b))\<rparr>))"

section \<open>The escape hatch\<close>

definition exit_node :: "solidity_lib \<Rightarrow> (uint256 \<times> bool) list \<Rightarrow> uint256 \<Rightarrow> uint256" where
  "exit_node lib path h = fold (\<lambda>(s, r) h. if r then hash2 lib s h else hash2 lib h s) path h"

definition exit_account ::
  "chain \<Rightarrow> solidity_lib \<Rightarrow> call_env \<Rightarrow> uint256 \<Rightarrow> 96 word \<Rightarrow> 64 word \<Rightarrow> uint256 list \<Rightarrow> bool list
   \<Rightarrow> checkpoint \<Rightarrow> sol_error + checkpoint" where
  "exit_account X lib env tokenId bal n sibs isRight st =
     result_bind (require (length sibs = 22 \<and> length isRight = 22) Malformed) (\<lambda>_.
     let key = fieldKey X (msg_sender env) tokenId;
         opened = exit_node lib (zip sibs isRight) (hash4 lib key tokenId (ucast bal) (ucast n)) in
     result_bind (require (opened = lastProvenRoot st) InclusionFailed) (\<lambda>_.
     let nk = be_word (keccak256 X (be_bytes 32 tokenId @ be_bytes 32 key)) in
     result_bind (require (\<not> exited st nk) AlreadyExited) (\<lambda>_.
     let st = st\<lparr>exited := (exited st)(nk := True)\<rparr> in
     result_bind (sol_add (balanceOf st tokenId (msg_sender env)) (ucast bal)) (\<lambda>b.
     Inr (st\<lparr>balanceOf := (balanceOf st)(tokenId := (balanceOf st tokenId)(msg_sender env := b))\<rparr>)))))"

definition requestExitData :: "call_env \<Rightarrow> uint256 \<Rightarrow> checkpoint \<Rightarrow> sol_error + checkpoint" where
  "requestExitData env epoch st = Inr (if exitDataRequestedAt st epoch = 0
     then st\<lparr>exitDataRequestedAt := (exitDataRequestedAt st)(epoch := block_timestamp env)\<rparr> else st)"

definition answerExitData :: "call_env \<Rightarrow> uint256 \<Rightarrow> checkpoint \<Rightarrow> sol_error + checkpoint" where
  "answerExitData env epoch st =
     result_bind (onlyGovernance env st) (\<lambda>_. Inr (st\<lparr>exitDataServed := (exitDataServed st)(epoch := True)\<rparr>))"

definition exitDataOverdue :: "call_env \<Rightarrow> uint256 \<Rightarrow> checkpoint \<Rightarrow> sol_error + bool" where
  "exitDataOverdue env epoch st =
    (let t = exitDataRequestedAt st epoch in
     if t \<noteq> 0 \<and> \<not> exitDataServed st epoch
     then result_bind (sol_add t EXIT_DATA_WINDOW) (\<lambda>d. Inr (d \<le> block_timestamp env)) else Inr False)"

section \<open>Settlement\<close>

definition proven_message ::
  "chain \<Rightarrow> call_env \<Rightarrow> uint256 \<Rightarrow> uint256 \<Rightarrow> uint256 list \<Rightarrow> uint256 \<Rightarrow> address list \<Rightarrow> 96 word list \<Rightarrow> uint256 \<Rightarrow> 32 word
   \<Rightarrow> 8 word list" where
  "proven_message X env epoch transfers zi tokenId tos amounts steps n =
     be_bytes 32 (chain_id env) @ be_bytes 20 (this_address env) @ be_bytes 1 TAG_SETTLE_V @ be_bytes 32 epoch
     @ be_bytes 32 transfers @ be_bytes 32 (zi ! 0) @ be_bytes 32 (zi ! 1) @ be_bytes 32 (zi ! 2)
     @ be_bytes 4 (ucast tokenId :: 32 word) @ keccak256 X (packed_array tos) @ keccak256 X (packed_array amounts)
     @ be_bytes 32 steps @ be_bytes 4 n"

definition withdrawals_acc :: "chain \<Rightarrow> solidity_lib \<Rightarrow> uint256 \<Rightarrow> (address \<times> 96 word) list \<Rightarrow> uint256" where
  "withdrawals_acc X lib tokenId payouts =
     fold (\<lambda>(to, amt) acc. foldNet lib acc (fieldKey X to tokenId) tokenId (ucast amt)) payouts 0"

definition settleEpochProven ::
  "chain \<Rightarrow> solidity_lib \<Rightarrow> call_env \<Rightarrow> uint256 \<Rightarrow> uint256 \<Rightarrow> uint256 list \<Rightarrow> uint256 \<Rightarrow> address list \<Rightarrow> 96 word list
   \<Rightarrow> 32 word \<Rightarrow> 8 word list \<Rightarrow> uint256 \<Rightarrow> uint256 list \<Rightarrow> checkpoint \<Rightarrow> sol_error + checkpoint" where
  "settleEpochProven X lib env epoch transfers zi tokenId tos amounts n sig steps prf st =
     result_bind (require (length zi = 3 \<and> length prf = 25) Malformed) (\<lambda>_.
     result_bind (require (length tos = length amounts) LengthMismatch) (\<lambda>_.
     result_bind (require (novaDecider st \<noteq> 0) DeciderUnset) (\<lambda>_.
     result_bind (require (epochStatus st epoch \<noteq> PROVEN) AlreadyProven) (\<lambda>_.
     result_bind (auth X tokenId n (proven_message X env epoch transfers zi tokenId tos amounts steps n) sig st) (\<lambda>st.
     result_bind (require (withdrawals_acc X lib tokenId (zip tos amounts) = zi ! 2) NetsAccMismatch) (\<lambda>_.
     result_bind (require (verify_opaque X (novaDecider st) steps [lastProvenRoot st, 0, 0] zi prf = Some True) ProofRejected) (\<lambda>_.
     let st = st\<lparr>transfersRoot := (transfersRoot st)(epoch := transfers), stateRoot := (stateRoot st)(epoch := zi ! 0),
       epochStatus := (epochStatus st)(epoch := PROVEN), lastProvenRoot := zi ! 0, lastProvenEpoch := epoch,
       unprovenStreak := 0\<rparr> in
     credit_all tokenId (zip tos amounts) st)))))))"

definition unproven_message ::
  "chain \<Rightarrow> call_env \<Rightarrow> uint256 \<Rightarrow> uint256 \<Rightarrow> uint256 \<Rightarrow> address list \<Rightarrow> 96 word list \<Rightarrow> 32 word \<Rightarrow> 8 word list" where
  "unproven_message X env epoch transfers tokenId tos amounts n =
     be_bytes 32 (chain_id env) @ be_bytes 20 (this_address env) @ be_bytes 1 TAG_SETTLE @ be_bytes 32 epoch
     @ be_bytes 32 transfers @ be_bytes 4 (ucast tokenId :: 32 word)
     @ keccak256 X (packed_array tos) @ keccak256 X (packed_array amounts) @ be_bytes 4 n"

definition settleEpoch ::
  "chain \<Rightarrow> call_env \<Rightarrow> uint256 \<Rightarrow> uint256 \<Rightarrow> uint256 \<Rightarrow> address list \<Rightarrow> 96 word list \<Rightarrow> 32 word \<Rightarrow> 8 word list
   \<Rightarrow> checkpoint \<Rightarrow> sol_error + checkpoint" where
  "settleEpoch X env epoch transfers tokenId tos amounts n sig st =
     result_bind (require (length tos = length amounts) LengthMismatch) (\<lambda>_.
     result_bind (require (epochStatus st epoch \<noteq> PROVEN) AlreadyProven) (\<lambda>_.
     let closedAt = epochClosedAt st epoch in
     result_bind (require (closedAt \<noteq> 0) TimeoutNotElapsed) (\<lambda>_.
     result_bind (sol_add closedAt PROVER_TIMEOUT) (\<lambda>deadline.
     result_bind (require (deadline \<le> block_timestamp env) TimeoutNotElapsed) (\<lambda>_.
     result_bind (sol_add (unprovenStreak st) 1) (\<lambda>streak.
     result_bind (require (streak \<le> CATCHUP_EPOCHS) CatchupExceeded) (\<lambda>_.
     result_bind (auth X tokenId n (unproven_message X env epoch transfers tokenId tos amounts n) sig st) (\<lambda>st.
     let st = st\<lparr>transfersRoot := (transfersRoot st)(epoch := transfers),
       epochStatus := (epochStatus st)(epoch := UNPROVEN), unprovenStreak := streak\<rparr> in
     credit_all tokenId (zip tos amounts) st))))))))"

section \<open>Transactions\<close>

datatype tx =
    CreateToken uint256 address
  | InitializeDecider address uint256
  | ProposeDeciderUpgrade address uint256
  | ExecuteDeciderUpgrade
  | FreezeVerifier
  | MarkEpochClosed uint256
  | Exit uint256 "96 word" "64 word" "uint256 list" "bool list"
  | RequestExitData uint256
  | AnswerExitData uint256
  | SettleEpochProven uint256 uint256 "uint256 list" uint256 "address list" "96 word list" "32 word" "8 word list" uint256 "uint256 list"
  | SettleEpoch uint256 uint256 uint256 "address list" "96 word list" "32 word" "8 word list"

fun exec_tx :: "chain \<Rightarrow> solidity_lib \<Rightarrow> call_env \<Rightarrow> tx \<Rightarrow> checkpoint \<Rightarrow> sol_error + checkpoint" where
  "exec_tx X lib env (CreateToken tokenId org) st = createToken tokenId org st"
| "exec_tx X lib env (InitializeDecider d pp) st = initializeDecider env d pp st"
| "exec_tx X lib env (ProposeDeciderUpgrade d pp) st = proposeDeciderUpgrade env d pp st"
| "exec_tx X lib env ExecuteDeciderUpgrade st = executeDeciderUpgrade env st"
| "exec_tx X lib env FreezeVerifier st = freezeVerifier env st"
| "exec_tx X lib env (MarkEpochClosed epoch) st = markEpochClosed env epoch st"
| "exec_tx X lib env (Exit tokenId bal n sibs isRight) st = exit_account X lib env tokenId bal n sibs isRight st"
| "exec_tx X lib env (RequestExitData epoch) st = requestExitData env epoch st"
| "exec_tx X lib env (AnswerExitData epoch) st = answerExitData env epoch st"
| "exec_tx X lib env (SettleEpochProven epoch transfers zi tokenId tos amounts n sig steps prf) st =
     settleEpochProven X lib env epoch transfers zi tokenId tos amounts n sig steps prf st"
| "exec_tx X lib env (SettleEpoch epoch transfers tokenId tos amounts n sig) st =
     settleEpoch X env epoch transfers tokenId tos amounts n sig st"

text \<open>The storages a sequence of successful transactions leads to.\<close>

inductive leads :: "chain \<Rightarrow> solidity_lib \<Rightarrow> checkpoint \<Rightarrow> checkpoint \<Rightarrow> bool" for X :: chain and lib :: solidity_lib where
  leads_refl: "leads X lib st st"
| leads_step: "leads X lib st st' \<Longrightarrow> exec_tx X lib env tx st' = Inr st'' \<Longrightarrow> leads X lib st st''"

text \<open>The same with the transactions that led there, and which of them settle an epoch with and without a proof.\<close>

inductive leads_by :: "chain \<Rightarrow> solidity_lib \<Rightarrow> checkpoint \<Rightarrow> tx list \<Rightarrow> checkpoint \<Rightarrow> bool" for X :: chain and lib :: solidity_lib where
  leads_by_refl: "leads_by X lib st [] st"
| leads_by_step: "leads_by X lib st txs st' \<Longrightarrow> exec_tx X lib env tx st' = Inr st'' \<Longrightarrow> leads_by X lib st (txs @ [tx]) st''"

fun settles_proven :: "tx \<Rightarrow> bool" where
  "settles_proven (SettleEpochProven _ _ _ _ _ _ _ _ _ _) = True"
| "settles_proven _ = False"

fun settles_unproven :: "tx \<Rightarrow> bool" where
  "settles_unproven (SettleEpoch _ _ _ _ _ _ _) = True"
| "settles_unproven _ = False"

end
