(* ===== verification/Epoch_Safety.thy ===== *)
theory Epoch_Safety
  imports Settlement
begin

text \<open>
  What an epoch cannot do, stated of the code that runs it: the executor neither creates nor destroys a token, and the
  satisfied step circuits of an epoch, whoever chose their witnesses, use no nonce of an account twice.
\<close>

section \<open>What the executor holds\<close>

text \<open>The balances the executor records for the keys of a group, added up.\<close>

definition held :: "8 word list set \<Rightarrow> 'f executor \<Rightarrow> nat" where
  "held K e = (\<Sum>k\<in>dom (balances e) \<inter> K. unat (the (balances e k)))"

lemma sum_upd:
  assumes "finite A" "k \<in> A"
  shows "(\<Sum>j\<in>A. g (the ((m(k \<mapsto> v)) j))) + g (the (m k)) = (\<Sum>j\<in>A. g (the (m j))) + (g v :: nat)"
proof -
  have "(\<Sum>j\<in>A - {k}. g (the ((m(k \<mapsto> v)) j))) = (\<Sum>j\<in>A - {k}. g (the (m j)))" by (rule sum.cong) auto
  then show ?thesis using assms by (simp add: sum.remove)
qed

lemma held_upd:
  assumes "finite (dom m)" "m k = Some u"
  shows "(\<Sum>j\<in>dom m \<inter> K. unat (the ((m(k \<mapsto> v)) j))) + (if k \<in> K then unat u else 0)
     = (\<Sum>j\<in>dom m \<inter> K. unat (the (m j))) + (if k \<in> K then unat (v :: 'a::len word) else 0)"
proof (cases "k \<in> K")
  case True
  then show ?thesis using assms sum_upd[of "dom m \<inter> K" k unat m v] by auto
next
  case False
  then show ?thesis by (auto intro: sum.cong)
qed

lemma exec_apply_held:
  assumes run: "exec_apply oc pf D knd x y tok amt e = Inr (w, e')"
    and fin: "finite (dom (balances e))" and small: "held UNIV e < 2 ^ 128"
    and K: "repr pf x \<in> K \<longleftrightarrow> repr pf y \<in> K"
  shows "held K e' = held K e \<and> dom (balances e') = dom (balances e)"
proof -
  obtain b c where m: "balances e (repr pf x) = Some b" "amt \<le> b"
      "((balances e)(repr pf x \<mapsto> b - amt)) (repr pf y) = Some c"
      "balances e' = (balances e)(repr pf x \<mapsto> b - amt, repr pf y \<mapsto> c + amt)"
    using exec_apply_maps[OF run] by metis
  let ?m = "(balances e)(repr pf x \<mapsto> b - amt)"
  have dm: "dom ?m = dom (balances e)" using m(1) by auto
  have fm: "finite (dom ?m)" using fin by (simp add: dm)
  have d: "dom (balances e') = dom (balances e)" using m(3,4) dm by auto
  have sub: "unat (b - amt) + unat amt = unat b" using m(2) by (simp add: unat_sub word_le_nat_alt)
  have 1: "(\<Sum>j\<in>dom (balances e) \<inter> J. unat (the (?m j))) + (if repr pf x \<in> J then unat amt else 0) = held J e" for J
    using held_upd[OF fin m(1), where K = J and v = "b - amt"] sub by (auto simp: held_def split: if_splits)
  have "unat c + unat amt \<le> held UNIV e"
  proof -
    have "repr pf y \<in> dom (balances e)" using m(3) dm by auto
    then have "unat (the (?m (repr pf y))) \<le> (\<Sum>j\<in>dom (balances e). unat (the (?m j)))" by (rule member_le_sum[OF _ _ fin]) simp
    then show ?thesis using 1[of UNIV] m(3) by simp
  qed
  then have add: "unat (c + amt) = unat c + unat amt" using small by (simp add: unat_word_ariths)
  have "held K e' = (\<Sum>j\<in>dom (balances e) \<inter> K. unat (the (balances e' j)))" by (simp only: held_def d)
  then have "held K e' + (if repr pf y \<in> K then unat c else 0)
      = (\<Sum>j\<in>dom (balances e) \<inter> K. unat (the (?m j))) + (if repr pf y \<in> K then unat (c + amt) else 0)"
    using held_upd[OF fm m(3), where K = K and v = "c + amt"] by (simp only: m(4) dm)
  then have "held K e' = held K e" using 1[of K] add K by (simp split: if_splits)
  then show ?thesis using d by blast
qed

text \<open>No request of a list moves an amount between the keys of a group and the others.\<close>

definition stays_in :: "'f prime_field \<Rightarrow> 8 word list set \<Rightarrow> 'f request list \<Rightarrow> bool" where
  "stays_in pf K rs \<longleftrightarrow> list_all (\<lambda>(knd, x, y, tok, amt). repr pf x \<in> K \<longleftrightarrow> repr pf y \<in> K) rs"

lemma exec_run_held:
  assumes "exec_run oc pf D rs e = Inr (ws, e')" "finite (dom (balances e))" "held UNIV e < 2 ^ 128" "stays_in pf K rs"
  shows "held K e' = held K e"
  using assms
proof (induction rs arbitrary: e ws)
  case (Cons r rs)
  obtain knd x y tok amt where r: "r = (knd, x, y, tok, amt)" by (cases r) auto
  obtain w us e1 where 1: "exec_apply oc pf D knd x y tok amt e = Inr (w, e1)" "exec_run oc pf D rs e1 = Inr (us, e')"
    using Cons.prems(1) by (auto simp: r result_bind_Inr_iff)
  have K: "repr pf x \<in> K \<longleftrightarrow> repr pf y \<in> K" "stays_in pf K rs" using Cons.prems(4) by (simp_all add: stays_in_def r)
  note h = exec_apply_held[OF 1(1) Cons.prems(2,3)]
  have "held UNIV e1 = held UNIV e" "dom (balances e1) = dom (balances e)" using h[of UNIV] by simp_all
  then show ?case using Cons.IH[OF 1(2) _ _ K(2)] Cons.prems(2,3) h[OF K(1)] by simp
qed simp

lemma register_all_held:
  assumes "register_all oc pf D rs e = Inr e'" "finite (dom (balances e))"
    and "distinct (map (\<lambda>r. repr pf (fst r)) rs)" "(\<lambda>r. repr pf (fst r)) ` set rs \<inter> dom (balances e) = {}"
  shows "finite (dom (balances e'))
    \<and> held K e' = held K e + (\<Sum>(key, tok, b, n)\<leftarrow>rs. if repr pf key \<in> K then unat b else 0)"
  using assms
proof (induction rs arbitrary: e)
  case (Cons r rs)
  obtain key tok b n where r: "r = (key, tok, b, n)" by (cases r)
  obtain e1 where 1: "register oc pf D key tok b n e = Inr e1" "register_all oc pf D rs e1 = Inr e'"
    using Cons.prems(1) by (auto simp: r result_bind_Inr_iff)
  have m: "balances e1 = (balances e)(repr pf key \<mapsto> b)" by (rule register_maps(1)[OF 1(1)])
  have new: "repr pf key \<notin> dom (balances e)" using Cons.prems(4) by (auto simp: r)
  have fin: "finite (dom (balances e1))" using Cons.prems(2) by (simp add: m)
  have "(\<lambda>r. repr pf (fst r)) ` set rs \<inter> dom (balances e1) = {}" using Cons.prems(3,4) by (auto simp: m r image_iff)
  then have IH: "finite (dom (balances e'))"
      "held K e' = held K e1 + (\<Sum>(key, tok, b, n)\<leftarrow>rs. if repr pf key \<in> K then unat b else 0)"
    using Cons.IH[OF 1(2) fin] Cons.prems(3) by simp_all
  have "(\<Sum>j\<in>dom (balances e) \<inter> K. unat (the (balances e1 j))) = held K e"
    unfolding held_def m using new by (intro sum.cong) auto
  moreover have "dom (balances e1) \<inter> K = (if repr pf key \<in> K then insert (repr pf key) (dom (balances e) \<inter> K) else dom (balances e) \<inter> K)"
    by (auto simp: m)
  ultimately have "held K e1 = held K e + (if repr pf key \<in> K then unat b else 0)"
    using new Cons.prems(2) by (simp add: held_def m split: if_splits)
  then show ?case using IH by (simp add: r)
qed simp

section \<open>Runs of the circuit with their operations\<close>

text \<open>
  Satisfied step circuits, each from the state the last one left, and the operations their witnesses denote.
\<close>

inductive circuit_trace ::
  "fr poseidon_config \<Rightarrow> nat \<Rightarrow> nat \<Rightarrow> fr op_values list \<Rightarrow> fr list \<Rightarrow> fr list \<Rightarrow> bool"
  for cfg :: "fr poseidon_config" and B :: nat and D :: nat where
  trace_start: "circuit_trace cfg B D [] z z"
| trace_step: "circuit_trace cfg B D os z0 z \<Longrightarrow> cs_wf cs
    \<Longrightarrow> synthesize_step \<lparr>circuit_config = cfg\<rparr> B D zs batch cs = Inr ((vs, ext, vs'), cs')
    \<Longrightarrow> models w cs' \<Longrightarrow> map (fp_val w) vs = z \<Longrightarrow> map (fp_val w) vs' = z'
    \<Longrightarrow> circuit_trace cfg B D (os @ map (op_val w) (ops ext)) z0 z'"

lemma trace_check:
  assumes "circuit_trace cfg B D os z0 z" "z0 = [a, b, c]"
  shows "\<exists>a' b' c'. z = [a', b', c'] \<and> list_all (op_shape D) os
    \<and> step_check \<lparr>config = cfg\<rparr> os (a, b, c) = Inr (a', b', c')"
  using assms
proof (induction rule: circuit_trace.induct)
  case (trace_start z)
  then show ?case by (simp add: step_check_def)
next
  case (trace_step os z0 z cs zs batch vs ext vs' cs' w z')
  obtain a1 b1 c1 where os: "z = [a1, b1, c1]" "list_all (op_shape D) os" "step_check \<lparr>config = cfg\<rparr> os (a, b, c) = Inr (a1, b1, c1)"
    using trace_step.IH trace_step.prems by auto
  have "step_accepted cfg B D w (vs, ext, vs')"
    using step_is_sound[of cfg B D zs batch] trace_step.hyps(2-4) unfolding sound_def by blast
  then obtain a2 b2 c2 where s: "list_all (op_shape D) (ops ext)" "z' = [a2, b2, c2]"
      "step_check \<lparr>config = cfg\<rparr> (map (op_val w) (ops ext)) (a1, b1, c1) = Inr (a2, b2, c2)"
    using trace_step.hyps(5,6) os(1) by (auto simp: step_accepted_def)
  have "list_all (op_shape D) (map (op_val w) (ops ext))" using s(1) by (simp add: list_all_iff op_val_def)
  then show ?case using os s by (auto simp: step_check_def result_fold_append)
qed

text \<open>An honest prover has such a run for every batch the check accepts.\<close>

lemma op_is_val: "op_is cs v op \<Longrightarrow> op_val (assign cs) v = op"
proof -
  have "list_all2 (fp_is cs) ys v \<Longrightarrow> map (fp_val (assign cs)) ys = v" for ys :: "'a fpvar list" and v
    by (induction ys v rule: list_all2_induct) (simp_all add: fp_isD)
  moreover have b: "bool_is cs b x \<Longrightarrow> bool_of (bool_val (assign cs) b) = x" for b x
    by (cases x) (simp_all add: bool_isD(3))
  moreover have "list_all2 (bool_is cs) bs v \<Longrightarrow> map (\<lambda>b. bool_of (bool_val (assign cs) b)) bs = v" for bs v
    by (induction bs v rule: list_all2_induct) (simp_all add: b)
  ultimately show "op_is cs v op \<Longrightarrow> op_val (assign cs) v = op"
    by (cases op) (simp add: op_is_def op_val_def op_map_def fp_isD)
qed

lemma honest_trace:
  fixes inp :: "fr op_witness epoch_step_input"
  assumes "length (ops inp) = B" "list_all (op_shape D) (ops inp)"
    and "step_check \<lparr>config = cfg\<rparr> (map field_op (ops inp)) (a, b, c) = Inr (a', b', c')"
  shows "circuit_trace cfg B D (map field_op (ops inp)) [a, b, c] [a', b', c']"
proof -
  obtain y cs' where r: "synthesize_step \<lparr>circuit_config = cfg\<rparr> B D (Inr [a, b, c]) (Inr inp) cs_new = Inr (y, cs')" "honest cs'"
      "(case y of (z, ext, z') \<Rightarrow> \<lambda>cs'. list_all2 (fp_is cs') z [a, b, c] \<and> list_all2 (op_is cs') (ops ext) (map field_op (ops inp))
          \<and> list_all2 (fp_is cs') z' [a', b', c']) cs'"
    by (rule completeE[OF step_completes_all[OF assms] honest_new])
  obtain vs ext vs' where y: "y = (vs, ext, vs')" by (cases y)
  have vals: "list_all2 (fp_is cs') ys v \<Longrightarrow> map (fp_val (assign cs')) ys = v" for ys :: "fr fpvar list" and v
    by (induction ys v rule: list_all2_induct) (simp_all add: fp_isD)
  have opv: "list_all2 (op_is cs') vs v \<Longrightarrow> map (op_val (assign cs')) vs = v" for vs :: "fr op_witness_var list" and v
    by (induction vs v rule: list_all2_induct) (simp_all add: op_is_val)
  have "circuit_trace cfg B D ([] @ map (op_val (assign cs')) (ops ext)) [a, b, c] [a', b', c']"
    by (rule circuit_trace.trace_step[OF circuit_trace.trace_start cs_wf_new r(1)[unfolded y]])
      (use r(2,3) y vals in \<open>auto simp: honest_models\<close>)
  then show ?thesis using r(3) y opv[of "ops ext" "map field_op (ops inp)"] by simp
qed

section \<open>Nonces\<close>

text \<open>Every account has one slot.\<close>

definition one_slot :: "ledger \<Rightarrow> bool" where
  "one_slot L \<longleftrightarrow> (\<forall>i j a b. L i = Some a \<and> L j = Some b \<and> acc_key a = acc_key b \<and> acc_token a = acc_token b \<longrightarrow> i = j)"

lemma apply_op_ids:
  "apply_op op L = Some L' \<Longrightarrow> map_option (\<lambda>a. (acc_key a, acc_token a)) (L' i) = map_option (\<lambda>a. (acc_key a, acc_token a)) (L i)"
  by (auto simp: apply_op_def debit_def credit_def split: if_splits option.splits)

lemma ledger_run_ids:
  "ledger_run L os L' \<Longrightarrow> map_option (\<lambda>a. (acc_key a, acc_token a)) (L' i) = map_option (\<lambda>a. (acc_key a, acc_token a)) (L i)"
  by (induction rule: ledger_run.induct) (auto dest: apply_op_ids)

lemma one_slot_ids:
  assumes "one_slot L" "\<And>i. map_option (\<lambda>a. (acc_key a, acc_token a)) (L' i) = map_option (\<lambda>a. (acc_key a, acc_token a)) (L i)"
  shows "one_slot L'"
  unfolding one_slot_def
proof (intro allI impI, elim conjE)
  fix i j a b assume "L' i = Some a" "L' j = Some b" "acc_key a = acc_key b" "acc_token a = acc_token b"
  then show "i = j"
    using assms(1) assms(2)[of i] assms(2)[of j] unfolding one_slot_def by (cases "L i"; cases "L j"; simp)
qed

lemma ledger_run_append:
  "ledger_run L (us @ vs) L' \<longleftrightarrow> (\<exists>M. ledger_run L us M \<and> ledger_run M vs L')"
proof (induction us arbitrary: L)
  case Nil
  then show ?case by (auto intro: ledger_run_Nil elim: ledger_run_NilE)
next
  case (Cons u us)
  show ?case
  proof
    assume "ledger_run L ((u # us) @ vs) L'"
    then show "\<exists>M. ledger_run L (u # us) M \<and> ledger_run M vs L'" using Cons.IH by (fastforce elim: ledger_run_ConsE intro: ledger_run_Cons)
  next
    assume "\<exists>M. ledger_run L (u # us) M \<and> ledger_run M vs L'"
    then show "ledger_run L ((u # us) @ vs) L'" using Cons.IH by (fastforce elim: ledger_run_ConsE intro: ledger_run_Cons)
  qed
qed

text \<open>The slot an active operation debits holds its account, with its nonce.\<close>

lemma apply_op_debits:
  assumes "apply_op op L = Some L'" "active op"
  obtains a where "L (slot_of (from_index_bits op)) = Some a" "acc_key a = from_key op" "acc_token a = token_id op"
    "acc_nonce a = nonce op"
  using assms by (auto simp: apply_op_def debit_def split: if_splits option.splits)

definition op_id :: "fr op_values \<Rightarrow> fr \<times> fr \<times> fr" where
  "op_id op = (from_key op, token_id op, nonce op)"

lemma later_nonce:
  assumes L: "one_slot L" and op: "active op" "apply_op op L = Some L1" and run: "ledger_run L1 us M"
    and op': "active op'" "apply_op op' M = Some M'" and len: "length us + 1 < fr_modulus"
  shows "op_id op' \<noteq> op_id op"
proof
  assume id: "op_id op' = op_id op"
  let ?i = "slot_of (from_index_bits op)"
  obtain a where a: "L ?i = Some a" "acc_key a = from_key op" "acc_token a = token_id op" "acc_nonce a = nonce op"
    by (rule apply_op_debits[OF op(2,1)])
  obtain a1 where a1: "L1 ?i = Some a1" "acc_nonce a1 = nonce op + 1"
    using apply_op_nonce[OF op(2) a(1)] a(4) op(1) by (auto simp: debits_def)
  obtain a2 where a2: "M ?i = Some a2" "acc_nonce a2 = nonce op + 1 + of_nat (debits ?i us)"
    using ledger_run_nonce[OF run a1(1)] a1(2) by auto
  have ids: "map_option (\<lambda>a. (acc_key a, acc_token a)) (M i) = map_option (\<lambda>a. (acc_key a, acc_token a)) (L i)" for i
    using ledger_run_ids[OF run, of i] apply_op_ids[OF op(2), of i] by simp
  obtain b where b: "M (slot_of (from_index_bits op')) = Some b" "acc_key b = from_key op'" "acc_token b = token_id op'"
      "acc_nonce b = nonce op'"
    by (rule apply_op_debits[OF op'(2,1)])
  have "acc_key a2 = acc_key a" "acc_token a2 = acc_token a" using ids[of ?i] a(1) a2(1) by simp_all
  then have "slot_of (from_index_bits op') = ?i"
    using one_slot_ids[OF L ids] a(2,3) a2(1) b id unfolding one_slot_def op_id_def by (metis prod.inject)
  then have "nonce op' = nonce op + 1 + of_nat (debits ?i us)" using a2 b by simp
  then have "(of_nat (debits ?i us + 1) :: fr) = 0" using id by (simp add: op_id_def)
  moreover have "(of_nat (debits ?i us + 1) :: fr) \<noteq> 0"
  proof (rule fr_of_nat_neq_0)
    have "debits ?i us \<le> length us" by (simp add: debits_def)
    then show "debits ?i us + 1 < fr_modulus" using len by linarith
  qed simp
  ultimately show False by blast
qed

lemma run_ids_distinct:
  "ledger_run L os L' \<Longrightarrow> one_slot L \<Longrightarrow> length os < fr_modulus \<Longrightarrow> distinct (map op_id (filter active os))"
proof (induction rule: ledger_run.induct)
  case (ledger_run_Cons op L L1 os L2)
  have 1: "one_slot L1" by (rule one_slot_ids[OF ledger_run_Cons.prems(1) apply_op_ids[OF ledger_run_Cons.hyps(1)]])
  have "op_id op \<noteq> op_id op'" if "active op" "op' \<in> set os" "active op'" for op'
  proof -
    obtain us vs where os: "os = us @ op' # vs" using \<open>op' \<in> set os\<close> by (auto simp: in_set_conv_decomp)
    obtain M M' where "ledger_run L1 us M" "apply_op op' M = Some M'"
      using ledger_run_Cons.hyps(2) unfolding os ledger_run_append by (auto elim: ledger_run_ConsE)
    then show ?thesis
      using later_nonce[OF ledger_run_Cons.prems(1) that(1) ledger_run_Cons.hyps(1) _ that(3)] ledger_run_Cons.prems(2) os by fastforce
  qed
  then show ?case using ledger_run_Cons.IH[OF 1] ledger_run_Cons.prems(2) by (auto simp: image_iff)
qed simp

section \<open>Properties\<close>

text \<open>
  C20. Conservation.  When an epoch of the executor returns, in either build mode and whatever the requests were, the
  balances it records add up to the ones that were registered; and so they do within every group of keys that no request
  moves an amount into or out of, such as the accounts of a token.
\<close>

theorem conservation:
  assumes "exec_epoch oc pf cfg D accts rs = Inr (z0, ws, zn, e)"
    and "distinct (map (\<lambda>r. repr pf (fst r)) accts)" "(\<Sum>(key, tok, b, n)\<leftarrow>accts. unat b) < 2 ^ 128"
    and "stays_in pf K rs"
  shows "(\<Sum>k\<in>dom (balances e) \<inter> K. unat (the (balances e k)))
    = (\<Sum>(key, tok, b, n)\<leftarrow>accts. if repr pf key \<in> K then unat b else 0)"
proof -
  obtain e0 e1 where r: "executor_new pf cfg D = Inr e0" "register_all oc pf D accts e0 = Inr e1"
      "exec_run oc pf D rs e1 = Inr (ws, e)"
    using assms(1) by (auto simp: exec_epoch_def result_bind_Inr_iff)
  have new: "balances e0 = Map.empty" using r(1) by (auto simp: executor_new_def result_bind_Inr_iff)
  have h: "finite (dom (balances e1)) \<and> held J e1 = held J e0 + (\<Sum>(key, tok, b, n)\<leftarrow>accts. if repr pf key \<in> J then unat b else 0)" for J
    by (rule register_all_held[OF r(2) _ assms(2)]) (simp_all add: new)
  have z: "held J e0 = 0" for J by (simp add: held_def new)
  have "held K e = held K e1" by (rule exec_run_held[OF r(3) _ _ assms(4)]) (use h[of UNIV] z assms(3) in simp_all)
  then show ?thesis using h[of K] z by (simp add: held_def)
qed

theorem conservation_witness:
  "\<exists>z0 ws zn e. exec_epoch True fr_field toy_config 2 toy_accounts toy_requests = Inr (z0, ws, zn, e) \<and> length ws = 3
     \<and> (\<Sum>k\<in>dom (balances e). unat (the (balances e k))) = 520"
proof -
  obtain z0 ws zn e where r: "exec_epoch True fr_field toy_config 2 toy_accounts toy_requests = Inr (z0, ws, zn, e)" "length ws = 3"
    using toy_epoch[of True] by blast
  have "stays_in fr_field UNIV toy_requests" by (simp add: stays_in_def list_all_iff)
  moreover have "distinct (map (\<lambda>r. repr fr_field (fst r)) toy_accounts)" "(\<Sum>(key, tok, b, n)\<leftarrow>toy_accounts. unat b) < 2 ^ 128"
    by (simp_all add: toy_accounts_def)
  ultimately have "(\<Sum>k\<in>dom (balances e). unat (the (balances e k))) = 520"
    using conservation[OF r(1), of UNIV] by (simp add: toy_accounts_def)
  then show ?thesis using r by blast
qed

text \<open>
  C21. Replay protection.  Let satisfied step circuits, whoever chose their witnesses, run from the root of a tree that
  commits to a ledger with one slot for each account.  Then following their operations computes a break of the hash, or no
  two active operations of the run have the same sender, token and nonce.
\<close>

theorem replay_protection:
  assumes "circuit_trace cfg B D os [rt, oacc, nacc] z" "config_wf cfg"
    and "commits \<lparr>config = cfg\<rparr> D t L" "balances_ok L" "root t = Inr rt" "one_slot L" "length os < fr_modulus"
  shows "case follow_ops \<lparr>config = cfg\<rparr> os (t, L) of Inl b \<Rightarrow> is_break \<lparr>config = cfg\<rparr> b
    | Inr _ \<Rightarrow> distinct (map (\<lambda>op. (from_key op, token_id op, nonce op)) (filter active os))"
proof -
  obtain a b c where s: "list_all (op_shape D) os" "step_check \<lparr>config = cfg\<rparr> os (rt, oacc, nacc) = Inr (a, b, c)"
    using trace_check[OF assms(1) refl] by blast
  have "rt = node_val t D 0" using assms(3,5) by (auto simp: commits_def root_eq)
  then have "follows \<lparr>config = cfg\<rparr> D a (\<lambda>L'. ledger_run L os L') (follow_ops \<lparr>config = cfg\<rparr> os (t, L))"
    using step_refines_run[OF assms(3,4) _ s(1)] assms(2) s(2) by simp
  moreover have "distinct (map op_id (filter active os))" if "ledger_run L os L'" for L'
    by (rule run_ids_distinct[OF that assms(6,7)])
  ultimately show ?thesis by (auto simp: follows_def op_id_def[abs_def] split: sum.splits)
qed

text \<open>A small run: the circuit for three requests, one of which withdraws 10 from the second account.\<close>

definition withdrawn :: "'f request list \<Rightarrow> ('f \<times> 'f \<times> 128 word) list" where
  "withdrawn rs = map (\<lambda>(knd, x, y, tok, amt). (x, tok, amt)) (filter (\<lambda>(knd, x, y, tok, amt). knd = Withdraw) rs)"

lemma exec_run_withdrawn: "exec_run oc pf D rs e = Inr (ws, e') \<Longrightarrow> nets e' = nets e @ withdrawn rs"
proof (induction rs arbitrary: e ws)
  case (Cons r rs)
  obtain knd x y tok amt where r: "r = (knd, x, y, tok, amt)" by (cases r) auto
  obtain w us e1 where 1: "exec_apply oc pf D knd x y tok amt e = Inr (w, e1)" "exec_run oc pf D rs e1 = Inr (us, e')"
    using Cons.prems by (auto simp: r result_bind_Inr_iff)
  have "nets e1 = nets e @ (if knd = Withdraw then [(x, tok, amt)] else [])" by (rule exec_apply_maps[OF 1(1)]) simp
  then show ?case using Cons.IH[OF 1(2)] by (simp add: r withdrawn_def)
qed (simp add: withdrawn_def)

lemma exec_one_slot:
  assumes "exec_ok D e L"
  shows "one_slot L"
  unfolding one_slot_def using exec_okD(8)[OF assms] by (metis option.inject)

lemma toy_trace:
  obtains t L os rt r oacc nacc where "commits \<lparr>config = toy_config\<rparr> 2 t L" "balances_ok L" "one_slot L" "root t = Inr rt"
    "circuit_trace toy_config 3 2 os [rt, 0, 0] [r, oacc, nacc]" "length os = 3"
    "fold_nets fr_field \<lparr>config = toy_config\<rparr> [(12, 1, 10)] 0 = Inr nacc"
proof (rule genesis_simulates[OF toy_config_wf(1), of 2 toy_accounts True])
  fix e0 e L
  assume new: "executor_new fr_field toy_config 2 = Inr e0" "register_all True fr_field 2 toy_accounts e0 = Inr e"
    and e: "exec_ok 2 e L" "exec_book e L = fold book_register toy_accounts Map.empty" "hasher e = \<lparr>config = toy_config\<rparr>"
      "ops_acc e = 0" "nets_acc e = 0" "nets e = []"
  have bal: "balances_ok L"
    by (rule exec_balances_ok[OF e(1)])
      (auto simp: e(2) toy_accounts_def book_register_def VALUE_BITS_def split: if_splits)
  obtain ws e' where r: "exec_run True fr_field 2 toy_requests e = Inr (ws, e')" "chain_ok (hasher e) 2 ws e e'"
      "length ws = length toy_requests"
    using run_simulates[OF e(1), of toy_requests] toy_book_run[OF toy_book(1,2)] e(2) by metis
  have c: "commits \<lparr>config = toy_config\<rparr> 2 (tree e) L" using exec_okD(1)[OF e(1)] e(3) by simp
  have rt: "root (tree e) = Inr (node_val (tree e) 2 0)" using c by (auto simp: commits_def root_eq)
  have n: "length toy_requests = 3" by (simp add: toy_requests_def)
  have tr: "circuit_trace toy_config 3 2 (map field_op (ops \<lparr>ops = ws\<rparr>)) [node_val (tree e) 2 0, 0, 0]
      [node_val (tree e') 2 0, ops_acc e', nets_acc e']"
    by (rule honest_trace) (use r(2,3) n e(3-5) in \<open>simp_all add: chain_ok_def step_check_def\<close>)
  have "nets_ok fr_field e'" by (rule exec_run_nets[OF r(1) nets_ok_register_all[OF new(2) nets_ok_new[OF new(1)]]])
  moreover have "nets e' = [(12, 1, 10)]" using exec_run_withdrawn[OF r(1)] e(6) by (simp add: toy_requests_def withdrawn_def)
  moreover have "hasher e' = \<lparr>config = toy_config\<rparr>" using r(2) e(3) by (simp add: chain_ok_def)
  moreover have "(from_u128 10 :: fr) = 10" by (simp add: from_u128_def)
  ultimately have "fold_nets fr_field \<lparr>config = toy_config\<rparr> [(12, 1, 10)] 0 = Inr (nets_acc e')"
    by (simp add: nets_ok_def net_values_def)
  with c bal exec_one_slot[OF e(1)] rt tr show thesis using that n r(3) by simp
qed (simp_all add: toy_accounts_def)

theorem replay_protection_witness:
  "\<exists>t L os rt z. root t = Inr rt \<and> circuit_trace toy_config 3 2 os [rt, 0, 0] z \<and> length os = 3
     \<and> (case follow_ops \<lparr>config = toy_config\<rparr> os (t, L) of Inl b \<Rightarrow> is_break \<lparr>config = toy_config\<rparr> b
        | Inr _ \<Rightarrow> distinct (map (\<lambda>op. (from_key op, token_id op, nonce op)) (filter active os)))"
proof -
  obtain t L os rt z where t: "commits \<lparr>config = toy_config\<rparr> 2 t L" "balances_ok L" "root t = Inr rt" "one_slot L"
      "circuit_trace toy_config 3 2 os [rt, 0, 0] z" "length os = 3"
    by (rule toy_trace)
  have "length os < fr_modulus" using t(6) by (simp add: fr_modulus_def)
  from replay_protection[OF t(5) toy_config_wf(1) t(1-4) this] t show ?thesis by blast
qed

end
