(* ===== verification/Checkpoint_Safety.thy ===== *)
theory Checkpoint_Safety
  imports Checkpoint Epoch_Safety
begin

text \<open>
  What the settlement contract guarantees: invariants of its storage over any transactions, what an exit
  and a proven settlement mean for the ledger the last proven root commits to, and that the artifacts of the prover settle.
  It also states what its authorisation does not guarantee.
\<close>

section \<open>What a successful call went through\<close>

lemma require_Inr [simp]: "require b e = Inr u \<longleftrightarrow> b"
  by (simp add: require_def)

lemma sol_add_Inr: "sol_add a b = Inr c \<longleftrightarrow> unat a + unat b < 2 ^ LENGTH('a) \<and> c = a + b" for a :: "'a::len word"
  by (auto simp: sol_add_def)

lemma sol_add_value: "sol_add a b = Inr c \<Longrightarrow> unat c = unat a + unat b"
  by (auto simp: sol_add_Inr unat_word_ariths)

lemma auth_effect:
  assumes "auth X tokenId n message sig st = Inr st'"
  shows "st' = st\<lparr>orgNonce := (orgNonce st)(tokenId := orgNonce st tokenId + 1)\<rparr> \<and> orgNonce st tokenId = ucast n
    \<and> unat n + 1 < 2 ^ 32 \<and> length sig > 64
    \<and> ecrecover X (be_word (keccak256 X message)) (sig ! 64) (be_word (take 32 sig)) (be_word (take 32 (drop 32 sig))) = orgOf st tokenId"
proof -
  have "ucast (n + 1) = (ucast n + 1 :: uint256)" if "unat n + 1 < 2 ^ 32"
    by (rule iffD2[OF word_unat_eq_iff]) (use that in \<open>simp add: unat_word_ariths unsigned_ucast_eq take_bit_nat_eq_self\<close>)
  then show ?thesis
    using assms by (auto simp: auth_def Let_def result_bind_Inr_iff sol_add_Inr)
qed

lemma credit_all_effect: "credit_all tokenId ps st = Inr st' \<Longrightarrow> \<exists>b. st' = st\<lparr>balanceOf := b\<rparr>"
proof (induction tokenId ps st rule: credit_all.induct)
  case (1 tokenId st)
  then show ?case by (intro exI[of _ "balanceOf st"]) simp
next
  case (2 tokenId to amt rest st)
  then show ?case by (fastforce simp: result_bind_Inr_iff)
qed

text \<open>Each payee is credited what the payouts list for it, and no other balance changes.\<close>

definition paid_to :: "address \<Rightarrow> (address \<times> 96 word) list \<Rightarrow> nat" where
  "paid_to a ps = (\<Sum>(to, amt)\<leftarrow>ps. if to = a then unat amt else 0)"

lemma paid_to_le: "paid_to a ps \<le> (\<Sum>(to, amt)\<leftarrow>ps. unat amt)"
  by (induction ps) (auto simp: paid_to_def)

lemma credit_all_balances:
  "credit_all tokenId ps st = Inr st' \<Longrightarrow>
     unat (balanceOf st' tokenId a) = unat (balanceOf st tokenId a) + paid_to a ps
     \<and> (\<forall>t. t \<noteq> tokenId \<longrightarrow> balanceOf st' t = balanceOf st t)"
proof (induction tokenId ps st rule: credit_all.induct)
  case (2 tokenId to amt rest st)
  obtain b where b: "sol_add (balanceOf st tokenId to) (ucast amt) = Inr b"
      and r: "credit_all tokenId rest (st\<lparr>balanceOf := (balanceOf st)(tokenId := (balanceOf st tokenId)(to := b))\<rparr>) = Inr st'"
    using 2(2) by (auto simp: result_bind_Inr_iff)
  have "unat amt < 2 ^ 256" by (rule order_less_trans[OF unsigned_less]) simp
  then have "unat (ucast amt :: uint256) = unat amt" by (simp add: unsigned_ucast_eq take_bit_nat_eq_self)
  then have "unat b = unat (balanceOf st tokenId to) + unat amt" using sol_add_value[OF b] by simp
  then show ?case using 2(1)[OF r] by (auto simp: paid_to_def)
qed (simp add: paid_to_def)

lemma credit_all_total:
  "(\<And>a. a \<in> fst ` set ps \<Longrightarrow> unat (balanceOf st tokenId a) + (\<Sum>(to, amt)\<leftarrow>ps. unat amt) < 2 ^ 256) \<Longrightarrow> \<exists>st'. credit_all tokenId ps st = Inr st'"
proof (induction tokenId ps st rule: credit_all.induct)
  case (2 tokenId to amt rest st)
  have u: "unat (ucast amt :: uint256) = unat amt"
    by (simp add: unsigned_ucast_eq take_bit_nat_eq_self order_less_trans[OF unsigned_less])
  let ?b = "balanceOf st tokenId to + ucast amt"
  have b: "sol_add (balanceOf st tokenId to) (ucast amt) = Inr ?b" using 2(2)[of to] u by (simp add: sol_add_Inr)
  have v: "unat ?b = unat (balanceOf st tokenId to) + unat amt" using sol_add_value[OF b] u by simp
  have "\<exists>st'. credit_all tokenId rest (st\<lparr>balanceOf := (balanceOf st)(tokenId := (balanceOf st tokenId)(to := ?b))\<rparr>) = Inr st'"
    proof (rule 2(1))
    fix a assume "a \<in> fst ` set rest"
    then show "unat (balanceOf (st\<lparr>balanceOf := (balanceOf st)(tokenId := (balanceOf st tokenId)(to := ?b))\<rparr>) tokenId a)
        + (\<Sum>(to, amt)\<leftarrow>rest. unat amt) < 2 ^ 256"
      using 2(2)[of a] v by (cases "a = to") simp_all
  qed
  then show ?case by (simp add: b)
qed simp

lemma settleEpochProven_effect:
  assumes "settleEpochProven X lib env epoch transfers zi tokenId tos amounts n sig steps prf st = Inr st'"
  shows "length zi = 3 \<and> length tos = length amounts \<and> novaDecider st \<noteq> 0 \<and> epochStatus st epoch \<noteq> PROVEN
    \<and> withdrawals_acc X lib tokenId (zip tos amounts) = zi ! 2
    \<and> verify_opaque X (novaDecider st) steps [lastProvenRoot st, 0, 0] zi prf = Some True
    \<and> (\<exists>st1 b. auth X tokenId n (proven_message X env epoch transfers zi tokenId tos amounts steps n) sig st = Inr st1
        \<and> credit_all tokenId (zip tos amounts) (st1\<lparr>transfersRoot := (transfersRoot st)(epoch := transfers),
            stateRoot := (stateRoot st)(epoch := zi ! 0), epochStatus := (epochStatus st)(epoch := PROVEN),
            lastProvenRoot := zi ! 0, lastProvenEpoch := epoch, unprovenStreak := 0\<rparr>) = Inr st'
        \<and> st' = st\<lparr>orgNonce := (orgNonce st)(tokenId := orgNonce st tokenId + 1), transfersRoot := (transfersRoot st)(epoch := transfers),
            stateRoot := (stateRoot st)(epoch := zi ! 0), epochStatus := (epochStatus st)(epoch := PROVEN),
            lastProvenRoot := zi ! 0, lastProvenEpoch := epoch, unprovenStreak := 0, balanceOf := b\<rparr>)"
proof -
  obtain st1 where 1: "auth X tokenId n (proven_message X env epoch transfers zi tokenId tos amounts steps n) sig st = Inr st1"
      and c: "length zi = 3" "length tos = length amounts" "novaDecider st \<noteq> 0" "epochStatus st epoch \<noteq> PROVEN"
        "withdrawals_acc X lib tokenId (zip tos amounts) = zi ! 2"
        "verify_opaque X (novaDecider st1) steps [lastProvenRoot st1, 0, 0] zi prf = Some True"
      and cr: "credit_all tokenId (zip tos amounts) (st1\<lparr>transfersRoot := (transfersRoot st1)(epoch := transfers),
            stateRoot := (stateRoot st1)(epoch := zi ! 0), epochStatus := (epochStatus st1)(epoch := PROVEN),
            lastProvenRoot := zi ! 0, lastProvenEpoch := epoch, unprovenStreak := 0\<rparr>) = Inr st'"
    using assms by (auto simp: settleEpochProven_def Let_def result_bind_Inr_iff)
  have s1: "st1 = st\<lparr>orgNonce := (orgNonce st)(tokenId := orgNonce st tokenId + 1)\<rparr>" using auth_effect[OF 1] by blast
  obtain b where "st' = st1\<lparr>transfersRoot := (transfersRoot st1)(epoch := transfers),
            stateRoot := (stateRoot st1)(epoch := zi ! 0), epochStatus := (epochStatus st1)(epoch := PROVEN),
            lastProvenRoot := zi ! 0, lastProvenEpoch := epoch, unprovenStreak := 0, balanceOf := b\<rparr>"
    using credit_all_effect[OF cr] by blast
  then show ?thesis using 1 c cr by (auto simp: s1)
qed

lemma settleEpoch_effect:
  assumes "settleEpoch X env epoch transfers tokenId tos amounts n sig st = Inr st'"
  shows "epochStatus st epoch \<noteq> PROVEN \<and> unprovenStreak st + 1 \<le> CATCHUP_EPOCHS \<and> unat (unprovenStreak st) + 1 < 2 ^ 256
    \<and> (\<exists>b. st' = st\<lparr>orgNonce := (orgNonce st)(tokenId := orgNonce st tokenId + 1), transfersRoot := (transfersRoot st)(epoch := transfers),
            epochStatus := (epochStatus st)(epoch := UNPROVEN), unprovenStreak := unprovenStreak st + 1, balanceOf := b\<rparr>)
    \<and> orgNonce st tokenId = ucast n \<and> unat n + 1 < 2 ^ 32"
proof -
  obtain st1 where 1: "auth X tokenId n (unproven_message X env epoch transfers tokenId tos amounts n) sig st = Inr st1"
      and c: "epochStatus st epoch \<noteq> PROVEN" "unprovenStreak st + 1 \<le> CATCHUP_EPOCHS" "unat (unprovenStreak st) + 1 < 2 ^ 256"
      and cr: "credit_all tokenId (zip tos amounts) (st1\<lparr>transfersRoot := (transfersRoot st1)(epoch := transfers),
            epochStatus := (epochStatus st1)(epoch := UNPROVEN), unprovenStreak := unprovenStreak st + 1\<rparr>) = Inr st'"
    using assms by (auto simp: settleEpoch_def Let_def result_bind_Inr_iff sol_add_Inr)
  note a = auth_effect[OF 1]
  obtain b where "st' = st1\<lparr>transfersRoot := (transfersRoot st1)(epoch := transfers),
            epochStatus := (epochStatus st1)(epoch := UNPROVEN), unprovenStreak := unprovenStreak st + 1, balanceOf := b\<rparr>"
    using credit_all_effect[OF cr] by blast
  then show ?thesis using a c by auto
qed

text \<open>Both settlements credit exactly their payouts.\<close>

lemma settleEpochProven_credits:
  assumes "settleEpochProven X lib env epoch transfers zi tokenId tos amounts n sig steps prf st = Inr st'"
  shows "unat (balanceOf st' tokenId a) = unat (balanceOf st tokenId a) + paid_to a (zip tos amounts)"
  using settleEpochProven_effect[OF assms] by (auto dest!: auth_effect credit_all_balances[where a = a])

lemma settleEpoch_credits:
  assumes "settleEpoch X env epoch transfers tokenId tos amounts n sig st = Inr st'"
  shows "unat (balanceOf st' tokenId a) = unat (balanceOf st tokenId a) + paid_to a (zip tos amounts)"
  using assms by (auto simp: settleEpoch_def Let_def result_bind_Inr_iff dest!: auth_effect credit_all_balances[where a = a])

lemma settleEpoch_succeeds:
  assumes "length tos = length amounts" "epochStatus st epoch \<noteq> PROVEN" "epochClosedAt st epoch \<noteq> 0"
    and "unat (epochClosedAt st epoch) + 21600 \<le> unat (block_timestamp env)" "unat (unprovenStreak st) < 3"
    and "orgNonce st tokenId = ucast n" "unat n + 1 < 2 ^ 32" "64 < length sig"
    and "ecrecover X (be_word (keccak256 X (unproven_message X env epoch transfers tokenId tos amounts n))) (sig ! 64)
        (be_word (take 32 sig)) (be_word (take 32 (drop 32 sig))) = orgOf st tokenId"
    and room: "\<And>a. a \<in> fst ` set (zip tos amounts) \<Longrightarrow> unat (balanceOf st tokenId a) + (\<Sum>(to, amt)\<leftarrow>zip tos amounts. unat amt) < 2 ^ 256"
  shows "\<exists>st'. settleEpoch X env epoch transfers tokenId tos amounts n sig st = Inr st'
    \<and> epochStatus st' epoch = UNPROVEN \<and> transfersRoot st' epoch = transfers
    \<and> unat (unprovenStreak st') = unat (unprovenStreak st) + 1
    \<and> (\<forall>a. unat (balanceOf st' tokenId a) = unat (balanceOf st tokenId a) + paid_to a (zip tos amounts))"
proof -
  have "unat (epochClosedAt st epoch) + unat PROVER_TIMEOUT < 2 ^ 256"
    using assms(4) unsigned_less[of "block_timestamp env", where 'a = nat] by (simp add: PROVER_TIMEOUT_def)
  then have d: "sol_add (epochClosedAt st epoch) PROVER_TIMEOUT = Inr (epochClosedAt st epoch + PROVER_TIMEOUT)"
    by (simp add: sol_add_Inr)
  have d': "epochClosedAt st epoch + PROVER_TIMEOUT \<le> block_timestamp env"
    using sol_add_value[OF d] assms(4) by (simp add: word_le_nat_alt PROVER_TIMEOUT_def)
  have s: "sol_add (unprovenStreak st) 1 = Inr (unprovenStreak st + 1)" using assms(5) by (simp add: sol_add_Inr)
  have s': "unat (unprovenStreak st + 1) = unat (unprovenStreak st) + 1" using sol_add_value[OF s] by simp
  have "unprovenStreak st + 1 \<le> CATCHUP_EPOCHS" using s' assms(5) by (simp add: word_le_nat_alt CATCHUP_EPOCHS_def)
  note streak = s this
  have n: "sol_add n 1 = Inr (n + 1)" using assms(7) by (simp add: sol_add_Inr)
  have req: "require True e = Inr ()" for e by (simp add: require_def)
  let ?st = "st\<lparr>orgNonce := (orgNonce st)(tokenId := ucast (n + 1)), transfersRoot := (transfersRoot st)(epoch := transfers),
      epochStatus := (epochStatus st)(epoch := UNPROVEN), unprovenStreak := unprovenStreak st + 1\<rparr>"
  have "\<exists>st'. credit_all tokenId (zip tos amounts) ?st = Inr st'" by (rule credit_all_total) (use room in simp)
  then obtain st' where st': "credit_all tokenId (zip tos amounts) ?st = Inr st'" by blast
  have "settleEpoch X env epoch transfers tokenId tos amounts n sig st = Inr st'"
    by (simp add: settleEpoch_def auth_def Let_def assms(1-9) req d d' streak n st')
  moreover obtain b where "st' = ?st\<lparr>balanceOf := b\<rparr>" using credit_all_effect[OF st'] by blast
  ultimately show ?thesis using credit_all_balances[OF st'] s' by auto
qed

section \<open>Invariants\<close>

text \<open>The last proven root is the root of the last proven epoch, and the unproven settlements are counted.\<close>

definition root_chain :: "checkpoint \<Rightarrow> bool" where
  "root_chain st \<longleftrightarrow> stateRoot st (lastProvenEpoch st) = lastProvenRoot st \<and> epochStatus st (lastProvenEpoch st) = PROVEN
     \<and> unprovenStreak st \<le> CATCHUP_EPOCHS"

text \<open>What no transaction undoes.\<close>

definition keeps :: "checkpoint \<Rightarrow> checkpoint \<Rightarrow> bool" where
  "keeps st st' \<longleftrightarrow>
     (\<forall>ep. epochStatus st ep = PROVEN \<longrightarrow> epochStatus st' ep = PROVEN \<and> stateRoot st' ep = stateRoot st ep
        \<and> transfersRoot st' ep = transfersRoot st ep)
     \<and> (\<forall>k. exited st k \<longrightarrow> exited st' k)
     \<and> (\<forall>t. orgNonce st t \<le> orgNonce st' t)
     \<and> (\<forall>t. orgOf st t \<noteq> 0 \<longrightarrow> orgOf st' t = orgOf st t)
     \<and> (\<forall>t a. balanceOf st t a \<le> balanceOf st' t a)
     \<and> governance st' = governance st
     \<and> (verifierFrozen st \<longrightarrow> verifierFrozen st'
        \<and> (novaDecider st \<noteq> 0 \<longrightarrow> novaDecider st' = novaDecider st \<and> ppHash st' = ppHash st))"

lemma keeps_refl: "keeps st st"
  by (simp add: keeps_def)

lemma keepsD:
  assumes "keeps st st'"
  shows "epochStatus st ep = PROVEN \<Longrightarrow> epochStatus st' ep = PROVEN"
    "epochStatus st ep = PROVEN \<Longrightarrow> stateRoot st' ep = stateRoot st ep"
    "epochStatus st ep = PROVEN \<Longrightarrow> transfersRoot st' ep = transfersRoot st ep"
    "exited st k \<Longrightarrow> exited st' k" "orgNonce st t \<le> orgNonce st' t" "orgOf st t \<noteq> 0 \<Longrightarrow> orgOf st' t = orgOf st t"
    "balanceOf st t a \<le> balanceOf st' t a" "governance st' = governance st" "verifierFrozen st \<Longrightarrow> verifierFrozen st'"
    "verifierFrozen st \<Longrightarrow> novaDecider st \<noteq> 0 \<Longrightarrow> novaDecider st' = novaDecider st"
    "verifierFrozen st \<Longrightarrow> novaDecider st \<noteq> 0 \<Longrightarrow> ppHash st' = ppHash st"
  using assms unfolding keeps_def by simp_all

lemma keeps_trans:
  assumes "keeps a b" "keeps b c"
  shows "keeps a c"
  unfolding keeps_def
  by (intro conjI allI impI order_trans[OF keepsD(5)[OF assms(1)] keepsD(5)[OF assms(2)]]
      order_trans[OF keepsD(7)[OF assms(1)] keepsD(7)[OF assms(2)]])
    (simp_all add: keepsD(1-4,6,8-11)[OF assms(1)] keepsD(1-4,6,8-11)[OF assms(2)])

lemma sol_add_ge: "sol_add a b = Inr c \<Longrightarrow> a \<le> c" for a :: "'a::len word"
  using sol_add_value[of a b c] by (simp add: word_le_nat_alt)

lemma credit_all_ge: "credit_all tokenId ps st = Inr st' \<Longrightarrow> balanceOf st t a \<le> balanceOf st' t a"
  using credit_all_balances[of tokenId ps st st' a] by (cases "t = tokenId") (simp_all add: word_le_nat_alt)

lemma ucast_nonce: "unat (n :: 32 word) + 1 < 2 ^ 32 \<Longrightarrow> (ucast n :: uint256) \<le> ucast n + 1"
proof -
  assume "unat n + 1 < 2 ^ 32"
  then have "unat (ucast n + 1 :: uint256) = unat n + 1"
    by (simp add: unat_word_ariths unsigned_ucast_eq take_bit_nat_eq_self)
  then show ?thesis by (simp add: word_le_nat_alt unsigned_ucast_eq take_bit_nat_eq_self order_less_trans[OF unsigned_less])
qed

lemma settleEpochProven_keeps:
  assumes "settleEpochProven X lib env epoch transfers zi tokenId tos amounts n sig steps prf st = Inr st'"
  shows "keeps st st' \<and> root_chain st'"
proof -
  note e = settleEpochProven_effect[OF assms]
  obtain st1 b where 1: "auth X tokenId n (proven_message X env epoch transfers zi tokenId tos amounts steps n) sig st = Inr st1"
      and c: "credit_all tokenId (zip tos amounts) (st1\<lparr>transfersRoot := (transfersRoot st)(epoch := transfers),
            stateRoot := (stateRoot st)(epoch := zi ! 0), epochStatus := (epochStatus st)(epoch := PROVEN),
            lastProvenRoot := zi ! 0, lastProvenEpoch := epoch, unprovenStreak := 0\<rparr>) = Inr st'"
      and st': "st' = st\<lparr>orgNonce := (orgNonce st)(tokenId := orgNonce st tokenId + 1), transfersRoot := (transfersRoot st)(epoch := transfers),
            stateRoot := (stateRoot st)(epoch := zi ! 0), epochStatus := (epochStatus st)(epoch := PROVEN),
            lastProvenRoot := zi ! 0, lastProvenEpoch := epoch, unprovenStreak := 0, balanceOf := b\<rparr>"
    using e by blast
  note a = auth_effect[OF 1]
  have s1: "st1 = st\<lparr>orgNonce := (orgNonce st)(tokenId := orgNonce st tokenId + 1)\<rparr>" using a by blast
  have bal: "balanceOf st t x \<le> b t x" for t x
    using credit_all_ge[OF c, of t x] unfolding s1 st' by simp
  have non: "orgNonce st tokenId \<le> orgNonce st tokenId + 1" using a ucast_nonce[of n] by auto
  have ep: "epochStatus st epoch \<noteq> PROVEN" using e by blast
  show ?thesis
    unfolding keeps_def root_chain_def st' by (auto simp: bal non ep)
qed

lemma settleEpoch_keeps:
  assumes "settleEpoch X env epoch transfers tokenId tos amounts n sig st = Inr st'"
  shows "keeps st st' \<and> (root_chain st \<longrightarrow> root_chain st')"
proof -
  obtain st1 where 1: "auth X tokenId n (unproven_message X env epoch transfers tokenId tos amounts n) sig st = Inr st1"
      and cr: "credit_all tokenId (zip tos amounts) (st1\<lparr>transfersRoot := (transfersRoot st1)(epoch := transfers),
            epochStatus := (epochStatus st1)(epoch := UNPROVEN), unprovenStreak := unprovenStreak st + 1\<rparr>) = Inr st'"
    using assms by (auto simp: settleEpoch_def Let_def result_bind_Inr_iff sol_add_Inr)
  have s1: "st1 = st\<lparr>orgNonce := (orgNonce st)(tokenId := orgNonce st tokenId + 1)\<rparr>" using auth_effect[OF 1] by blast
  obtain b where st': "st' = st\<lparr>orgNonce := (orgNonce st)(tokenId := orgNonce st tokenId + 1), transfersRoot := (transfersRoot st)(epoch := transfers),
            epochStatus := (epochStatus st)(epoch := UNPROVEN), unprovenStreak := unprovenStreak st + 1, balanceOf := b\<rparr>"
    and c: "epochStatus st epoch \<noteq> PROVEN" "unprovenStreak st + 1 \<le> CATCHUP_EPOCHS"
    using settleEpoch_effect[OF assms] by blast
  have bal: "balanceOf st t x \<le> b t x" for t x
    using credit_all_ge[OF cr, of t x] unfolding s1 st' by simp
  have non: "orgNonce st tokenId \<le> orgNonce st tokenId + 1" using auth_effect[OF 1] ucast_nonce[of n] by auto
  show ?thesis
    unfolding keeps_def root_chain_def st' by (auto simp: bal non c)
qed

lemma exit_effect:
  assumes "exit_account X lib env tokenId bal n sibs isRight st = Inr st'"
  shows "length sibs = 22 \<and> length isRight = 22
    \<and> exit_node lib (zip sibs isRight) (hash4 lib (fieldKey X (msg_sender env) tokenId) tokenId (ucast bal) (ucast n)) = lastProvenRoot st
    \<and> (let nk = be_word (keccak256 X (be_bytes 32 tokenId @ be_bytes 32 (fieldKey X (msg_sender env) tokenId))) in
        \<not> exited st nk \<and> (\<exists>b. sol_add (balanceOf st tokenId (msg_sender env)) (ucast bal) = Inr b
          \<and> st' = st\<lparr>exited := (exited st)(nk := True),
              balanceOf := (balanceOf st)(tokenId := (balanceOf st tokenId)(msg_sender env := b))\<rparr>))"
  using assms by (auto simp: exit_account_def Let_def result_bind_Inr_iff)

lemma exit_keeps:
  assumes "exit_account X lib env tokenId bal n sibs isRight st = Inr st'"
  shows "keeps st st' \<and> (root_chain st \<longrightarrow> root_chain st')"
  using exit_effect[OF assms] unfolding Let_def keeps_def root_chain_def by (auto dest: sol_add_ge)

lemma exec_tx_keeps:
  assumes "exec_tx X lib env tx st = Inr st'"
  shows "keeps st st' \<and> (root_chain st \<longrightarrow> root_chain st')"
proof (cases tx)
  case (Exit tokenId bal n sibs isRight)
  then show ?thesis using assms exit_keeps by simp
next
  case SettleEpochProven
  then show ?thesis using assms settleEpochProven_keeps by fastforce
next
  case SettleEpoch
  then show ?thesis using assms settleEpoch_keeps by fastforce
qed (use assms in \<open>auto simp: createToken_def onlyGovernance_def initializeDecider_def proposeDeciderUpgrade_def
       executeDeciderUpgrade_def freezeVerifier_def markEpochClosed_def requestExitData_def answerExitData_def
       result_bind_Inr_iff keeps_def root_chain_def\<close>)

lemma leads_keeps: "leads X lib st st' \<Longrightarrow> keeps st st' \<and> (root_chain st \<longrightarrow> root_chain st')"
proof (induction rule: leads.induct)
  case (leads_step st st' env tx st'')
  then show ?case using exec_tx_keeps[OF leads_step.hyps(2)] keeps_trans by blast
qed (simp add: keeps_refl)

lemma construct_chain: "root_chain (construct gov g)"
  by (simp add: root_chain_def construct_def CATCHUP_EPOCHS_def)

text \<open>The counter of unproven settlements counts them.\<close>

definition streak :: "tx list \<Rightarrow> nat" where
  "streak txs = length (filter settles_unproven (takeWhile (\<lambda>tx. \<not> settles_proven tx) (rev txs)))"

lemma streak_simps [simp]:
  "streak [] = 0"
  "streak (txs @ [tx]) = (if settles_proven tx then 0 else streak txs + (if settles_unproven tx then 1 else 0))"
  by (simp_all add: streak_def)

lemma exec_tx_streak:
  assumes "exec_tx X lib env tx st = Inr st'"
  shows "unat (unprovenStreak st') = (if settles_proven tx then 0 else unat (unprovenStreak st) + (if settles_unproven tx then 1 else 0))"
proof (cases tx)
  case (Exit tokenId bal n sibs isRight)
  then show ?thesis using assms exit_effect[of X lib env tokenId bal n sibs isRight st st'] by (auto simp: Let_def)
next
  case SettleEpochProven
  then show ?thesis using assms by (auto dest!: settleEpochProven_effect)
next
  case (SettleEpoch epoch transfers tokenId tos amounts n sig)
  then show ?thesis using assms by (auto dest!: settleEpoch_effect simp: unat_word_ariths)
qed (use assms in \<open>auto simp: createToken_def onlyGovernance_def initializeDecider_def proposeDeciderUpgrade_def
       executeDeciderUpgrade_def freezeVerifier_def markEpochClosed_def requestExitData_def answerExitData_def
       result_bind_Inr_iff\<close>)

lemma leads_by_leads: "leads_by X lib st txs st' \<Longrightarrow> leads X lib st st'"
  by (induction rule: leads_by.induct) (auto intro: leads.intros)

lemma leads_by_streak: "leads_by X lib (construct gov g) txs st \<Longrightarrow> unat (unprovenStreak st) = streak txs"
proof (induction "construct gov g" txs st rule: leads_by.induct)
  case leads_by_refl
  then show ?case by (simp add: construct_def)
next
  case (leads_by_step txs st' env tx st'')
  then show ?case using exec_tx_streak[OF leads_by_step(3)] by simp
qed

lemma leads_by_prefix: "leads_by X lib st txs st' \<Longrightarrow> txs = us @ vs \<Longrightarrow> \<exists>st1. leads_by X lib st us st1"
proof (induction arbitrary: vs rule: leads_by.induct)
  case (leads_by_step st txs st' env tx st'')
  show ?case
  proof (cases vs rule: rev_cases)
    case Nil
    then show ?thesis using leads_by.leads_by_step[OF leads_by_step.hyps] leads_by_step.prems by auto
  next
    case (snoc ys y)
    then show ?thesis using leads_by_step.IH[of ys] leads_by_step.prems by simp
  qed
qed (auto intro: leads_by_refl)

lemma streak_window: "list_all (\<lambda>tx. \<not> settles_proven tx) vs \<Longrightarrow> streak (us @ vs) = streak us + length (filter settles_unproven vs)"
proof (induction vs rule: rev_induct)
  case (snoc v vs)
  then show ?case using streak_simps(2)[of "us @ vs" v] by simp
qed simp

lemma unproven_window:
  assumes "leads_by X lib (construct gov g) txs st" "txs = us @ vs @ ws" "list_all (\<lambda>tx. \<not> settles_proven tx) vs"
  shows "length (filter settles_unproven vs) \<le> 3"
proof -
  obtain st1 where 1: "leads_by X lib (construct gov g) (us @ vs) st1" using leads_by_prefix[OF assms(1), of "us @ vs" ws] assms(2) by auto
  have "root_chain st1" using leads_keeps[OF leads_by_leads[OF 1]] construct_chain by blast
  then have "streak (us @ vs) \<le> 3" using leads_by_streak[OF 1] by (simp add: root_chain_def CATCHUP_EPOCHS_def word_le_nat_alt)
  then show ?thesis using streak_window[OF assms(3), of us] by simp
qed

section \<open>The hash library on field elements\<close>

lemma exit_node_path:
  assumes "generate_solidity cfg = Inr lib" "config_wf cfg" "alpha cfg = 5" "capacity cfg = 1"
  shows "path_root (native_h2 fr_field \<lparr>config = cfg\<rparr>) (map (\<lambda>(s, r). (word_fr s, r)) path) (word_fr h)
    = Inr (word_fr (exit_node lib path h))"
proof (induction path arbitrary: h)
  case (Cons p path)
  obtain s r where p: "p = (s, r)" by fastforce
  have "path_step (native_h2 fr_field \<lparr>config = cfg\<rparr>) (word_fr s, r) (word_fr h)
      = Inr (word_fr (if r then hash2 lib s h else hash2 lib h s))"
    by (simp add: path_step_def hash4_spec[OF assms] native_arity native_hn_spec[OF assms(2)])
  then show ?case using Cons[of "if r then hash2 lib s h else hash2 lib h s"] by (simp add: p exit_node_def)
qed (simp add: exit_node_def)

lemma withdrawals_acc_step:
  assumes "generate_solidity cfg = Inr lib" "config_wf cfg" "alpha cfg = 5" "capacity cfg = 1"
  shows "\<exists>r. fold_nets fr_field \<lparr>config = cfg\<rparr> (map (\<lambda>(to, amt). (word_fr (fieldKey X to tokenId), word_fr tokenId, word_fr (ucast amt))) ps) acc = Inr r
    \<and> fold (\<lambda>(to, amt) acc. foldNet lib acc (fieldKey X to tokenId) tokenId (ucast amt)) ps (fr_word acc) = fr_word r"
proof (induction ps arbitrary: acc)
  case (Cons p ps)
  obtain to amt where p: "p = (to, amt)" by fastforce
  let ?h = "crh_spec cfg [acc, word_fr (fieldKey X to tokenId), word_fr tokenId, word_fr (ucast amt)]"
  have "native_h4 fr_field \<lparr>config = cfg\<rparr> acc (word_fr (fieldKey X to tokenId)) (word_fr tokenId) (word_fr (ucast amt)) = Inr ?h"
    "foldNet lib (fr_word acc) (fieldKey X to tokenId) tokenId (ucast amt) = fr_word ?h"
    by (simp_all add: foldNet_def hash4_spec[OF assms] native_arity native_hn_spec[OF assms(2)])
  then show ?case using Cons[of ?h] by (simp add: p fold_nets_def)
qed (simp add: fold_nets_def)

text \<open>The payouts as the circuit accumulates them.\<close>

definition field_payouts :: "chain \<Rightarrow> uint256 \<Rightarrow> (address \<times> 96 word) list \<Rightarrow> (fr \<times> fr \<times> fr) list" where
  "field_payouts X tokenId ps = map (\<lambda>(to, amt). (word_fr (fieldKey X to tokenId), word_fr tokenId, word_fr (ucast amt))) ps"

lemma fr_word_0: "fr_word 0 = 0"
  by (simp add: fr_word_def fr_dec_def fr_int_simps)

lemma amount_int: "fr_int (word_fr (ucast (amt :: 96 word))) = int (unat amt)"
proof -
  have u: "unat (ucast amt :: uint256) = unat amt"
    by (simp add: unsigned_ucast_eq take_bit_nat_eq_self order_less_trans[OF unsigned_less])
  have "unat amt < 2 ^ 96" using unsigned_less[of amt, where 'a = nat] by simp
  also have "\<dots> \<le> fr_modulus" by (simp add: fr_modulus_def)
  finally have "unat amt < fr_modulus" .
  then have "int (unat amt) mod int fr_modulus = int (unat amt)" by (intro mod_pos_pos_trivial) (simp_all only: of_nat_0_le_iff of_nat_less_iff)
  then show ?thesis unfolding word_fr_def u fr_int_of_nat .
qed

lemma withdrawals_acc_fold:
  assumes "generate_solidity cfg = Inr lib" "config_wf cfg" "alpha cfg = 5" "capacity cfg = 1"
  shows "\<exists>r. fold_nets fr_field \<lparr>config = cfg\<rparr> (field_payouts X tokenId ps) 0 = Inr r \<and> withdrawals_acc X lib tokenId ps = fr_word r"
  using withdrawals_acc_step[OF assms, of X tokenId ps 0] by (simp add: field_payouts_def withdrawals_acc_def fr_word_0)

lemma fr_word_eq_iff: "fr_word x = fr_word y \<longleftrightarrow> x = y"
  by (metis word_fr_fr_word)

text \<open>What a successful exit claims, the ledger of the last proven root has, or opening it computes a break.\<close>

lemma exit_opens:
  assumes "generate_solidity cfg = Inr lib" "config_wf cfg" "alpha cfg = 5" "capacity cfg = 1"
    and "commits \<lparr>config = cfg\<rparr> DEPTH t L" "root t = Inr rt" "lastProvenRoot st = fr_word rt"
    and "exit_account X lib env tokenId bal n sibs isRight st = Inr st'"
  defines "claim \<equiv> \<lparr>acc_key = word_fr (fieldKey X (msg_sender env) tokenId), acc_token = word_fr tokenId,
      acc_balance = word_fr (ucast bal), acc_nonce = word_fr (ucast n)\<rparr>"
  shows "case opening_break \<lparr>config = cfg\<rparr> (t, L) claim (map word_fr sibs) isRight of
      Some b \<Rightarrow> is_break \<lparr>config = cfg\<rparr> b | None \<Rightarrow> L (slot_of isRight) = Some claim"
proof -
  let ?leaf = "hash4 lib (fieldKey X (msg_sender env) tokenId) tokenId (ucast bal) (ucast n)"
  have len: "length sibs = 22" "length isRight = 22" and nd: "exit_node lib (zip sibs isRight) ?leaf = fr_word rt"
    using exit_effect[OF assms(8)] assms(7) by (auto simp: Let_def)
  have leaf: "account_leaf \<lparr>config = cfg\<rparr> claim = Inr (word_fr ?leaf)"
    by (simp add: claim_def account_leaf_def hash4_spec[OF assms(1-4)] native_arity native_hn_spec[OF assms(2)])
  have "root t = Inr (node_val t DEPTH 0)" using assms(5) by (auto simp: commits_def root_eq)
  then have rt: "rt = node_val t DEPTH 0" using assms(6) by simp
  have "path_root (native_h2 fr_field \<lparr>config = cfg\<rparr>) (zip (map word_fr sibs) isRight) (word_fr ?leaf) = Inr (node_val t DEPTH 0)"
    using exit_node_path[OF assms(1-4), of "zip sibs isRight"] by (simp add: nd rt zip_map1)
  from opening_sound[OF assms(5) _ _ leaf this] show ?thesis
    using len by (auto simp: DEPTH_def split: option.splits)
qed

text \<open>What the verifier contract accepts from canonical states has a run of the circuit, of as many steps.\<close>

definition verifier_sound :: "chain \<Rightarrow> fr poseidon_config \<Rightarrow> address \<Rightarrow> bool" where
  "verifier_sound X cfg decider \<longleftrightarrow> (\<forall>steps z0 zi prf. verify_opaque X decider steps (map fr_word z0) zi prf = Some True
     \<longrightarrow> (\<exists>n z. word_fr steps = of_nat n \<and> zi = map fr_word z \<and> circuit_run cfg n z0 z))"

text \<open>The run of the circuit behind a proven settlement, and the accumulator its payouts fold to.\<close>

lemma proven_settlement_run:
  assumes "generate_solidity cfg = Inr lib" "config_wf cfg" "alpha cfg = 5" "capacity cfg = 1"
    and "verifier_sound X cfg (novaDecider st)" "lastProvenRoot st = fr_word rt"
    and "settleEpochProven X lib env epoch transfers zi tokenId tos amounts n sig steps prf st = Inr st'"
  obtains k z where "word_fr steps = of_nat k" "circuit_run cfg k [rt, 0, 0] z" "lastProvenRoot st' = fr_word (z ! 0)"
    "fold_nets fr_field \<lparr>config = cfg\<rparr> (field_payouts X tokenId (zip tos amounts)) 0 = Inr (z ! 2)"
proof -
  note e = settleEpochProven_effect[OF assms(7)]
  have "verify_opaque X (novaDecider st) steps (map fr_word [rt, 0, 0]) zi prf = Some True"
    using e assms(6) by (simp add: fr_word_0)
  then obtain k z where k: "word_fr steps = of_nat k" "zi = map fr_word z" "circuit_run cfg k [rt, 0, 0] z"
    using assms(5) unfolding verifier_sound_def by blast
  have len: "length z = 3" using e k(2) by simp
  obtain r where r: "fold_nets fr_field \<lparr>config = cfg\<rparr> (field_payouts X tokenId (zip tos amounts)) 0 = Inr r"
      "withdrawals_acc X lib tokenId (zip tos amounts) = fr_word r"
    using withdrawals_acc_fold[OF assms(1-4)] by blast
  have "r = z ! 2" using e r(2) k(2) len by (simp add: fr_word_eq_iff)
  moreover have "lastProvenRoot st' = fr_word (z ! 0)" using e k(2) len by auto
  ultimately show ?thesis using that[OF k(1,3)] r(1) by simp
qed

section \<open>Properties\<close>

text \<open>
  C12. The chain of roots.  Whatever transactions succeed after the construction, the last proven
  root is the stored root of the last proven epoch, which is marked as proven, and epoch 0 keeps the genesis root.  The
  counter of unproven settlements is the number of them since the last proven one, and anywhere in the history, between two
  proven settlements at most three epochs are settled without a proof.
\<close>

theorem checkpoint_invariant:
  assumes "leads_by X lib (construct gov genesis_root) txs st"
  shows "stateRoot st (lastProvenEpoch st) = lastProvenRoot st \<and> epochStatus st (lastProvenEpoch st) = PROVEN
    \<and> epochStatus st 0 = PROVEN \<and> stateRoot st 0 = genesis_root \<and> governance st = gov
    \<and> unat (unprovenStreak st) = length (filter settles_unproven (takeWhile (\<lambda>tx. \<not> settles_proven tx) (rev txs)))
    \<and> (\<forall>us vs ws. txs = us @ vs @ ws \<and> list_all (\<lambda>tx. \<not> settles_proven tx) vs \<longrightarrow> length (filter settles_unproven vs) \<le> 3)"
proof -
  note k = leads_keeps[OF leads_by_leads[OF assms]]
  have c: "root_chain st" using k construct_chain by blast
  have "epochStatus (construct gov genesis_root) 0 = PROVEN" "stateRoot (construct gov genesis_root) 0 = genesis_root"
    "governance (construct gov genesis_root) = gov"
    by (simp_all add: construct_def)
  then show ?thesis
    using c keepsD(1,2,8)[OF conjunct1[OF k]] leads_by_streak[OF assms] unproven_window[OF assms]
    by (auto simp: root_chain_def streak_def)
qed

text \<open>
  C13. Proven epochs are final.  No transaction changes the status, the root or the transfers of a
  proven epoch, clears a nullifier, gives a nonce back, replaces the organisation of a token or lowers a balance; and
  once the verifier is set and frozen it stays as it is.
\<close>

theorem proven_epochs_final:
  assumes "leads X lib st st'"
  shows "(epochStatus st ep = PROVEN \<longrightarrow> epochStatus st' ep = PROVEN \<and> stateRoot st' ep = stateRoot st ep
      \<and> transfersRoot st' ep = transfersRoot st ep)
    \<and> (exited st k \<longrightarrow> exited st' k) \<and> orgNonce st t \<le> orgNonce st' t \<and> balanceOf st t a \<le> balanceOf st' t a
    \<and> (orgOf st t \<noteq> 0 \<longrightarrow> orgOf st' t = orgOf st t)
    \<and> (verifierFrozen st \<and> novaDecider st \<noteq> 0 \<longrightarrow> novaDecider st' = novaDecider st \<and> ppHash st' = ppHash st)"
  using keepsD[OF conjunct1[OF leads_keeps[OF assms]]] by blast

text \<open>
  C11. An exit pays what the ledger has.  Let the last proven root be the root of a tree that
  commits to a ledger.  A successful exit credits the sender the claimed balance, and either computes a break of the hash, or
  the ledger has, at the claimed position, exactly the account with the sender's key, the token, this balance and
  nonce.  After it, no transactions make another exit of the sender from the token possible.
\<close>

theorem exit_pays_proven_balance:
  assumes "generate_solidity cfg = Inr lib" "config_wf cfg" "alpha cfg = 5" "capacity cfg = 1"
    and "commits \<lparr>config = cfg\<rparr> DEPTH t L" "root t = Inr rt" "lastProvenRoot st = fr_word rt"
    and "exit_account X lib env tokenId bal n sibs isRight st = Inr st'"
  shows "unat (balanceOf st' tokenId (msg_sender env)) = unat (balanceOf st tokenId (msg_sender env)) + unat bal
    \<and> (let claim = \<lparr>acc_key = word_fr (fieldKey X (msg_sender env) tokenId), acc_token = word_fr tokenId,
          acc_balance = word_fr (ucast bal), acc_nonce = word_fr (ucast n)\<rparr> in
        case opening_break \<lparr>config = cfg\<rparr> (t, L) claim (map word_fr sibs) isRight of
          Some b \<Rightarrow> is_break \<lparr>config = cfg\<rparr> b | None \<Rightarrow> L (slot_of isRight) = Some claim)
    \<and> (leads X lib st' st'' \<and> msg_sender env' = msg_sender env
        \<longrightarrow> (\<exists>err. exit_account X lib env' tokenId bal' n' sibs' isRight' st'' = Inl err))"
proof -
  let ?nk = "be_word (keccak256 X (be_bytes 32 tokenId @ be_bytes 32 (fieldKey X (msg_sender env) tokenId)))"
  obtain b where b: "sol_add (balanceOf st tokenId (msg_sender env)) (ucast bal) = Inr b"
      and st': "st' = st\<lparr>exited := (exited st)(?nk := True),
              balanceOf := (balanceOf st)(tokenId := (balanceOf st tokenId)(msg_sender env := b))\<rparr>"
    using exit_effect[OF assms(8)] by (auto simp: Let_def)
  have u: "unat (ucast bal :: uint256) = unat bal"
    by (simp add: unsigned_ucast_eq take_bit_nat_eq_self order_less_trans[OF unsigned_less])
  have again: "\<exists>err. exit_account X lib env' tokenId bal' n' sibs' isRight' st'' = Inl err"
    if "leads X lib st' st''" "msg_sender env' = msg_sender env"
  proof -
    have "exited st'' ?nk" using keepsD(4)[OF conjunct1[OF leads_keeps[OF that(1)]], of ?nk] by (simp add: st')
    then have "exit_account X lib env' tokenId bal' n' sibs' isRight' st'' \<noteq> Inr s" for s
      using exit_effect[of X lib env' tokenId bal' n' sibs' isRight' st'' s] that(2) by (auto simp: Let_def)
    then show ?thesis by (metis sum.exhaust)
  qed
  show ?thesis using sol_add_value[OF b] u exit_opens[OF assms] again by (simp add: st' Let_def)
qed

text \<open>
  C4. A proven settlement is a run of the ledger.  Let the verifier be knowledge sound and the
  last proven root be the root of a tree that commits to a ledger.  If a proven settlement succeeds, the
  organisation's key signed exactly these values, every payee is credited exactly its payouts, and there are operations, a batch for each step,
  such that following them either computes a break of the hash or leads by valid transfers to a ledger that the
  new last proven root commits to, with every supply as before; and the payouts are the withdrawals of the
  operations, in order, or a break is computed.
\<close>

theorem settlement_is_ledger_run:
  assumes "generate_solidity cfg = Inr lib" "config_wf cfg" "alpha cfg = 5" "capacity cfg = 1"
    and "verifier_sound X cfg (novaDecider st)"
    and "commits \<lparr>config = cfg\<rparr> DEPTH t L" "balances_ok L" "root t = Inr rt" "lastProvenRoot st = fr_word rt"
    and "settleEpochProven X lib env epoch transfers zi tokenId tos amounts n sig steps prf st = Inr st'"
  shows "ecrecover X (be_word (keccak256 X (proven_message X env epoch transfers zi tokenId tos amounts steps n))) (sig ! 64)
        (be_word (take 32 sig)) (be_word (take 32 (drop 32 sig))) = orgOf st tokenId
    \<and> (\<forall>a. unat (balanceOf st' tokenId a) = unat (balanceOf st tokenId a) + paid_to a (zip tos amounts))
    \<and> (\<exists>k os. word_fr steps = of_nat k \<and> length os = k * BATCH
        \<and> (case follow_ops \<lparr>config = cfg\<rparr> os (t, L) of Inl b \<Rightarrow> is_break \<lparr>config = cfg\<rparr> b
            | Inr (t', L') \<Rightarrow> commits \<lparr>config = cfg\<rparr> DEPTH t' L' \<and> balances_ok L' \<and> root t' = Inr (word_fr (lastProvenRoot st'))
                \<and> ledger_run L os L' \<and> (\<forall>token. total_supply token L' = total_supply token L))
        \<and> (case nets_break_of \<lparr>config = cfg\<rparr> (rev (field_payouts X tokenId (zip tos amounts))) (rev (batch_nets os)) of
              None \<Rightarrow> field_payouts X tokenId (zip tos amounts) = batch_nets os | Some b \<Rightarrow> is_nets_break \<lparr>config = cfg\<rparr> b))"
proof -
  note e = settleEpochProven_effect[OF assms(10)]
  obtain st1 b where 1: "auth X tokenId n (proven_message X env epoch transfers zi tokenId tos amounts steps n) sig st = Inr st1"
      and c: "credit_all tokenId (zip tos amounts) (st1\<lparr>transfersRoot := (transfersRoot st)(epoch := transfers),
            stateRoot := (stateRoot st)(epoch := zi ! 0), epochStatus := (epochStatus st)(epoch := PROVEN),
            lastProvenRoot := zi ! 0, lastProvenEpoch := epoch, unprovenStreak := 0\<rparr>) = Inr st'"
      and st': "st' = st\<lparr>orgNonce := (orgNonce st)(tokenId := orgNonce st tokenId + 1), transfersRoot := (transfersRoot st)(epoch := transfers),
            stateRoot := (stateRoot st)(epoch := zi ! 0), epochStatus := (epochStatus st)(epoch := PROVEN),
            lastProvenRoot := zi ! 0, lastProvenEpoch := epoch, unprovenStreak := 0, balanceOf := b\<rparr>"
    using e by blast
  note a = auth_effect[OF 1]
  have s1: "st1 = st\<lparr>orgNonce := (orgNonce st)(tokenId := orgNonce st tokenId + 1)\<rparr>" using a by blast
  have bal: "unat (balanceOf st' tokenId a) = unat (balanceOf st tokenId a) + paid_to a (zip tos amounts)" for a
    using credit_all_balances[OF c, of a] unfolding s1 by simp
  obtain k z where k: "word_fr steps = of_nat k" "circuit_run cfg k [rt, 0, 0] z" "lastProvenRoot st' = fr_word (z ! 0)"
      "fold_nets fr_field \<lparr>config = cfg\<rparr> (field_payouts X tokenId (zip tos amounts)) 0 = Inr (z ! 2)"
    by (rule proven_settlement_run[OF assms(1-5,9,10)])
  have root: "word_fr (lastProvenRoot st') = z ! 0" by (simp add: k(3))
  show ?thesis
    using circuit_run_ledger[OF assms(2) k(2) assms(6-8) k(4)] a bal k(1) unfolding root by blast
qed

text \<open>
  C9. Settlement binding.  Let satisfied step circuits, whoever chose their witnesses, run from the empty accumulator of nets,
  and let the payouts of a settlement have the accumulator they end in, which the contract checks.  Then comparing the calls of
  the two folds either computes a break of the hash, or the payouts are exactly the active withdrawals of the run, in order:
  their keys, token and amounts are those of the operations, and the integers the contract credits are the ones withdrawn.
\<close>

theorem settlement_binding:
  assumes "generate_solidity cfg = Inr lib" "config_wf cfg" "alpha cfg = 5" "capacity cfg = 1"
    and "circuit_trace cfg B D os [rt, oacc, 0] z" "withdrawals_acc X lib tokenId payouts = fr_word (z ! 2)"
  shows "case nets_break_of \<lparr>config = cfg\<rparr> (rev (field_payouts X tokenId payouts)) (rev (batch_nets os)) of
      Some b \<Rightarrow> is_nets_break \<lparr>config = cfg\<rparr> b
    | None \<Rightarrow> map (\<lambda>(to, amt). (word_fr (fieldKey X to tokenId), word_fr tokenId, int (unat amt))) payouts
        = map (\<lambda>op. (from_key op, token_id op, fr_int (amount op)))
            (filter (\<lambda>op. active op \<and> kind op = from_u64 (code Withdraw)) os)"
proof -
  obtain a b c where z: "z = [a, b, c]" "step_check \<lparr>config = cfg\<rparr> os (rt, oacc, 0) = Inr (a, b, c)"
    using trace_check[OF assms(5) refl] by blast
  obtain r where r: "fold_nets fr_field \<lparr>config = cfg\<rparr> (field_payouts X tokenId payouts) 0 = Inr r"
      "withdrawals_acc X lib tokenId payouts = fr_word r"
    using withdrawals_acc_fold[OF assms(1-4)] by blast
  have "r = c" using r(2) assms(6) z(1) by (simp add: fr_word_eq_iff)
  note n = nets_break_sound[of "\<lparr>config = cfg\<rparr>" "rev (field_payouts X tokenId payouts)" c "rev (batch_nets os)", simplified]
  have eq: "field_payouts X tokenId payouts = batch_nets os"
    if "nets_break_of \<lparr>config = cfg\<rparr> (rev (field_payouts X tokenId payouts)) (rev (batch_nets os)) = None"
    using n[OF r(1)[unfolded \<open>r = c\<close>] step_check_nets[OF z(2)]] that by simp
  have ints: "map (\<lambda>(k, t, a). (k, t, fr_int a)) (field_payouts X tokenId payouts)
      = map (\<lambda>(to, amt). (word_fr (fieldKey X to tokenId), word_fr tokenId, int (unat amt))) payouts"
    by (auto simp: field_payouts_def amount_int)
  have "map (\<lambda>(k, t, a). (k, t, fr_int a)) (batch_nets os)
      = map (\<lambda>op. (from_key op, token_id op, fr_int (amount op))) (filter (\<lambda>op. active op \<and> kind op = from_u64 (code Withdraw)) os)"
    by (simp add: batch_nets_def withdraw_code_const_def)
  then show ?thesis
    using n[OF r(1)[unfolded \<open>r = c\<close>] step_check_nets[OF z(2)]] eq ints by (auto split: option.split)
qed

text \<open>
  C31. A token without an organisation accepts any signature.  The address \<^verbatim>\<open>ecrecover\<close> returns for an
  invalid signature is zero, which is also the organisation of a token that was never created: anyone can then settle a
  closed epoch without a proof, credit anyone any amount of the token, and use up one of the three
  unproven settlements that all tokens share.
\<close>

theorem unset_org_accepts_any_signature:
  assumes "orgOf st tokenId = 0" "\<And>d r s. ecrecover X d 0 r s = 0"
    and "epochStatus st epoch \<noteq> PROVEN" "epochClosedAt st epoch \<noteq> 0"
    and "unat (epochClosedAt st epoch) + 21600 \<le> unat (block_timestamp env)" "unat (unprovenStreak st) < 3"
    and "orgNonce st tokenId = ucast n" "unat n + 1 < 2 ^ 32"
    and "unat (balanceOf st tokenId to) + unat amt < 2 ^ 256"
  shows "\<exists>st'. settleEpoch X env epoch transfers tokenId [to] [amt] n (replicate 65 0) st = Inr st'
    \<and> unat (balanceOf st' tokenId to) = unat (balanceOf st tokenId to) + unat amt
    \<and> epochStatus st' epoch = UNPROVEN \<and> transfersRoot st' epoch = transfers
    \<and> unat (unprovenStreak st') = unat (unprovenStreak st) + 1"
  using settleEpoch_succeeds[of "[to]" "[amt]" st epoch env tokenId n "replicate 65 0" X transfers] assms
  by (auto simp: paid_to_def)

end
