(* ===== verification/Checkpoint_Artifacts.thy ===== *)
theory Checkpoint_Artifacts
  imports Checkpoint_Safety
begin

text \<open>
  The prover and the contract fit together: the artifacts of a workload settle, and its exit entry
  is accepted against the root the settlement stored.
\<close>

section \<open>Addresses, keys and amounts\<close>

definition address_of :: "8 word list \<Rightarrow> address" where
  "address_of bytes = of_nat (bytes_value (rev bytes))"

lemma be_bytes_value:
  fixes w :: "'a::len word"
  assumes "LENGTH('a) = 8 * n"
  shows "bytes_value (rev (be_bytes n w)) = unat w"
proof -
  have "(256 :: nat) ^ n = 2 ^ LENGTH('a)" by (simp add: assms power_mult)
  then have bound: "unat w < 256 ^ n" by simp
  have "unat (ucast (drop_bit (8 * i) w) :: 8 word) = unat w div 256 ^ i mod 256" for i
  proof -
    have "unat (drop_bit (8 * i) w) = drop_bit (8 * i) (unat w)" by (simp add: unsigned_drop_bit_eq take_bit_nat_eq_self unsigned_less)
    then have "unat (ucast (drop_bit (8 * i) w) :: 8 word) = take_bit 8 (drop_bit (8 * i) (unat w))"
      by (simp add: unsigned_ucast_eq)
    then show ?thesis by (simp add: take_bit_eq_mod drop_bit_eq_div power_mult)
  qed
  then have "bytes_value (rev (be_bytes n w)) = horner_sum (\<lambda>i. unat w div 256 ^ i mod 256) 256 [0..<n]"
    by (simp add: be_bytes_def rev_map horner_sum_eq_sum_funpow)
  also have "\<dots> = unat w" unfolding digits_value using bound by simp
  finally show ?thesis .
qed

lemma be_bytes_address: "length bytes = 20 \<Longrightarrow> be_bytes 20 (address_of bytes) = bytes"
proof -
  assume len: "length bytes = 20"
  have "bytes_value (rev bytes) < 2 ^ 160" using bytes_value_bound[of "rev bytes"] len by simp
  then have "bytes_value (rev (be_bytes 20 (address_of bytes))) = bytes_value (rev bytes)"
    by (simp add: be_bytes_value address_of_def unat_of_nat)
  then have "rev (be_bytes 20 (address_of bytes)) = rev bytes"
    by (intro bytes_value_inj) (simp_all add: len be_bytes_def)
  then show ?thesis by simp
qed

lemma address_of_inj: "length a = 20 \<Longrightarrow> length b = 20 \<Longrightarrow> address_of a = address_of b \<longleftrightarrow> a = b"
  by (metis be_bytes_address)

lemma fieldKey_field_key: "length addr = 20 \<Longrightarrow> word_fr (fieldKey X (address_of addr) tokenId) = field_key (keccak256 X) addr (ucast tokenId)"
proof -
  assume len: "length addr = 20"
  have "fr_dec (field_key (keccak256 X) addr (ucast tokenId)) = contract_field_key (keccak256 X) addr (ucast tokenId)"
    by (simp add: field_key_def contract_field_key_def from_be_bytes_eq fr_dec_of_nat)
  then have "fieldKey X (address_of addr) tokenId = fr_word (field_key (keccak256 X) addr (ucast tokenId))"
    by (simp add: fieldKey_def fr_word_def be_bytes_address[OF len])
  then show ?thesis by simp
qed

lemma word_fr_amount: "unat (a :: 128 word) < 2 ^ 96 \<Longrightarrow> word_fr (ucast (ucast a :: 96 word)) = from_u128 a"
proof -
  assume a: "unat a < 2 ^ 96"
  define b where "b = (ucast a :: 96 word)"
  have b: "unat b = unat a" using a by (simp add: b_def unsigned_ucast_eq take_bit_nat_eq_self)
  then have "unat (ucast b :: uint256) = unat a"
    using a by (simp add: unsigned_ucast_eq take_bit_nat_eq_self)
  then show ?thesis unfolding b_def[symmetric] by (simp add: word_fr_def from_u128_def del: of_nat_unat)
qed

lemma word_fr_1: "word_fr 1 = from_u64 (ucast (1 :: 32 word))"
  by (simp add: word_fr_def from_u64_def)

section \<open>Settling\<close>

definition artifact_tos :: "workload \<Rightarrow> address list" where
  "artifact_tos w = map (\<lambda>n. address_of (net_addr n)) (wl_nets w)"

definition artifact_amounts :: "workload \<Rightarrow> 96 word list" where
  "artifact_amounts w = map (\<lambda>n. ucast (net_amount n)) (wl_nets w)"

lemma artifact_payouts:
  assumes "payouts_ok (keccak256 X) spec w" "spends spec < 2 ^ 64"
  shows "zip (artifact_tos w) (artifact_amounts w)
      = map (\<lambda>r. (address_of (payee_addr r), of_nat (visits (spends spec) (n_payees spec) r))) (net_payees (spends spec) (n_payees spec))"
    "field_payouts X 1 (zip (artifact_tos w) (artifact_amounts w))
      = map (\<lambda>n. (net_key n, from_u64 1, from_u128 (net_amount n))) (wl_nets w)"
proof -
  have small: "visits (spends spec) (n_payees spec) r < 2 ^ 64" for r
    using visits_le[of "spends spec" "n_payees spec" r] assms(2) by linarith
  have u: "unat (of_nat (visits (spends spec) (n_payees spec) r) :: 128 word) = visits (spends spec) (n_payees spec) r" for r
    using small[of r] by (simp add: unat_of_nat)
  have c: "ucast (of_nat (visits (spends spec) (n_payees spec) r) :: 128 word) = (of_nat (visits (spends spec) (n_payees spec) r) :: 96 word)" for r
    by (rule iffD2[OF word_unat_eq_iff]) (use small[of r] in \<open>simp add: unsigned_ucast_eq u unat_of_nat take_bit_nat_eq_self\<close>)
  have ns: "wl_nets w = map (\<lambda>r. \<lparr>net_addr = payee_addr r, net_key = field_key (keccak256 X) (payee_addr r) 1,
       net_amount = of_nat (visits (spends spec) (n_payees spec) r)\<rparr>) (net_payees (spends spec) (n_payees spec))"
    using assms(1) by (simp add: payouts_ok_def)
  show z: "zip (artifact_tos w) (artifact_amounts w)
      = map (\<lambda>r. (address_of (payee_addr r), of_nat (visits (spends spec) (n_payees spec) r))) (net_payees (spends spec) (n_payees spec))"
    by (simp add: artifact_tos_def artifact_amounts_def ns zip_map_map zip_same_conv_map c)
  have "word_fr (ucast (of_nat (visits (spends spec) (n_payees spec) r) :: 96 word)) = from_u128 (of_nat (visits (spends spec) (n_payees spec) r))" for r
    using word_fr_amount[of "of_nat (visits (spends spec) (n_payees spec) r)"] small[of r] by (simp add: u c)
  then show "field_payouts X 1 (zip (artifact_tos w) (artifact_amounts w))
      = map (\<lambda>n. (net_key n, from_u64 1, from_u128 (net_amount n))) (wl_nets w)"
    unfolding z by (simp add: field_payouts_def ns fieldKey_field_key addr_length word_fr_1)
qed

lemma paid_to_payee:
  assumes "n_payees spec \<le> 65536" "r < n_payees spec" "spends spec < 2 ^ 64"
  shows "paid_to (address_of (payee_addr r)) (map (\<lambda>r. (address_of (payee_addr r), of_nat (visits (spends spec) (n_payees spec) r)))
    (net_payees (spends spec) (n_payees spec))) = visits (spends spec) (n_payees spec) r"
proof -
  let ?v = "visits (spends spec) (n_payees spec)"
  have u: "unat (of_nat (?v q) :: 96 word) = ?v q" for q
    using visits_le[of "spends spec" "n_payees spec" q] assms(3) by (simp add: unat_of_nat)
  have "(\<Sum>q\<leftarrow>filter (\<lambda>q. 0 < ?v q) xs. if address_of (payee_addr q) = address_of (payee_addr r) then ?v q else 0)
      = (\<Sum>q\<leftarrow>xs. if q = r then ?v q else 0)" if "set xs \<subseteq> {..<n_payees spec}" for xs
    using that assms(1,2) by (induction xs) (auto simp: address_of_inj addr_length addr_distinct)
  from this[of "[0..<n_payees spec]"]
  have "paid_to (address_of (payee_addr r)) (map (\<lambda>r. (address_of (payee_addr r), of_nat (?v r))) (net_payees (spends spec) (n_payees spec)))
      = (\<Sum>q\<leftarrow>[0..<n_payees spec]. if q = r then ?v q else 0)"
    by (simp add: paid_to_def net_payees_def comp_def u cong: if_cong) (simp add: subset_eq)
  also have "\<dots> = ?v r"
    using assms(2) by (simp add: interv_sum_list_conv_sum_set_nat)
  finally show ?thesis .
qed

lemma settle_succeeds:
  assumes "length zi = 3" "length prf = 25" "length tos = length amounts" "novaDecider st \<noteq> 0" "epochStatus st epoch \<noteq> PROVEN"
    and "orgNonce st tokenId = ucast n" "unat n + 1 < 2 ^ 32" "64 < length sig"
    and "ecrecover X (be_word (keccak256 X (proven_message X env epoch transfers zi tokenId tos amounts steps n))) (sig ! 64)
        (be_word (take 32 sig)) (be_word (take 32 (drop 32 sig))) = orgOf st tokenId"
    and "withdrawals_acc X lib tokenId (zip tos amounts) = zi ! 2"
    and "verify_opaque X (novaDecider st) steps [lastProvenRoot st, 0, 0] zi prf = Some True"
    and room: "\<And>a. unat (balanceOf st tokenId a) + (\<Sum>(to, amt)\<leftarrow>zip tos amounts. unat amt) < 2 ^ 256"
  shows "\<exists>st'. settleEpochProven X lib env epoch transfers zi tokenId tos amounts n sig steps prf st = Inr st'
    \<and> lastProvenRoot st' = zi ! 0 \<and> lastProvenEpoch st' = epoch \<and> epochStatus st' epoch = PROVEN \<and> exited st' = exited st
    \<and> (\<forall>a. unat (balanceOf st' tokenId a) = unat (balanceOf st tokenId a) + paid_to a (zip tos amounts))"
proof -
  have req: "require True e = Inr ()" for e by (simp add: require_def)
  have nonce: "sol_add n 1 = Inr (n + 1)" using assms(7) by (simp add: sol_add_Inr)
  let ?st = "st\<lparr>orgNonce := (orgNonce st)(tokenId := ucast (n + 1)), transfersRoot := (transfersRoot st)(epoch := transfers),
      stateRoot := (stateRoot st)(epoch := zi ! 0), epochStatus := (epochStatus st)(epoch := PROVEN),
      lastProvenRoot := zi ! 0, lastProvenEpoch := epoch, unprovenStreak := 0\<rparr>"
  have "\<exists>st'. credit_all tokenId (zip tos amounts) ?st = Inr st'"
    by (rule credit_all_total) (use room in simp)
  then obtain st' where st': "credit_all tokenId (zip tos amounts) ?st = Inr st'" by blast
  have "settleEpochProven X lib env epoch transfers zi tokenId tos amounts n sig steps prf st = Inr st'"
    by (simp add: settleEpochProven_def auth_def Let_def req nonce assms(1-11) st')
  moreover obtain b where "st' = ?st\<lparr>balanceOf := b\<rparr>" using credit_all_effect[OF st'] by blast
  ultimately show ?thesis using credit_all_balances[OF st'] by auto
qed

lemma exit_succeeds:
  assumes "generate_solidity cfg = Inr lib" "config_wf cfg" "alpha cfg = 5" "capacity cfg = 1"
    and "length sibs = 22" "length isRight = 22"
    and "exit_root \<lparr>config = cfg\<rparr> \<lparr>acc_key = word_fr (fieldKey X (msg_sender env) tokenId), acc_token = word_fr tokenId,
          acc_balance = word_fr (ucast bal), acc_nonce = word_fr (ucast n)\<rparr> (map word_fr sibs) isRight = Inr rt"
    and "lastProvenRoot st = fr_word rt"
    and "\<not> exited st (be_word (keccak256 X (be_bytes 32 tokenId @ be_bytes 32 (fieldKey X (msg_sender env) tokenId))))"
    and "unat (balanceOf st tokenId (msg_sender env)) + unat bal < 2 ^ 256"
  shows "\<exists>st'. exit_account X lib env tokenId bal n sibs isRight st = Inr st'
    \<and> unat (balanceOf st' tokenId (msg_sender env)) = unat (balanceOf st tokenId (msg_sender env)) + unat bal"
proof -
  have canon: "\<exists>x. exit_node lib path (fr_word h) = fr_word x" for path h
  proof (induction path arbitrary: h)
    case (Cons p path)
    obtain s r where p: "p = (s, r)" by fastforce
    obtain y where "(if r then hash2 lib s (fr_word h) else hash2 lib (fr_word h) s) = fr_word y"
      using that by (cases r) (auto simp: hash4_spec(2)[OF assms(1-4)])
    then show ?case using Cons[of y] by (simp add: p exit_node_def)
  qed (auto simp: exit_node_def)
  let ?leaf = "hash4 lib (fieldKey X (msg_sender env) tokenId) tokenId (ucast bal) (ucast n)"
  obtain l where l: "?leaf = fr_word l" using hash4_spec(1)[OF assms(1-4)] by blast
  have "account_leaf \<lparr>config = cfg\<rparr> \<lparr>acc_key = word_fr (fieldKey X (msg_sender env) tokenId), acc_token = word_fr tokenId,
          acc_balance = word_fr (ucast bal), acc_nonce = word_fr (ucast n)\<rparr> = Inr (word_fr ?leaf)"
    by (simp add: account_leaf_def hash4_spec[OF assms(1-4)] native_arity native_hn_spec[OF assms(2)])
  then have "word_fr (exit_node lib (zip sibs isRight) ?leaf) = rt"
    using assms(7) exit_node_path[OF assms(1-4), of "zip sibs isRight" ?leaf] by (simp add: exit_root_def zip_map1)
  moreover obtain x where "exit_node lib (zip sibs isRight) ?leaf = fr_word x" using canon l by metis
  ultimately have nd: "exit_node lib (zip sibs isRight) ?leaf = fr_word rt" by simp
  have u: "unat (ucast bal :: uint256) = unat bal"
    by (simp add: unsigned_ucast_eq take_bit_nat_eq_self order_less_trans[OF unsigned_less])
  have b: "sol_add (balanceOf st tokenId (msg_sender env)) (ucast bal) = Inr (balanceOf st tokenId (msg_sender env) + ucast bal)"
    using assms(10) u by (simp add: sol_add_Inr)
  have req: "require True e = Inr ()" for e by (simp add: require_def)
  show ?thesis
    using sol_add_value[OF b] u by (simp add: exit_account_def Let_def req assms(5,6,8,9) nd b)
qed

section \<open>Properties\<close>

text \<open>What the contract recomputes from the artifacts of a workload.\<close>

lemma artifact_facts:
  assumes "generate_solidity cfg = Inr lib" "config_wf cfg" "alpha cfg = 5" "capacity cfg = 1"
    and "funded spec" "keys_ok (keys_of (keccak256 X) spec)" "pad_fits spec" "n_payees spec \<le> 65536"
    and "build oc (keccak256 X) cfg spec ep = Inr w"
  shows "length (wl_native_zn w) = 3" "wl_z0 w = [wl_z0 w ! 0, 0, 0]" "length (artifact_tos w) = length (artifact_amounts w)"
    "withdrawals_acc X lib 1 (zip (artifact_tos w) (artifact_amounts w)) = fr_word (wl_native_zn w ! 2)"
    "(\<Sum>(to, amt)\<leftarrow>zip (artifact_tos w) (artifact_amounts w). unat amt) = spends spec"
    "r < n_payees spec \<Longrightarrow> paid_to (address_of (payee_addr r)) (zip (artifact_tos w) (artifact_amounts w)) = visits (spends spec) (n_payees spec) r"
proof -
  have w: "workload_ok cfg spec w" "payouts_ok (keccak256 X) spec w"
    using build_result[OF assms(2,5-7), of oc ep] assms(9) by auto
  have s: "spends spec < 2 ^ 64" "0 < n_payees spec" using assms(5) by (simp_all add: funded_def)
  obtain z0 zn oacc nacc where z: "wl_z0 w = [z0, 0, 0]" "wl_native_zn w = [zn, oacc, nacc]"
      "fold_nets fr_field \<lparr>config = cfg\<rparr> (map (\<lambda>n. (net_key n, from_u64 1, from_u128 (net_amount n))) (wl_nets w)) 0 = Inr nacc"
    using w(1) by (auto simp: workload_ok_def)
  note p = artifact_payouts[OF w(2) s(1)]
  show "length (wl_native_zn w) = 3" "wl_z0 w = [wl_z0 w ! 0, 0, 0]" by (simp_all add: z)
  show "length (artifact_tos w) = length (artifact_amounts w)" by (simp add: artifact_tos_def artifact_amounts_def)
  show "withdrawals_acc X lib 1 (zip (artifact_tos w) (artifact_amounts w)) = fr_word (wl_native_zn w ! 2)"
    using withdrawals_acc_fold[OF assms(1-4), of X 1 "zip (artifact_tos w) (artifact_amounts w)"] p(2) z(2,3) by auto
  have u: "unat (of_nat (visits (spends spec) (n_payees spec) q) :: 96 word) = unat (of_nat (visits (spends spec) (n_payees spec) q) :: 128 word)" for q
    using visits_le[of "spends spec" "n_payees spec" q] s(1) by (simp add: unat_of_nat)
  show "(\<Sum>(to, amt)\<leftarrow>zip (artifact_tos w) (artifact_amounts w). unat amt) = spends spec"
    unfolding p(1) using net_sum[OF s(2,1)] by (simp add: comp_def u)
  show "r < n_payees spec \<Longrightarrow> paid_to (address_of (payee_addr r)) (zip (artifact_tos w) (artifact_amounts w)) = visits (spends spec) (n_payees spec) r"
    using paid_to_payee[OF assms(8) _ s(1)] by (simp add: p(1))
qed

text \<open>
  C16. The artifacts settle.  Given the payouts and the final state of a workload, a signature of
  the token's organisation and a proof the verifier accepts, the proven settlement succeeds on any contract whose last
  proven root is the initial root of the workload: it recomputes the same accumulator, stores the final root, and credits every
  payee one unit for each spend it received.
\<close>

theorem artifacts_settle:
  assumes "generate_solidity cfg = Inr lib" "config_wf cfg" "alpha cfg = 5" "capacity cfg = 1"
    and "funded spec" "keys_ok (keys_of (keccak256 X) spec)" "pad_fits spec" "n_payees spec \<le> 65536"
    and "build oc (keccak256 X) cfg spec ep = Inr w" "zi = map fr_word (wl_native_zn w)"
    and "novaDecider st \<noteq> 0" "epochStatus st epoch \<noteq> PROVEN" "lastProvenRoot st = fr_word (wl_z0 w ! 0)"
    and "orgNonce st 1 = ucast n" "unat n + 1 < 2 ^ 32" "64 < length sig" "length prf = 25"
    and "ecrecover X (be_word (keccak256 X (proven_message X env epoch transfers zi 1 (artifact_tos w) (artifact_amounts w) steps n)))
        (sig ! 64) (be_word (take 32 sig)) (be_word (take 32 (drop 32 sig))) = orgOf st 1"
    and "verify_opaque X (novaDecider st) steps (map fr_word (wl_z0 w)) zi prf = Some True"
    and "\<And>a. unat (balanceOf st 1 a) + spends spec < 2 ^ 256"
  shows "\<exists>st'. settleEpochProven X lib env epoch transfers zi 1 (artifact_tos w) (artifact_amounts w) n sig steps prf st = Inr st'
    \<and> lastProvenRoot st' = fr_word (wl_native_zn w ! 0) \<and> epochStatus st' epoch = PROVEN
    \<and> (\<forall>r<n_payees spec. unat (balanceOf st' 1 (address_of (payee_addr r)))
        = unat (balanceOf st 1 (address_of (payee_addr r))) + visits (spends spec) (n_payees spec) r)"
proof -
  note f = artifact_facts[OF assms(1-9)]
  have v: "verify_opaque X (novaDecider st) steps [lastProvenRoot st, 0, 0] zi prf = Some True"
    using assms(13,19) arg_cong[OF f(2), of "map fr_word"] by (simp add: fr_word_0)
  have zi: "length zi = 3" "zi ! 0 = fr_word (wl_native_zn w ! 0)" "withdrawals_acc X lib 1 (zip (artifact_tos w) (artifact_amounts w)) = zi ! 2"
    by (simp_all add: assms(10) f(1,4))
  have room: "unat (balanceOf st 1 a) + (\<Sum>(to, amt)\<leftarrow>zip (artifact_tos w) (artifact_amounts w). unat amt) < 2 ^ 256" for a
    using assms(20) by (simp add: f(5))
  show ?thesis
    using settle_succeeds[OF zi(1) assms(17) f(3) assms(11,12,14-16,18) zi(3) v room] by (auto simp: zi(2) f(6))
qed

text \<open>
  C17. The exit entry is accepted.  On a contract whose last proven root is the final root of a
  workload, the owner of the exit entry, unless it has already exited, can exit with it and is credited its balance.
\<close>

theorem exit_entry_accepted:
  assumes "generate_solidity cfg = Inr lib" "config_wf cfg" "alpha cfg = 5" "capacity cfg = 1"
    and "funded spec" "keys_ok (keys_of (keccak256 X) spec)" "pad_fits spec"
    and "build oc (keccak256 X) cfg spec ep = Inr w"
    and "lastProvenRoot st = fr_word (wl_native_zn w ! 0)" "msg_sender env = address_of (exit_owner (wl_exit w))"
    and "\<not> exited st (be_word (keccak256 X (be_bytes 32 (1::uint256) @ be_bytes 32 (fieldKey X (msg_sender env) 1))))"
    and "unat (balanceOf st 1 (msg_sender env)) + unat (exit_balance (wl_exit w)) < 2 ^ 256"
  shows "\<exists>st'. exit_account X lib env 1 (ucast (exit_balance (wl_exit w))) (exit_nonce (wl_exit w))
        (map fr_word (exit_siblings (wl_exit w))) (exit_is_right (wl_exit w)) st = Inr st'
    \<and> unat (balanceOf st' 1 (msg_sender env)) = unat (balanceOf st 1 (msg_sender env)) + unat (exit_balance (wl_exit w))"
proof -
  let ?x = "wl_exit w"
  have w: "workload_ok cfg spec w" "payouts_ok (keccak256 X) spec w"
    using build_result[OF assms(2,5-7), of oc ep] assms(8) by auto
  have l: "loads spec < 2 ^ 64" using assms(5) by (simp add: funded_def)
  have x: "exit_owner ?x = account_addr 0" "exit_key ?x = field_key (keccak256 X) (account_addr 0) 1"
      "unat (exit_balance ?x) \<le> 1000 * loads spec"
    using w(2) visits_le[of "loads spec" "n_accounts spec" 0] by (auto simp: payouts_ok_def)
  then have b: "unat (exit_balance ?x) < 2 ^ 96" using l by simp
  then have u: "unat (ucast (exit_balance ?x) :: 96 word) = unat (exit_balance ?x)"
    by (simp add: unsigned_ucast_eq take_bit_nat_eq_self)
  obtain r' where z: "wl_native_zn w ! 0 = r'" "length (exit_siblings ?x) = 22" "length (exit_is_right ?x) = 22"
      "exit_root \<lparr>config = cfg\<rparr> \<lparr>acc_key = exit_key ?x, acc_token = from_u64 1,
          acc_balance = from_u128 (exit_balance ?x), acc_nonce = from_u64 (exit_nonce ?x)\<rparr> (exit_siblings ?x) (exit_is_right ?x) = Inr r'"
    using w(1) by (auto simp: workload_ok_def DEPTH_def)
  have key: "word_fr (fieldKey X (msg_sender env) 1) = exit_key ?x"
    using fieldKey_field_key[of "account_addr 0" X 1] by (simp add: assms(10) x(1,2) addr_length)
  have "word_fr 1 = from_u64 1" using word_fr_1 by simp
  then have root: "exit_root \<lparr>config = cfg\<rparr> \<lparr>acc_key = word_fr (fieldKey X (msg_sender env) 1), acc_token = word_fr 1,
        acc_balance = word_fr (ucast (ucast (exit_balance ?x) :: 96 word)), acc_nonce = word_fr (ucast (exit_nonce ?x))\<rparr>
      (map word_fr (map fr_word (exit_siblings ?x))) (exit_is_right ?x) = Inr r'"
    using z(4) unfolding key word_fr_amount[OF b] word_fr_u64 by (simp add: comp_def)
  show ?thesis
    using exit_succeeds[OF assms(1-4) _ z(3) root assms(9)[unfolded z(1)] assms(11)] assms(12) z(2) u by simp
qed

section \<open>A chain to run the contract on\<close>

text \<open>
  A signature with a nonzero last byte is the organisation's, number 42; the verifier replays given
  batches.
\<close>

definition toy_chain :: "fr op_witness epoch_step_input list \<Rightarrow> chain" where
  "toy_chain batches = \<lparr>keccak256 = toy_digest, ecrecover = (\<lambda>_ v _ _. if v = 0 then 0 else 42),
     verify_opaque = (\<lambda>_ steps z0 zi _. Some (word_fr steps = of_nat (length batches) \<and> map fr_word (map word_fr zi) = zi
       \<and> replay_accepts toy_config batches (map word_fr z0) (map word_fr zi)))\<rparr>"

definition toy_checkpoint :: "fr \<Rightarrow> checkpoint" where
  "toy_checkpoint rt = (construct 7 (fr_word rt))\<lparr>orgOf := (\<lambda>t. if t = 1 then 42 else 0), novaDecider := 9\<rparr>"

definition toy_env :: call_env where
  "toy_env = \<lparr>msg_sender = 5, block_timestamp = 100000, chain_id = 1, this_address = 3\<rparr>"

lemma toy_chain_sound: "verifier_sound (toy_chain batches) toy_config decider"
proof -
  have "\<exists>z. zi = map fr_word z \<and> circuit_run toy_config (length batches) z0 z"
    if "map fr_word (map word_fr zi) = zi" "replay_accepts toy_config batches z0 (map word_fr zi)" for z0 zi
    by (rule exI[of _ "map word_fr zi"]) (use that replay_run in \<open>simp del: map_map\<close>)
  then show ?thesis by (auto simp: verifier_sound_def toy_chain_def comp_def)
qed

lemma toy_shape: "alpha toy_config = 5" "capacity toy_config = 1"
  by (simp_all add: toy_config_def)

lemma toy_lib: obtains lib where "generate_solidity toy_config = Inr lib"
  by (simp add: generate_solidity_def toy_config_def)

lemma toy_leads:
  "leads (toy_chain []) lib (construct 7 99) ((construct 7 99)\<lparr>orgOf := (\<lambda>_. 0)(1 := 42)\<rparr>)"
  by (rule leads_step[OF leads_refl, where env = toy_env and tx = "CreateToken 1 42"])
    (simp add: createToken_def require_def construct_def)

text \<open>Three settlements without a proof in a row, of an epoch that was closed early enough.\<close>

definition toy_settle :: "32 word \<Rightarrow> tx" where
  "toy_settle n = SettleEpoch 4 77 2 [] [] n (replicate 65 0)"

definition toy_settled :: "nat \<Rightarrow> checkpoint" where
  "toy_settled k = (construct 7 99)\<lparr>epochClosedAt := (\<lambda>_. 0)(4 := 1), orgNonce := (\<lambda>_. 0)(2 := of_nat k),
     transfersRoot := (\<lambda>_. 0)(4 := 77), epochStatus := (\<lambda>_. NONE)(0 := PROVEN, 4 := UNPROVEN), unprovenStreak := of_nat k\<rparr>"

lemma toy_settle_runs:
  "exec_tx (toy_chain []) lib toy_env (toy_settle 0) ((construct 7 99)\<lparr>epochClosedAt := (\<lambda>_. 0)(4 := 1)\<rparr>) = Inr (toy_settled 1)"
  "exec_tx (toy_chain []) lib toy_env (toy_settle 1) (toy_settled 1) = Inr (toy_settled 2)"
  "exec_tx (toy_chain []) lib toy_env (toy_settle 2) (toy_settled 2) = Inr (toy_settled 3)"
  by (simp_all add: toy_settle_def toy_settled_def settleEpoch_def auth_def construct_def toy_chain_def toy_env_def require_def
      sol_add_def PROVER_TIMEOUT_def CATCHUP_EPOCHS_def Let_def fun_upd_idem)

lemma toy_leads_by:
  "leads_by (toy_chain []) lib (construct 7 99) [MarkEpochClosed 4, toy_settle 0, toy_settle 1, toy_settle 2] (toy_settled 3)"
proof -
  have "exec_tx (toy_chain []) lib (toy_env\<lparr>block_timestamp := 1\<rparr>) (MarkEpochClosed 4) (construct 7 99)
      = Inr ((construct 7 99)\<lparr>epochClosedAt := (\<lambda>_. 0)(4 := 1)\<rparr>)"
    by (simp add: markEpochClosed_def construct_def)
  from leads_by_step[OF leads_by_step[OF leads_by_step[OF leads_by_step[OF leads_by_refl this] toy_settle_runs(1)] toy_settle_runs(2)]
      toy_settle_runs(3)]
  show ?thesis by simp
qed

theorem checkpoint_invariant_witness:
  "\<exists>lib txs st. generate_solidity toy_config = Inr lib \<and> leads_by (toy_chain []) lib (construct 7 99) txs st
     \<and> length (filter settles_unproven txs) = 3 \<and> unat (unprovenStreak st) = 3
     \<and> stateRoot st (lastProvenEpoch st) = lastProvenRoot st \<and> stateRoot st 0 = 99 \<and> epochStatus st 4 = UNPROVEN"
proof -
  obtain lib where lib: "generate_solidity toy_config = Inr lib" by (rule toy_lib)
  note l = toy_leads_by[of lib]
  have "length (filter settles_unproven [MarkEpochClosed 4, toy_settle 0, toy_settle 1, toy_settle 2]) = 3"
    "unat (unprovenStreak (toy_settled 3)) = 3" "epochStatus (toy_settled 3) 4 = UNPROVEN"
    by (simp_all add: toy_settle_def toy_settled_def)
  then show ?thesis using lib l checkpoint_invariant[OF l] by blast
qed

text \<open>A chain whose digest gives every account the key 12, to settle the small run of the circuit.\<close>

definition key_chain :: chain where
  "key_chain = (toy_chain [])\<lparr>keccak256 := (\<lambda>_. [12])\<rparr>"

lemma key_chain_payouts: "field_payouts key_chain 1 [(5, 10)] = [(12, 1, 10)]"
  by (simp add: field_payouts_def fieldKey_def contract_field_key_def key_chain_def word_fr_def fr_modulus_def)

theorem settlement_binding_witness:
  "\<exists>lib os rt z. generate_solidity toy_config = Inr lib \<and> circuit_trace toy_config 3 2 os [rt, 0, 0] z \<and> length os = 3
     \<and> withdrawals_acc key_chain lib 1 [(5, 10)] = fr_word (z ! 2)
     \<and> (case nets_break_of \<lparr>config = toy_config\<rparr> [(12, 1, 10)] (rev (batch_nets os)) of
          Some b \<Rightarrow> is_nets_break \<lparr>config = toy_config\<rparr> b
        | None \<Rightarrow> [(12, 1, 10)] = map (\<lambda>op. (from_key op, token_id op, fr_int (amount op)))
            (filter (\<lambda>op. active op \<and> kind op = from_u64 (code Withdraw)) os))"
proof -
  obtain lib where lib: "generate_solidity toy_config = Inr lib" by (rule toy_lib)
  note c = lib toy_config_wf(1) toy_shape
  obtain t L os rt r oacc nacc where t: "circuit_trace toy_config 3 2 os [rt, 0, 0] [r, oacc, nacc]" "length os = 3"
      "fold_nets fr_field \<lparr>config = toy_config\<rparr> [(12, 1, 10)] 0 = Inr nacc"
    by (rule toy_trace)
  have w: "withdrawals_acc key_chain lib 1 [(5, 10)] = fr_word ([r, oacc, nacc] ! 2)"
    using withdrawals_acc_fold[OF c, of key_chain 1 "[(5, 10)]"] t(3) by (simp add: key_chain_payouts)
  have key: "word_fr (fieldKey key_chain 5 1) = 12" "(word_fr 1 :: fr) = 1"
    using key_chain_payouts by (simp_all add: field_payouts_def)
  show ?thesis
    using settlement_binding[OF c t(1) w] lib t(1,2) w key
    by (intro exI[of _ lib] exI[of _ os] exI[of _ rt] exI[of _ "[r, oacc, nacc]"]) (simp add: key_chain_payouts split: option.splits)
qed

theorem proven_epochs_final_witness:
  "epochStatus (construct 7 99) 0 = PROVEN \<and> stateRoot ((construct 7 99)\<lparr>orgOf := (\<lambda>_. 0)(1 := 42)\<rparr>) 0 = stateRoot (construct 7 99) 0"
  using proven_epochs_final[OF toy_leads, where ep = 0] by (auto simp: construct_def)

theorem unset_org_accepts_any_signature_witness:
  "\<exists>st'. settleEpoch (toy_chain []) toy_env 4 77 2 [5] [1000] 0 (replicate 65 0) ((toy_checkpoint 0)\<lparr>epochClosedAt := (\<lambda>_. 1)\<rparr>) = Inr st'
     \<and> unat (balanceOf st' 2 5) = 1000 \<and> unat (unprovenStreak st') = 1"
proof -
  let ?st = "(toy_checkpoint 0)\<lparr>epochClosedAt := (\<lambda>_. 1)\<rparr>"
  have "orgOf ?st 2 = 0" "\<And>d r s. ecrecover (toy_chain []) d 0 r s = 0" "epochStatus ?st 4 \<noteq> PROVEN" "epochClosedAt ?st 4 \<noteq> 0"
    "unat (epochClosedAt ?st 4) + 21600 \<le> unat (block_timestamp toy_env)" "unat (unprovenStreak ?st) < 3"
    "orgNonce ?st 2 = ucast (0 :: 32 word)" "unat (0 :: 32 word) + 1 < 2 ^ 32"
    "unat (balanceOf ?st 2 5) + unat (1000 :: 96 word) < 2 ^ 256"
    by (simp_all add: toy_checkpoint_def construct_def toy_chain_def toy_env_def)
  from unset_org_accepts_any_signature[OF this, of 77]
  show ?thesis by (auto simp: toy_checkpoint_def construct_def)
qed

theorem exit_pays_proven_balance_witness:
  "\<exists>lib rt sibs isRight st'. generate_solidity toy_config = Inr lib
     \<and> exit_account (toy_chain []) lib toy_env 1 500 0 sibs isRight (toy_checkpoint rt) = Inr st'
     \<and> unat (balanceOf st' 1 5) = unat (balanceOf (toy_checkpoint rt) 1 5) + 500
     \<and> (\<exists>err. exit_account (toy_chain []) lib toy_env 1 500 0 sibs isRight st' = Inl err)"
proof -
  obtain lib where lib: "generate_solidity toy_config = Inr lib" by (rule toy_lib)
  let ?X = "toy_chain []"
  let ?k = "word_fr (fieldKey ?X 5 1)"
  show ?thesis
  proof (rule genesis_simulates[OF toy_config_wf(1), of DEPTH "[(?k, 1, 500, 0)]" True])
    fix e0 e L
    assume e: "exec_ok DEPTH e L" "exec_book e L = fold book_register [(?k, 1, 500, 0)] Map.empty" "hasher e = \<lparr>config = toy_config\<rparr>"
    have "exec_book e L ?k = Some \<lparr>ent_token = 1, ent_balance = 500, ent_nonce = 0\<rparr>"
      by (simp add: e(2) book_register_def)
    then obtain i b n where L: "L i = Some \<lparr>acc_key = ?k, acc_token = 1, acc_balance = from_u128 b, acc_nonce = from_u64 n\<rparr>"
        "slot_of (map (bit i) [0..<DEPTH]) = i" "unat b = 500" "unat n = 0"
      using exec_book_account[OF e(1)] by (metis entry.select_convs)
    have bn: "from_u128 b = word_fr (ucast (500 :: 96 word))" "from_u64 n = word_fr (ucast (0 :: 64 word))"
      using L(3,4) by (simp_all add: from_u128_def from_u64_def word_fr_def del: of_nat_unat)
    have c: "commits \<lparr>config = toy_config\<rparr> DEPTH (tree e) L" using exec_okD(1)[OF e(1)] e(3) by simp
    let ?rt = "node_val (tree e) DEPTH 0" and ?bits = "map (bit i) [0..<DEPTH]"
    let ?sibs = "map fr_word (tree_siblings (tree e) i)"
    have rt: "root (tree e) = Inr ?rt" using c by (auto simp: commits_def root_eq)
    have one: "(1 :: fr) = word_fr 1" by (simp add: word_fr_def)
    have "exit_root \<lparr>config = toy_config\<rparr> \<lparr>acc_key = ?k, acc_token = word_fr 1, acc_balance = word_fr (ucast (500 :: 96 word)),
        acc_nonce = word_fr (ucast (0 :: 64 word))\<rparr> (map word_fr ?sibs) ?bits = Inr ?rt"
      using honest_root[OF c, of ?bits] L(1,2) unfolding bn one exit_root_def by (simp add: comp_def)
    then have "\<exists>st'. exit_account ?X lib toy_env 1 500 0 ?sibs ?bits (toy_checkpoint ?rt) = Inr st'
        \<and> unat (balanceOf st' 1 (msg_sender toy_env)) = unat (balanceOf (toy_checkpoint ?rt) 1 (msg_sender toy_env)) + unat (500 :: 96 word)"
      by (intro exit_succeeds[OF lib toy_config_wf(1) toy_shape])
        (simp_all add: exec_paths(3)[OF e(1)] DEPTH_def toy_env_def toy_checkpoint_def construct_def)
    then obtain st' where s: "exit_account ?X lib toy_env 1 500 0 ?sibs ?bits (toy_checkpoint ?rt) = Inr st'" by blast
    have "lastProvenRoot (toy_checkpoint ?rt) = fr_word ?rt" by (simp add: toy_checkpoint_def construct_def)
    note R = exit_pays_proven_balance[OF lib toy_config_wf(1) toy_shape c rt this s, where st'' = st' and env' = toy_env
        and bal' = 500 and n' = 0 and sibs' = ?sibs and isRight' = ?bits]
    have "msg_sender toy_env = 5" by (simp add: toy_env_def)
    then have R: "unat (balanceOf st' 1 5) = unat (balanceOf (toy_checkpoint ?rt) 1 5) + 500"
        "\<exists>err. exit_account ?X lib toy_env 1 500 0 ?sibs ?bits st' = Inl err"
      using R leads_refl by auto
    show ?thesis by (rule exI[of _ lib], rule exI[of _ ?rt], rule exI[of _ ?sibs], rule exI[of _ ?bits], rule exI[of _ st'])
      (intro conjI lib s R)
  qed (simp_all add: DEPTH_def)
qed

lemma toy_verify:
  assumes "replay_accepts toy_config batches z0 z" "word_fr steps = of_nat (length batches)"
  shows "verify_opaque (toy_chain batches) d steps (map fr_word z0) (map fr_word z) prf = Some True"
  using assms by (simp add: toy_chain_def comp_def)

text \<open>A ledger with two accounts and one batch of operations on it, which the replaying verifier accepts.\<close>

lemma toy_batch:
  obtains batches t L rt z where "commits \<lparr>config = toy_config\<rparr> DEPTH t L" "balances_ok L" "root t = Inr rt"
    "length batches = 1" "length z = 3" "z ! 2 = 0" "replay_accepts toy_config batches [rt, 0, 0] z"
proof (rule genesis_simulates[OF toy_config_wf(1), of DEPTH toy_accounts True])
  fix e0 e L
  assume e0: "executor_new fr_field toy_config DEPTH = Inr e0" "register_all True fr_field DEPTH toy_accounts e0 = Inr e"
  assume e: "exec_ok DEPTH e L" "exec_book e L = fold book_register toy_accounts Map.empty" "hasher e = \<lparr>config = toy_config\<rparr>"
    "ops_acc e = 0" "nets_acc e = 0" "nets e = []"
  have bal: "balances_ok L"
    by (rule exec_balances_ok[OF e(1)])
      (auto simp: e(2) toy_accounts_def book_register_def VALUE_BITS_def split: if_splits)
  let ?rs = "[(Load, 11, 12, 1, 200)] :: fr request list"
  have ne: "(11::fr) \<noteq> 12" by (simp add: fr_numeral_eq_iff fr_modulus_def)
  have "\<exists>B'. book_run ?rs (exec_book e L) = Some B'"
    using toy_book(1,2) ne by (simp add: e(2) book_apply_def book_debit_def book_credit_def VALUE_BITS_def)
  then obtain ws e' where r: "exec_run True fr_field DEPTH ?rs e = Inr (ws, e')" "chain_ok (hasher e) DEPTH ws e e'" "length ws = 1"
    using run_simulates[OF e(1), of ?rs _ True] by fastforce
  have c: "commits \<lparr>config = toy_config\<rparr> DEPTH (tree e) L" using exec_okD(1)[OF e(1)] e(3) by simp
  let ?rt = "node_val (tree e) DEPTH 0" and ?bs = "chunk_into_batches ws"
  have rt: "root (tree e) = Inr ?rt" using c by (auto simp: commits_def root_eq)
  have ws: "list_all (op_shape DEPTH) ws" "step_check \<lparr>config = toy_config\<rparr> (map field_op ws) (?rt, 0, 0)
      = Inr (node_val (tree e') DEPTH 0, ops_acc e', nets_acc e')"
    using r(2) e(3-5) by (simp_all add: chain_ok_def step_check_def)
  have "nets e' = []" using exec_run_nets_list[OF r(1)] e(6) by (simp add: request_nets_def)
  moreover have "nets_ok fr_field e'"
    by (rule exec_run_nets[OF r(1) nets_ok_register_all[OF e0(2) nets_ok_new[OF e0(1)]]])
  ultimately have n0: "nets_acc e' = 0" by (simp add: nets_ok_def net_values_def fold_nets_def)
  let ?z = "[node_val (tree e') DEPTH 0, ops_acc e', 0]"
  have "replay_accepts toy_config ?bs [?rt, 0, 0] ?z"
    using ws(2) chunk_lengths chunk_shape[OF ws(1)] epoch_check_chunk[OF toy_config_wf(1)]
    by (auto simp: replay_accepts_def list_all_iff n0)
  then show ?thesis
    using that[OF c bal rt, of ?bs ?z] by (simp add: length_chunk r(3) BATCH_def)
qed (simp_all add: DEPTH_def toy_accounts_def)

lemma toy_settlement:
  assumes "replay_accepts toy_config batches [rt, 0, 0] z" "length batches = 1" "length z = 3" "z ! 2 = 0"
    and "lastProvenRoot st = fr_word rt" "novaDecider st \<noteq> 0" "epochStatus st 1 \<noteq> PROVEN" "orgNonce st 1 = 0" "orgOf st 1 = 42"
  shows "\<exists>st'. settleEpochProven (toy_chain batches) lib toy_env 1 2 (map fr_word z) 1 [] [] 0 (replicate 65 1) 1 (replicate 25 0) st = Inr st'"
proof -
  have "verify_opaque (toy_chain batches) (novaDecider st) 1 (map fr_word [rt, 0, 0]) (map fr_word z) (replicate 25 0) = Some True"
    by (rule toy_verify) (simp_all add: assms(1,2) word_fr_def)
  then have v: "verify_opaque (toy_chain batches) (novaDecider st) 1 [lastProvenRoot st, 0, 0] (map fr_word z) (replicate 25 0) = Some True"
    by (simp add: assms(5) fr_word_0)
  have "unat (balanceOf st 1 a) < 2 ^ 256" for a
    using unsigned_less[of "balanceOf st 1 a", where 'a = nat] by simp
  then show ?thesis
    using settle_succeeds[OF _ _ _ _ _ _ _ _ _ _ v, of "[]" "[]" 1 1 0 "replicate 65 1" toy_env 2 lib] assms(3,4,6-9)
    by (auto simp: toy_chain_def withdrawals_acc_def fr_word_0)
qed

theorem settlement_is_ledger_run_witness:
  "\<exists>lib batches t L rt zi st' k os. generate_solidity toy_config = Inr lib \<and> commits \<lparr>config = toy_config\<rparr> DEPTH t L \<and> root t = Inr rt
     \<and> settleEpochProven (toy_chain batches) lib toy_env 1 2 zi 1 [] [] 0 (replicate 65 1) 1 (replicate 25 0) (toy_checkpoint rt) = Inr st'
     \<and> length batches = 1 \<and> (1::fr) = of_nat k \<and> length os = k * BATCH
     \<and> (case follow_ops \<lparr>config = toy_config\<rparr> os (t, L) of Inl b \<Rightarrow> is_break \<lparr>config = toy_config\<rparr> b
        | Inr (t', L') \<Rightarrow> root t' = Inr (word_fr (lastProvenRoot st')) \<and> ledger_run L os L')"
proof -
  obtain lib where lib: "generate_solidity toy_config = Inr lib" by (rule toy_lib)
  obtain batches t L rt z where t: "commits \<lparr>config = toy_config\<rparr> DEPTH t L" "balances_ok L" "root t = Inr rt"
      and z: "length batches = 1" "length z = 3" "z ! 2 = 0" "replay_accepts toy_config batches [rt, 0, 0] z"
    by (rule toy_batch)
  have rt: "lastProvenRoot (toy_checkpoint rt) = fr_word rt" by (simp add: toy_checkpoint_def construct_def)
  obtain st' where s: "settleEpochProven (toy_chain batches) lib toy_env 1 2 (map fr_word z) 1 [] [] 0 (replicate 65 1) 1 (replicate 25 0)
      (toy_checkpoint rt) = Inr st'"
    using toy_settlement[OF z(4,1-3) rt, of lib] by (auto simp: toy_checkpoint_def construct_def)
  note R = settlement_is_ledger_run[OF lib toy_config_wf(1) toy_shape toy_chain_sound t rt s, THEN conjunct2, THEN conjunct2]
  obtain k os where k: "word_fr 1 = of_nat k" "length os = k * BATCH"
      "case follow_ops \<lparr>config = toy_config\<rparr> os (t, L) of Inl b \<Rightarrow> is_break \<lparr>config = toy_config\<rparr> b
          | Inr (t', L') \<Rightarrow> commits \<lparr>config = toy_config\<rparr> DEPTH t' L' \<and> balances_ok L' \<and> root t' = Inr (word_fr (lastProvenRoot st'))
              \<and> ledger_run L os L' \<and> (\<forall>token. total_supply token L' = total_supply token L)"
    using R by (elim exE conjE) (rule that)
  have "case follow_ops \<lparr>config = toy_config\<rparr> os (t, L) of Inl b \<Rightarrow> is_break \<lparr>config = toy_config\<rparr> b
        | Inr (t', L') \<Rightarrow> root t' = Inr (word_fr (lastProvenRoot st')) \<and> ledger_run L os L'"
    using k(3) by (simp split: sum.splits prod.splits)
  moreover have "(1::fr) = of_nat k" using k(1) by (simp add: word_fr_def)
  ultimately show ?thesis using lib t(1,3) s z(1) k(2) by blast
qed

text \<open>The small workload, padded to 12 steps, on the chain whose verifier replays it.\<close>

lemma toy_workload:
  obtains w where "build True toy_digest toy_config (with_pad_to_steps (Some 12) spec_small) 1 = Inr w"
    "replay_accepts toy_config (wl_batches w) (wl_z0 w) (wl_native_zn w)" "length (wl_batches w) = 12"
proof -
  let ?s = "with_pad_to_steps (Some 12) spec_small"
  have f: "funded ?s" using scale_spec_funded[OF toy_spec(1)] by blast
  obtain w where w: "build True toy_digest toy_config ?s 1 = Inr w" "workload_ok toy_config ?s w"
    using build_result[OF toy_config_wf(1) f toy_spec(2,3)] by blast
  have "length (wl_batches w) = 12" using w(2) by (simp add: workload_ok_def with_pad_to_steps_def)
  moreover have "replay_accepts toy_config (wl_batches w) (wl_z0 w) (wl_native_zn w)"
    using w(2) by (auto simp: workload_ok_def replay_accepts_def)
  ultimately show ?thesis using that w(1) by blast
qed

lemma small_counts: "funded (with_pad_to_steps (Some 12) spec_small)" "n_payees (with_pad_to_steps (Some 12) spec_small) = 3"
  "spends (with_pad_to_steps (Some 12) spec_small) = 60"
proof -
  show "funded (with_pad_to_steps (Some 12) spec_small)" using scale_spec_funded[OF toy_spec(1)] by blast
qed (simp_all add: with_pad_to_steps_def spec_small_def)

theorem artifacts_settle_witness:
  "\<exists>lib w st'. generate_solidity toy_config = Inr lib
     \<and> build True toy_digest toy_config (with_pad_to_steps (Some 12) spec_small) 1 = Inr w
     \<and> settleEpochProven (toy_chain (wl_batches w)) lib toy_env 1 2 (map fr_word (wl_native_zn w)) 1 (artifact_tos w) (artifact_amounts w)
         0 (replicate 65 1) 12 (replicate 25 0) (toy_checkpoint (wl_z0 w ! 0)) = Inr st'
     \<and> unat (balanceOf st' 1 (address_of (payee_addr 0))) = 20"
proof -
  let ?s = "with_pad_to_steps (Some 12) spec_small"
  obtain lib where lib: "generate_solidity toy_config = Inr lib" by (rule toy_lib)
  obtain w where w: "build True toy_digest toy_config ?s 1 = Inr w"
      "replay_accepts toy_config (wl_batches w) (wl_z0 w) (wl_native_zn w)" "length (wl_batches w) = 12"
    by (rule toy_workload)
  let ?X = "toy_chain (wl_batches w)" and ?st = "toy_checkpoint (wl_z0 w ! 0)"
  have k: "keccak256 ?X = toy_digest" by (simp add: toy_chain_def)
  have v: "verify_opaque ?X (novaDecider ?st) 12 (map fr_word (wl_z0 w)) (map fr_word (wl_native_zn w)) (replicate 25 0) = Some True"
    by (rule toy_verify[OF w(2)]) (simp add: w(3) word_fr_def)
  have st: "novaDecider ?st \<noteq> 0" "epochStatus ?st 1 \<noteq> PROVEN" "lastProvenRoot ?st = fr_word (wl_z0 w ! 0)" "orgNonce ?st 1 = ucast (0 :: 32 word)"
    "orgOf ?st 1 = 42" "balanceOf ?st 1 a = 0" for a
    by (simp_all add: toy_checkpoint_def construct_def)
  have sig: "ecrecover ?X d (replicate 65 1 ! 64) r s = orgOf ?st 1" for d r s
    by (simp add: st(5)) (simp add: toy_chain_def)
  have vis: "visits 60 3 0 = 20" by (simp add: visits_def upt_rec)
  obtain st' where s: "settleEpochProven ?X lib toy_env 1 2 (map fr_word (wl_native_zn w)) 1 (artifact_tos w) (artifact_amounts w)
        0 (replicate 65 1) 12 (replicate 25 0) ?st = Inr st'"
      "\<forall>r<n_payees ?s. unat (balanceOf st' 1 (address_of (payee_addr r)))
        = unat (balanceOf ?st 1 (address_of (payee_addr r))) + visits (spends ?s) (n_payees ?s) r"
    using artifacts_settle[OF lib toy_config_wf(1) toy_shape small_counts(1) toy_spec(2,3)[folded k] _ w(1)[folded k] refl
        st(1-4) _ _ _ sig v, where env = toy_env and transfers = 2] by (auto simp: small_counts st(6))
  have "unat (balanceOf st' 1 (address_of (payee_addr 0))) = 20"
    using s(2)[rule_format, of 0] by (simp add: small_counts st(6) vis)
  then show ?thesis using lib w(1) s(1) by blast
qed

theorem exit_entry_accepted_witness:
  "\<exists>lib w st'. generate_solidity toy_config = Inr lib
     \<and> build True toy_digest toy_config (with_pad_to_steps (Some 12) spec_small) 1 = Inr w
     \<and> exit_account (toy_chain []) lib (toy_env\<lparr>msg_sender := address_of (exit_owner (wl_exit w))\<rparr>) 1 (ucast (exit_balance (wl_exit w)))
         (exit_nonce (wl_exit w)) (map fr_word (exit_siblings (wl_exit w))) (exit_is_right (wl_exit w))
         (toy_checkpoint (wl_native_zn w ! 0)) = Inr st'"
proof -
  let ?s = "with_pad_to_steps (Some 12) spec_small"
  obtain lib where lib: "generate_solidity toy_config = Inr lib" by (rule toy_lib)
  obtain w where w: "build True toy_digest toy_config ?s 1 = Inr w"
    by (rule toy_workload)
  let ?env = "toy_env\<lparr>msg_sender := address_of (exit_owner (wl_exit w))\<rparr>" and ?st = "toy_checkpoint (wl_native_zn w ! 0)"
  have k: "keccak256 (toy_chain []) = toy_digest" by (simp add: toy_chain_def)
  have "unat (exit_balance (wl_exit w)) < 2 ^ 256" by (rule order_less_trans[OF unsigned_less]) simp
  then show ?thesis
    using exit_entry_accepted[OF lib toy_config_wf(1) toy_shape small_counts(1) toy_spec(2,3)[folded k] w[folded k], of ?st ?env] lib w
    by (auto simp: toy_checkpoint_def construct_def)
qed

end
