(* ===== verification/Checkpoint_Chain.thy ===== *)
theory Checkpoint_Chain
  imports Checkpoint_Artifacts
begin

text \<open>
  The life of a contract.  Once the verifier is frozen, all the settlements that follow are, together, one run of
  the ledger the last proven root committed to; what can be proved of an exit at any later time rests on it.  The
  theory also states what re-settling, freezing early and truncated token numbers allow.
\<close>

section \<open>Runs in sequence\<close>

lemma follow_ops_append: "follow_ops pn (os @ os') s = result_bind (follow_ops pn os s) (follow_ops pn os')"
  by (induction os arbitrary: s) (simp_all add: follow_ops_def result_bind_def split: sum.splits)

text \<open>
  A root is reached from a tree and its ledger by operations: following them computes a break of the hash, or leads by
  valid transfers to a ledger the root commits to.
\<close>

definition reaches :: "fr poseidon_config \<Rightarrow> fr merkle_tree \<times> ledger \<Rightarrow> fr op_values list \<Rightarrow> uint256 \<Rightarrow> bool" where
  "reaches cfg s os w = (case follow_ops \<lparr>config = cfg\<rparr> os s of
       Inl b \<Rightarrow> is_break \<lparr>config = cfg\<rparr> b
     | Inr (t', L') \<Rightarrow> commits \<lparr>config = cfg\<rparr> DEPTH t' L' \<and> balances_ok L' \<and> (\<exists>rt'. root t' = Inr rt' \<and> w = fr_word rt')
         \<and> ledger_run (snd s) os L')"

lemma reaches_start:
  assumes "commits \<lparr>config = cfg\<rparr> DEPTH t L" "balances_ok L" "root t = Inr rt" "w = fr_word rt"
  shows "reaches cfg (t, L) [] w"
  using assms by (simp add: reaches_def follow_ops_def ledger_run_Nil)

lemma reaches_step:
  assumes r: "reaches cfg s os w"
    and "\<And>t L rt. commits \<lparr>config = cfg\<rparr> DEPTH t L \<Longrightarrow> balances_ok L \<Longrightarrow> root t = Inr rt \<Longrightarrow> w = fr_word rt \<Longrightarrow> \<exists>os'. reaches cfg (t, L) os' w'"
  shows "\<exists>os'. reaches cfg s os' w'"
proof (cases "follow_ops \<lparr>config = cfg\<rparr> os s")
  case (Inl b)
  then show ?thesis using r by (intro exI[of _ os]) (simp add: reaches_def)
next
  case (Inr p)
  obtain t L where p: "p = (t, L)" by fastforce
  then have "commits \<lparr>config = cfg\<rparr> DEPTH t L" "balances_ok L" "\<exists>rt. root t = Inr rt \<and> w = fr_word rt"
    using r Inr by (simp_all add: reaches_def)
  then obtain os' where "reaches cfg (t, L) os' w'" using assms(2) by blast
  moreover have "ledger_run (snd s) os L" using r Inr by (simp add: reaches_def p)
  ultimately have "reaches cfg s (os @ os') w'"
    by (auto simp: reaches_def follow_ops_append Inr p split: sum.splits intro: ledger_run_append[THEN iffD2] exI)
  then show ?thesis by blast
qed

section \<open>The contract after the freeze\<close>

text \<open>Only a proven settlement changes the last proven root.\<close>

lemma last_root_changes:
  assumes "exec_tx X lib env tx st = Inr st'" "lastProvenRoot st' \<noteq> lastProvenRoot st"
  obtains epoch transfers zi tokenId tos amounts n sig steps pw where
    "settleEpochProven X lib env epoch transfers zi tokenId tos amounts n sig steps pw st = Inr st'"
proof (cases tx)
  case (Exit tokenId bal n sibs isRight)
  then show ?thesis using assms by (auto simp: Let_def dest!: exit_effect)
next
  case SettleEpochProven
  then show ?thesis using assms(1) by (auto intro: that)
next
  case (SettleEpoch epoch transfers tokenId tos amounts n sig)
  then show ?thesis using assms settleEpoch_effect[of X env epoch transfers tokenId tos amounts n sig st st'] by auto
qed (use assms in \<open>auto simp: createToken_def onlyGovernance_def initializeDecider_def proposeDeciderUpgrade_def
       executeDeciderUpgrade_def freezeVerifier_def markEpochClosed_def requestExitData_def answerExitData_def
       result_bind_Inr_iff split: if_splits\<close>)

lemma settlement_reaches:
  assumes "generate_solidity cfg = Inr lib" "config_wf cfg" "alpha cfg = 5" "capacity cfg = 1"
    and "verifier_sound X cfg (novaDecider st)" "commits \<lparr>config = cfg\<rparr> DEPTH t L" "balances_ok L" "root t = Inr rt" "lastProvenRoot st = fr_word rt"
    and "settleEpochProven X lib env epoch transfers zi tokenId tos amounts n sig steps prf st = Inr st'"
  shows "\<exists>os. reaches cfg (t, L) os (lastProvenRoot st')"
proof -
  obtain k z where k: "circuit_run cfg k [rt, 0, 0] z" "lastProvenRoot st' = fr_word (z ! 0)"
      "fold_nets fr_field \<lparr>config = cfg\<rparr> (field_payouts X tokenId (zip tos amounts)) 0 = Inr (z ! 2)"
    by (rule proven_settlement_run[OF assms(1-5,9,10)])
  show ?thesis
    using circuit_run_ledger[OF assms(2) k(1) assms(6-8) k(3)] by (auto simp: reaches_def k(2) split: sum.splits)
qed

lemma frozen_reaches:
  assumes "generate_solidity cfg = Inr lib" "config_wf cfg" "alpha cfg = 5" "capacity cfg = 1"
    and "verifierFrozen st" "novaDecider st \<noteq> 0" "verifier_sound X cfg (novaDecider st)"
    and "reaches cfg s [] (lastProvenRoot st)" "leads X lib st st'"
  shows "\<exists>os. reaches cfg s os (lastProvenRoot st')"
  using assms(9,5-8)
proof (induction rule: leads.induct)
  case (leads_step st st' env tx st'')
  have d: "novaDecider st' = novaDecider st"
    using keepsD(10)[OF conjunct1[OF leads_keeps[OF leads_step.hyps(1)]] leads_step.prems(1,2)] .
  obtain os where os: "reaches cfg s os (lastProvenRoot st')" using leads_step.IH[OF leads_step.prems] by blast
  show ?case
  proof (cases "lastProvenRoot st'' = lastProvenRoot st'")
    case False
    then obtain epoch transfers zi tokenId tos amounts n sig steps pw where
      "settleEpochProven X lib env epoch transfers zi tokenId tos amounts n sig steps pw st' = Inr st''"
      by (rule last_root_changes[OF leads_step.hyps(2)])
    from settlement_reaches[OF assms(1-4) _ _ _ _ _ this] show ?thesis
      using leads_step.prems(3) by (intro reaches_step[OF os]) (auto simp: d)
  qed (use os in auto)
qed blast

section \<open>Exits\<close>

text \<open>Every exit that succeeds claims what the ledger has at the claimed position, or opening it computes a break.\<close>

definition exits_hold :: "fr poseidon_config \<Rightarrow> chain \<Rightarrow> solidity_lib \<Rightarrow> checkpoint \<Rightarrow> fr merkle_tree \<times> ledger \<Rightarrow> bool" where
  "exits_hold cfg X lib st s \<longleftrightarrow>
    (\<forall>env tokenId bal n sibs isRight st'. exit_account X lib env tokenId bal n sibs isRight st = Inr st' \<longrightarrow>
      (let claim = \<lparr>acc_key = word_fr (fieldKey X (msg_sender env) tokenId), acc_token = word_fr tokenId,
          acc_balance = word_fr (ucast bal), acc_nonce = word_fr (ucast n)\<rparr> in
       case opening_break \<lparr>config = cfg\<rparr> s claim (map word_fr sibs) isRight of
         Some b \<Rightarrow> is_break \<lparr>config = cfg\<rparr> b | None \<Rightarrow> snd s (slot_of isRight) = Some claim))"

lemma exits_holdI:
  assumes "generate_solidity cfg = Inr lib" "config_wf cfg" "alpha cfg = 5" "capacity cfg = 1"
    and "commits \<lparr>config = cfg\<rparr> DEPTH t L" "root t = Inr rt" "lastProvenRoot st = fr_word rt"
  shows "exits_hold cfg X lib st (t, L)"
  unfolding exits_hold_def Let_def snd_conv by (intro allI impI) (rule exit_opens[OF assms])

section \<open>Properties\<close>

text \<open>
  C5. A frozen contract is one run of the ledger.  Let the verifier be frozen, set and knowledge sound, and the
  last proven root be the root of a tree that commits to a ledger.  Then, whatever transactions follow, there are
  operations such that following them either computes a break of the hash or leads by valid transfers to a ledger that
  the last proven root then commits to, with every supply as before; and an exit that succeeds at that point claims what
  this ledger has at the claimed position, or a break is computed.
\<close>

theorem frozen_contract_is_one_run:
  assumes "generate_solidity cfg = Inr lib" "config_wf cfg" "alpha cfg = 5" "capacity cfg = 1"
    and "verifierFrozen st" "novaDecider st \<noteq> 0" "verifier_sound X cfg (novaDecider st)"
    and "commits \<lparr>config = cfg\<rparr> DEPTH t L" "balances_ok L" "root t = Inr rt" "lastProvenRoot st = fr_word rt"
    and "leads X lib st st'"
  shows "\<exists>os. case follow_ops \<lparr>config = cfg\<rparr> os (t, L) of
      Inl b \<Rightarrow> is_break \<lparr>config = cfg\<rparr> b
    | Inr (t', L') \<Rightarrow> commits \<lparr>config = cfg\<rparr> DEPTH t' L' \<and> balances_ok L' \<and> root t' = Inr (word_fr (lastProvenRoot st'))
        \<and> ledger_run L os L' \<and> (\<forall>token. total_supply token L' = total_supply token L)
        \<and> exits_hold cfg X lib st' (t', L')"
proof -
  obtain os where os: "reaches cfg (t, L) os (lastProvenRoot st')"
    using frozen_reaches[OF assms(1-7) reaches_start[OF assms(8-11)] assms(12)] by blast
  show ?thesis
  proof (rule exI[of _ os], cases "follow_ops \<lparr>config = cfg\<rparr> os (t, L)")
    case (Inr p)
    obtain t' L' where p: "p = (t', L')" by fastforce
    obtain rt' where r: "commits \<lparr>config = cfg\<rparr> DEPTH t' L'" "balances_ok L'" "root t' = Inr rt'" "lastProvenRoot st' = fr_word rt'"
        "ledger_run L os L'"
      using os Inr p by (auto simp: reaches_def)
    show "case follow_ops \<lparr>config = cfg\<rparr> os (t, L) of Inl b \<Rightarrow> is_break \<lparr>config = cfg\<rparr> b
      | Inr (t', L') \<Rightarrow> commits \<lparr>config = cfg\<rparr> DEPTH t' L' \<and> balances_ok L' \<and> root t' = Inr (word_fr (lastProvenRoot st'))
        \<and> ledger_run L os L' \<and> (\<forall>token. total_supply token L' = total_supply token L)
        \<and> exits_hold cfg X lib st' (t', L')"
      using r ledger_run_supply[OF r(5)] exits_holdI[OF assms(1-4) r(1,3,4)] by (simp add: Inr p)
  qed (use os in \<open>simp add: reaches_def\<close>)
qed

theorem frozen_contract_is_one_run_witness:
  "\<exists>lib batches t L rt zi st st' os. generate_solidity toy_config = Inr lib \<and> commits \<lparr>config = toy_config\<rparr> DEPTH t L \<and> root t = Inr rt
     \<and> st = (toy_checkpoint rt)\<lparr>verifierFrozen := True\<rparr>
     \<and> settleEpochProven (toy_chain batches) lib toy_env 1 2 zi 1 [] [] 0 (replicate 65 1) 1 (replicate 25 0) st = Inr st'
     \<and> (case follow_ops \<lparr>config = toy_config\<rparr> os (t, L) of Inl b \<Rightarrow> is_break \<lparr>config = toy_config\<rparr> b
        | Inr (t', L') \<Rightarrow> root t' = Inr (word_fr (lastProvenRoot st')) \<and> ledger_run L os L')"
proof -
  obtain lib where lib: "generate_solidity toy_config = Inr lib" by (rule toy_lib)
  obtain batches t L rt z where t: "commits \<lparr>config = toy_config\<rparr> DEPTH t L" "balances_ok L" "root t = Inr rt"
      and z: "length batches = 1" "length z = 3" "z ! 2 = 0" "replay_accepts toy_config batches [rt, 0, 0] z"
    by (rule toy_batch)
  let ?st = "(toy_checkpoint rt)\<lparr>verifierFrozen := True\<rparr>"
  have st: "verifierFrozen ?st" "novaDecider ?st \<noteq> 0" "lastProvenRoot ?st = fr_word rt"
    by (simp_all add: toy_checkpoint_def construct_def)
  obtain st' where s: "settleEpochProven (toy_chain batches) lib toy_env 1 2 (map fr_word z) 1 [] [] 0 (replicate 65 1) 1 (replicate 25 0) ?st = Inr st'"
    using toy_settlement[OF z(4,1-3) st(3,2), of lib] by (auto simp: toy_checkpoint_def construct_def)
  have "leads (toy_chain batches) lib ?st st'"
    by (rule leads_step[OF leads_refl, where env = toy_env
        and tx = "SettleEpochProven 1 2 (map fr_word z) 1 [] [] 0 (replicate 65 1) 1 (replicate 25 0)"]) (simp add: s)
  from frozen_contract_is_one_run[OF lib toy_config_wf(1) toy_shape st(1,2) toy_chain_sound t st(3) this]
  have "\<exists>os. case follow_ops \<lparr>config = toy_config\<rparr> os (t, L) of Inl b \<Rightarrow> is_break \<lparr>config = toy_config\<rparr> b
      | Inr (t', L') \<Rightarrow> root t' = Inr (word_fr (lastProvenRoot st')) \<and> ledger_run L os L'"
    by (rule ex_forward) (auto split: sum.splits prod.splits)
  then show ?thesis using lib t(1,3) s by blast
qed

text \<open>
  C32. Catching up pays again.  When an epoch was settled without a proof and is later settled with one, whatever happened
  in between, a payee that both settlements list has been credited twice: the unproven settlement is not taken back.
\<close>

theorem catch_up_pays_again:
  assumes "settleEpoch X env epoch transfers tokenId tos amounts n sig st = Inr st1" "leads X lib st1 st2"
    and "settleEpochProven X lib env' epoch transfers' zi tokenId tos amounts n' sig' steps pw st2 = Inr st3"
  shows "unat (balanceOf st tokenId a) + 2 * paid_to a (zip tos amounts) \<le> unat (balanceOf st3 tokenId a)
    \<and> epochStatus st3 epoch = PROVEN"
proof -
  have "unat (balanceOf st1 tokenId a) = unat (balanceOf st tokenId a) + paid_to a (zip tos amounts)"
    by (rule settleEpoch_credits[OF assms(1)])
  moreover have "balanceOf st1 tokenId a \<le> balanceOf st2 tokenId a"
    by (rule keepsD(7)[OF conjunct1[OF leads_keeps[OF assms(2)]]])
  moreover have "unat (balanceOf st3 tokenId a) = unat (balanceOf st2 tokenId a) + paid_to a (zip tos amounts)"
    by (rule settleEpochProven_credits[OF assms(3)])
  moreover have "epochStatus st3 epoch = PROVEN" using settleEpochProven_effect[OF assms(3)] by auto
  ultimately show ?thesis by (simp add: word_le_nat_alt)
qed

theorem catch_up_pays_again_witness:
  "\<exists>lib w st1 st3. generate_solidity toy_config = Inr lib
     \<and> build True toy_digest toy_config (with_pad_to_steps (Some 12) spec_small) 1 = Inr w
     \<and> settleEpoch (toy_chain (wl_batches w)) toy_env 1 2 1 (artifact_tos w) (artifact_amounts w) 0 (replicate 65 1)
         ((toy_checkpoint (wl_z0 w ! 0))\<lparr>epochClosedAt := (\<lambda>_. 1)\<rparr>) = Inr st1
     \<and> settleEpochProven (toy_chain (wl_batches w)) lib toy_env 1 2 (map fr_word (wl_native_zn w)) 1 (artifact_tos w) (artifact_amounts w)
         1 (replicate 65 1) 12 (replicate 25 0) st1 = Inr st3
     \<and> 40 \<le> unat (balanceOf st3 1 (address_of (payee_addr 0)))"
proof -
  let ?s = "with_pad_to_steps (Some 12) spec_small"
  obtain lib where lib: "generate_solidity toy_config = Inr lib" by (rule toy_lib)
  obtain w where w: "build True toy_digest toy_config ?s 1 = Inr w"
      "replay_accepts toy_config (wl_batches w) (wl_z0 w) (wl_native_zn w)" "length (wl_batches w) = 12"
    by (rule toy_workload)
  let ?X = "toy_chain (wl_batches w)" and ?st = "(toy_checkpoint (wl_z0 w ! 0))\<lparr>epochClosedAt := (\<lambda>_. 1)\<rparr>"
  let ?ps = "zip (artifact_tos w) (artifact_amounts w)" and ?zi = "map fr_word (wl_native_zn w)"
  have k: "keccak256 ?X = toy_digest" by (simp add: toy_chain_def)
  have "n_payees ?s \<le> 65536" by (simp add: small_counts)
  note f = artifact_facts[OF lib toy_config_wf(1) toy_shape small_counts(1) toy_spec(2,3)[folded k] this w(1)[folded k]]
  have sig: "ecrecover ?X d 1 r s = 42" for d r s by (simp add: toy_chain_def)
  have st: "epochStatus (toy_checkpoint rt) 1 = NONE" "unprovenStreak (toy_checkpoint rt) = 0" "orgNonce (toy_checkpoint rt) 1 = 0"
    "orgOf (toy_checkpoint rt) 1 = 42" "balanceOf (toy_checkpoint rt) 1 a = 0" "novaDecider (toy_checkpoint rt) = 9"
    "lastProvenRoot (toy_checkpoint rt) = fr_word rt" "block_timestamp toy_env = 100000" for a rt
    by (simp_all add: toy_checkpoint_def construct_def toy_env_def)
  have b: "(\<Sum>(to, amt)\<leftarrow>?ps. unat amt) = 60" using f(5) by (simp add: small_counts)
  obtain st1 where s1: "settleEpoch ?X toy_env 1 2 1 (artifact_tos w) (artifact_amounts w) 0 (replicate 65 1) ?st = Inr st1"
    using settleEpoch_succeeds[OF f(3), of ?st 1 toy_env 1 0 "replicate 65 1" ?X 2] by (auto simp: st sig b)
  obtain bal where st1: "st1 = ?st\<lparr>orgNonce := (orgNonce ?st)(1 := 1), transfersRoot := (transfersRoot ?st)(1 := 2),
      epochStatus := (epochStatus ?st)(1 := UNPROVEN), unprovenStreak := 1, balanceOf := bal\<rparr>"
    using settleEpoch_effect[OF s1] by (auto simp: st)
  have paid: "unat (balanceOf st1 1 a) = paid_to a ?ps" for a using settleEpoch_credits[OF s1, of a] by (simp add: st)
  have v: "verify_opaque ?X (novaDecider st1) 12 [lastProvenRoot st1, 0, 0] ?zi (replicate 25 0) = Some True"
    using toy_verify[OF w(2), of 12 9 "replicate 25 0"] arg_cong[OF f(2), of "map fr_word"] w(3)
    by (simp add: st1 st(6,7) fr_word_0 word_fr_def)
  have room: "unat (balanceOf st1 1 a) + (\<Sum>(to, amt)\<leftarrow>?ps. unat amt) < 2 ^ 256" for a
    using paid_to_le[of a ?ps] by (simp add: paid b)
  have acc: "withdrawals_acc ?X lib 1 ?ps = ?zi ! 2" using f(1,4) by simp
  have "novaDecider st1 \<noteq> 0" "epochStatus st1 1 \<noteq> PROVEN" "orgNonce st1 1 = ucast (1 :: 32 word)" "orgOf st1 1 = 42"
    by (simp_all add: st1 st(4,6))
  then obtain st3 where s3: "settleEpochProven ?X lib toy_env 1 2 ?zi 1 (artifact_tos w) (artifact_amounts w) 1 (replicate 65 1) 12 (replicate 25 0) st1 = Inr st3"
    using settle_succeeds[OF _ _ f(3) _ _ _ _ _ _ acc v room, of 1 1 "replicate 65 1" toy_env 2] f(1) by (auto simp: sig)
  have "visits 60 3 0 = 20" by (simp add: visits_def upt_rec)
  then have "40 \<le> unat (balanceOf st3 1 (address_of (payee_addr 0)))"
    using catch_up_pays_again[OF s1 leads_refl s3, of "address_of (payee_addr 0)"] f(6)[of 0] by (simp add: small_counts)
  then show ?thesis using lib w(1) s1 s3 by blast
qed

section \<open>Two gaps\<close>

text \<open>Freezing before the first verifier is set fixes nothing: governance can still set any verifier.\<close>

lemma freeze_before_initialize:
  assumes "novaDecider st = 0" "msg_sender env = governance st"
  shows "\<exists>st1 st2. freezeVerifier env st = Inr st1 \<and> initializeDecider env decider pp st1 = Inr st2
    \<and> verifierFrozen st2 \<and> novaDecider st2 = decider"
  using assms by (simp add: freezeVerifier_def initializeDecider_def onlyGovernance_def require_def)

text \<open>A signature for an unproven settlement of a token is one for the token that differs by \<open>2 ^ 32\<close>.\<close>

lemma unproven_message_truncates:
  "unproven_message X env epoch transfers (tokenId + 2 ^ 32) tos amounts n = unproven_message X env epoch transfers tokenId tos amounts n"
proof -
  have "(ucast (tokenId + 2 ^ 32) :: 32 word) = ucast tokenId"
    by (rule word_unat_eq_iff[THEN iffD2]) (simp add: unsigned_ucast_eq take_bit_eq_mod unat_word_ariths mod_mod_cancel)
  then show ?thesis by (simp add: unproven_message_def)
qed

end
