(* ===== verification/Solidity_Fragment.thy ===== *)
theory Solidity_Fragment
  imports Poseidon_Codegen
begin

text \<open>
  The part of Solidity the generated library is written in: a lexer and a parser of its text, and an evaluator of its
  functions on 256-bit words.  Arithmetic is checked, arrays have a fixed length and an index outside of it reverts, blocks
  have a scope of their own; whatever is not understood, or reverts, is \<open>None\<close>.  An array is a value: the library never
  reads one under two names after a write.  The compiler's other checks (types, visibility, undeclared names) are not made.
\<close>

section \<open>Syntax\<close>

datatype binop = Add | Mul | Mod | Less | Geq | Or

datatype expr =
    Lit nat
  | Var string
  | Index expr expr
  | App string "expr list"
  | Bin binop expr expr

text \<open>The loop is \<^verbatim>\<open>for (uint256 v = 0; v < bound; v++)\<close>; its bound is a literal or a constant.\<close>

datatype stmt =
    Array string nat
  | Local string expr
  | Assign string expr
  | Store string expr expr
  | For string expr "stmt list"
  | If expr "stmt list" "stmt list"
  | Return expr

text \<open>A function, the name and length of its result when it is named, and a library.\<close>

record func =
  fn_params :: "string list"
  fn_result :: "(string \<times> nat) option"
  fn_body :: "stmt list"

record library =
  lib_consts :: "(string \<times> nat) list"
  lib_funcs :: "(string \<times> func) list"

section \<open>Evaluation\<close>

datatype sol_val = Word uint256 | Flag bool | Memory "uint256 list"

type_synonym env = "string \<rightharpoonup> sol_val"
type_synonym calls = "string \<Rightarrow> sol_val list \<Rightarrow> sol_val option"

fun binary :: "binop \<Rightarrow> sol_val \<Rightarrow> sol_val \<Rightarrow> sol_val option" where
  "binary Add (Word a) (Word b) = (if unat a + unat b < 2 ^ 256 then Some (Word (a + b)) else None)"
| "binary Mul (Word a) (Word b) = (if unat a * unat b < 2 ^ 256 then Some (Word (a * b)) else None)"
| "binary Mod (Word a) (Word b) = (if b = 0 then None else Some (Word (a mod b)))"
| "binary Less (Word a) (Word b) = Some (Flag (a < b))"
| "binary Geq (Word a) (Word b) = Some (Flag (b \<le> a))"
| "binary _ _ _ = None"

fun modular :: "(uint256 \<Rightarrow> uint256 \<Rightarrow> uint256 \<Rightarrow> uint256) \<Rightarrow> sol_val list \<Rightarrow> sol_val option" where
  "modular f [Word a, Word b, Word m] = (if m = 0 then None else Some (Word (f a b m)))"
| "modular f _ = None"

definition apply_fn :: "calls \<Rightarrow> string \<Rightarrow> sol_val list \<Rightarrow> sol_val option" where
  "apply_fn c f vs = (if f = ''addmod'' then modular addmod vs else if f = ''mulmod'' then modular mulmod vs else c f vs)"

definition select :: "sol_val \<Rightarrow> sol_val \<Rightarrow> sol_val option" where
  "select a i = (case (a, i) of
     (Memory m, Word w) \<Rightarrow> if unat w < length m then Some (Word (m ! unat w)) else None | _ \<Rightarrow> None)"

fun eval :: "calls \<Rightarrow> env \<Rightarrow> expr \<Rightarrow> sol_val option" and evals :: "calls \<Rightarrow> env \<Rightarrow> expr list \<Rightarrow> sol_val list option" where
  "eval c s (Lit n) = (if n < 2 ^ 256 then Some (Word (of_nat n)) else None)"
| "eval c s (Var x) = s x"
| "eval c s (Index a i) = Option.bind (eval c s a) (\<lambda>a. Option.bind (eval c s i) (select a))"
| "eval c s (App f es) = Option.bind (evals c s es) (apply_fn c f)"
| "eval c s (Bin b x y) = (if b = Or
     then Option.bind (eval c s x) (\<lambda>v. if v = Flag True then Some v else if v = Flag False then eval c s y else None)
     else Option.bind (eval c s x) (\<lambda>v. Option.bind (eval c s y) (binary b v)))"
| "evals c s [] = Some []"
| "evals c s (e # es) = Option.bind (eval c s e) (\<lambda>v. Option.bind (evals c s es) (\<lambda>vs. Some (v # vs)))"

text \<open>A statement ends with an environment, or returns a value.\<close>

datatype outcome = Go env | Ret sol_val

definition continue :: "outcome option \<Rightarrow> (env \<Rightarrow> outcome option) \<Rightarrow> outcome option" where
  "continue r f = (case r of Some (Go s) \<Rightarrow> f s | _ \<Rightarrow> r)"

text \<open>The names a block declares are as before after it.\<close>

fun declared :: "stmt list \<Rightarrow> string list" where
  "declared [] = []"
| "declared (Array x n # ss) = x # declared ss"
| "declared (Local x e # ss) = x # declared ss"
| "declared (_ # ss) = declared ss"

definition leave :: "string list \<Rightarrow> env \<Rightarrow> outcome option \<Rightarrow> outcome option" where
  "leave xs s r = continue r (\<lambda>s'. Some (Go (\<lambda>x. if x \<in> set xs then s x else s' x)))"

fun loop :: "(env \<Rightarrow> outcome option) \<Rightarrow> string \<Rightarrow> nat list \<Rightarrow> env \<Rightarrow> outcome option" where
  "loop f v [] s = Some (Go s)"
| "loop f v (i # is) s = continue (f (s(v \<mapsto> Word (of_nat i)))) (loop f v is)"

definition store :: "env \<Rightarrow> string \<Rightarrow> sol_val \<Rightarrow> sol_val \<Rightarrow> outcome option" where
  "store s x i v = (case (s x, i, v) of
     (Some (Memory m), Word i, Word v) \<Rightarrow> if unat i < length m then Some (Go (s(x \<mapsto> Memory (m[unat i := v])))) else None
   | _ \<Rightarrow> None)"

fun exec :: "calls \<Rightarrow> env \<Rightarrow> stmt \<Rightarrow> outcome option" and execs :: "calls \<Rightarrow> env \<Rightarrow> stmt list \<Rightarrow> outcome option" where
  "exec c s (Array x n) = Some (Go (s(x \<mapsto> Memory (replicate n 0))))"
| "exec c s (Local x e) = Option.bind (eval c s e) (\<lambda>v. Some (Go (s(x \<mapsto> v))))"
| "exec c s (Assign x e) = Option.bind (eval c s e) (\<lambda>v. Some (Go (s(x \<mapsto> v))))"
| "exec c s (Store x i e) = Option.bind (eval c s i) (\<lambda>i. Option.bind (eval c s e) (store s x i))"
| "exec c s (For v b body) = Option.bind (eval c s b) (\<lambda>n. case n of
     Word n \<Rightarrow> leave [v] s (loop (\<lambda>s. leave (declared body) s (execs c s body)) v [0..<unat n] s) | _ \<Rightarrow> None)"
| "exec c s (If e p q) = Option.bind (eval c s e) (\<lambda>b. case b of
     Flag b \<Rightarrow> if b then leave (declared p) s (execs c s p) else leave (declared q) s (execs c s q) | _ \<Rightarrow> None)"
| "exec c s (Return e) = Option.bind (eval c s e) (\<lambda>v. Some (Ret v))"
| "execs c s [] = Some (Go s)"
| "execs c s (x # xs) = continue (exec c s x) (\<lambda>s. execs c s xs)"

text \<open>Constants, parameters and a named result are in scope of a body; calls nest at most \<open>n\<close> deep.\<close>

definition entry_env :: "library \<Rightarrow> func \<Rightarrow> sol_val list \<Rightarrow> env" where
  "entry_env L f vs = ((\<lambda>x. Option.bind (map_of (lib_consts L) x) (\<lambda>n. if n < 2 ^ 256 then Some (Word (of_nat n)) else None))
     ++ map_of (zip (fn_params f) vs)) ++ (case fn_result f of None \<Rightarrow> Map.empty | Some (x, n) \<Rightarrow> [x \<mapsto> Memory (replicate n 0)])"

definition run_fn :: "library \<Rightarrow> calls \<Rightarrow> func \<Rightarrow> sol_val list \<Rightarrow> sol_val option" where
  "run_fn L c f vs = (if length vs \<noteq> length (fn_params f) then None
     else case execs c (entry_env L f vs) (fn_body f) of
       Some (Ret v) \<Rightarrow> Some v
     | Some (Go s) \<Rightarrow> Option.bind (fn_result f) (\<lambda>(x, n). s x)
     | None \<Rightarrow> None)"

fun call_fn :: "library \<Rightarrow> nat \<Rightarrow> calls" where
  "call_fn L 0 f vs = None"
| "call_fn L (Suc n) f vs = Option.bind (map_of (lib_funcs L) f) (\<lambda>fn. run_fn L (call_fn L n) fn vs)"

section \<open>Tokens\<close>

datatype token = Id string | Num nat | Sym string

definition char_in :: "nat \<Rightarrow> nat \<Rightarrow> char \<Rightarrow> bool" where
  "char_in a b c \<longleftrightarrow> a \<le> (of_char c :: nat) \<and> (of_char c :: nat) \<le> b"

definition is_digit :: "char \<Rightarrow> bool" where
  "is_digit c \<longleftrightarrow> char_in 48 57 c"

definition is_word :: "char \<Rightarrow> bool" where
  "is_word c \<longleftrightarrow> char_in 97 122 c \<or> char_in 65 90 c \<or> char_in 48 57 c \<or> c = CHR ''_''"

definition read_number :: "string \<Rightarrow> nat" where
  "read_number s = foldl (\<lambda>n c. 10 * n + (of_char c - 48)) 0 (takeWhile is_digit s)"

text \<open>The tokens of a line; a comment extends to its end.\<close>

function lex :: "string \<Rightarrow> token list" where
  "lex [] = []"
| "lex (c # s) =
    (if c = CHR '' '' then lex s
     else if c = CHR ''/'' \<and> take 1 s = ''/'' then []
     else if is_digit c then Num (read_number (c # s)) # lex (dropWhile is_digit s)
     else if is_word c then Id (c # takeWhile is_word s) # lex (dropWhile is_word s)
     else if c # take 1 s \<in> {''>='', ''||'', ''++''} then Sym (c # take 1 s) # lex (drop 1 s)
     else Sym [c] # lex s)"
  by pat_completeness auto
termination by (relation "measure length") (auto simp: less_Suc_eq_le length_dropWhile_le)

definition newline :: char where
  "newline = CHR 0x0A"

fun split_lines :: "string \<Rightarrow> string \<Rightarrow> string list" where
  "split_lines l [] = []"
| "split_lines l (c # s) = (if c = newline then l # split_lines [] s else split_lines (l @ [c]) s)"

definition lexes :: "string list \<Rightarrow> token list" where
  "lexes ls = concat (map lex ls)"

section \<open>Parsing\<close>

text \<open>A parser returns what it read and the tokens that follow, or \<open>None\<close>.\<close>

fun strip :: "'a list \<Rightarrow> 'a list \<Rightarrow> 'a list option" where
  "strip [] s = Some s"
| "strip (c # p) [] = None"
| "strip (c # p) (d # s) = (if c = d then strip p s else None)"

fun starts :: "string \<Rightarrow> token list \<Rightarrow> bool" where
  "starts x (Sym y # ts) \<longleftrightarrow> x = y"
| "starts x _ \<longleftrightarrow> False"

fun binop_of :: "token list \<Rightarrow> (binop \<times> nat) option" where
  "binop_of (Sym x # ts) = map_of [(''||'', (Or, 1)), (''<'', (Less, 2)), (''>='', (Geq, 2)), (''+'', (Add, 3)),
     (''*'', (Mul, 4)), (''%'', (Mod, 4))] x"
| "binop_of _ = None"

text \<open>
  Expressions, by precedence: an operand and its suffixes, then the operators that bind more tightly than \<open>p\<close>, which
  associate to the left.  The parser for what is nested in them, for a precedence, is an argument; the number bounds a
  chain of suffixes, arguments or operators.
\<close>

type_synonym expr_parser = "nat \<Rightarrow> token list \<Rightarrow> (expr \<times> token list) option"

primrec parse_args :: "expr_parser \<Rightarrow> nat \<Rightarrow> token list \<Rightarrow> (expr list \<times> token list) option" where
  "parse_args pe 0 ts = None"
| "parse_args pe (Suc k) ts = (if starts '')'' ts then Some ([], tl ts) else Option.bind (pe 0 ts) (\<lambda>(e, ts).
     if starts '','' ts then Option.bind (parse_args pe k (tl ts)) (\<lambda>(es, ts). Some (e # es, ts))
     else Option.bind (strip [Sym '')''] ts) (\<lambda>ts. Some ([e], ts))))"

primrec parse_suffix :: "expr_parser \<Rightarrow> nat \<Rightarrow> expr \<Rightarrow> token list \<Rightarrow> (expr \<times> token list) option" where
  "parse_suffix pe 0 e ts = None"
| "parse_suffix pe (Suc k) e ts = (if starts ''['' ts then Option.bind (pe 0 (tl ts)) (\<lambda>(i, ts).
     Option.bind (strip [Sym '']''] ts) (parse_suffix pe k (Index e i))) else Some (e, ts))"

definition parse_atom :: "expr_parser \<Rightarrow> nat \<Rightarrow> token list \<Rightarrow> (expr \<times> token list) option" where
  "parse_atom pe k ts = (case ts of
     Num n # ts \<Rightarrow> Some (Lit n, ts)
   | Id x # ts \<Rightarrow> if starts ''('' ts then Option.bind (parse_args pe k (tl ts)) (\<lambda>(es, ts). parse_suffix pe k (App x es) ts)
                 else parse_suffix pe k (Var x) ts
   | Sym x # ts \<Rightarrow> if x = ''('' then Option.bind (pe 0 ts) (\<lambda>(e, ts).
                   Option.bind (strip [Sym '')''] ts) (\<lambda>ts. Some (e, ts))) else None
   | [] \<Rightarrow> None)"

primrec parse_rest :: "expr_parser \<Rightarrow> nat \<Rightarrow> nat \<Rightarrow> expr \<Rightarrow> token list \<Rightarrow> (expr \<times> token list) option" where
  "parse_rest pe 0 p e ts = None"
| "parse_rest pe (Suc k) p e ts = (case binop_of ts of
     Some (b, q) \<Rightarrow> if p < q then Option.bind (pe q (tl ts)) (\<lambda>(e', ts). parse_rest pe k p (Bin b e e') ts) else Some (e, ts)
   | None \<Rightarrow> Some (e, ts))"

primrec parse_expr :: "nat \<Rightarrow> expr_parser" where
  "parse_expr 0 p ts = None"
| "parse_expr (Suc n) p ts = Option.bind (parse_atom (parse_expr n) n ts) (\<lambda>(e, ts). parse_rest (parse_expr n) n p e ts)"

definition expression :: "token list \<Rightarrow> (expr \<times> token list) option" where
  "expression ts = parse_expr 8 0 ts"

text \<open>An expression with the tokens that follow it.\<close>

definition expr_then :: "token list \<Rightarrow> (expr \<Rightarrow> 'a) \<Rightarrow> token list \<Rightarrow> ('a \<times> token list) option" where
  "expr_then end mk ts = Option.bind (expression ts) (\<lambda>(e, ts). Option.bind (strip end ts) (\<lambda>ts. Some (mk e, ts)))"

text \<open>What follows \<^verbatim>\<open>uint256\<close> in a type: the length of an array in memory.\<close>

definition array_type :: "token list \<Rightarrow> (nat option \<times> token list) option" where
  "array_type ts = (case ts of
     Sym x # Num n # ts' \<Rightarrow> if x = ''['' then Option.bind (strip [Sym '']'', Id ''memory''] ts') (\<lambda>ts. Some (Some n, ts)) else Some (None, ts)
   | _ \<Rightarrow> Some (None, ts))"

definition local_var :: "token list \<Rightarrow> (stmt \<times> token list) option" where
  "local_var ts = Option.bind (array_type ts) (\<lambda>(n, ts). case ts of
     Id x # ts \<Rightarrow> if starts ''='' ts then expr_then [Sym '';''] (Local x) (tl ts)
                 else Option.bind n (\<lambda>n. Option.bind (strip [Sym '';''] ts) (\<lambda>ts. Some (Array x n, ts)))
   | _ \<Rightarrow> None)"

definition assignment :: "string \<Rightarrow> token list \<Rightarrow> (stmt \<times> token list) option" where
  "assignment x ts = (if starts ''['' ts
     then Option.bind (expr_then [Sym '']'', Sym ''=''] id (tl ts)) (\<lambda>(i, ts). expr_then [Sym '';''] (Store x i) ts)
     else Option.bind (strip [Sym ''=''] ts) (expr_then [Sym '';''] (Assign x)))"

text \<open>The head of a loop, up to the brace of its body.\<close>

definition loop_head :: "token list \<Rightarrow> ((string \<times> expr) \<times> token list) option" where
  "loop_head ts = Option.bind (strip [Sym ''('', Id ''uint256''] ts) (\<lambda>ts. case ts of
     Id v # ts \<Rightarrow> Option.bind (strip [Sym ''='', Num 0, Sym '';'', Id v, Sym ''<''] ts)
       (expr_then [Sym '';'', Id v, Sym ''++'', Sym '')'', Sym ''{''] (\<lambda>e. (v, e)))
   | _ \<Rightarrow> None)"

text \<open>Statements, given the parser for the blocks in them.\<close>

definition parse_stmt :: "(token list \<Rightarrow> (stmt list \<times> token list) option) \<Rightarrow> token list \<Rightarrow> (stmt \<times> token list) option" where
  "parse_stmt pb ts = (case ts of
     Id k # ts \<Rightarrow>
       if k = ''uint256'' then local_var ts
       else if k = ''return'' then expr_then [Sym '';''] Return ts
       else if k = ''for'' then Option.bind (loop_head ts) (\<lambda>((v, e), ts). Option.bind (pb ts) (\<lambda>(b, ts). Some (For v e b, ts)))
       else if k = ''if'' then Option.bind (Option.bind (strip [Sym ''(''] ts) (expr_then [Sym '')'', Sym ''{''] id)) (\<lambda>(e, ts).
         Option.bind (pb ts) (\<lambda>(p, ts). Option.bind (strip [Id ''else'', Sym ''{''] ts) (\<lambda>ts.
         Option.bind (pb ts) (\<lambda>(q, ts). Some (If e p q, ts)))))
       else assignment k ts
   | _ \<Rightarrow> None)"

primrec parse_block :: "nat \<Rightarrow> token list \<Rightarrow> (stmt list \<times> token list) option" where
  "parse_block 0 ts = None"
| "parse_block (Suc n) ts = (if starts ''}'' ts then Some ([], tl ts)
     else Option.bind (parse_stmt (parse_block n) ts) (\<lambda>(x, ts). Option.bind (parse_block n ts) (\<lambda>(xs, ts). Some (x # xs, ts))))"

primrec parse_params :: "nat \<Rightarrow> token list \<Rightarrow> (string list \<times> token list) option" where
  "parse_params 0 ts = None"
| "parse_params (Suc n) ts = Option.bind (Option.bind (strip [Id ''uint256''] ts) array_type) (\<lambda>(_, ts). case ts of
     Id x # ts \<Rightarrow> if starts '','' ts then Option.bind (parse_params n (tl ts)) (\<lambda>(xs, ts). Some (x # xs, ts))
                 else Option.bind (strip [Sym '')''] ts) (\<lambda>ts. Some ([x], ts))
   | _ \<Rightarrow> None)"

definition parameters :: "nat \<Rightarrow> token list \<Rightarrow> (string list \<times> token list) option" where
  "parameters n ts = (if starts '')'' ts then Some ([], tl ts) else parse_params n ts)"

text \<open>The result, up to the brace of the body; its name is kept if it is an array.\<close>

definition result_type :: "token list \<Rightarrow> ((string \<times> nat) option \<times> token list) option" where
  "result_type ts = Option.bind (Option.bind (strip [Id ''returns'', Sym ''('', Id ''uint256''] ts) array_type) (\<lambda>(n, ts).
     case ts of
       Id x # ts' \<Rightarrow> Option.bind n (\<lambda>n. Option.bind (strip [Sym '')'', Sym ''{''] ts') (\<lambda>ts. Some (Some (x, n), ts)))
     | _ \<Rightarrow> Option.bind (strip [Sym '')'', Sym ''{''] ts) (\<lambda>ts. Some (None, ts)))"

definition parse_func :: "nat \<Rightarrow> token list \<Rightarrow> ((string \<times> func) \<times> token list) option" where
  "parse_func n ts = (case ts of
     Id f # ts \<Rightarrow> Option.bind (strip [Sym ''(''] ts) (\<lambda>ts. Option.bind (parameters n ts) (\<lambda>(ps, ts).
       Option.bind (result_type (dropWhile (\<lambda>t. t \<in> {Id ''internal'', Id ''private'', Id ''pure''}) ts)) (\<lambda>(r, ts).
       Option.bind (parse_block n ts) (\<lambda>(b, ts). Some ((f, \<lparr>fn_params = ps, fn_result = r, fn_body = b\<rparr>), ts)))))
   | _ \<Rightarrow> None)"

primrec parse_items :: "nat \<Rightarrow> token list \<Rightarrow> library option" where
  "parse_items 0 ts = None"
| "parse_items (Suc n) ts =
    (if starts ''}'' ts then (if tl ts = [] then Some \<lparr>lib_consts = [], lib_funcs = []\<rparr> else None)
     else case strip [Id ''uint256'', Id ''internal'', Id ''constant''] ts of
       Some (Id x # Sym e # Num k # ts) \<Rightarrow> if e = ''=''
         then Option.bind (strip [Sym '';''] ts) (\<lambda>ts. map_option (lib_consts_update ((#) (x, k))) (parse_items n ts)) else None
     | Some _ \<Rightarrow> None
     | None \<Rightarrow> Option.bind (Option.bind (strip [Id ''function''] ts) (parse_func n)) (\<lambda>(f, ts).
         map_option (lib_funcs_update ((#) f)) (parse_items n ts)))"

text \<open>A file: the version pragma, then one library.\<close>

definition parse_file :: "nat \<Rightarrow> token list \<Rightarrow> library option" where
  "parse_file n ts = Option.bind (strip [Id ''pragma''] ts) (\<lambda>ts.
     case strip [Sym '';'', Id ''library''] (dropWhile (\<lambda>t. t \<noteq> Sym '';'') ts) of
       Some (Id _ # ts) \<Rightarrow> Option.bind (strip [Sym ''{''] ts) (parse_items n)
     | _ \<Rightarrow> None)"

text \<open>Every item and statement has a token, so that their number bounds the parser's recursion.\<close>

definition read_source :: "string \<Rightarrow> library option" where
  "read_source src = (let ts = lexes (split_lines [] src) in parse_file (length ts) ts)"

end
