(* ===== verification/Poseidon_Library.thy ===== *)
theory Poseidon_Library
  imports Solidity_Fragment
begin

text \<open>
  The generated library as a program of the fragment, and what its functions return: the evaluator runs them without a
  revert, and they compute the hashes of \<^verbatim>\<open>Poseidon_Codegen\<close>, hence the native hashes of the circuit.
\<close>

section \<open>The program\<close>

definition hash4_fn :: "solidity_lib \<Rightarrow> func" where
  "hash4_fn lib = \<lparr>fn_params = [''a'', ''b'', ''c'', ''d''], fn_result = None, fn_body = [
     Array ''s'' (sol_t lib),
     Store ''s'' (Lit 1) (Bin Mod (Var ''a'') (Var ''F'')),
     Store ''s'' (Lit 2) (Bin Mod (Var ''b'') (Var ''F'')),
     Store ''s'' (Lit 3) (Bin Mod (Var ''c'') (Var ''F'')),
     Store ''s'' (Lit 4) (Bin Mod (Var ''d'') (Var ''F'')),
     Return (Index (App ''_permute'' [Var ''s'']) (Lit 1))]\<rparr>"

definition hash2_fn :: "solidity_lib \<Rightarrow> func" where
  "hash2_fn lib = \<lparr>fn_params = [''a'', ''b''], fn_result = None, fn_body = [
     Array ''s'' (sol_t lib),
     Store ''s'' (Lit 1) (Bin Mod (Var ''a'') (Var ''F'')),
     Store ''s'' (Lit 2) (Bin Mod (Var ''b'') (Var ''F'')),
     Return (Index (App ''_permute'' [Var ''s'']) (Lit 1))]\<rparr>"

definition foldNet_fn :: func where
  "foldNet_fn = \<lparr>fn_params = [''acc'', ''payeeKey'', ''tokenId'', ''amount''], fn_result = None, fn_body = [
     Return (App ''hash4'' [Var ''acc'', Var ''payeeKey'', Var ''tokenId'', Var ''amount''])]\<rparr>"

definition ark_loop :: "nat \<Rightarrow> stmt" where
  "ark_loop t = For ''j'' (Lit t) [Store ''s'' (Var ''j'') (App ''addmod'' [Index (Var ''s'') (Var ''j''),
     Index (Var ''ark'') (Bin Add (Bin Mul (Var ''r'') (Lit t)) (Var ''j'')), Var ''F''])]"

definition sbox_stmt :: "nat \<Rightarrow> stmt" where
  "sbox_stmt t = If (Bin Or (Bin Less (Var ''r'') (Var ''FULL_HALF'')) (Bin Geq (Var ''r'') (Var ''PARTIAL_END'')))
     [For ''j'' (Lit t) [Store ''s'' (Var ''j'') (App ''_pow5'' [Index (Var ''s'') (Var ''j'')])]]
     [Store ''s'' (Lit 0) (App ''_pow5'' [Index (Var ''s'') (Lit 0)])]"

definition row_loop :: "nat \<Rightarrow> stmt" where
  "row_loop t = For ''j'' (Lit t) [Assign ''acc'' (App ''addmod'' [Var ''acc'', App ''mulmod'' [
     Index (Var ''mds'') (Bin Add (Bin Mul (Var ''i'') (Lit t)) (Var ''j'')), Index (Var ''s'') (Var ''j''), Var ''F''], Var ''F''])]"

definition mds_loop :: "nat \<Rightarrow> stmt" where
  "mds_loop t = For ''i'' (Lit t) [Local ''acc'' (Lit 0), row_loop t, Store ''out'' (Var ''i'') (Var ''acc'')]"

definition round_body :: "nat \<Rightarrow> stmt list" where
  "round_body t = [ark_loop t, sbox_stmt t, Array ''out'' t, mds_loop t, Assign ''s'' (Var ''out'')]"

definition permute_fn :: "solidity_lib \<Rightarrow> func" where
  "permute_fn lib = \<lparr>fn_params = [''s''], fn_result = None, fn_body = [
     Local ''ark'' (App ''_ark'' []),
     Local ''mds'' (App ''_mds'' []),
     For ''r'' (Var ''ROUNDS'') (round_body (sol_t lib)),
     Return (Var ''s'')]\<rparr>"

definition pow5_fn :: func where
  "pow5_fn = \<lparr>fn_params = [''x''], fn_result = None, fn_body = [
     Local ''x2'' (App ''mulmod'' [Var ''x'', Var ''x'', Var ''F'']),
     Local ''x4'' (App ''mulmod'' [Var ''x2'', Var ''x2'', Var ''F'']),
     Return (App ''mulmod'' [Var ''x4'', Var ''x'', Var ''F''])]\<rparr>"

definition table_fn :: "string \<Rightarrow> nat \<Rightarrow> (nat \<times> nat) list \<Rightarrow> func" where
  "table_fn name len assigns = \<lparr>fn_params = [], fn_result = Some (name, len),
     fn_body = map (\<lambda>(i, v). Store name (Lit i) (Lit v)) assigns\<rparr>"

definition poseidon_library :: "solidity_lib \<Rightarrow> library" where
  "poseidon_library lib = \<lparr>
     lib_consts = [(''F'', sol_f lib), (''ROUNDS'', sol_rounds lib), (''FULL_HALF'', sol_full_half lib),
       (''PARTIAL_END'', sol_partial_end lib)],
     lib_funcs = [(''hash4'', hash4_fn lib), (''hash2'', hash2_fn lib), (''foldNet'', foldNet_fn), (''_permute'', permute_fn lib),
       (''_pow5'', pow5_fn), (''_ark'', table_fn ''ark'' (sol_ark_len lib) (sol_ark_assigns lib)),
       (''_mds'', table_fn ''mds'' (sol_mds_len lib) (sol_mds_assigns lib))]\<rparr>"

text \<open>The sizes under which nothing reverts.\<close>

definition lib_fits :: "solidity_lib \<Rightarrow> bool" where
  "lib_fits lib \<longleftrightarrow> sol_t lib = 5 \<and> 0 < sol_f lib \<and> sol_f lib < 2 ^ 256 \<and> sol_rounds lib * 5 < 2 ^ 256
     \<and> sol_full_half lib < 2 ^ 256 \<and> sol_partial_end lib < 2 ^ 256
     \<and> sol_ark_len lib = sol_rounds lib * 5 \<and> sol_mds_len lib = 25
     \<and> list_all (\<lambda>(i, v). i < sol_ark_len lib \<and> v < 2 ^ 256) (sol_ark_assigns lib)
     \<and> list_all (\<lambda>(i, v). i < sol_mds_len lib \<and> v < 2 ^ 256) (sol_mds_assigns lib)"

section \<open>Loops\<close>

text \<open>A loop whose body changes one variable, which holds an \<open>'a\<close>, is a fold.\<close>

lemma leave_Go [simp]: "leave xs s (Some (Go s')) = Some (Go (\<lambda>x. if x \<in> set xs then s x else s' x))"
  by (simp add: leave_def continue_def)

lemma leave_Nil [simp]: "leave [] s r = r"
  by (simp add: leave_def continue_def split: option.split outcome.split)

lemma continue_simps [simp]: "continue (Some (Go s)) f = f s" "continue (Some (Ret v)) f = Some (Ret v)" "continue None f = None"
  by (simp_all add: continue_def)

lemma loop_fold:
  assumes "x \<noteq> v"
    and step: "\<And>i a. i \<in> set is \<Longrightarrow> I a \<Longrightarrow> f (s(x \<mapsto> K a, v \<mapsto> Word (of_nat i))) = Some (Go (s(x \<mapsto> K (g i a), v \<mapsto> Word (of_nat i))))"
    and inv: "\<And>i a. i \<in> set is \<Longrightarrow> I a \<Longrightarrow> I (g i a)" and a: "I a"
  shows "leave [v] s' (loop f v is (s(x \<mapsto> K a))) = Some (Go (s(x \<mapsto> K (fold g is a), v := s' v)))"
proof -
  have "\<exists>u'. loop f v is ((s(x \<mapsto> K a))(v := u)) = Some (Go ((s(x \<mapsto> K (fold g is a)))(v := u')))" for u
    using step inv a
  proof (induction "is" arbitrary: a u)
    case Nil
    then show ?case by auto
  next
    case (Cons i "is")
    have "f (s(x \<mapsto> K a, v \<mapsto> Word (of_nat i))) = Some (Go (s(x \<mapsto> K (g i a), v \<mapsto> Word (of_nat i))))"
      by (rule Cons.prems(1)[OF list.set_intros(1) Cons.prems(3)])
    then have "f (((s(x \<mapsto> K a))(v := u))(v \<mapsto> Word (of_nat i))) = Some (Go (s(x \<mapsto> K (g i a), v \<mapsto> Word (of_nat i))))"
      by simp
    moreover have "\<exists>u'. loop f v is ((s(x \<mapsto> K (g i a)))(v := Some (Word (of_nat i)))) = Some (Go ((s(x \<mapsto> K (fold g is (g i a))))(v := u')))"
      by (rule Cons.IH) (use Cons.prems in auto)
    ultimately show "\<exists>u'. loop f v (i # is) ((s(x \<mapsto> K a))(v := u)) = Some (Go ((s(x \<mapsto> K (fold g (i # is) a)))(v := u')))" by simp
  qed
  from this[of "(s(x \<mapsto> K a)) v"] obtain u' where "loop f v is (s(x \<mapsto> K a)) = Some (Go ((s(x \<mapsto> K (fold g is a)))(v := u')))"
    unfolding fun_upd_triv by blast
  then show ?thesis by (auto simp: fun_eq_iff)
qed

section \<open>The functions\<close>

lemma of_nat_small: "n < 2 ^ 256 \<Longrightarrow> unat (of_nat n :: uint256) = n"
  by (simp add: unat_of_nat)

lemma index_word:
  assumes "i * 5 + j < 2 ^ 256"
  shows "unat (of_nat i * 5 + of_nat j :: uint256) = i * 5 + j" "binary Mul (Word (of_nat i)) (Word 5) = Some (Word (of_nat i * 5))"
    "binary Add (Word (of_nat i * 5)) (Word (of_nat j)) = Some (Word (of_nat i * 5 + of_nat j))"
proof -
  have "unat (of_nat (i * 5 + j) :: uint256) = i * 5 + j" by (rule of_nat_small[OF assms])
  then show "unat (of_nat i * 5 + of_nat j :: uint256) = i * 5 + j" by simp
  have m: "unat (of_nat i :: uint256) = i" "unat (of_nat j :: uint256) = j" using assms by (simp_all add: of_nat_small)
  have "unat (of_nat (i * 5) :: uint256) = i * 5" by (rule of_nat_small) (use assms in simp)
  then have "unat (of_nat i * 5 :: uint256) = i * 5" by simp
  then show "binary Mul (Word (of_nat i)) (Word 5) = Some (Word (of_nat i * 5))"
    "binary Add (Word (of_nat i * 5)) (Word (of_nat j)) = Some (Word (of_nat i * 5 + of_nat j))"
    using m assms by simp_all
qed

lemma table_body:
  assumes "s name = Some (Memory m)" "list_all (\<lambda>(i, v). i < length m \<and> v < 2 ^ 256) assigns" "length m < 2 ^ 256"
  shows "execs c s (map (\<lambda>(i, v). Store name (Lit i) (Lit v)) assigns)
    = Some (Go (s(name \<mapsto> Memory (fold (\<lambda>(i, v) a. a[i := of_nat v]) assigns m))))"
  using assms
proof (induction assigns arbitrary: s m)
  case Nil
  then show ?case by (simp add: fun_upd_idem)
next
  case (Cons p ps)
  obtain i v where p: "p = (i, v)" by fastforce
  have i: "i < length m" "v < 2 ^ 256" "i < 2 ^ 256" using Cons.prems(2,3) by (simp_all add: p)
  have ex: "exec c s (Store name (Lit i) (Lit v)) = Some (Go (s(name \<mapsto> Memory (m[i := of_nat v]))))"
    using i Cons.prems(1) by (simp add: store_def of_nat_small)
  have "execs c (s(name \<mapsto> Memory (m[i := of_nat v]))) (map (\<lambda>(i, v). Store name (Lit i) (Lit v)) ps)
      = Some (Go (s(name \<mapsto> Memory (m[i := of_nat v]), name \<mapsto> Memory (fold (\<lambda>(i, v) a. a[i := of_nat v]) ps (m[i := of_nat v])))))"
    by (rule Cons.IH) (use Cons.prems in \<open>simp_all add: p\<close>)
  with ex show "execs c s (map (\<lambda>(i, v). Store name (Lit i) (Lit v)) (p # ps))
      = Some (Go (s(name \<mapsto> Memory (fold (\<lambda>(i, v) a. a[i := of_nat v]) (p # ps) m))))" by (simp add: p)
qed

lemma run_table:
  assumes "list_all (\<lambda>(i, v). i < len \<and> v < 2 ^ 256) assigns" "len < 2 ^ 256"
  shows "run_fn L c (table_fn name len assigns) [] = Some (Memory (sol_table len assigns))"
proof -
  have e: "entry_env L (table_fn name len assigns) [] name = Some (Memory (replicate len 0))"
    by (simp add: entry_env_def table_fn_def)
  have "execs c (entry_env L (table_fn name len assigns) []) (map (\<lambda>(i, v). Store name (Lit i) (Lit v)) assigns)
      = Some (Go ((entry_env L (table_fn name len assigns) [])(name \<mapsto> Memory (sol_table len assigns))))"
    unfolding sol_table_def by (rule table_body) (use e assms in simp_all)
  then show ?thesis by (simp add: run_fn_def table_fn_def)
qed

text \<open>The constants of the library.\<close>

definition const_env :: "solidity_lib \<Rightarrow> env" where
  "const_env lib = [''F'' \<mapsto> Word (sol_mod lib), ''ROUNDS'' \<mapsto> Word (of_nat (sol_rounds lib)),
     ''FULL_HALF'' \<mapsto> Word (of_nat (sol_full_half lib)), ''PARTIAL_END'' \<mapsto> Word (of_nat (sol_partial_end lib))]"

lemma entry_consts:
  assumes "lib_fits lib"
  shows "(\<lambda>x. Option.bind (map_of (lib_consts (poseidon_library lib)) x) (\<lambda>n. if n < 2 ^ 256 then Some (Word (of_nat n)) else None))
    = const_env lib"
  using assms by (auto simp: poseidon_library_def const_env_def lib_fits_def sol_mod_def fun_eq_iff)

lemma sol_mod_neq_0: "lib_fits lib \<Longrightarrow> sol_mod lib \<noteq> 0"
proof
  assume f: "lib_fits lib" and "sol_mod lib = 0"
  then have "unat (of_nat (sol_f lib) :: uint256) = 0" by (simp add: sol_mod_def)
  then show False using f of_nat_small[of "sol_f lib"] by (simp add: lib_fits_def)
qed

lemma run_pow5:
  assumes "lib_fits lib"
  shows "run_fn (poseidon_library lib) c pow5_fn [Word x] = Some (Word (pow5 lib x))"
  using sol_mod_neq_0[OF assms] unfolding run_fn_def entry_env_def entry_consts[OF assms]
  by (simp add: pow5_fn_def const_env_def apply_fn_def pow5_def Let_def)

text \<open>The loops of a round, in any scope that has what they read.\<close>

definition add_ark :: "uint256 \<Rightarrow> uint256 list \<Rightarrow> nat \<Rightarrow> uint256 list \<Rightarrow> uint256 list" where
  "add_ark F A r = fold (\<lambda>j s. s[j := addmod (s ! j) (A ! (r * 5 + j)) F]) [0..<5]"

definition sbox_all :: "solidity_lib \<Rightarrow> uint256 list \<Rightarrow> uint256 list" where
  "sbox_all lib = fold (\<lambda>j s. s[j := pow5 lib (s ! j)]) [0..<5]"

definition mds_row :: "uint256 \<Rightarrow> uint256 list \<Rightarrow> uint256 list \<Rightarrow> nat \<Rightarrow> uint256" where
  "mds_row F M s i = fold (\<lambda>j acc. addmod acc (mulmod (M ! (i * 5 + j)) (s ! j) F) F) [0..<5] 0"

definition mds_mul :: "uint256 \<Rightarrow> uint256 list \<Rightarrow> uint256 list \<Rightarrow> uint256 list" where
  "mds_mul F M s = fold (\<lambda>i out. out[i := mds_row F M s i]) [0..<5] (replicate 5 0)"

lemma fold_length: "(\<And>j s. length (f j s) = length s) \<Longrightarrow> length (fold f xs s) = length s"
  by (induction xs arbitrary: s) simp_all

lemma exec_ark_loop:
  assumes E: "E ''F'' = Some (Word F)" "E ''ark'' = Some (Memory A)" "E ''r'' = Some (Word (of_nat r))"
    and F: "F \<noteq> 0" and r: "r * 5 + 5 \<le> length A" "length A < 2 ^ 256" and xs: "length xs = 5"
  shows "exec c (E(''s'' \<mapsto> Memory xs)) (ark_loop 5) = Some (Go (E(''s'' \<mapsto> Memory (add_ark F A r xs))))"
proof -
  let ?b = "[Store ''s'' (Var ''j'') (App ''addmod'' [Index (Var ''s'') (Var ''j''),
     Index (Var ''ark'') (Bin Add (Bin Mul (Var ''r'') (Lit 5)) (Var ''j'')), Var ''F''])]"
  have "leave [''j''] (E(''s'' \<mapsto> Memory xs)) (loop (\<lambda>s. leave (declared ?b) s (execs c s ?b)) ''j'' [0..<5] (E(''s'' \<mapsto> Memory xs)))
      = Some (Go (E(''s'' \<mapsto> Memory (add_ark F A r xs), ''j'' := (E(''s'' \<mapsto> Memory xs)) ''j'')))"
    unfolding add_ark_def
  proof (rule loop_fold[where I = "\<lambda>a. length a = 5"])
    fix j and a :: "uint256 list"
    assume j: "j \<in> set [0..<5]" and a: "length a = 5"
    have u: "unat (of_nat j :: uint256) = j" "r * 5 + j < length A" using j r(1) by (simp_all add: of_nat_small)
    have i: "r * 5 + j < 2 ^ 256" using u(2) r(2) by linarith
    note i = index_word[OF i]
    show "leave (declared ?b) (E(''s'' \<mapsto> Memory a, ''j'' \<mapsto> Word (of_nat j))) (execs c (E(''s'' \<mapsto> Memory a, ''j'' \<mapsto> Word (of_nat j))) ?b)
        = Some (Go (E(''s'' \<mapsto> Memory (a[j := addmod (a ! j) (A ! (r * 5 + j)) F]), ''j'' \<mapsto> Word (of_nat j))))"
      using E F a j u by (simp add: store_def select_def apply_fn_def i del: binary.simps) (simp add: fun_eq_iff)
  qed (use xs in simp_all)
  then show ?thesis by (simp add: ark_loop_def) (simp add: fun_eq_iff)
qed

lemma exec_sbox:
  assumes E: "E ''r'' = Some (Word (of_nat r))" "E ''FULL_HALF'' = Some (Word (of_nat h))" "E ''PARTIAL_END'' = Some (Word (of_nat e))"
    and b: "r < 2 ^ 256" "h < 2 ^ 256" "e < 2 ^ 256" and xs: "length xs = 5"
    and c: "\<And>x. c ''_pow5'' [Word x] = Some (Word (pow5 lib x))"
  shows "exec c (E(''s'' \<mapsto> Memory xs)) (sbox_stmt 5) = Some (Go (E(''s'' \<mapsto> Memory
     (if r < h \<or> e \<le> r then sbox_all lib xs else xs[0 := pow5 lib (xs ! 0)]))))"
proof -
  let ?b = "[Store ''s'' (Var ''j'') (App ''_pow5'' [Index (Var ''s'') (Var ''j'')])]"
  have less: "(of_nat r :: uint256) < of_nat h \<longleftrightarrow> r < h" "(of_nat e :: uint256) \<le> of_nat r \<longleftrightarrow> e \<le> r"
    using b by (simp_all add: word_less_nat_alt word_le_nat_alt of_nat_small)
  have "leave [''j''] (E(''s'' \<mapsto> Memory xs)) (loop (\<lambda>s. leave (declared ?b) s (execs c s ?b)) ''j'' [0..<5] (E(''s'' \<mapsto> Memory xs)))
      = Some (Go (E(''s'' \<mapsto> Memory (sbox_all lib xs), ''j'' := (E(''s'' \<mapsto> Memory xs)) ''j'')))"
    unfolding sbox_all_def
  proof (rule loop_fold[where I = "\<lambda>a. length a = 5"])
    fix j and a :: "uint256 list"
    assume j: "j \<in> set [0..<5]" and a: "length a = 5"
    have u: "unat (of_nat j :: uint256) = j" using j by (simp add: of_nat_small)
    show "leave (declared ?b) (E(''s'' \<mapsto> Memory a, ''j'' \<mapsto> Word (of_nat j))) (execs c (E(''s'' \<mapsto> Memory a, ''j'' \<mapsto> Word (of_nat j))) ?b)
        = Some (Go (E(''s'' \<mapsto> Memory (a[j := pow5 lib (a ! j)]), ''j'' \<mapsto> Word (of_nat j))))"
      using a j u by (simp add: store_def select_def apply_fn_def c) (simp add: fun_eq_iff)
  qed (use xs in simp_all)
  then have full: "exec c (E(''s'' \<mapsto> Memory xs)) (For ''j'' (Lit 5) ?b) = Some (Go (E(''s'' \<mapsto> Memory (sbox_all lib xs))))"
    by simp (simp add: fun_eq_iff)
  have part: "exec c (E(''s'' \<mapsto> Memory xs)) (Store ''s'' (Lit 0) (App ''_pow5'' [Index (Var ''s'') (Lit 0)]))
      = Some (Go (E(''s'' \<mapsto> Memory (xs[0 := pow5 lib (xs ! 0)]))))"
    using xs by (simp add: store_def select_def apply_fn_def c)
  have cond: "eval c (E(''s'' \<mapsto> Memory xs)) (Bin Or (Bin Less (Var ''r'') (Var ''FULL_HALF'')) (Bin Geq (Var ''r'') (Var ''PARTIAL_END'')))
      = Some (Flag (r < h \<or> e \<le> r))"
    using E less by auto
  show ?thesis
    unfolding sbox_stmt_def exec.simps(6) cond using full part by (simp del: exec.simps) (auto simp: fun_eq_iff)
qed

lemma exec_row:
  assumes E: "E ''F'' = Some (Word F)" "E ''mds'' = Some (Memory M)" "E ''s'' = Some (Memory xs)" "E ''i'' = Some (Word (of_nat i))"
    and F: "F \<noteq> 0" and M: "length M = 25" and xs: "length xs = 5" and i: "i < 5"
  shows "exec c (E(''acc'' \<mapsto> Word 0)) (row_loop 5) = Some (Go (E(''acc'' \<mapsto> Word (mds_row F M xs i))))"
proof -
  let ?b = "[Assign ''acc'' (App ''addmod'' [Var ''acc'', App ''mulmod'' [
     Index (Var ''mds'') (Bin Add (Bin Mul (Var ''i'') (Lit 5)) (Var ''j'')), Index (Var ''s'') (Var ''j''), Var ''F''], Var ''F''])]"
  have "leave [''j''] (E(''acc'' \<mapsto> Word 0)) (loop (\<lambda>s. leave (declared ?b) s (execs c s ?b)) ''j'' [0..<5] (E(''acc'' \<mapsto> Word 0)))
      = Some (Go (E(''acc'' \<mapsto> Word (mds_row F M xs i), ''j'' := (E(''acc'' \<mapsto> Word 0)) ''j'')))"
    unfolding mds_row_def
  proof (rule loop_fold[where I = "\<lambda>_. True"])
    fix j and a :: uint256
    assume j: "j \<in> set [0..<5]"
    have u: "unat (of_nat j :: uint256) = j" "i * 5 + j < length M" using j i M by (simp_all add: of_nat_small)
    have "i * 5 + j < 2 ^ 256" using u(2) M by simp
    note k = index_word[OF this]
    show "leave (declared ?b) (E(''acc'' \<mapsto> Word a, ''j'' \<mapsto> Word (of_nat j))) (execs c (E(''acc'' \<mapsto> Word a, ''j'' \<mapsto> Word (of_nat j))) ?b)
        = Some (Go (E(''acc'' \<mapsto> Word (addmod a (mulmod (M ! (i * 5 + j)) (xs ! j) F) F), ''j'' \<mapsto> Word (of_nat j))))"
      using E F xs j u by (simp add: select_def apply_fn_def k del: binary.simps) (simp add: fun_eq_iff)
  qed simp_all
  then show ?thesis by (simp add: row_loop_def) (simp add: fun_eq_iff)
qed

lemma exec_mds_loop:
  assumes E: "E ''F'' = Some (Word F)" "E ''mds'' = Some (Memory M)" "E ''s'' = Some (Memory xs)"
    and F: "F \<noteq> 0" and M: "length M = 25" and xs: "length xs = 5"
  shows "exec c (E(''out'' \<mapsto> Memory (replicate 5 0))) (mds_loop 5) = Some (Go (E(''out'' \<mapsto> Memory (mds_mul F M xs))))"
proof -
  let ?b = "[Local ''acc'' (Lit 0), row_loop 5, Store ''out'' (Var ''i'') (Var ''acc'')]"
  let ?E = "E(''out'' \<mapsto> Memory (replicate 5 0))"
  have "leave [''i''] ?E (loop (\<lambda>s. leave (declared ?b) s (execs c s ?b)) ''i'' [0..<5] ?E)
      = Some (Go (E(''out'' \<mapsto> Memory (mds_mul F M xs), ''i'' := ?E ''i'')))"
    unfolding mds_mul_def
  proof (rule loop_fold[where I = "\<lambda>a. length a = 5"])
    fix i and a :: "uint256 list"
    assume i: "i \<in> set [0..<5]" and a: "length a = 5"
    have u: "unat (of_nat i :: uint256) = i" using i by (simp add: of_nat_small)
    let ?S = "E(''out'' \<mapsto> Memory a, ''i'' \<mapsto> Word (of_nat i))"
    have "exec c (?S(''acc'' \<mapsto> Word 0)) (row_loop 5) = Some (Go (?S(''acc'' \<mapsto> Word (mds_row F M xs i))))"
      by (rule exec_row) (use E F M xs i in simp_all)
    then show "leave (declared ?b) ?S (execs c ?S ?b)
        = Some (Go (E(''out'' \<mapsto> Memory (a[i := mds_row F M xs i]), ''i'' \<mapsto> Word (of_nat i))))"
      using a i u by (simp add: store_def row_loop_def del: exec.simps(5)) (simp add: fun_eq_iff)
  qed (use xs in simp_all)
  then show ?thesis by (simp add: mds_loop_def del: declared.simps) (simp add: fun_eq_iff)
qed

lemma sol_round_steps:
  assumes "sol_t lib = 5"
  shows "sol_round lib A M r xs = mds_mul (sol_mod lib) M (let s = add_ark (sol_mod lib) A r xs in
     if r < sol_full_half lib \<or> sol_partial_end lib \<le> r then sbox_all lib s else s[0 := pow5 lib (s ! 0)])"
  by (simp add: sol_round_def assms mds_mul_def mds_row_def add_ark_def sbox_all_def Let_def)

lemma sol_round_length: "sol_t lib = 5 \<Longrightarrow> length (sol_round lib A M r xs) = 5"
  by (simp add: sol_round_steps mds_mul_def fold_length)

text \<open>What the body of the permutation reads.\<close>

definition round_env :: "solidity_lib \<Rightarrow> uint256 list \<Rightarrow> uint256 list \<Rightarrow> env \<Rightarrow> bool" where
  "round_env lib A M E \<longleftrightarrow> E ''F'' = Some (Word (sol_mod lib)) \<and> E ''ark'' = Some (Memory A) \<and> E ''mds'' = Some (Memory M)
     \<and> E ''FULL_HALF'' = Some (Word (of_nat (sol_full_half lib))) \<and> E ''PARTIAL_END'' = Some (Word (of_nat (sol_partial_end lib)))
     \<and> length A = sol_rounds lib * 5 \<and> length M = 25"

lemma exec_round:
  assumes fits: "lib_fits lib" and E: "round_env lib A M E" "E ''r'' = Some (Word (of_nat r))" and r: "r < sol_rounds lib"
    and xs: "length xs = 5" and c: "\<And>x. c ''_pow5'' [Word x] = Some (Word (pow5 lib x))"
  shows "leave (declared (round_body 5)) (E(''s'' \<mapsto> Memory xs)) (execs c (E(''s'' \<mapsto> Memory xs)) (round_body 5))
     = Some (Go (E(''s'' \<mapsto> Memory (sol_round lib A M r xs))))"
proof -
  let ?F = "sol_mod lib"
  note f = sol_mod_neq_0[OF fits]
  note e = E(1)[unfolded round_env_def]
  have len: "r * 5 + 5 \<le> length A" "length A < 2 ^ 256" using e r fits by (simp_all add: lib_fits_def)
  have small: "r < 2 ^ 256" "sol_full_half lib < 2 ^ 256" "sol_partial_end lib < 2 ^ 256" using len fits by (simp_all add: lib_fits_def)
  define s1 where "s1 = add_ark ?F A r xs"
  define s2 where "s2 = (if r < sol_full_half lib \<or> sol_partial_end lib \<le> r then sbox_all lib s1 else s1[0 := pow5 lib (s1 ! 0)])"
  have l1: "length s1 = 5" using xs by (simp add: s1_def add_ark_def fold_length)
  then have l2: "length s2 = 5" by (simp add: s2_def sbox_all_def fold_length)
  have 1: "exec c (E(''s'' \<mapsto> Memory xs)) (ark_loop 5) = Some (Go (E(''s'' \<mapsto> Memory s1)))"
    unfolding s1_def by (rule exec_ark_loop) (use e E(2) f len xs in simp_all)
  have 2: "exec c (E(''s'' \<mapsto> Memory s1)) (sbox_stmt 5) = Some (Go (E(''s'' \<mapsto> Memory s2)))"
    unfolding s2_def by (rule exec_sbox) (use e E(2) small l1 c in simp_all)
  have 3: "exec c (E(''s'' \<mapsto> Memory s2, ''out'' \<mapsto> Memory (replicate 5 0))) (mds_loop 5)
      = Some (Go (E(''s'' \<mapsto> Memory s2, ''out'' \<mapsto> Memory (mds_mul ?F M s2))))"
    by (rule exec_mds_loop) (use e f l2 in simp_all)
  have t: "sol_t lib = 5" using fits by (simp add: lib_fits_def)
  have d: "declared (round_body 5) = [''out'']" by (simp add: round_body_def ark_loop_def sbox_stmt_def mds_loop_def)
  show ?thesis
    unfolding d using 1 2 3 by (simp add: round_body_def sol_round_steps[OF t] Let_def flip: s1_def s2_def) (simp add: fun_eq_iff)
qed

lemma run_permute:
  assumes fits: "lib_fits lib" and xs: "length xs = 5"
    and c: "\<And>x. c ''_pow5'' [Word x] = Some (Word (pow5 lib x))"
      "c ''_ark'' [] = Some (Memory (sol_table (sol_ark_len lib) (sol_ark_assigns lib)))"
      "c ''_mds'' [] = Some (Memory (sol_table (sol_mds_len lib) (sol_mds_assigns lib)))"
  shows "run_fn (poseidon_library lib) c (permute_fn lib) [Memory xs] = Some (Memory (sol_permute lib xs))"
proof -
  let ?A = "sol_table (sol_ark_len lib) (sol_ark_assigns lib)" and ?M = "sol_table (sol_mds_len lib) (sol_mds_assigns lib)"
  have t: "sol_t lib = 5" using fits by (simp add: lib_fits_def)
  define E where "E = (const_env lib)(''s'' \<mapsto> Memory xs, ''ark'' \<mapsto> Memory ?A, ''mds'' \<mapsto> Memory ?M)"
  have tab: "length (sol_table n as) = n" for n as by (simp add: sol_table_def assigns_length)
  have rounds: "unat (of_nat (sol_rounds lib) :: uint256) = sol_rounds lib"
    by (rule of_nat_small) (use fits in \<open>simp add: lib_fits_def\<close>)
  let ?f = "\<lambda>s. leave (declared (round_body 5)) s (execs c s (round_body 5))"
  have "leave [''r''] (E(''s'' \<mapsto> Memory xs)) (loop ?f ''r'' [0..<sol_rounds lib] (E(''s'' \<mapsto> Memory xs)))
      = Some (Go (E(''s'' \<mapsto> Memory (sol_permute lib xs), ''r'' := (E(''s'' \<mapsto> Memory xs)) ''r'')))"
    unfolding sol_permute_def Let_def
  proof (rule loop_fold[where I = "\<lambda>a. length a = 5"])
    fix r and a :: "uint256 list"
    assume r: "r \<in> set [0..<sol_rounds lib]" and a: "length a = 5"
    have sw: "E(''s'' \<mapsto> Memory a, ''r'' \<mapsto> Word (of_nat r)) = E(''r'' \<mapsto> Word (of_nat r), ''s'' \<mapsto> Memory a)" for a
      by (rule fun_upd_twist) simp
    have re: "round_env lib ?A ?M (E(''r'' \<mapsto> Word (of_nat r)))"
      using fits by (simp add: round_env_def E_def const_env_def tab lib_fits_def)
    show "?f (E(''s'' \<mapsto> Memory a, ''r'' \<mapsto> Word (of_nat r)))
        = Some (Go (E(''s'' \<mapsto> Memory (sol_round lib ?A ?M r a), ''r'' \<mapsto> Word (of_nat r))))"
      unfolding sw by (rule exec_round[OF fits re]) (use r a c(1) in simp_all)
  qed (use xs in \<open>simp_all add: sol_round_length[OF t]\<close>)
  moreover have "E(''s'' \<mapsto> Memory xs) = E" by (simp add: E_def fun_eq_iff)
  ultimately have L: "leave [''r''] E (loop ?f ''r'' [0..<sol_rounds lib] E)
      = Some (Go (E(''s'' \<mapsto> Memory (sol_permute lib xs), ''r'' := E ''r'')))" by simp
  have R: "exec c E (For ''r'' (Var ''ROUNDS'') (round_body 5)) = Some (Go (E(''s'' \<mapsto> Memory (sol_permute lib xs), ''r'' := E ''r'')))"
    unfolding exec.simps(5) using L rounds by (simp add: E_def const_env_def)
  have env: "entry_env (poseidon_library lib) (permute_fn lib) [Memory xs] = (const_env lib)(''s'' \<mapsto> Memory xs)"
    unfolding entry_env_def entry_consts[OF fits] by (simp add: permute_fn_def)
  have "execs c ((const_env lib)(''s'' \<mapsto> Memory xs)) (fn_body (permute_fn lib)) = Some (Ret (Memory (sol_permute lib xs)))"
    using R by (simp add: permute_fn_def t apply_fn_def c del: exec.simps(5) flip: E_def)
  then show ?thesis by (simp add: run_fn_def env) (simp add: permute_fn_def)
qed

section \<open>Calls\<close>

text \<open>The external functions call \<^verbatim>\<open>_permute\<close>, which calls the helpers: calls nest four deep.\<close>

lemma sol_permute_length: "sol_t lib = 5 \<Longrightarrow> length xs = 5 \<Longrightarrow> length (sol_permute lib xs) = 5"
proof -
  assume t: "sol_t lib = 5" and xs: "length xs = 5"
  have "length (fold (sol_round lib A M) rs xs) = 5" for A M rs
    using xs by (induction rs arbitrary: xs) (simp_all add: sol_round_length[OF t])
  then show ?thesis by (simp add: sol_permute_def Let_def)
qed

lemma call_helpers:
  assumes "lib_fits lib"
  shows "call_fn (poseidon_library lib) (Suc n) ''_pow5'' [Word x] = Some (Word (pow5 lib x))"
    "call_fn (poseidon_library lib) (Suc n) ''_ark'' [] = Some (Memory (sol_table (sol_ark_len lib) (sol_ark_assigns lib)))"
    "call_fn (poseidon_library lib) (Suc n) ''_mds'' [] = Some (Memory (sol_table (sol_mds_len lib) (sol_mds_assigns lib)))"
proof -
  have tab: "list_all (\<lambda>(i, v). i < sol_ark_len lib \<and> v < 2 ^ 256) (sol_ark_assigns lib)"
    "list_all (\<lambda>(i, v). i < sol_mds_len lib \<and> v < 2 ^ 256) (sol_mds_assigns lib)"
    using assms unfolding lib_fits_def by blast+
  have len: "sol_ark_len lib < 2 ^ 256" "sol_mds_len lib < 2 ^ 256" using assms by (simp_all add: lib_fits_def)
  have "map_of (lib_funcs (poseidon_library lib)) ''_pow5'' = Some pow5_fn"
    "map_of (lib_funcs (poseidon_library lib)) ''_ark'' = Some (table_fn ''ark'' (sol_ark_len lib) (sol_ark_assigns lib))"
    "map_of (lib_funcs (poseidon_library lib)) ''_mds'' = Some (table_fn ''mds'' (sol_mds_len lib) (sol_mds_assigns lib))"
    by (simp_all add: poseidon_library_def)
  moreover have "run_fn L c (table_fn ''ark'' (sol_ark_len lib) (sol_ark_assigns lib)) [] = Some (Memory (sol_table (sol_ark_len lib) (sol_ark_assigns lib)))"
    "run_fn L c (table_fn ''mds'' (sol_mds_len lib) (sol_mds_assigns lib)) [] = Some (Memory (sol_table (sol_mds_len lib) (sol_mds_assigns lib)))"
    for L c by (rule run_table[OF tab(1) len(1)], rule run_table[OF tab(2) len(2)])
  ultimately show "call_fn (poseidon_library lib) (Suc n) ''_pow5'' [Word x] = Some (Word (pow5 lib x))"
    "call_fn (poseidon_library lib) (Suc n) ''_ark'' [] = Some (Memory (sol_table (sol_ark_len lib) (sol_ark_assigns lib)))"
    "call_fn (poseidon_library lib) (Suc n) ''_mds'' [] = Some (Memory (sol_table (sol_mds_len lib) (sol_mds_assigns lib)))"
    by (simp_all add: run_pow5[OF assms])
qed

lemma call_permute:
  assumes "lib_fits lib" "length xs = 5"
  shows "call_fn (poseidon_library lib) (Suc (Suc n)) ''_permute'' [Memory xs] = Some (Memory (sol_permute lib xs))"
proof -
  have "map_of (lib_funcs (poseidon_library lib)) ''_permute'' = Some (permute_fn lib)" by (simp add: poseidon_library_def)
  then show ?thesis
    unfolding call_fn.simps(2)[of _ "Suc n"] by (simp add: run_permute[OF assms call_helpers[OF assms(1)]] del: call_fn.simps)
qed

lemma call_hashes:
  assumes fits: "lib_fits lib"
  shows "call_fn (poseidon_library lib) (Suc (Suc (Suc n))) ''hash4'' [Word a, Word b, Word c, Word d] = Some (Word (hash4 lib a b c d))"
    "call_fn (poseidon_library lib) (Suc (Suc (Suc n))) ''hash2'' [Word a, Word b] = Some (Word (hash2 lib a b))"
proof -
  have t: "sol_t lib = 5" using fits by (simp add: lib_fits_def)
  note f = sol_mod_neq_0[OF fits]
  have fns: "map_of (lib_funcs (poseidon_library lib)) ''hash4'' = Some (hash4_fn lib)"
    "map_of (lib_funcs (poseidon_library lib)) ''hash2'' = Some (hash2_fn lib)"
    by (simp_all add: poseidon_library_def)
  have env: "entry_env (poseidon_library lib) (hash4_fn lib) [Word a, Word b, Word c, Word d]
      = (const_env lib)(''a'' \<mapsto> Word a, ''b'' \<mapsto> Word b, ''c'' \<mapsto> Word c, ''d'' \<mapsto> Word d)"
    "entry_env (poseidon_library lib) (hash2_fn lib) [Word a, Word b] = (const_env lib)(''a'' \<mapsto> Word a, ''b'' \<mapsto> Word b)"
    unfolding entry_env_def entry_consts[OF fits] by (simp_all add: hash4_fn_def hash2_fn_def fun_eq_iff map_add_def)
  note p = call_permute[OF fits]
  show "call_fn (poseidon_library lib) (Suc (Suc (Suc n))) ''hash4'' [Word a, Word b, Word c, Word d] = Some (Word (hash4 lib a b c d))"
    unfolding call_fn.simps(2)[of _ "Suc (Suc n)"] fns
    by (simp add: run_fn_def env del: call_fn.simps)
      (simp add: hash4_fn_def const_env_def t f store_def apply_fn_def select_def p sol_permute_length[OF t] hash4_def Let_def del: call_fn.simps)
  show "call_fn (poseidon_library lib) (Suc (Suc (Suc n))) ''hash2'' [Word a, Word b] = Some (Word (hash2 lib a b))"
    unfolding call_fn.simps(2)[of _ "Suc (Suc n)"] fns
    by (simp add: run_fn_def env del: call_fn.simps)
      (simp add: hash2_fn_def const_env_def t f store_def apply_fn_def select_def p sol_permute_length[OF t] hash2_def Let_def del: call_fn.simps)
qed

lemma call_foldNet:
  assumes fits: "lib_fits lib"
  shows "call_fn (poseidon_library lib) 4 ''foldNet'' [Word a, Word b, Word c, Word d] = Some (Word (foldNet lib a b c d))"
proof -
  have fns: "map_of (lib_funcs (poseidon_library lib)) ''foldNet'' = Some foldNet_fn" by (simp add: poseidon_library_def)
  have env: "entry_env (poseidon_library lib) foldNet_fn [Word a, Word b, Word c, Word d]
      = (const_env lib)(''acc'' \<mapsto> Word a, ''payeeKey'' \<mapsto> Word b, ''tokenId'' \<mapsto> Word c, ''amount'' \<mapsto> Word d)"
    unfolding entry_env_def entry_consts[OF fits] by (simp add: foldNet_fn_def fun_eq_iff map_add_def)
  have n: "(4::nat) = Suc (Suc (Suc (Suc 0)))" by simp
  show ?thesis
    unfolding n call_fn.simps(2)[of _ "Suc (Suc (Suc 0))"] fns
    by (simp add: run_fn_def env del: call_fn.simps)
      (simp add: foldNet_fn_def apply_fn_def call_hashes(1)[OF fits] foldNet_def del: call_fn.simps)
qed

text \<open>What the generator fills the template with fits, when the rounds can be counted in a word of the machine.\<close>

lemma table_assigns_bound:
  assumes "\<forall>row\<in>set rows. length row = t"
  shows "list_all (\<lambda>(i, v). i < length rows * t \<and> v < 2 ^ 256) (table_assigns t rows)"
proof -
  have "i < length rows * t \<and> v < 2 ^ 256" if iv: "(i, v) \<in> set (table_assigns t rows)" for i v
  proof -
    have "i \<in> set (map fst (table_assigns t rows))" using iv by force
    then have "i < length rows * t" unfolding table_assigns_fst[OF assms] by simp
    moreover obtain x where "v = fr_dec x" using iv by (auto simp: table_assigns_def)
    then have "v < 2 ^ 256" using fr_dec_bound[of x] fr_modulus_256 by simp
    ultimately show ?thesis by blast
  qed
  then show ?thesis by (auto simp: list_all_iff)
qed

lemma generated_fits:
  assumes "generate_solidity cfg = Inr lib" "config_wf cfg" "length (ark cfg) < 2 ^ 64"
  shows "lib_fits lib"
proof -
  have lib: "lib = \<lparr>sol_f = BN254_FR_MODULUS, sol_rounds = length (ark cfg), sol_full_half = full_rounds cfg div 2,
      sol_partial_end = full_rounds cfg div 2 + partial_rounds cfg, sol_t = 5, sol_ark_len = length (ark cfg) * 5, sol_mds_len = length (mds cfg) * 5,
      sol_ark_assigns = table_assigns 5 (ark cfg), sol_mds_assigns = table_assigns 5 (mds cfg)\<rparr>"
    and c: "rate cfg + capacity cfg = 5" "length (mds cfg) = 5" "length (ark cfg) = full_rounds cfg + partial_rounds cfg"
    using assms(1) by (auto simp: generate_solidity_def Let_def split: if_splits)
  have rows: "\<forall>k\<in>set (ark cfg). length k = 5" "\<forall>k\<in>set (mds cfg). length k = 5" using assms(2) c(1) by (simp_all add: config_wf_def)
  have "full_rounds cfg div 2 + partial_rounds cfg \<le> length (ark cfg)" "full_rounds cfg div 2 \<le> length (ark cfg)" using c(3) by simp_all
  moreover have "(2::nat) ^ 64 \<le> 2 ^ 256" "(2::nat) ^ 64 * 5 \<le> 2 ^ 256" by simp_all
  ultimately have "full_rounds cfg div 2 < 2 ^ 256" "full_rounds cfg div 2 + partial_rounds cfg < 2 ^ 256" "length (ark cfg) * 5 < 2 ^ 256"
    using assms(3) by linarith+
  then show ?thesis
    using table_assigns_bound[OF rows(1)] table_assigns_bound[OF rows(2)] c(2) by (simp add: lib lib_fits_def BN254_FR_MODULUS_def)
qed

end
