(* ===== verification/Gen_Poseidon.thy ===== *)
theory Gen_Poseidon
  imports Epoch_Proof Poseidon_Library
begin

text \<open>
  The text of the generated library and the binary that writes it (the template of crates/prover/src/poseidon_codegen.rs
  and crates/prover/src/bin/gen_poseidon.rs).  A string is the list of its UTF-8 bytes.  The text, body lines and tables
  alike, is lexed and parsed as Solidity: the program it holds is the one that \<^verbatim>\<open>Poseidon_Library\<close> runs.
\<close>

section \<open>The template\<close>

definition em_dash :: string where
  "em_dash = [CHR 0xE2, CHR 0x80, CHR 0x94]"

definition head_lines :: "solidity_lib \<Rightarrow> string list" where
  "head_lines lib = [
     ''// SPDX-License-Identifier: MIT'',
     ''// GENERATED by `cargo run -p prover --bin gen_poseidon`. DO NOT EDIT BY HAND.'',
     ''// Constants are arkworks' `poseidon_canonical_config` (BN254 Fr, t=5, 8 full + 60 partial'',
     ''// rounds, alpha=5) '' @ em_dash @ '' identical to the circuit's Poseidon. Pinned by poseidon_t5_fixture.json.'',
     ''pragma solidity ^0.8.30;'',
     [],
     ''library PoseidonT5 {'',
     ''    uint256 internal constant F = '' @ to_string (sol_f lib) @ '';'',
     ''    uint256 internal constant ROUNDS = '' @ to_string (sol_rounds lib) @ '';'',
     ''    uint256 internal constant FULL_HALF = '' @ to_string (sol_full_half lib) @ '';'',
     ''    uint256 internal constant PARTIAL_END = '' @ to_string (sol_partial_end lib) @ '';'',
     []]"

definition hash4_lines :: "solidity_lib \<Rightarrow> string list" where
  "hash4_lines lib = [
     ''    /// Fixed 4-input Poseidon (leaf hash, netsAcc fold). Matches arkworks CRH over 4 inputs.'',
     ''    function hash4(uint256 a, uint256 b, uint256 c, uint256 d) internal pure returns (uint256) {'',
     ''        uint256['' @ to_string (sol_t lib) @ ''] memory s;'',
     ''        s[1] = a % F;'',
     ''        s[2] = b % F;'',
     ''        s[3] = c % F;'',
     ''        s[4] = d % F;'',
     ''        return _permute(s)[1];'',
     ''    }'',
     []]"

definition hash2_lines :: "solidity_lib \<Rightarrow> string list" where
  "hash2_lines lib = [
     ''    /// 2-input Poseidon (Merkle node hash). Matches the circuit's `h2` (arkworks CRH over 2).'',
     ''    function hash2(uint256 a, uint256 b) internal pure returns (uint256) {'',
     ''        uint256['' @ to_string (sol_t lib) @ ''] memory s;'',
     ''        s[1] = a % F;'',
     ''        s[2] = b % F;'',
     ''        return _permute(s)[1];'',
     ''    }'',
     []]"

definition foldNet_lines :: "string list" where
  "foldNet_lines = [
     ''    /// netsAcc fold: acc' = Poseidon4(acc, payeeKey, tokenId, amount).'',
     ''    function foldNet(uint256 acc, uint256 payeeKey, uint256 tokenId, uint256 amount)'',
     ''        internal'',
     ''        pure'',
     ''        returns (uint256)'',
     ''    {'',
     ''        return hash4(acc, payeeKey, tokenId, amount);'',
     ''    }'',
     []]"

definition permute_lines :: "solidity_lib \<Rightarrow> string list" where
  "permute_lines lib = [
     ''    function _permute(uint256['' @ to_string (sol_t lib) @ ''] memory s) private pure returns (uint256['' @ to_string (sol_t lib) @ ''] memory) {'',
     ''        uint256['' @ to_string (sol_ark_len lib) @ ''] memory ark = _ark();'',
     ''        uint256['' @ to_string (sol_mds_len lib) @ ''] memory mds = _mds();'',
     ''        for (uint256 r = 0; r < ROUNDS; r++) {'',
     ''            for (uint256 j = 0; j < '' @ to_string (sol_t lib) @ ''; j++) {'',
     ''                s[j] = addmod(s[j], ark[r * '' @ to_string (sol_t lib) @ '' + j], F);'',
     ''            }'',
     ''            if (r < FULL_HALF || r >= PARTIAL_END) {'',
     ''                for (uint256 j = 0; j < '' @ to_string (sol_t lib) @ ''; j++) {'',
     ''                    s[j] = _pow5(s[j]);'',
     ''                }'',
     ''            } else {'',
     ''                s[0] = _pow5(s[0]);'',
     ''            }'',
     ''            uint256['' @ to_string (sol_t lib) @ ''] memory out;'',
     ''            for (uint256 i = 0; i < '' @ to_string (sol_t lib) @ ''; i++) {'',
     ''                uint256 acc = 0;'',
     ''                for (uint256 j = 0; j < '' @ to_string (sol_t lib) @ ''; j++) {'',
     ''                    acc = addmod(acc, mulmod(mds[i * '' @ to_string (sol_t lib) @ '' + j], s[j], F), F);'',
     ''                }'',
     ''                out[i] = acc;'',
     ''            }'',
     ''            s = out;'',
     ''        }'',
     ''        return s;'',
     ''    }'',
     []]"

definition pow5_lines :: "string list" where
  "pow5_lines = [
     ''    function _pow5(uint256 x) private pure returns (uint256) {'',
     ''        uint256 x2 = mulmod(x, x, F);'',
     ''        uint256 x4 = mulmod(x2, x2, F);'',
     ''        return mulmod(x4, x, F);'',
     ''    }'',
     []]"

text \<open>One assignment of a constant table.\<close>

definition assign_line :: "string \<Rightarrow> nat \<times> nat \<Rightarrow> string" where
  "assign_line name a = ''        '' @ name @ ''['' @ to_string (fst a) @ ''] = '' @ to_string (snd a) @ '';''"

definition table_lines :: "string \<Rightarrow> nat \<Rightarrow> (nat \<times> nat) list \<Rightarrow> string list" where
  "table_lines name len assigns =
     [''    function _'' @ name @ ''() private pure returns (uint256['' @ to_string len @ ''] memory '' @ name @ '') {'']
     @ map (assign_line name) assigns @ [''    }'']"

definition solidity_lines :: "solidity_lib \<Rightarrow> string list" where
  "solidity_lines lib = head_lines lib @ hash4_lines lib @ hash2_lines lib @ foldNet_lines @ permute_lines lib @ pow5_lines
     @ table_lines ''ark'' (sol_ark_len lib) (sol_ark_assigns lib) @ [[]]
     @ table_lines ''mds'' (sol_mds_len lib) (sol_mds_assigns lib) @ [''}'']"

definition solidity_text :: "solidity_lib \<Rightarrow> string" where
  "solidity_text lib = concat (map (\<lambda>l. l @ [newline]) (solidity_lines lib))"

section \<open>The tokens of the text\<close>

lemma to_string_digits: "list_all is_digit (to_string n)"
proof (induction n rule: to_string.induct)
  case (1 n)
  have "is_digit (char_of (48 + m))" if "m < 10" for m :: nat using that by (simp add: is_digit_def char_in_def)
  then show ?case using 1 by (subst to_string.simps) simp
qed

lemma read_to_string: "foldl (\<lambda>n c. 10 * n + (of_char c - 48)) 0 (to_string n) = n"
proof (induction n rule: to_string.induct)
  case (1 n)
  have "(of_char (char_of (48 + m)) :: nat) = 48 + m" if "m < 10" for m :: nat using that by simp
  then show ?case using 1 by (subst to_string.simps) simp
qed

lemma read_number [simp]:
  assumes "\<not> is_digit c"
  shows "read_number (to_string n @ c # s) = n" "dropWhile is_digit (to_string n @ c # s) = c # s"
proof -
  have d: "list_all is_digit (to_string n)" by (rule to_string_digits)
  then have "takeWhile is_digit (to_string n @ c # s) = to_string n"
    using assms by (simp add: takeWhile_append2 list_all_iff)
  then show "read_number (to_string n @ c # s) = n" by (simp add: read_number_def read_to_string)
  show "dropWhile is_digit (to_string n @ c # s) = c # s"
    using d assms by (simp add: dropWhile_append2 list_all_iff)
qed

lemma to_string_newline [simp]: "newline \<notin> set (to_string n)"
  using to_string_digits[of n] by (auto simp: list_all_iff newline_def is_digit_def char_in_def)

lemma split_line: "newline \<notin> set s \<Longrightarrow> split_lines l (s @ newline # rest) = (l @ s) # split_lines [] rest"
  by (induction s arbitrary: l) auto

lemma split_lines_concat: "list_all (\<lambda>l. newline \<notin> set l) ls \<Longrightarrow> split_lines [] (concat (map (\<lambda>l. l @ [newline]) ls)) = ls"
  by (induction ls) (simp_all add: split_line)

text \<open>The lines hold no line break.\<close>

lemma head_newline: "list_all (\<lambda>l. newline \<notin> set l) (head_lines lib)"
  by (simp add: head_lines_def em_dash_def to_string_newline[unfolded newline_def] newline_def)

lemma hash_newline: "list_all (\<lambda>l. newline \<notin> set l) (hash4_lines lib @ hash2_lines lib @ foldNet_lines)"
  by (simp add: hash4_lines_def hash2_lines_def foldNet_lines_def to_string_newline[unfolded newline_def] newline_def)

lemma permute_newline: "list_all (\<lambda>l. newline \<notin> set l) (permute_lines lib)"
  by (simp add: permute_lines_def to_string_newline[unfolded newline_def] newline_def)

lemma pow5_newline: "list_all (\<lambda>l. newline \<notin> set l) pow5_lines"
  by (simp add: pow5_lines_def newline_def)

lemma table_newline: "newline \<notin> set name \<Longrightarrow> list_all (\<lambda>l. newline \<notin> set l) (table_lines name len assigns)"
  by (auto simp: table_lines_def assign_line_def list_all_iff to_string_newline[unfolded newline_def] newline_def)

lemma solidity_lines_newline: "list_all (\<lambda>l. newline \<notin> set l) (solidity_lines lib)"
  using head_newline hash_newline permute_newline pow5_newline
    table_newline[of "''ark''" "sol_ark_len lib" "sol_ark_assigns lib"] table_newline[of "''mds''" "sol_mds_len lib" "sol_mds_assigns lib"]
  by (simp add: solidity_lines_def newline_def)

lemma lex_number [simp]:
  assumes "\<not> is_digit c"
  shows "lex (to_string n @ c # s) = Num n # lex (c # s)"
proof -
  have "to_string n \<noteq> []" by (subst to_string.simps) simp
  then obtain d ds where t: "to_string n = d # ds" by (meson list.exhaust)
  have d: "is_digit d" using to_string_digits[of n] by (simp add: t)
  then have "d \<noteq> CHR '' ''" "d \<noteq> CHR ''/''" by (auto simp: is_digit_def char_in_def)
  moreover have "read_number (d # ds @ c # s) = n" "dropWhile is_digit (ds @ c # s) = c # s"
    using read_number[OF assms, of n s] d by (simp_all add: t)
  ultimately show ?thesis using d by (simp add: t)
qed

text \<open>Evaluation of the lexer on literal text.\<close>

lemma lex_literal: "lex (c # s) = (if c = CHR '' '' then lex s
     else if c = CHR ''/'' \<and> take 1 s = ''/'' then []
     else if char_in 48 57 c then Num (read_number (c # s)) # lex (dropWhile is_digit s)
     else if is_word c then Id (c # takeWhile is_word s) # lex (dropWhile is_word s)
     else if c # take 1 s \<in> {''>='', ''||'', ''++''} then Sym (c # take 1 s) # lex (drop 1 s)
     else Sym [c] # lex s)"
  by (simp add: is_digit_def)

lemmas lexing = lexes_def lex_literal is_word_def is_digit_def char_in_def read_number_def

declare lex.simps(2) [simp del]

lemma lexes_Cons: "lexes (l # ls) = lex l @ lexes ls"
  by (simp add: lexes_def)

lemma lexes_append [simp]: "lexes (ls @ ls') = lexes ls @ lexes ls'"
  by (simp add: lexes_def)

text \<open>An assignment of a table.\<close>

definition assign_tokens :: "string \<Rightarrow> nat \<times> nat \<Rightarrow> token list" where
  "assign_tokens name a = [Id name, Sym ''['', Num (fst a), Sym '']'', Sym ''='', Num (snd a), Sym '';'']"

lemma lex_assign: "lex (assign_line ''ark'' a) = assign_tokens ''ark'' a" "lex (assign_line ''mds'' a) = assign_tokens ''mds'' a"
  by (simp_all add: assign_line_def assign_tokens_def lexing)

section \<open>Parsing the text\<close>

text \<open>The parser is run from the outside in.\<close>

lemma bind_first: "x = y \<Longrightarrow> Option.bind x f = Option.bind y f"
  by simp

lemma parse_fuel:
  "20 \<le> n \<Longrightarrow> \<exists>m. n = Suc (Suc (Suc (Suc (Suc (Suc (Suc (Suc (Suc (Suc (Suc (Suc (Suc (Suc (Suc (Suc (Suc (Suc (Suc (Suc m)))))))))))))))))))"
  by (rule exI[of _ "n - 20"]) simp

lemma expression_fuel: "expression ts = parse_expr (Suc (Suc (Suc (Suc (Suc (Suc (Suc (Suc 0)))))))) 0 ts"
  by (simp add: expression_def eval_nat_numeral)

lemmas parsing = expression_fuel expr_then_def array_type_def local_var_def assignment_def loop_head_def parse_stmt_def
  parse_atom_def parameters_def result_type_def parse_func_def

text \<open>An item of the library: the lines hold a function and nothing else.\<close>

definition lines_hold :: "nat \<Rightarrow> string list \<Rightarrow> string \<times> func \<Rightarrow> bool" where
  "lines_hold n ls f \<longleftrightarrow> (\<exists>us. lexes ls = Id ''function'' # us \<and> (\<forall>ts. parse_func n (us @ ts) = Some (f, ts)))"

lemma parse_function: "lines_hold n ls f \<Longrightarrow> parse_items (Suc n) (lexes ls @ ts) = map_option (lib_funcs_update ((#) f)) (parse_items n ts)"
  by (auto simp: lines_hold_def)

lemma hold_hash4: "20 \<le> n \<Longrightarrow> lines_hold n (hash4_lines lib) (''hash4'', hash4_fn lib)"
  by (drule parse_fuel, elim exE)
    (simp add: lines_hold_def hash4_lines_def lexing, simp add: hash4_fn_def parsing cong: bind_first)

lemma hold_hash2: "20 \<le> n \<Longrightarrow> lines_hold n (hash2_lines lib) (''hash2'', hash2_fn lib)"
  by (drule parse_fuel, elim exE)
    (simp add: lines_hold_def hash2_lines_def lexing, simp add: hash2_fn_def parsing cong: bind_first)

lemma hold_foldNet: "20 \<le> n \<Longrightarrow> lines_hold n foldNet_lines (''foldNet'', foldNet_fn)"
  by (drule parse_fuel, elim exE)
    (simp add: lines_hold_def foldNet_lines_def lexing, simp add: foldNet_fn_def parsing cong: bind_first)

lemma hold_permute: "20 \<le> n \<Longrightarrow> lines_hold n (permute_lines lib) (''_permute'', permute_fn lib)"
  by (drule parse_fuel, elim exE)
    (simp add: lines_hold_def permute_lines_def lexing, simp add: permute_fn_def parsing ark_loop_def sbox_stmt_def row_loop_def mds_loop_def round_body_def cong: bind_first)

lemma hold_pow5: "20 \<le> n \<Longrightarrow> lines_hold n pow5_lines (''_pow5'', pow5_fn)"
  by (drule parse_fuel, elim exE)
    (simp add: lines_hold_def pow5_lines_def lexing, simp add: pow5_fn_def parsing cong: bind_first)

lemma parse_assigns:
  assumes "length assigns < n" "name \<notin> {''uint256'', ''return'', ''for'', ''if''}"
  shows "parse_block n (concat (map (assign_tokens name) assigns) @ Sym ''}'' # ts) = Some (map (\<lambda>(i, v). Store name (Lit i) (Lit v)) assigns, ts)"
  using assms(1)
proof (induction assigns arbitrary: n)
  case Nil
  then show ?case by (cases n) simp_all
next
  case (Cons a as)
  obtain k where n: "n = Suc k" using Cons.prems by (cases n) simp_all
  have "parse_block k (concat (map (assign_tokens name) as) @ Sym ''}'' # ts) = Some (map (\<lambda>(i, v). Store name (Lit i) (Lit v)) as, ts)"
    by (rule Cons.IH) (use Cons.prems n in simp)
  moreover obtain i v where a: "a = (i, v)" by fastforce
  moreover have "assign_tokens name (i, v) = [Id name, Sym ''['', Num i, Sym '']'', Sym ''='', Num v, Sym '';'']"
    by (simp add: assign_tokens_def)
  ultimately show ?case
    using assms(2) by (simp add: n parsing cong: bind_first)
qed

lemma lexes_table:
  "lexes (map (assign_line ''ark'') assigns) = concat (map (assign_tokens ''ark'') assigns)"
  "lexes (map (assign_line ''mds'') assigns) = concat (map (assign_tokens ''mds'') assigns)"
  by (simp_all add: lexes_def lex_assign comp_def)

lemma hold_tables:
  assumes "length assigns < n"
  shows "lines_hold n (table_lines ''ark'' len assigns) (''_ark'', table_fn ''ark'' len assigns)"
    "lines_hold n (table_lines ''mds'' len assigns) (''_mds'', table_fn ''mds'' len assigns)"
proof -
  have e: "lexes [''    }''] = [Sym ''}'']" by (simp add: lexing)
  have h: "lexes [''    function _ark() private pure returns (uint256['' @ to_string len @ ''] memory ark) {'']
      = [Id ''function'', Id ''_ark'', Sym ''('', Sym '')'', Id ''private'', Id ''pure'', Id ''returns'', Sym ''('', Id ''uint256'', Sym ''['',
         Num len, Sym '']'', Id ''memory'', Id ''ark'', Sym '')'', Sym ''{'']"
    "lexes [''    function _mds() private pure returns (uint256['' @ to_string len @ ''] memory mds) {'']
      = [Id ''function'', Id ''_mds'', Sym ''('', Sym '')'', Id ''private'', Id ''pure'', Id ''returns'', Sym ''('', Id ''uint256'', Sym ''['',
         Num len, Sym '']'', Id ''memory'', Id ''mds'', Sym '')'', Sym ''{'']"
    by (simp_all add: lexing)
  have t: "table_lines ''ark'' len assigns = [''    function _ark() private pure returns (uint256['' @ to_string len @ ''] memory ark) {'']
      @ map (assign_line ''ark'') assigns @ [''    }'']"
    "table_lines ''mds'' len assigns = [''    function _mds() private pure returns (uint256['' @ to_string len @ ''] memory mds) {'']
      @ map (assign_line ''mds'') assigns @ [''    }'']"
    by (simp_all add: table_lines_def)
  show "lines_hold n (table_lines ''ark'' len assigns) (''_ark'', table_fn ''ark'' len assigns)"
    unfolding lines_hold_def t lexes_append h lexes_table e by (simp add: parsing parse_assigns[OF assms] table_fn_def cong: bind_first)
  show "lines_hold n (table_lines ''mds'' len assigns) (''_mds'', table_fn ''mds'' len assigns)"
    unfolding lines_hold_def t lexes_append h lexes_table e by (simp add: parsing parse_assigns[OF assms] table_fn_def cong: bind_first)
qed

lemma table_token_count:
  "length assigns \<le> length (lexes (table_lines ''ark'' len assigns))" "length assigns \<le> length (lexes (table_lines ''mds'' len assigns))"
proof -
  have "length assigns \<le> length (concat (map (assign_tokens name) assigns))" for name
    by (induction assigns) (simp_all add: assign_tokens_def)
  then show "length assigns \<le> length (lexes (table_lines ''ark'' len assigns))" "length assigns \<le> length (lexes (table_lines ''mds'' len assigns))"
    by (simp_all add: table_lines_def lexes_Cons lexes_table trans_le_add2 trans_le_add1)
qed

lemma pow5_token_count: "40 \<le> length (lexes pow5_lines)"
  by (simp add: pow5_lines_def lexing)

text \<open>The pragma, the opening of the library and its constants.\<close>

lemma parse_head:
  "parse_file (Suc (Suc (Suc (Suc n)))) (lexes (head_lines lib) @ ts)
    = map_option (lib_consts_update ((@) (lib_consts (poseidon_library lib)))) (parse_items n ts)"
proof -
  have "parse_file (Suc (Suc (Suc (Suc n)))) (lexes (head_lines lib) @ ts)
      = map_option (lib_consts_update ((#) (''F'', sol_f lib))) (map_option (lib_consts_update ((#) (''ROUNDS'', sol_rounds lib)))
          (map_option (lib_consts_update ((#) (''FULL_HALF'', sol_full_half lib)))
          (map_option (lib_consts_update ((#) (''PARTIAL_END'', sol_partial_end lib))) (parse_items n ts))))"
    by (simp add: head_lines_def em_dash_def lexing) (simp add: parse_file_def cong: bind_first)
  then show ?thesis by (cases "parse_items n ts") (simp_all add: poseidon_library_def)
qed

theorem read_solidity_text: "read_source (solidity_text lib) = Some (poseidon_library lib)"
proof -
  let ?a = "table_lines ''ark'' (sol_ark_len lib) (sol_ark_assigns lib)" and ?m = "table_lines ''mds'' (sol_mds_len lib) (sol_mds_assigns lib)"
  define ts where "ts = lexes (solidity_lines lib)"
  have e: "lexes [[]] = []" "lexes [''}''] = [Sym ''}'']" by (simp_all add: lexing)
  have split: "ts = lexes (head_lines lib) @ lexes (hash4_lines lib) @ lexes (hash2_lines lib) @ lexes foldNet_lines
      @ lexes (permute_lines lib) @ lexes pow5_lines @ lexes ?a @ lexes ?m @ [Sym ''}'']"
    unfolding ts_def solidity_lines_def lexes_append e by simp
  then have l: "40 + length (sol_ark_assigns lib) + length (sol_mds_assigns lib) \<le> length ts"
    using table_token_count(1)[of "sol_ark_assigns lib" "sol_ark_len lib"] table_token_count(2)[of "sol_mds_assigns lib" "sol_mds_len lib"]
      pow5_token_count by simp
  then have "12 \<le> length ts" by linarith
  then obtain k where "length ts = 12 + k" using le_Suc_ex by blast
  then have k: "length ts = Suc (Suc (Suc (Suc (Suc (Suc (Suc (Suc (Suc (Suc (Suc (Suc k)))))))))))" by simp
  have fuel: "20 \<le> k" "length (sol_ark_assigns lib) < k" "length (sol_mds_assigns lib) < k" using l k by linarith+
  have "parse_file (length ts) ts = Some (poseidon_library lib)"
    unfolding k unfolding split parse_head using fuel
    by (simp add: parse_function[OF hold_hash4] parse_function[OF hold_hash2] parse_function[OF hold_foldNet] parse_function[OF hold_permute]
      parse_function[OF hold_pow5] parse_function[OF hold_tables(1)] parse_function[OF hold_tables(2)] del: parse_items.simps)
      (simp add: poseidon_library_def)
  then show ?thesis
    by (simp add: read_source_def solidity_text_def split_lines_concat[OF solidity_lines_newline] flip: ts_def)
qed

section \<open>The binary\<close>

definition gen_main :: "hex_encode \<Rightarrow> (json \<Rightarrow> string + string) \<Rightarrow> fr poseidon_config \<Rightarrow> io \<Rightarrow> (prover_error + unit) \<times> files" where
  "gen_main hex to_string_pretty cfg fs =
    (case result_bind (crash (repo_root fs)) (\<lambda>root_dir.
          result_bind (io_result (dir_error fs (join_path root_dir ''contracts/src''))) (\<lambda>_.
          result_bind (io_result (dir_error fs (join_path root_dir ''contracts/generated''))) (\<lambda>_. Inr root_dir))) of
       Inl e \<Rightarrow> (Inl e, [])
     | Inr root_dir \<Rightarrow> write_all fs
         [(join_path root_dir ''contracts/src/PoseidonT5.sol'', crash (result_bind (generate_solidity cfg) (\<lambda>lib. Inr (solidity_text lib)))),
          (join_path root_dir ''contracts/generated/poseidon_t5_fixture.json'', pretty_print to_string_pretty (generate_fixture hex cfg))] [])"

text \<open>
  C23. The generator's files.  For Poseidon parameters of the expected shape with exponent five, and a file system
  without errors, the binary writes the library and its fixture.  The written source parses, as Solidity, to a program
  whose functions return without a revert and compute the circuit's hashes: \<^verbatim>\<open>hash4\<close> and \<^verbatim>\<open>foldNet\<close> of any four words are
  the native hash of four, and \<^verbatim>\<open>hash2\<close> of any two words the native hash of two.
\<close>

theorem gen_poseidon_writes:
  assumes "generate_solidity cfg = Inr lib" "config_wf cfg" "alpha cfg = 5" "capacity cfg = 1" "length (ark cfg) < 2 ^ 64"
    and "repo_root fs = Inr dir" "\<And>p. dir_error fs p = None" "\<And>p. write_error fs p = None"
    and "to_string_pretty (library_fixture hex lib) = Inr fixture"
  shows "\<exists>source prog. gen_main hex to_string_pretty cfg fs = (Inr (), [(join_path dir ''contracts/src/PoseidonT5.sol'', source),
        (join_path dir ''contracts/generated/poseidon_t5_fixture.json'', fixture)])
    \<and> read_source source = Some prog
    \<and> (\<forall>a b c d. \<exists>h. native_h4 fr_field \<lparr>config = cfg\<rparr> (word_fr a) (word_fr b) (word_fr c) (word_fr d) = Inr h
        \<and> call_fn prog 3 ''hash4'' [Word a, Word b, Word c, Word d] = Some (Word (fr_word h))
        \<and> call_fn prog 4 ''foldNet'' [Word a, Word b, Word c, Word d] = Some (Word (fr_word h)))
    \<and> (\<forall>a b. \<exists>h. native_h2 fr_field \<lparr>config = cfg\<rparr> (word_fr a) (word_fr b) = Inr h
        \<and> call_fn prog 3 ''hash2'' [Word a, Word b] = Some (Word (fr_word h)))"
proof (intro exI conjI)
  show "gen_main hex to_string_pretty cfg fs = (Inr (), [(join_path dir ''contracts/src/PoseidonT5.sol'', solidity_text lib),
      (join_path dir ''contracts/generated/poseidon_t5_fixture.json'', fixture)])"
    using fixture_pins_library[OF assms(1-4), of hex]
    by (simp add: gen_main_def assms(1,6-9) io_result_def pretty_print_def)
  show "read_source (solidity_text lib) = Some (poseidon_library lib)" by (rule read_solidity_text)
  have fits: "lib_fits lib" by (rule generated_fits[OF assms(1,2,5)])
  have three: "(3::nat) = Suc (Suc (Suc 0))" by simp
  note hashes = call_hashes[OF fits, of 0, folded three] call_foldNet[OF fits] foldNet_def hash4_spec[OF assms(1-4)]
    native_arity native_hn_spec[OF assms(2)]
  show "\<forall>a b c d. \<exists>h. native_h4 fr_field \<lparr>config = cfg\<rparr> (word_fr a) (word_fr b) (word_fr c) (word_fr d) = Inr h
        \<and> call_fn (poseidon_library lib) 3 ''hash4'' [Word a, Word b, Word c, Word d] = Some (Word (fr_word h))
        \<and> call_fn (poseidon_library lib) 4 ''foldNet'' [Word a, Word b, Word c, Word d] = Some (Word (fr_word h))"
    by (simp add: hashes)
  show "\<forall>a b. \<exists>h. native_h2 fr_field \<lparr>config = cfg\<rparr> (word_fr a) (word_fr b) = Inr h
        \<and> call_fn (poseidon_library lib) 3 ''hash2'' [Word a, Word b] = Some (Word (fr_word h))"
    by (simp add: hashes)
qed

theorem gen_poseidon_writes_witness:
  "\<exists>source prog h. gen_main toy_hex (\<lambda>_. Inr ''{}'') toy_config toy_io = (Inr (), [(join_path ''repo'' ''contracts/src/PoseidonT5.sol'', source),
         (join_path ''repo'' ''contracts/generated/poseidon_t5_fixture.json'', ''{}'')])
     \<and> read_source source = Some prog \<and> native_h2 fr_field \<lparr>config = toy_config\<rparr> (word_fr 1) (word_fr 2) = Inr h
     \<and> call_fn prog 3 ''hash2'' [Word 1, Word 2] = Some (Word (fr_word h))"
proof -
  obtain lib where lib: "generate_solidity toy_config = Inr lib"
    by (simp add: generate_solidity_def toy_config_def)
  have c: "alpha toy_config = 5" "capacity toy_config = 1" "length (ark toy_config) < 2 ^ 64" by (simp_all add: toy_config_def)
  have io: "repo_root toy_io = Inr ''repo''" "\<And>p. dir_error toy_io p = None" "\<And>p. write_error toy_io p = None"
    by (simp_all add: toy_io_def)
  show ?thesis
    using gen_poseidon_writes[where hex = toy_hex and to_string_pretty = "\<lambda>_. Inr ''{}''", OF lib toy_config_wf(1) c io refl] by blast
qed

end
