(* ===== verification/Crate_Tests.thy ===== *)
theory Crate_Tests
  imports Epoch_Run
begin

text \<open>
  The unit tests of crates/ledger-circuit (imt.rs, lib.rs, poseidon.rs) as functions of the Poseidon parameters: a test
  that passes returns, one that fails panics.  They pass for all parameters of the right shape, not
  only for the canonical ones they are run with.
\<close>

section \<open>The tests\<close>

text \<open>\<^verbatim>\<open>result.unwrap()\<close>\<close>

abbreviation unwrapped :: "fault + 'a \<Rightarrow> fault + 'a" where
  "unwrapped \<equiv> expect"

definition test_value :: "fr fpvar \<Rightarrow> fault + fr" where
  "test_value v = (case fpvar_value v of Inl e \<Rightarrow> Inl Panic | Inr x \<Rightarrow> Inr x)"

definition test_satisfied :: "fr cs \<Rightarrow> fault + unit" where
  "test_satisfied cs = result_bind (unwrapped (is_satisfied cs)) assert"

definition native_path_roundtrips :: "bool \<Rightarrow> fr poseidon_config \<Rightarrow> fault + unit" where
  "native_path_roundtrips oc canonical_config =
     result_bind (merkle_new fr_field canonical_config 22) (\<lambda>t.
     let p = poseidon_native_new canonical_config in
     result_bind (native_h4 fr_field p (from_u64 7) (from_u64 1) (from_u64 100) (from_u64 0)) (\<lambda>lf.
     let idx = 12345 in
     result_bind (set_leaf fr_field idx lf t) (\<lambda>t.
     result_bind (siblings t idx) (\<lambda>sibs.
     result_bind (index_bits oc t idx) (\<lambda>bits.
     result_bind (root_from_leaf fr_field t lf sibs bits) (\<lambda>r.
     result_bind (root t) (\<lambda>r'. assert (r = r'))))))))"

definition gadget_matches_native_root :: "bool \<Rightarrow> fr poseidon_config \<Rightarrow> fault + unit" where
  "gadget_matches_native_root oc canonical_config =
     result_bind (merkle_new fr_field canonical_config 22) (\<lambda>t.
     let native_p = poseidon_native_new canonical_config in
     result_bind (native_h4 fr_field native_p (from_u64 9) (from_u64 1) (from_u64 50) (from_u64 3)) (\<lambda>lf.
     let idx = 999 in
     result_bind (set_leaf fr_field idx lf t) (\<lambda>t.
     result_bind (siblings t idx) (\<lambda>sibs.
     result_bind (index_bits oc t idx) (\<lambda>bits.
     result_bind (unwrapped (bind (poseidon_gadget_new (config native_p)) (\<lambda>g.
         bind (fp_new_variable (Inr lf) Witness_Mode) (\<lambda>leaf_var.
         bind (map_m (\<lambda>s. fp_new_variable (Inr s) Witness_Mode) sibs) (\<lambda>sib_vars.
         bind (map_m (\<lambda>b. bool_new_variable (Inr b) Witness_Mode) bits) (\<lambda>bit_vars.
         merkle_root_from_leaf fr_field g leaf_var sib_vars bit_vars)))) cs_new)) (\<lambda>(root_var, cs).
     result_bind (test_value root_var) (\<lambda>r.
     result_bind (root t) (\<lambda>r'.
     result_bind (assert (r = r')) (\<lambda>_. test_satisfied cs)))))))))"

definition h4_native_matches_gadget :: "fr poseidon_config \<Rightarrow> fault + unit" where
  "h4_native_matches_gadget canonical_config =
    (let native = poseidon_native_new canonical_config; vals = map from_u64 [1, 2, 3, 4] in
     result_bind (native_h4 fr_field native (vals ! 0) (vals ! 1) (vals ! 2) (vals ! 3)) (\<lambda>out_native.
     result_bind (unwrapped (bind (poseidon_gadget_new (config native)) (\<lambda>g.
         bind (map_m (\<lambda>v. fp_new_variable (Inr v) Witness_Mode) vals) (\<lambda>vars.
         gadget_h4 fr_field g (vars ! 0) (vars ! 1) (vars ! 2) (vars ! 3))) cs_new)) (\<lambda>(out_gadget, cs).
     result_bind (test_value out_gadget) (\<lambda>v.
     result_bind (assert (out_native = v)) (\<lambda>_. test_satisfied cs)))))"

text \<open>The circuit half of the two tests of lib.rs.\<close>

definition synthesis_test ::
  "fr poseidon_config \<Rightarrow> nat \<Rightarrow> nat \<Rightarrow> fr list \<Rightarrow> fr op_witness epoch_step_input \<Rightarrow> fr list \<Rightarrow> fault + unit" where
  "synthesis_test canonical_config B D z0 batch z_expected =
     result_bind (unwrapped (synthesize_step (ledger_circuit_new canonical_config) B D (Inr z0) (Inr batch) cs_new)) (\<lambda>((_, _, z_next), cs).
     result_bind (test_satisfied cs) (\<lambda>_.
     result_bind (result_map test_value z_next) (\<lambda>z_next_val. assert (z_next_val = z_expected))))"

definition single_batch_native_matches_circuit :: "bool \<Rightarrow> fr poseidon_config \<Rightarrow> fault + unit" where
  "single_batch_native_matches_circuit oc canonical_config =
    (let B = 4; D = 10; pool = from_u64 1000; ben_a = from_u64 2001; ben_b = from_u64 2002; retailer = from_u64 3001;
         token = from_u64 1 in
     result_bind (executor_new fr_field canonical_config D) (\<lambda>exec.
     result_bind (register oc fr_field D (sink_key exec) token 0 0 exec) (\<lambda>exec.
     result_bind (register oc fr_field D pool token 1000000 0 exec) (\<lambda>exec.
     result_bind (register oc fr_field D ben_a token 0 0 exec) (\<lambda>exec.
     result_bind (register oc fr_field D ben_b token 0 0 exec) (\<lambda>exec.
     result_bind (register oc fr_field D retailer token 0 0 exec) (\<lambda>exec.
     result_bind (initial_state exec) (\<lambda>z0.
     result_bind (load oc fr_field D pool ben_a token 500 exec) (\<lambda>(op1, exec).
     result_bind (load oc fr_field D pool ben_b token 300 exec) (\<lambda>(op2, exec).
     result_bind (spend oc fr_field D ben_a retailer token 200 exec) (\<lambda>(op3, exec).
     result_bind (withdraw oc fr_field D retailer token 200 exec) (\<lambda>(op4, exec).
     result_bind (state exec) (\<lambda>z_expected.
     result_bind (to_array B [op1, op2, op3, op4]) (\<lambda>batch.
     synthesis_test canonical_config B D z0 \<lparr>ops = batch\<rparr> z_expected))))))))))))))"

definition inactive_batch_is_noop :: "fr poseidon_config \<Rightarrow> fault + unit" where
  "inactive_batch_is_noop canonical_config =
    (let B = 4; D = 10; z0 = map from_u64 [123, 456, 789] in
     synthesis_test canonical_config B D z0 (epoch_step_input_default B D) z0)"

section \<open>They pass\<close>

lemma assert_True [simp]: "assert True = Inr ()"
  by (simp add: assert_def)

lemma test_satisfied_honest: "honest cs \<Longrightarrow> test_satisfied cs = Inr ()"
  by (simp add: test_satisfied_def is_satisfied_tracked honest_models expect_def)

lemma test_value_is: "fp_is cs v x \<Longrightarrow> test_value v = Inr x"
  by (simp add: test_value_def fp_isD)

text \<open>A computation that is complete and delivers a known value passes the rest of its test.\<close>

lemma run_complete:
  assumes "complete cs_new m (\<lambda>r cs'. fp_is cs' r h)"
  obtains r cs where "m cs_new = Inr (r, cs)" "test_value r = Inr h" "test_satisfied cs = Inr ()"
  using completeE[OF assms honest_new] test_value_is test_satisfied_honest by metis

lemma tree_opens:
  assumes "tree_wf fr_field t" "depth t \<le> 64" "unat i < 2 ^ depth t"
  obtains sibs bits where "siblings t i = Inr sibs" "index_bits oc t i = Inr bits" "length sibs = depth t" "length bits = depth t"
    "path_root (native_h2 fr_field (poseidon t)) (zip sibs bits) (node_val t 0 i) = Inr (node_val t (depth t) 0)"
proof -
  let ?sibs = "map (\<lambda>l. node_val t l (drop_bit l i XOR 1)) [0..<depth t]"
  let ?bits = "map (bit i) [0..<depth t]"
  have "zip ?sibs ?bits = path_of t i" by (simp add: path_of_def zip_path)
  then have "path_root (native_h2 fr_field (poseidon t)) (zip ?sibs ?bits) (node_val t 0 i) = Inr (node_val t (depth t) 0)"
    using path_of_root[OF assms(1) index_in_range[OF assms(3)]] by simp
  then show ?thesis
    using that[of ?sibs ?bits] siblings_eq[OF assms(1), of i] index_bits_eq[OF assms(2), of oc i] by simp
qed

text \<open>A tree with one leaf set, and the path the two tests of imt.rs take from it.\<close>

lemma set_leaf_opens:
  assumes "config_wf cfg" "unat i < 2 ^ 22"
  obtains t t' sibs bits rt where "merkle_new fr_field cfg 22 = Inr t" "set_leaf fr_field i lf t = Inr t'"
    "siblings t' i = Inr sibs" "index_bits oc t' i = Inr bits" "root t' = Inr rt" "length sibs = 22" "length bits = 22"
    "path_root (native_h2 fr_field \<lparr>config = cfg\<rparr>) (zip sibs bits) lf = Inr rt"
    "root_from_leaf fr_field t' lf sibs bits = Inr rt"
proof -
  obtain t where t: "merkle_new fr_field cfg 22 = Inr t" using merkle_new_total[OF assms(1)] by blast
  have wf: "tree_wf fr_field t" "depth t = 22" "poseidon t = \<lparr>config = cfg\<rparr>"
    using merkle_new_wf[OF t] by simp_all
  obtain t' where t': "set_leaf fr_field i lf t = Inr t'" using set_leaf_total[OF wf(1)] assms(1) wf(3) by auto
  note c = set_leaf_correct[OF wf(1) t']
  have sh: "depth t' = 22" "poseidon t' = \<lparr>config = cfg\<rparr>" using c(2) wf(2,3) by (simp_all add: same_shape_def)
  obtain sibs bits where o: "siblings t' i = Inr sibs" "index_bits oc t' i = Inr bits" "length sibs = depth t'" "length bits = depth t'"
      "path_root (native_h2 fr_field (poseidon t')) (zip sibs bits) (node_val t' 0 i) = Inr (node_val t' (depth t') 0)"
    by (rule tree_opens[OF c(1), of i oc]) (use assms(2) sh in auto)
  have "node_val t' 0 i = lf" using c(3) .
  then show ?thesis
    using that[OF t t' o(1,2), of "node_val t' 22 0"] o(3-5) root_eq[OF c(1)] by (simp add: sh root_from_leaf_def)
qed

lemma native_path_roundtrips_passes: "config_wf cfg \<Longrightarrow> native_path_roundtrips oc cfg = Inr ()"
  by (rule set_leaf_opens[of cfg 12345 "crh_spec cfg [from_u64 7, from_u64 1, from_u64 100, from_u64 0]" oc])
    (simp_all add: native_path_roundtrips_def poseidon_native_new_def native_arity native_hn_spec)

lemma fresh_fps: "complete cs (map_m (\<lambda>s. fp_new_variable (Inr s) Witness_Mode) xs) (\<lambda>ys cs'. list_all2 (fp_is cs') ys xs)"
  by (rule complete_map_m_values[where P = "\<lambda>_. (=)"]) (auto simp: list.rel_refl intro: complete_fp_new_variable fp_is_mono)

lemma fresh_bools: "complete cs (map_m (\<lambda>b. bool_new_variable (Inr b) Witness_Mode) xs) (\<lambda>ys cs'. list_all2 (bool_is cs') ys xs)"
  by (rule complete_map_m_values[where P = "\<lambda>_. (=)"]) (auto simp: list.rel_refl intro: complete_bool_new_variable bool_is_mono)

lemma merkle_gadget_complete:
  assumes "path_root (native_h2 fr_field \<lparr>config = cfg\<rparr>) (zip sibs bits) lf = Inr rt"
  shows "complete cs (bind (poseidon_gadget_new cfg) (\<lambda>g. bind (fp_new_variable (Inr lf) Witness_Mode) (\<lambda>leaf_var.
      bind (map_m (\<lambda>s. fp_new_variable (Inr s) Witness_Mode) sibs) (\<lambda>sib_vars.
      bind (map_m (\<lambda>b. bool_new_variable (Inr b) Witness_Mode) bits) (\<lambda>bit_vars.
      merkle_root_from_leaf fr_field g leaf_var sib_vars bit_vars))))) (\<lambda>r cs'. fp_is cs' r rt)"
  unfolding poseidon_gadget_new_def
proof (rule complete_bind[OF complete_ret[where Q = "\<lambda>g _. g = \<lparr>params = cfg\<rparr>"]], simp,
    rule complete_bind[OF complete_fp_new_variable], rule complete_bind[OF fresh_fps], rule complete_bind[OF fresh_bools])
  fix g cs0 l cs1 ss cs2 bs cs3
  assume g: "g = \<lparr>params = cfg\<rparr>"
    and 1: "fp_is cs1 l lf" and 2: "cs_extends cs1 cs2" "list_all2 (fp_is cs2) ss sibs"
    and 3: "cs_extends cs2 cs3" "list_all2 (bool_is cs3) bs bits"
  have "fp_is cs3 l lf" by (rule fp_is_mono[OF cs_extends_trans[OF 2(1) 3(1)] 1])
  moreover have "list_all2 (path_is cs3) (zip ss bs) (zip sibs bits)"
    using fps_mono[OF 3(1) 2(2)] 3(2) by (auto simp: list_all2_conv_all_nth path_is_def)
  moreover have "native_h2 fr_field \<lparr>config = cfg\<rparr> = (\<lambda>l r. native_hn fr_field \<lparr>config = cfg\<rparr> [l, r])"
    by (simp add: fun_eq_iff native_arity)
  ultimately show "complete cs3 (merkle_root_from_leaf fr_field g l ss bs) (\<lambda>r cs'. fp_is cs' r rt)"
    unfolding merkle_root_from_leaf_def gadget_arity g
    by (intro ledger_hash.path_complete) (use assms in simp_all)
qed

lemma gadget_matches_native_root_passes:
  assumes "config_wf cfg"
  shows "gadget_matches_native_root oc cfg = Inr ()"
proof -
  let ?lf = "crh_spec cfg [from_u64 9, from_u64 1, from_u64 50, from_u64 3]"
  obtain t t' sibs bits rt where t: "merkle_new fr_field cfg 22 = Inr t" "set_leaf fr_field 999 ?lf t = Inr t'"
    "siblings t' 999 = Inr sibs" "index_bits oc t' 999 = Inr bits" "root t' = Inr rt"
    "path_root (native_h2 fr_field \<lparr>config = cfg\<rparr>) (zip sibs bits) ?lf = Inr rt"
    by (rule set_leaf_opens[OF assms, of 999 ?lf oc]) simp_all
  obtain r cs where "bind (poseidon_gadget_new cfg) (\<lambda>g. bind (fp_new_variable (Inr ?lf) Witness_Mode) (\<lambda>leaf_var.
      bind (map_m (\<lambda>s. fp_new_variable (Inr s) Witness_Mode) sibs) (\<lambda>sib_vars.
      bind (map_m (\<lambda>b. bool_new_variable (Inr b) Witness_Mode) bits) (\<lambda>bit_vars.
      merkle_root_from_leaf fr_field g leaf_var sib_vars bit_vars)))) cs_new = Inr (r, cs)"
      "test_value r = Inr rt" "test_satisfied cs = Inr ()"
    by (rule run_complete[OF merkle_gadget_complete[OF t(6)]])
  then show ?thesis
    by (simp add: gadget_matches_native_root_def poseidon_native_new_def native_arity native_hn_spec[OF assms] t expect_def)
qed

lemma h4_native_matches_gadget_passes:
  assumes "config_wf cfg"
  shows "h4_native_matches_gadget cfg = Inr ()"
proof -
  let ?vals = "map from_u64 [1, 2, 3, 4] :: fr list"
  have "complete cs_new (bind (poseidon_gadget_new cfg) (\<lambda>g. bind (map_m (\<lambda>v. fp_new_variable (Inr v) Witness_Mode) ?vals) (\<lambda>vars.
      gadget_h4 fr_field g (vars ! 0) (vars ! 1) (vars ! 2) (vars ! 3)))) (\<lambda>r cs'. fp_is cs' r (crh_spec cfg ?vals))"
    unfolding poseidon_gadget_new_def
  proof (rule complete_bind[OF complete_ret[where Q = "\<lambda>g _. g = \<lparr>params = cfg\<rparr>"]], simp, rule complete_bind[OF fresh_fps])
    fix g cs0 vars cs1
    assume "g = \<lparr>params = cfg\<rparr>" "list_all2 (fp_is cs1) vars ?vals"
    then show "complete cs1 (gadget_h4 fr_field g (vars ! 0) (vars ! 1) (vars ! 2) (vars ! 3)) (\<lambda>r cs'. fp_is cs' r (crh_spec cfg ?vals))"
      unfolding gadget_arity
      by (auto simp: list_all2_Cons2 intro!: ledger_hash.gadget_complete native_hn_spec[OF assms])
  qed
  then obtain r cs where "bind (poseidon_gadget_new cfg) (\<lambda>g. bind (map_m (\<lambda>v. fp_new_variable (Inr v) Witness_Mode) ?vals) (\<lambda>vars.
      gadget_h4 fr_field g (vars ! 0) (vars ! 1) (vars ! 2) (vars ! 3))) cs_new = Inr (r, cs)"
      "test_value r = Inr (crh_spec cfg ?vals)" "test_satisfied cs = Inr ()"
    by (rule run_complete)
  then show ?thesis
    by (simp add: h4_native_matches_gadget_def poseidon_native_new_def native_arity native_hn_spec[OF assms] expect_def)
qed

lemma synthesis_test_passes:
  assumes "length (ops inp) = B" "list_all (op_shape D) (ops inp)"
    and "step_check \<lparr>config = cfg\<rparr> (map field_op (ops inp)) (a, b, c) = Inr (a', b', c')"
  shows "synthesis_test cfg B D [a, b, c] inp [a', b', c'] = Inr ()"
proof -
  obtain x cs' where 1: "synthesize_step \<lparr>circuit_config = cfg\<rparr> B D (Inr [a, b, c]) (Inr inp) cs_new = Inr (x, cs')"
      "honest cs'" "(case x of (z, ext, z') \<Rightarrow> \<lambda>cs'. list_all2 (fp_is cs') z' [a', b', c']) cs'"
    by (rule completeE[OF step_completes[OF assms] honest_new])
  obtain z ext z' where x: "x = (z, ext, z')" by (cases x)
  have "result_map test_value z' = Inr [a', b', c']"
    using 1(3) by (auto simp: x list_all2_Cons2 test_value_is)
  then show ?thesis
    using 1(1) test_satisfied_honest[OF 1(2)] by (simp add: synthesis_test_def x expect_def ledger_circuit_new_def)
qed

lemma inactive_batch_is_noop_passes: "config_wf cfg \<Longrightarrow> inactive_batch_is_noop cfg = Inr ()"
  by (simp add: inactive_batch_is_noop_def synthesis_test_passes[OF default_batch_shape default_batch_check])

text \<open>The accounts and operations of the test of lib.rs, as the abstract book sees them.\<close>

definition batch_accounts :: "fr registration list" where
  "batch_accounts = [(from_u64 SINK_TAG, 1, 0, 0), (1000, 1, 1000000, 0), (2001, 1, 0, 0), (2002, 1, 0, 0), (3001, 1, 0, 0)]"

definition batch_requests :: "fr request list" where
  "batch_requests = [(Load, 1000, 2001, 1, 500), (Load, 1000, 2002, 1, 300), (Spend, 2001, 3001, 1, 200),
     (Withdraw, 3001, from_u64 SINK_TAG, 1, 200)]"

lemma batch_book: "\<exists>B'. book_run batch_requests (fold book_register batch_accounts Map.empty) = Some B'"
proof -
  have k: "(1000::fr) \<noteq> 2001" "(1000::fr) \<noteq> 2002" "(1000::fr) \<noteq> 3001" "(2001::fr) \<noteq> 2002" "(2001::fr) \<noteq> 3001" "(2002::fr) \<noteq> 3001"
    "from_u64 SINK_TAG \<noteq> (1000::fr)" "from_u64 SINK_TAG \<noteq> (2001::fr)" "from_u64 SINK_TAG \<noteq> (2002::fr)" "from_u64 SINK_TAG \<noteq> (3001::fr)"
    by (simp_all add: fr_numeral_eq_iff fr_modulus_def from_u64_def SINK_TAG_def)
  show ?thesis
    using k k[symmetric]
    by (simp add: batch_accounts_def batch_requests_def book_register_def book_apply_def book_debit_def book_credit_def VALUE_BITS_def)
qed

lemma single_batch_native_matches_circuit_passes:
  assumes "config_wf cfg"
  shows "single_batch_native_matches_circuit oc cfg = Inr ()"
proof (rule genesis_simulates[OF assms, of 10 batch_accounts oc])
  fix e0 e L
  assume e0: "executor_new fr_field cfg 10 = Inr e0" "register_all oc fr_field 10 batch_accounts e0 = Inr e"
  assume e: "exec_ok 10 e L" "exec_book e L = fold book_register batch_accounts Map.empty" "hasher e = \<lparr>config = cfg\<rparr>"
    "ops_acc e = 0" "nets_acc e = 0" "sink_key e = from_u64 SINK_TAG"
  obtain B' where "book_run batch_requests (exec_book e L) = Some B'" using batch_book e(2) by auto
  then obtain ws e' L' where r: "exec_run oc fr_field 10 batch_requests e = Inr (ws, e')" "exec_ok 10 e' L'"
      "chain_ok (hasher e) 10 ws e e'" "length ws = length batch_requests"
    using run_simulates[OF e(1)] by blast
  have sk: "sink_key e0 = from_u64 SINK_TAG" using e0(1) by (auto simp: executor_new_def result_bind_Inr_iff)
  have num: "from_u64 1 = (1::fr)" "from_u64 1000 = (1000::fr)" "from_u64 2001 = (2001::fr)" "from_u64 2002 = (2002::fr)"
    "from_u64 3001 = (3001::fr)"
    by (simp_all add: from_u64_def)
  let ?z = "[node_val (tree e) 10 0, 0, 0]" and ?z' = "[node_val (tree e') 10 0, ops_acc e', nets_acc e']"
  have t: "synthesis_test cfg 4 10 ?z \<lparr>ops = ws\<rparr> ?z' = Inr ()"
    by (rule synthesis_test_passes) (use r(3,4) e(3-5) in \<open>simp_all add: chain_ok_def step_check_def batch_requests_def\<close>)
  have len: "length ws = 4" using r(4) by (simp add: batch_requests_def)
  have z: "initial_state e = Inr ?z" "state e' = Inr ?z'"
    using exec_state[OF e(1)] exec_state[OF r(2)] e(4,5) by (auto simp: initial_state_def state_def result_bind_Inr_iff)
  obtain e1 e2 e3 e4 where reg: "register oc fr_field 10 (from_u64 SINK_TAG) 1 0 0 e0 = Inr e1" "register oc fr_field 10 1000 1 1000000 0 e1 = Inr e2"
      "register oc fr_field 10 2001 1 0 0 e2 = Inr e3" "register oc fr_field 10 2002 1 0 0 e3 = Inr e4" "register oc fr_field 10 3001 1 0 0 e4 = Inr e"
    using e0(2) by (auto simp: batch_accounts_def result_bind_Inr_iff)
  obtain w1 w2 w3 w4 f1 f2 f3 where ops: "exec_apply oc fr_field 10 Load 1000 2001 1 500 e = Inr (w1, f1)"
      "exec_apply oc fr_field 10 Load 1000 2002 1 300 f1 = Inr (w2, f2)" "exec_apply oc fr_field 10 Spend 2001 3001 1 200 f2 = Inr (w3, f3)"
      "exec_apply oc fr_field 10 Withdraw 3001 (from_u64 SINK_TAG) 1 200 f3 = Inr (w4, e')" "ws = [w1, w2, w3, w4]"
    using r(1) by (auto simp: batch_requests_def result_bind_Inr_iff)
  have "sink_key f3 = from_u64 SINK_TAG"
    by (rule exec_apply_maps[OF ops(1)], rule exec_apply_maps[OF ops(2)], rule exec_apply_maps[OF ops(3)]) (simp add: e(6))
  then show "single_batch_native_matches_circuit oc cfg = Inr ()"
    using t by (simp add: single_batch_native_matches_circuit_def Let_def num e0(1) sk reg z load_def spend_def withdraw_def ops to_array_def)
qed (simp_all add: batch_accounts_def)

section \<open>Property\<close>

text \<open>
  C39. The unit tests of the circuit crate pass, with and without overflow checks, for every Poseidon
  configuration of the right shape: paths of a native tree open its root, the gadgets compute the native hash and root,
  a batch of loads, a spend and a withdrawal satisfies the circuit with the executor's state, and a batch of
  padding leaves any state of the test as it is.
\<close>

theorem crate_tests_pass:
  assumes "config_wf cfg"
  shows "native_path_roundtrips oc cfg = Inr () \<and> gadget_matches_native_root oc cfg = Inr ()
    \<and> h4_native_matches_gadget cfg = Inr () \<and> single_batch_native_matches_circuit oc cfg = Inr ()
    \<and> inactive_batch_is_noop cfg = Inr ()"
  using native_path_roundtrips_passes[OF assms] gadget_matches_native_root_passes[OF assms] h4_native_matches_gadget_passes[OF assms]
    single_batch_native_matches_circuit_passes[OF assms] inactive_batch_is_noop_passes[OF assms] by blast

theorem crate_tests_pass_witness:
  "single_batch_native_matches_circuit True toy_config = Inr () \<and> gadget_matches_native_root False toy_config = Inr ()"
  using crate_tests_pass[OF toy_config_wf(1)] by blast

end
