(* ===== verification/Spec2Isabelle.thy ===== *)
theory Spec2Isabelle
  imports Checkpoint_Chain Gen_Poseidon Crate_Tests
begin

text \<open>
  A verification of the proven-checkpoint ledger: an organisation keeps the balances of its
  accounts off chain, folds the operations of an epoch with an IVC scheme into one proof, and a contract
  settles the payouts of the epoch against two accumulators of the proof.  What is verified is the
  repository's own Rust code, the settlement contract, and the part of the vendored arkworks code the circuit runs on.

  \<^bold>\<open>The program.\<close>  The step circuit (crates/ledger-circuit/src/lib.rs) processes a batch of operations
  on a state of three field elements: the root of a Merkle tree of accounts, the accumulator of all
  operations and the accumulator of the withdrawals.  The executor (native.rs) runs the same operations natively and emits the
  witnesses of the circuit.  The prover (crates/prover) builds a workload with the executor, cuts it into batches, folds them,
  proves and verifies the result, compares it with the executor's state and writes the artifacts of the contract; it also
  generates the Poseidon library of the contract.  The contract (contracts/src/ProvenCheckpoint.sol) recomputes the accumulator
  of the payouts, has the proof verified from the last proven root, credits the payees, and lets the owner of an account
  exit with an opening of the last proven root.

  \<^bold>\<open>The theories,\<close> from the bottom up.
  \<^item> Prelude: errors as values (\<open>fault\<close>: a returned error, a panic, divergence), computations that thread a state, the
    loops and checked indexing all components share.
  \<^item> Big_Integer, Prime_Field, Bn254_Prime, Bn254_Fr, Field_Bytes: the scalar field of BN254 as the
    integers modulo its modulus (proved prime by a Pratt certificate), its limbs, bits and bytes.  The locale
    \<open>prime_field_impl\<close> states what the gadgets need of a field and is interpreted for \<open>fr\<close>.
  \<^item> Linear_Combination, Constraint_System, Circuit_Semantics: vendor/snark's linear combinations and constraint
    system; \<open>sound\<close> (every satisfying assignment, that is, any prover) and \<open>complete\<close> (the honest prover) for gadget computations.
  \<^item> Boolean_Gadget, Fp_Gadget, Bits_Gadget, Fr_Gadgets: vendor/r1cs-std's gadgets, one
    soundness and one completeness lemma for each operation.
  \<^item> Poseidon_Sponge, Poseidon_Gadget, Poseidon_Hash: vendor/crypto-primitives' sponge and hash, native and in
    the circuit, refined to a sponge specification, and poseidon.rs.
  \<^item> Hash_Interface, Merkle_Tree: imt.rs over an interface of a two-to-one hash (locale \<open>crh\<close>,
    interpreted with Poseidon).
  \<^item> Ledger_Ops, Ledger_Circuit: ops.rs and lib.rs, and \<open>step_check\<close>, the native check of a batch that the circuit is
    sound and complete for.
  \<^item> Ledger_Semantics: the abstract ledger, transfers between slots, and the refinement of the check to it.
  \<^item> Executor, Epoch_Run, Settlement: native.rs, the book of balances it implements, and the accumulators.
  \<^item> Epoch_Safety: what the executor conserves, and satisfied step circuits joined to runs with their operations
    (\<open>circuit_trace\<close>), in which no nonce of an account is used twice.
  \<^item> Poseidon_Codegen, Prover_Encoding: poseidon_codegen.rs as a generator of programs on 256-bit words; keys, hexadecimal
    forms and the fixture.
  \<^item> Epoch_Batches, Workload, Workload_Run: \<open>chunk_into_batches\<close> and workload.rs.
  \<^item> Prove_Epoch, Epoch_Proof: \<open>prove_epoch\<close>, the binary and the benchmark, and the theorems that
    join the components.
  \<^item> Checkpoint, Checkpoint_Safety, Checkpoint_Artifacts, Checkpoint_Chain: ProvenCheckpoint.sol as a record of its storage and
    one function for each external function, transactions and what they lead to; its guarantees; that what the prover writes
    settles and exits on it; and what holds over the life of a contract.
  \<^item> Solidity_Fragment, Poseidon_Library, Gen_Poseidon: a lexer, a parser and an evaluator for the part of Solidity the
    generated library is written in; the library as a program of it, run statement by statement; the text of the library, which
    parses to that program, and the binary that writes it.
  \<^item> Crate_Tests: the unit tests of crates/ledger-circuit, which pass for all parameters of the right shape.

  \<^bold>\<open>What the theorems show.\<close>  Soundness (C1): satisfied constraints mean an accepted batch; C2 refines an accepted batch to valid
  transfers of the ledger; C3 carries it to what a verified proof means, with every supply kept and the payouts, C4 to what a
  successful settlement on the contract means, and C5 to all settlements after the verifier is frozen.  Completeness (C6, C7,
  C8, C14, C16, C17, C18): the executor implements its book, its witnesses satisfy the circuit, workloads build and are proved,
  and their artifacts settle and exit.  Security of payouts and exits: C9, which joins the contract's fold of the payouts to the
  circuit's, C10, C11, and C15 for the artifacts.  The others are invariants (the storage of the contract and its unproven
  settlements C12, C13, registration, the balances of the executor C20, nonces in satisfied circuits C21, recorded nets), bounds
  (range proofs C27, solvency C28), error behaviour, what the code does not guarantee (C31, C32, C33), and the equivalence of each
  optimised or generated routine with its reference, down to the text of the generated library (C22, C23).

  \<^bold>\<open>No assumption on the hash.\<close>  Where a security statement needs collision resistance, it is stated with an
  executable function that computes a collision (or a preimage of zero) from the data at hand: the result is the secure
  outcome or a break that has been computed.

  \<^bold>\<open>Parameters.\<close>  The Poseidon parameters \<open>cfg\<close> (sonobe's canonical ones) are an argument everywhere; soundness and completeness
  hold for all of them, totality and the generated library for those of the shape \<open>config_wf\<close>.  Keccak-256,
  \<^verbatim>\<open>ecrecover\<close>, the hexadecimal encoder and the JSON printer are arguments.  The folding scheme, the decider, the calldata encoder, the EVM and the
  host are records of functions; \<open>folding_complete\<close>, \<open>decider_complete\<close>, \<open>evm_agrees\<close>, \<open>ivc_sound\<close> and, for
  the contract's verifier, \<open>verifier_sound\<close> name what is used of
  them, and each is shown to hold for a concrete instance (running the circuit at every step, or
  replaying the batches).  \<open>ivc_sound\<close> and \<open>verifier_sound\<close> are knowledge soundness in its ideal
  form: a computational scheme has it up to a negligible error.

  \<^bold>\<open>Bounds.\<close>  Balances, nonces, slots and token numbers are words of the width of the source (128, 64, 64 and 32 bits), with
  wrap-around or a panic according to the overflow-check mode (\<open>oc\<close>).  \<^verbatim>\<open>usize\<close> counters are naturals, assumed below
  \<open>2 ^ 64\<close> where it matters.  The circuit's batch size and depth are arbitrary in its theorems and 16 and 22 in the prover.  Loops
  are structural or have a termination proof; the searches of the constraint system that the source bounds are
  bounded in the same way.  Fuel is used only for the generated library: its parser counts down from the number of tokens and
  from 8 inside an expression, its evaluator counts nested calls, of which the library has at most four; that this is enough is
  proved, since the parse and the calls return.

  \<^bold>\<open>Not modelled.\<close>  The sonobe crates are not in the repository.  The evaluator of the generated
  library stands for the Solidity compiler: it treats an array as a value, which the library cannot tell from a reference, takes the
  bound of a loop once, and makes none of the compiler's static checks.  Of the contract, events and gas are left out, a
  transaction that reverts leaves the storage as it was, and the verifier it calls is a function of its arguments.  The
  Montgomery form of field elements, the interning of coefficients and the flat layout of constraint matrices are represented by
  the values they stand for.  Curves, pairings, polynomials, Groth16 and serialization of the vendored
  crates are not reached by the ledger.  Progress messages and argument parsing are left out.
\<close>

end
